(* ===== verification/IPFS_Prelude.thy ===== *)
theory IPFS_Prelude
  imports Main "HOL-Library.AList" "HOL-Library.Multiset" "HOL-Library.Word"
begin

text \<open>
  What the components of the development share: the types that stand for Go's byte slices,
  machine integers, errors and results, Go maps as association lists with their lookup
  and update laws, the pieces of the Go package \<open>strings\<close> the sources call, and list
  facts.  The collection \<open>gm_simps\<close> holds the map laws and \<open>str_simps\<close> those of the
  string functions.
\<close>

named_theorems gm_simps \<open>lookup laws of Go maps\<close>
named_theorems str_simps \<open>laws of the string functions\<close>

section \<open>Types\<close>

text \<open>A byte slice or a Go string: one \<^typ>\<open>char\<close> is one byte.\<close>

type_synonym bytes = string
type_synonym u64 = "64 word"

text \<open>
  Go error values.  \<open>Wrapped m e\<close> is \<open>fmt.Errorf("m: %w", e)\<close>; the first constructors are the
  sentinel values the sources compare with.
\<close>

datatype gerr =
    Canceled            \<comment> \<open>\<open>context.Canceled\<close>\<close>
  | DeadlineExceeded    \<comment> \<open>\<open>context.DeadlineExceeded\<close>\<close>
  | EOF                 \<comment> \<open>\<open>io.EOF\<close>\<close>
  | RecordNotFound      \<comment> \<open>\<open>gorm.ErrRecordNotFound\<close>\<close>
  | IpldNotFound        \<comment> \<open>\<open>format.ErrNotFound\<close>\<close>
  | DsNotFound          \<comment> \<open>\<open>datastore.ErrNotFound\<close>\<close>
  | Opaque string       \<comment> \<open>any other error\<close>
  | Wrapped string gerr

text \<open>\<open>errors.Is\<close>: an error is the target, or wraps one that is.\<close>

fun errors_is :: "gerr \<Rightarrow> gerr \<Rightarrow> bool" where
  "errors_is (Wrapped m e) t = (Wrapped m e = t \<or> errors_is e t)"
| "errors_is e t = (e = t)"

lemma errors_is_refl [simp]: "errors_is e e"
  by (cases e) auto

lemma errors_is_Wrapped [simp]: "errors_is e t \<Longrightarrow> errors_is (Wrapped m e) t"
  by simp

section \<open>Go maps\<close>

text \<open>
  A Go map is an association list with distinct keys.  Ranging over a map visits the list in
  order; Go leaves the order open, so the theorems about a loop over a map speak of the set of
  its entries and not of their order.
\<close>

type_synonym ('k, 'v) gomap = "('k \<times> 'v) list"

abbreviation gm_get :: "('k, 'v) gomap \<Rightarrow> 'k \<Rightarrow> 'v option" where
  "gm_get \<equiv> map_of"

abbreviation gm_set :: "'k \<Rightarrow> 'v \<Rightarrow> ('k, 'v) gomap \<Rightarrow> ('k, 'v) gomap" where
  "gm_set \<equiv> AList.update"

abbreviation gm_del :: "'k \<Rightarrow> ('k, 'v) gomap \<Rightarrow> ('k, 'v) gomap" where
  "gm_del \<equiv> AList.delete"

abbreviation gm_keys :: "('k, 'v) gomap \<Rightarrow> 'k list" where
  "gm_keys m \<equiv> map fst m"

abbreviation gm_wf :: "('k, 'v) gomap \<Rightarrow> bool" where
  "gm_wf m \<equiv> distinct (map fst m)"

lemma gm_get_set [gm_simps]: "gm_get (gm_set k v m) k' = (if k' = k then Some v else gm_get m k')"
  by (simp add: update_conv')

lemma gm_get_del [gm_simps]: "gm_get (gm_del k m) k' = (if k' = k then None else gm_get m k')"
  by (simp add: delete_conv')

lemma gm_keys_set [gm_simps]: "set (gm_keys (gm_set k v m)) = insert k (set (gm_keys m))"
  using dom_map_of_conv_image_fst [of "gm_set k v m"] dom_map_of_conv_image_fst [of m]
  by (simp add: update_conv')

lemma gm_keys_del [gm_simps]: "set (gm_keys (gm_del k m)) = set (gm_keys m) - {k}"
  by (simp add: delete_keys)

lemma gm_wf_set [simp, intro]: "gm_wf m \<Longrightarrow> gm_wf (gm_set k v m)"
  by (rule distinct_update)

lemma gm_wf_del [simp, intro]: "gm_wf m \<Longrightarrow> gm_wf (gm_del k m)"
  by (rule distinct_delete)

declare map_of_eq_Some_iff [simp del] Some_eq_map_of_iff [simp del]

lemma gm_mem_iff: "gm_wf m \<Longrightarrow> (k, v) \<in> set m \<longleftrightarrow> gm_get m k = Some v"
  by (simp add: map_of_eq_Some_iff)

lemma gm_get_None_iff: "gm_get m k = None \<longleftrightarrow> k \<notin> set (gm_keys m)"
  by (simp add: map_of_eq_None_iff)

lemma gm_key_get: "k \<in> set (gm_keys m) \<longleftrightarrow> (\<exists>v. gm_get m k = Some v)"
  using gm_get_None_iff [of m k] by (cases "gm_get m k") auto

section \<open>Lists\<close>

lemma filter_distinct_fst: "gm_wf m \<Longrightarrow> gm_wf (filter P m)"
  by (induction m) auto

lemma in_remove1D: "x \<in> set (remove1 y xs) \<Longrightarrow> x \<in> set xs"
  by (meson notin_set_remove1)

lemma distinct_sub_mset:
  assumes "mset xs \<subseteq># mset ys" and "distinct ys"
  shows "distinct xs"
proof -
  obtain M where "mset ys = mset xs + M" using assms(1) by (metis mset_subset_eq_exists_conv)
  moreover obtain zs where "M = mset zs" by (metis ex_mset)
  ultimately have "mset ys = mset (xs @ zs)" by simp
  then have "distinct (xs @ zs)" using assms(2) mset_eq_imp_distinct_iff by blast
  then show ?thesis by simp
qed

lemma filter_map_same:
  assumes "\<And>x. x \<in> set xs \<Longrightarrow> f x = x \<or> \<not> Q x \<and> \<not> Q (f x)"
  shows "filter Q (map f xs) = filter Q xs"
  using assms
proof (induction xs)
  case (Cons x xs)
  then have "filter Q (map f xs) = filter Q xs" and "f x = x \<or> \<not> Q x \<and> \<not> Q (f x)" by simp_all
  then show ?case by auto
qed simp

text \<open>\<open>lo.Uniq\<close>: the list without repetitions, each element at its first place.\<close>

fun uniq_onto :: "'a list \<Rightarrow> 'a list \<Rightarrow> 'a list" where
  "uniq_onto seen [] = []"
| "uniq_onto seen (x # xs) =
     (if x \<in> set seen then uniq_onto seen xs else x # uniq_onto (x # seen) xs)"

definition lo_uniq :: "'a list \<Rightarrow> 'a list" where
  "lo_uniq xs = uniq_onto [] xs"

lemma set_uniq_onto: "set (uniq_onto seen xs) = set xs - set seen"
  by (induction seen xs rule: uniq_onto.induct) auto

lemma distinct_uniq_onto: "distinct (uniq_onto seen xs)"
  by (induction seen xs rule: uniq_onto.induct) (auto simp: set_uniq_onto)

lemma set_lo_uniq [simp]: "set (lo_uniq xs) = set xs"
  by (simp add: lo_uniq_def set_uniq_onto)

lemma distinct_lo_uniq [simp]: "distinct (lo_uniq xs)"
  by (simp add: lo_uniq_def distinct_uniq_onto)

lemma uniq_onto_id: "distinct xs \<Longrightarrow> set xs \<inter> set seen = {} \<Longrightarrow> uniq_onto seen xs = xs"
  by (induction xs arbitrary: seen) auto

lemma lo_uniq_idem [simp]: "lo_uniq (lo_uniq xs) = lo_uniq xs"
  by (metis distinct_lo_uniq inf_bot_right list.set(1) lo_uniq_def uniq_onto_id)

end
