(* ===== verification/Heap_Order.thy ===== *)
theory Heap_Order
  imports IPFS_Prelude
begin

text \<open>
  Go's \<open>container/heap\<close> on a list, for any comparison: \<open>up\<close> and \<open>down\<close> with the same tests and swaps as
  the library's, and, inside the locale \<open>heap_order\<close> of strict weak orders, the lemmas that they
  restore the heap property and that the root is a minimum.  The downloader interprets the
  locale on its own comparison.
\<close>

abbreviation parent :: "nat \<Rightarrow> nat" where "parent j \<equiv> (j - 1) div 2"

abbreviation swap_at :: "nat \<Rightarrow> nat \<Rightarrow> 'a list \<Rightarrow> 'a list" where
  "swap_at i j q \<equiv> q[i := q ! j, j := q ! i]"

lemma parent_less: "0 < j \<Longrightarrow> parent j < j" by simp

lemma parent_iff: "0 < k \<Longrightarrow> parent k = i \<longleftrightarrow> k = 2 * i + 1 \<or> k = 2 * i + 2" by auto

function sift_up :: "('a \<Rightarrow> 'a \<Rightarrow> bool) \<Rightarrow> 'a list \<Rightarrow> nat \<Rightarrow> 'a list" where
  "sift_up lt q j =
     (if parent j = j \<or> \<not> lt (q ! j) (q ! parent j) then q
      else sift_up lt (swap_at (parent j) j q) (parent j))"
  by auto
termination by (relation "measure (\<lambda>(_, _, j). j)") auto

declare sift_up.simps [simp del]

text \<open>The child \<open>down\<close> compares with: the right one when there is one and it is less.\<close>

definition small_child :: "('a \<Rightarrow> 'a \<Rightarrow> bool) \<Rightarrow> 'a list \<Rightarrow> nat \<Rightarrow> nat \<Rightarrow> nat" where
  "small_child lt q i n =
     (if 2 * i + 2 < n \<and> lt (q ! (2 * i + 2)) (q ! (2 * i + 1)) then 2 * i + 2 else 2 * i + 1)"

lemma small_child_bounds: "i < small_child lt q i n" "small_child lt q i n \<le> 2 * i + 2"
  "2 * i + 1 < n \<Longrightarrow> small_child lt q i n < n" "parent (small_child lt q i n) = i"
  by (auto simp: small_child_def)

function sift_down :: "('a \<Rightarrow> 'a \<Rightarrow> bool) \<Rightarrow> 'a list \<Rightarrow> nat \<Rightarrow> nat \<Rightarrow> 'a list" where
  "sift_down lt q i n =
     (if n \<le> 2 * i + 1 \<or> \<not> lt (q ! small_child lt q i n) (q ! i) then q
      else sift_down lt (swap_at i (small_child lt q i n) q) (small_child lt q i n) n)"
  by auto
termination
proof (relation "measure (\<lambda>(_, _, i, n). n - i)", goal_cases)
  case (2 lt q i n)
  then show ?case using small_child_bounds(1) [of i lt q n] by (simp add: diff_less_mono2)
qed simp

declare sift_down.simps [simp del]

lemma mset_swap_at: "i < length q \<Longrightarrow> j < length q \<Longrightarrow> mset (swap_at i j q) = mset q"
  by (simp add: mset_swap)

lemma sift_up_perm: "j < length q \<Longrightarrow> mset (sift_up lt q j) = mset q"
proof (induction lt q j rule: sift_up.induct)
  case (1 lt q j)
  show ?case
  proof (cases "parent j = j \<or> \<not> lt (q ! j) (q ! parent j)")
    case True then show ?thesis by (simp add: sift_up.simps [of lt q j])
  next
    case False
    have "parent j < length (swap_at (parent j) j q)" using "1.prems" by simp
    with False 1 mset_swap_at [of "parent j" q j] show ?thesis
      by (simp add: sift_up.simps [of lt q j])
  qed
qed

lemma sift_down_perm: "n \<le> length q \<Longrightarrow> mset (sift_down lt q i n) = mset q"
proof (induction lt q i n rule: sift_down.induct)
  case (1 lt q i n)
  let ?c = "small_child lt q i n"
  show ?case
  proof (cases "n \<le> 2 * i + 1 \<or> \<not> lt (q ! ?c) (q ! i)")
    case True then show ?thesis by (simp add: sift_down.simps [of lt q i n])
  next
    case False
    then have "?c < length q" "i < length q"
      using "1.prems" small_child_bounds(3) [of i n lt q] by linarith+
    with False 1 mset_swap_at [of i q ?c] show ?thesis
      by (simp add: sift_down.simps [of lt q i n])
  qed
qed

lemma sift_down_above: "n \<le> k \<Longrightarrow> sift_down lt q i n ! k = q ! k"
proof (induction lt q i n rule: sift_down.induct)
  case (1 lt q i n)
  let ?c = "small_child lt q i n"
  show ?case
  proof (cases "n \<le> 2 * i + 1 \<or> \<not> lt (q ! ?c) (q ! i)")
    case True then show ?thesis by (simp add: sift_down.simps [of lt q i n])
  next
    case False
    then have "?c < k" "i < k" using "1.prems" small_child_bounds(3) [of i n lt q] by linarith+
    with False 1 show ?thesis by (simp add: sift_down.simps [of lt q i n])
  qed
qed

section \<open>Strict weak orders\<close>

locale heap_order =
  fixes lt :: "'a \<Rightarrow> 'a \<Rightarrow> bool"
  assumes less_irrefl: "\<not> lt x x"
    and less_trans: "lt x y \<Longrightarrow> lt y z \<Longrightarrow> lt x z"
    and not_less_trans: "\<not> lt x y \<Longrightarrow> \<not> lt y z \<Longrightarrow> \<not> lt x z"
begin

lemma less_asym: "lt x y \<Longrightarrow> \<not> lt y x"
  using less_irrefl less_trans by blast

definition heap_ok :: "nat \<Rightarrow> 'a list \<Rightarrow> bool" where
  "heap_ok n q \<longleftrightarrow> (\<forall>k. 0 < k \<and> k < n \<longrightarrow> \<not> lt (q ! k) (q ! parent k))"

text \<open>The heap property but at \<open>j\<close> against its parent, or but at the children of \<open>i\<close>.\<close>

definition up_ok :: "nat \<Rightarrow> nat \<Rightarrow> 'a list \<Rightarrow> bool" where
  "up_ok n j q \<longleftrightarrow>
     (\<forall>k. 0 < k \<and> k < n \<and> k \<noteq> j \<longrightarrow> \<not> lt (q ! k) (q ! parent k)) \<and>
     (\<forall>k. 0 < k \<and> k < n \<and> parent k = j \<and> 0 < j \<longrightarrow> \<not> lt (q ! k) (q ! parent j))"

definition down_ok :: "nat \<Rightarrow> nat \<Rightarrow> 'a list \<Rightarrow> bool" where
  "down_ok n i q \<longleftrightarrow>
     (\<forall>k. 0 < k \<and> k < n \<and> parent k \<noteq> i \<longrightarrow> \<not> lt (q ! k) (q ! parent k)) \<and>
     (\<forall>k. 0 < k \<and> k < n \<and> parent k = i \<and> 0 < i \<longrightarrow> \<not> lt (q ! k) (q ! parent i))"

lemma up_ok_swap:
  assumes "up_ok n j q" and "j < n" and "n \<le> length q" and "0 < j" and l: "lt (q ! j) (q ! parent j)"
  shows "up_ok n (parent j) (swap_at (parent j) j q)"
proof -
  let ?i = "parent j" and ?q = "swap_at (parent j) j q"
  have ij: "?i < j" using assms(4) by (rule parent_less)
  have at: "?q ! k = (if k = j then q ! ?i else if k = ?i then q ! j else q ! k)" for k
    using assms(2,3) ij by (cases "k < length q") (auto simp: nth_list_update)
  have up: "0 < k \<Longrightarrow> k < n \<Longrightarrow> k \<noteq> j \<Longrightarrow> \<not> lt (q ! k) (q ! parent k)" for k
    using assms(1) by (simp add: up_ok_def)
  have ch: "0 < k \<Longrightarrow> k < n \<Longrightarrow> parent k = j \<Longrightarrow> \<not> lt (q ! k) (q ! ?i)" for k
    using assms(1,4) by (simp add: up_ok_def)
  have "\<not> lt (?q ! k) (?q ! parent k)" if k: "0 < k" "k < n" "k \<noteq> ?i" for k
  proof -
    consider "k = j" | "k \<noteq> j" "parent k = j" | "k \<noteq> j" "parent k = ?i"
      | "k \<noteq> j" "parent k \<noteq> j" "parent k \<noteq> ?i" by blast
    then show ?thesis
    proof cases
      case 1
      have "?q ! k = q ! ?i" "?q ! parent k = q ! j" using ij 1 by (simp_all only: at, auto)
      then show ?thesis using less_asym [OF l] by metis
    next
      case 2
      have "?q ! k = q ! k" "?q ! parent k = q ! ?i" using k(3) 2 by (simp_all only: at, auto)
      then show ?thesis using ch [OF k(1,2) 2(2)] by metis
    next
      case 3
      have "?q ! k = q ! k" "?q ! parent k = q ! j" using k(3) 3 ij by (simp_all only: at, auto)
      then show ?thesis using up [OF k(1,2) 3(1)] less_trans [OF _ l] 3(2) by metis
    next
      case 4
      have "?q ! k = q ! k" "?q ! parent k = q ! parent k" using k(3) 4 by (simp_all only: at, auto)
      then show ?thesis using up [OF k(1,2) 4(1)] by metis
    qed
  qed
  moreover have "\<not> lt (?q ! k) (?q ! parent ?i)" if k: "0 < k" "k < n" "parent k = ?i" "0 < ?i" for k
  proof -
    have ii: "\<not> lt (q ! ?i) (q ! parent ?i)" using up [of ?i] k(4) ij assms(2) by simp
    have p: "?q ! parent ?i = q ! parent ?i"
      using ij parent_less [OF k(4)] by (simp only: at, auto)
    show ?thesis
    proof (cases "k = j")
      case True
      then have "?q ! k = q ! ?i" by (simp only: at, auto)
      then show ?thesis using ii p by metis
    next
      case False
      then have "?q ! k = q ! k" using k(1,3) parent_less [OF k(1)] by (simp only: at, auto)
      then show ?thesis using not_less_trans [OF _ ii] up [OF k(1,2) False] k(3) p by metis
    qed
  qed
  ultimately show ?thesis unfolding up_ok_def by blast
qed

lemma sift_up_heap:
  "up_ok n j q \<Longrightarrow> j < n \<Longrightarrow> n \<le> length q \<Longrightarrow> heap_ok n (sift_up lt q j)"
proof (induction j arbitrary: q rule: less_induct)
  case (less j)
  show ?case
  proof (cases "parent j = j \<or> \<not> lt (q ! j) (q ! parent j)")
    case True
    have "\<not> lt (q ! k) (q ! parent k)" if "0 < k" "k < n" for k
      using that less.prems(1) True by (cases "k = j") (auto simp: up_ok_def)
    with True show ?thesis by (auto simp: sift_up.simps [of lt q j] heap_ok_def)
  next
    case False
    then have j: "0 < j" by (cases j) auto
    have l: "lt (q ! j) (q ! parent j)" using False by blast
    have "heap_ok n (sift_up lt (swap_at (parent j) j q) (parent j))"
      using less.prems up_ok_swap [OF less.prems j l] j
      by (intro less.IH) auto
    with False show ?thesis by (simp add: sift_up.simps [of lt q j])
  qed
qed

lemma down_ok_swap:
  assumes "down_ok n i q" and "n \<le> length q" and in_n: "2 * i + 1 < n"
    and l: "lt (q ! small_child lt q i n) (q ! i)"
  shows "down_ok n (small_child lt q i n) (swap_at i (small_child lt q i n) q)"
proof -
  define j where "j = small_child lt q i n"
  let ?q = "swap_at i j q"
  have j: "i < j" "j < n" "parent j = i"
    using small_child_bounds [where i = i and q = q and n = n] in_n by (simp_all add: j_def)
  have l: "lt (q ! j) (q ! i)" using l by (simp add: j_def)
  have at: "?q ! k = (if k = j then q ! i else if k = i then q ! j else q ! k)" for k
    using assms(2) j by (cases "k < length q") (auto simp: nth_list_update)
  have dn: "0 < k \<Longrightarrow> k < n \<Longrightarrow> parent k \<noteq> i \<Longrightarrow> \<not> lt (q ! k) (q ! parent k)" for k
    using assms(1) by (simp add: down_ok_def)
  have ch: "0 < k \<Longrightarrow> k < n \<Longrightarrow> parent k = i \<Longrightarrow> 0 < i \<Longrightarrow> \<not> lt (q ! k) (q ! parent i)" for k
    using assms(1) by (simp add: down_ok_def)
  have sib: "\<not> lt (q ! k) (q ! j)" if "0 < k" "k < n" "parent k = i" for k
    using that parent_iff [of k i] less_irrefl less_asym
    by (auto simp: j_def small_child_def split: if_splits)
  have "\<not> lt (?q ! k) (?q ! parent k)" if k: "0 < k" "k < n" "parent k \<noteq> j" for k
  proof -
    consider "k = i" | "k = j" | "k \<noteq> i" "k \<noteq> j" "parent k = i" | "k \<noteq> i" "k \<noteq> j" "parent k \<noteq> i"
      by blast
    then show ?thesis
    proof cases
      case 1
      have "?q ! k = q ! j" "?q ! parent k = q ! parent i"
        using 1 j(1) k parent_less [OF k(1)] by (simp_all only: at, auto)
      then show ?thesis using ch [of j] j k(1) 1 by (metis gr_implies_not0 neq0_conv)
    next
      case 2
      have "?q ! k = q ! i" "?q ! parent k = q ! j" using 2 j by (simp_all only: at, auto)
      then show ?thesis using less_asym [OF l] by metis
    next
      case 3
      have "?q ! k = q ! k" "?q ! parent k = q ! j" using 3 j by (simp_all only: at, auto)
      then show ?thesis using sib [OF k(1,2) 3(3)] by metis
    next
      case 4
      have "?q ! k = q ! k" "?q ! parent k = q ! parent k" using 4 k(3) by (simp_all only: at, auto)
      then show ?thesis using dn [OF k(1,2) 4(3)] by metis
    qed
  qed
  moreover have "\<not> lt (?q ! k) (?q ! parent j)" if k: "0 < k" "k < n" "parent k = j" for k
  proof -
    have "j < k" using parent_less [OF k(1)] k(3) by simp
    then have "?q ! k = q ! k" "?q ! parent j = q ! j" using j by (simp_all only: at, auto)
    then show ?thesis using dn [OF k(1,2)] k(3) j(1) by (metis nat_neq_iff)
  qed
  ultimately show ?thesis unfolding down_ok_def j_def [symmetric] by blast
qed

lemma sift_down_heap:
  "down_ok n i q \<Longrightarrow> n \<le> length q \<Longrightarrow> heap_ok n (sift_down lt q i n)"
proof (induction "n - i" arbitrary: q i rule: less_induct)
  case less
  let ?c = "small_child lt q i n"
  show ?case
  proof (cases "n \<le> 2 * i + 1 \<or> \<not> lt (q ! ?c) (q ! i)")
    case True
    have "\<not> lt (q ! k) (q ! parent k)" if k: "0 < k" "k < n" for k
    proof (cases "parent k = i")
      case False then show ?thesis using less.prems(1) k by (auto simp: down_ok_def)
    next
      case p: True
      then have c: "k = 2 * i + 1 \<or> k = 2 * i + 2" using parent_iff [of k i] k(1) by simp
      then have nc: "\<not> lt (q ! ?c) (q ! i)" using True k(2) by linarith
      moreover have "\<not> lt (q ! k) (q ! ?c)"
        using c k(2) less_irrefl less_asym by (auto simp: small_child_def)
      ultimately show ?thesis using not_less_trans p by blast
    qed
    with True show ?thesis by (auto simp: sift_down.simps [of lt q i n] heap_ok_def)
  next
    case False
    then have lt: "2 * i + 1 < n" and l: "lt (q ! ?c) (q ! i)" by auto
    have "heap_ok n (sift_down lt (swap_at i ?c q) ?c n)"
      using small_child_bounds [where i = i and q = q and n = n] lt less.prems(2)
        down_ok_swap [OF less.prems lt l]
      by (intro less.hyps) (auto intro: diff_less_mono2)
    with False show ?thesis by (simp add: sift_down.simps [of lt q i n])
  qed
qed

lemma heap_root: "heap_ok n q \<Longrightarrow> k < n \<Longrightarrow> \<not> lt (q ! k) (q ! 0)"
proof (induction k rule: less_induct)
  case (less k)
  show ?case
  proof (cases "k = 0")
    case True then show ?thesis using less_irrefl by simp
  next
    case False
    then have "\<not> lt (q ! parent k) (q ! 0)" using less parent_less [of k] by simp
    moreover have "\<not> lt (q ! k) (q ! parent k)" using False less.prems by (simp add: heap_ok_def)
    ultimately show ?thesis using not_less_trans by blast
  qed
qed

text \<open>The three uses: a new last element, the root replaced by the last element, and an element
  that has become less.\<close>

lemma push_heap: "heap_ok (length q) q \<Longrightarrow> heap_ok (Suc (length q)) (sift_up lt (q @ [x]) (length q))"
proof (rule sift_up_heap)
  assume h: "heap_ok (length q) q"
  have "\<not> lt ((q @ [x]) ! k) ((q @ [x]) ! parent k)" if k: "0 < k" "k < length q" for k
    using h k parent_less [OF k(1)] by (simp add: heap_ok_def nth_append)
  moreover have "parent k \<noteq> length q" if "0 < k" "k < Suc (length q)" for k
    using parent_less [OF that(1)] that(2) by simp
  ultimately show "up_ok (Suc (length q)) (length q) (q @ [x])"
    unfolding up_ok_def by (metis less_SucE)
qed simp_all

lemma heap_down_ok: "heap_ok (Suc n) q \<Longrightarrow> n < length q \<Longrightarrow> down_ok n 0 (swap_at 0 n q)"
  unfolding heap_ok_def down_ok_def
proof (intro conjI allI impI)
  fix k assume h: "\<forall>k. 0 < k \<and> k < Suc n \<longrightarrow> \<not> lt (q ! k) (q ! parent k)" "n < length q"
    and k: "0 < k \<and> k < n \<and> parent k \<noteq> 0"
  then have "swap_at 0 n q ! k = q ! k" "swap_at 0 n q ! parent k = q ! parent k"
    using parent_less [of k] by (auto simp: nth_list_update)
  then show "\<not> lt (swap_at 0 n q ! k) (swap_at 0 n q ! parent k)" using h k by simp
qed simp

lemma pop_heap: "heap_ok (Suc n) q \<Longrightarrow> n < length q \<Longrightarrow> heap_ok n (sift_down lt (swap_at 0 n q) 0 n)"
  by (rule sift_down_heap) (auto intro: heap_down_ok)

end

end
