(* ===== verification/Cid_Context.thy ===== *)
theory Cid_Context
  imports IPFS_Prelude
begin

text \<open>
  CIDs and request contexts: \<^verbatim>\<open>internal/protocol/encoding/encoding.go\<close> (\<open>ToV1\<close>,
  \<open>NormalizeCid\<close>), \<^verbatim>\<open>internal/hash.go\<close> (\<open>NewIPFSHash\<close>, \<open>CIDFromHash\<close>,
  \<open>CIDFromStorageHash\<close>), the CID wrapper of \<^verbatim>\<open>internal/db/ipfs_target.go\<close> and the context
  options of \<^verbatim>\<open>internal/protocol/context/context.go\<close>.
\<close>

section \<open>CIDs\<close>

text \<open>
  A value of go-cid's type \<open>Cid\<close> as its accessors \<open>Version()\<close>, \<open>Type()\<close> and \<open>Hash()\<close> show it;
  \<open>Undef\<close> is the zero value \<open>cid.Undef\<close>.  The binary and the textual form of a CID
  (\<open>Bytes()\<close>, \<open>String()\<close>) are parameters of the definitions that use them.
\<close>

datatype cid = Undef | Cid (ver: nat) (codec: nat) (mhash: bytes)

text \<open>go-block-format's \<open>Block\<close>: a CID with the data stored under it.\<close>

record block =
  b_cid :: cid
  b_data :: bytes


text \<open>\<open>cid.DagProtobuf\<close> and \<open>cid.Raw\<close>.\<close>

definition DagProtobuf :: nat where "DagProtobuf = 112"
definition Raw :: nat where "Raw = 85"

fun cid_version :: "cid \<Rightarrow> nat" where
  "cid_version Undef = 1"
| "cid_version (Cid v t h) = v"

fun cid_type :: "cid \<Rightarrow> nat" where
  "cid_type Undef = 0"
| "cid_type (Cid v t h) = t"

fun cid_hash :: "cid \<Rightarrow> bytes" where
  "cid_hash Undef = []"
| "cid_hash (Cid v t h) = h"

definition cid_defined :: "cid \<Rightarrow> bool" where
  "cid_defined c \<longleftrightarrow> c \<noteq> Undef"

abbreviation NewCidV1 :: "nat \<Rightarrow> bytes \<Rightarrow> cid" where
  "NewCidV1 t h \<equiv> Cid 1 t h"

abbreviation NewCidV0 :: "bytes \<Rightarrow> cid" where
  "NewCidV0 h \<equiv> Cid 0 DagProtobuf h"

text \<open>The CIDs go-cid can build: version 0 is always dag-pb, and 0 and 1 are the versions.\<close>

fun cid_wf :: "cid \<Rightarrow> bool" where
  "cid_wf Undef = True"
| "cid_wf (Cid v t h) = (v = 1 \<or> (v = 0 \<and> t = DagProtobuf))"

definition ToV1 :: "cid \<Rightarrow> cid" where
  "ToV1 c =
     (if cid_version c = 0 then NewCidV1 (cid_type c) (cid_hash c)
      else if cid_version c = 1 then c
      else Undef)"

definition NormalizeCid :: "cid \<Rightarrow> cid" where
  "NormalizeCid c = ToV1 c"

lemma NormalizeCid_simps [simp]:
  "NormalizeCid Undef = Undef"
  "NormalizeCid (Cid 0 t h) = Cid 1 t h"
  "NormalizeCid (Cid 1 t h) = Cid 1 t h"
  "NormalizeCid (Cid (Suc 0) t h) = Cid 1 t h"
  by (simp_all add: NormalizeCid_def ToV1_def)

lemma NormalizeCid_version: "cid_version (NormalizeCid c) = 1"
  by (cases c) (simp_all add: NormalizeCid_def ToV1_def)

lemma NormalizeCid_idem [simp]: "NormalizeCid (NormalizeCid c) = NormalizeCid c"
  using NormalizeCid_version [of c] by (simp add: NormalizeCid_def [of "NormalizeCid c"] ToV1_def)

lemma NormalizeCid_comp [simp]: "NormalizeCid \<circ> NormalizeCid = NormalizeCid"
  by (simp add: fun_eq_iff)

lemma NormalizeCid_hash_type:
  "cid_wf c \<Longrightarrow> cid_hash (NormalizeCid c) = cid_hash c \<and> cid_type (NormalizeCid c) = cid_type c"
  by (cases c) (auto simp: NormalizeCid_def ToV1_def)

lemma NormalizeCid_eq_iff:
  "cid_wf c \<Longrightarrow> cid_wf d \<Longrightarrow> cid_defined c \<Longrightarrow> cid_defined d \<Longrightarrow>
     NormalizeCid c = NormalizeCid d \<longleftrightarrow> cid_type c = cid_type d \<and> cid_hash c = cid_hash d"
  by (cases c; cases d) (auto simp: NormalizeCid_def ToV1_def cid_defined_def)

lemma NormalizeCid_defined: "cid_wf c \<Longrightarrow> cid_defined (NormalizeCid c) = cid_defined c"
  by (cases c) (auto simp: NormalizeCid_def ToV1_def cid_defined_def)

text \<open>
  \<open>core.NewStorageHashFromMultihash(h, t, nil)\<close> pairs the multihash with the codec; its accessors
  \<open>Multihash()\<close> and \<open>CIDType()\<close> read the pair.  \<open>mh_cast\<close> is multihash's \<open>Cast\<close>.
\<close>

type_synonym storage_hash = "bytes \<times> nat"

definition NewIPFSHash :: "cid \<Rightarrow> storage_hash" where
  "NewIPFSHash c = (cid_hash c, cid_type c)"

definition CIDFromHash :: "(bytes \<Rightarrow> gerr + bytes) \<Rightarrow> bytes \<Rightarrow> nat \<Rightarrow> gerr + cid" where
  "CIDFromHash mh_cast h t =
     (case mh_cast h of Inl e \<Rightarrow> Inl e | Inr m \<Rightarrow> Inr (NewCidV1 t m))"

definition CIDFromStorageHash :: "(bytes \<Rightarrow> gerr + bytes) \<Rightarrow> storage_hash \<Rightarrow> gerr + cid" where
  "CIDFromStorageHash mh_cast sh = CIDFromHash mh_cast (fst sh) (snd sh)"

lemma storage_hash_roundtrip:
  assumes "cid_wf c" and "cid_defined c" and "mh_cast (cid_hash c) = Inr (cid_hash c)"
  shows "CIDFromStorageHash mh_cast (NewIPFSHash c) = Inr (NormalizeCid c)"
  using assms
  by (cases c) (auto simp: CIDFromStorageHash_def CIDFromHash_def NewIPFSHash_def cid_defined_def)

section \<open>IPFS targets\<close>

record ipfs_target =
  t_mh :: bytes
  t_version :: nat

definition NewIPFSTargetFromCID :: "cid \<Rightarrow> gerr + ipfs_target" where
  "NewIPFSTargetFromCID c =
     (if c = Undef then Inl (Opaque ''invalid CID'')
      else Inr \<lparr>t_mh = cid_hash c, t_version = cid_version c\<rparr>)"

text \<open>A nil multihash is \<open>None\<close>.\<close>

definition NewIPFSTargetFromMultihash :: "bytes option \<Rightarrow> nat \<Rightarrow> gerr + ipfs_target" where
  "NewIPFSTargetFromMultihash m v =
     (case m of
        None \<Rightarrow> Inl (Opaque ''multihash cannot be nil'')
      | Some h \<Rightarrow>
          if v \<noteq> 0 \<and> v \<noteq> 1 then Inl (Opaque ''CID version must be 0 or 1'')
          else Inr \<lparr>t_mh = h, t_version = v\<rparr>)"

definition target_CID :: "ipfs_target \<Rightarrow> cid" where
  "target_CID t = (if t_version t = 0 then NewCidV0 (t_mh t) else NewCidV1 Raw (t_mh t))"

definition target_IsValid :: "(bytes \<Rightarrow> bool) \<Rightarrow> ipfs_target \<Rightarrow> bool" where
  "target_IsValid mh_decodes t =
     (if t_mh t = [] then False
      else if t_version t \<noteq> 0 \<and> t_version t \<noteq> 1 then False
      else mh_decodes (t_mh t))"

lemma target_CID_of_cid:
  assumes "cid_wf c" and "NewIPFSTargetFromCID c = Inr t"
  shows "cid_hash (target_CID t) = cid_hash c \<and> cid_version (target_CID t) = cid_version c"
    and "target_CID t = c \<longleftrightarrow> cid_version c = 0 \<or> cid_type c = Raw"
  using assms
  by (cases c; auto simp: NewIPFSTargetFromCID_def target_CID_def DagProtobuf_def)+

section \<open>Contexts\<close>

text \<open>
  The request context: its values (\<open>context.WithValue\<close>) and what \<open>Err()\<close> returns, \<open>None\<close>
  while it is not done.
\<close>

datatype ctx_key = VirtualReadKey | DisableMetaCheck | ClientIPKey | SkipQuotaCheck
datatype ctx_val = VBool bool | VStr string

record ctx =
  ctx_vals :: "(ctx_key, ctx_val) gomap"
  ctx_err :: "gerr option"

definition Background :: ctx where
  "Background = \<lparr>ctx_vals = [], ctx_err = None\<rparr>"

definition WithValue :: "ctx_key \<Rightarrow> ctx_val \<Rightarrow> ctx \<Rightarrow> ctx" where
  "WithValue k v c = c\<lparr>ctx_vals := gm_set k v (ctx_vals c)\<rparr>"

definition value_bool :: "ctx_val option \<Rightarrow> bool" where
  "value_bool v = (case v of Some (VBool b) \<Rightarrow> b | _ \<Rightarrow> False)"

definition VirtualReadOption :: "bool \<Rightarrow> ctx \<Rightarrow> ctx" where
  "VirtualReadOption b c = WithValue VirtualReadKey (VBool b) c"

definition IsVirtualReadEnabled :: "ctx \<Rightarrow> bool" where
  "IsVirtualReadEnabled c = value_bool (gm_get (ctx_vals c) VirtualReadKey)"

definition DisableMetaCheckOption :: "bool \<Rightarrow> ctx \<Rightarrow> ctx" where
  "DisableMetaCheckOption b c = WithValue DisableMetaCheck (VBool b) c"

definition IsMetaCheckDisabled :: "ctx \<Rightarrow> bool" where
  "IsMetaCheckDisabled c = value_bool (gm_get (ctx_vals c) DisableMetaCheck)"

definition ClientIPOption :: "string \<Rightarrow> ctx \<Rightarrow> ctx" where
  "ClientIPOption ip c = WithValue ClientIPKey (VStr ip) c"

definition GetClientIP :: "ctx \<Rightarrow> string" where
  "GetClientIP c = (case gm_get (ctx_vals c) ClientIPKey of Some (VStr ip) \<Rightarrow> ip | _ \<Rightarrow> [])"

definition SkipQuotaCheckOption :: "bool \<Rightarrow> ctx \<Rightarrow> ctx" where
  "SkipQuotaCheckOption b c = WithValue SkipQuotaCheck (VBool b) c"

definition IsQuotaCheckSkipped :: "ctx \<Rightarrow> bool" where
  "IsQuotaCheckSkipped c = value_bool (gm_get (ctx_vals c) SkipQuotaCheck)"

lemmas ctx_defs = WithValue_def value_bool_def VirtualReadOption_def IsVirtualReadEnabled_def
  DisableMetaCheckOption_def IsMetaCheckDisabled_def ClientIPOption_def GetClientIP_def
  SkipQuotaCheckOption_def IsQuotaCheckSkipped_def Background_def

text \<open>Each option is read back by its own getter and by no other.\<close>

lemma ctx_options [simp]:
  "IsVirtualReadEnabled (VirtualReadOption b c) = b"
  "IsVirtualReadEnabled (DisableMetaCheckOption b c) = IsVirtualReadEnabled c"
  "IsVirtualReadEnabled (ClientIPOption ip c) = IsVirtualReadEnabled c"
  "IsVirtualReadEnabled (SkipQuotaCheckOption b c) = IsVirtualReadEnabled c"
  "IsMetaCheckDisabled (DisableMetaCheckOption b c) = b"
  "IsMetaCheckDisabled (VirtualReadOption b c) = IsMetaCheckDisabled c"
  "IsMetaCheckDisabled (ClientIPOption ip c) = IsMetaCheckDisabled c"
  "IsMetaCheckDisabled (SkipQuotaCheckOption b c) = IsMetaCheckDisabled c"
  "GetClientIP (ClientIPOption ip c) = ip"
  "GetClientIP (VirtualReadOption b c) = GetClientIP c"
  "GetClientIP (DisableMetaCheckOption b c) = GetClientIP c"
  "GetClientIP (SkipQuotaCheckOption b c) = GetClientIP c"
  "IsQuotaCheckSkipped (SkipQuotaCheckOption b c) = b"
  "IsQuotaCheckSkipped (VirtualReadOption b c) = IsQuotaCheckSkipped c"
  "IsQuotaCheckSkipped (DisableMetaCheckOption b c) = IsQuotaCheckSkipped c"
  "IsQuotaCheckSkipped (ClientIPOption ip c) = IsQuotaCheckSkipped c"
  by (simp_all add: ctx_defs gm_simps)

lemma ctx_err_options [simp]:
  "ctx_err (VirtualReadOption b c) = ctx_err c"
  "ctx_err (DisableMetaCheckOption b c) = ctx_err c"
  "ctx_err (ClientIPOption ip c) = ctx_err c"
  "ctx_err (SkipQuotaCheckOption b c) = ctx_err c"
  by (simp_all add: ctx_defs)

lemma ctx_Background [simp]:
  "\<not> IsVirtualReadEnabled Background" "\<not> IsMetaCheckDisabled Background"
  "GetClientIP Background = []" "\<not> IsQuotaCheckSkipped Background"
  by (simp_all add: ctx_defs)

end
