(* ===== verification/Downloader.thy ===== *)
theory Downloader
  imports Heap_Order Cid_Context
begin

text \<open>
  \<^verbatim>\<open>internal/protocol/store/downloader/downloader.go\<close>: the priority queue of block downloads, the map
  of downloads in flight, the workers and the check of what was downloaded.  A \<open>*blockResponse\<close> is
  its position in the list \<open>d_tasks\<close> of all tasks made so far; the queue and the map hold positions,
  as the code's hold pointers.  \<open>container/heap\<close> is modelled on the queue with its \<open>Less\<close> and
  \<open>Swap\<close>; \<^theory_text>\<open>Heap_Order\<close> holds its lemmas.  Time is a number that grows; logging is left out.
\<close>

section \<open>Priorities and tasks\<close>

datatype downloadPriority = Low | Medium | High | Max

primrec prio :: "downloadPriority \<Rightarrow> int" where
  "prio Low = 1" | "prio Medium = 2" | "prio High = 3" | "prio Max = 4"

instantiation downloadPriority :: linorder
begin

definition less_eq_downloadPriority :: "downloadPriority \<Rightarrow> downloadPriority \<Rightarrow> bool" where
  "p \<le> q \<longleftrightarrow> prio p \<le> prio q"

definition less_downloadPriority :: "downloadPriority \<Rightarrow> downloadPriority \<Rightarrow> bool" where
  "p < q \<longleftrightarrow> prio p < prio q"

instance
proof
  fix x y :: downloadPriority
  show "x \<le> y \<Longrightarrow> y \<le> x \<Longrightarrow> x = y"
    by (cases x; cases y) (simp_all add: less_eq_downloadPriority_def)
qed (auto simp: less_eq_downloadPriority_def less_downloadPriority_def)

end

lemma prio_inject [simp]: "prio p = prio q \<longleftrightarrow> p = q"
  by (cases p; cases q) simp_all

lemma prio_less [simp]: "p < q \<longleftrightarrow> prio p < prio q" "p \<le> q \<longleftrightarrow> prio p \<le> prio q"
  by (simp_all add: less_downloadPriority_def less_eq_downloadPriority_def)

record task =
  t_cid :: cid
  t_priority :: downloadPriority
  t_index :: int                \<comment> \<open>place in the queue, -1 when taken out\<close>
  t_time :: nat
  t_ip :: string
  t_b :: "bytes option"
  t_err :: "gerr option"
  t_closed :: bool              \<comment> \<open>\<open>ch\<close> is closed\<close>

section \<open>The priority queue\<close>

text \<open>The queue and the tasks it points to.\<close>

type_synonym pq = "task list \<times> nat list"

definition task_less :: "task list \<Rightarrow> nat \<Rightarrow> nat \<Rightarrow> bool" where
  "task_less ts a b =
     (if t_priority (ts ! a) \<noteq> t_priority (ts ! b) then t_priority (ts ! a) > t_priority (ts ! b)
      else t_time (ts ! a) < t_time (ts ! b))"

definition set_index :: "nat \<Rightarrow> int \<Rightarrow> task list \<Rightarrow> task list" where
  "set_index a k ts = ts[a := (ts ! a)\<lparr>t_index := k\<rparr>]"

definition Less :: "pq \<Rightarrow> nat \<Rightarrow> nat \<Rightarrow> bool" where
  "Less h i j = task_less (fst h) (snd h ! i) (snd h ! j)"

definition Swap :: "pq \<Rightarrow> nat \<Rightarrow> nat \<Rightarrow> pq" where
  "Swap h i j =
     (let q' = swap_at i j (snd h)
      in (set_index (q' ! j) (int j) (set_index (q' ! i) (int i) (fst h)), q'))"

definition pq_Push :: "nat \<Rightarrow> pq \<Rightarrow> pq" where
  "pq_Push a h = (set_index a (int (length (snd h))) (fst h), snd h @ [a])"

definition pq_Pop :: "pq \<Rightarrow> pq \<times> nat" where
  "pq_Pop h =
     (let item = last (snd h) in ((set_index item (- 1) (fst h), butlast (snd h)), item))"

text \<open>\<open>container/heap\<close>: \<open>down\<close> also says whether the element moved.\<close>

function heap_up :: "pq \<Rightarrow> nat \<Rightarrow> pq" where
  "heap_up h j =
     (let i = parent j in
      if i = j \<or> \<not> Less h j i then h else heap_up (Swap h i j) i)"
  by auto
termination by (relation "measure snd") (auto simp: Let_def)

function heap_down :: "pq \<Rightarrow> nat \<Rightarrow> nat \<Rightarrow> pq" where
  "heap_down h i n =
     (let j1 = 2 * i + 1 in
      if n \<le> j1 then h
      else
        let j2 = j1 + 1; j = (if j2 < n \<and> Less h j2 j1 then j2 else j1) in
        if \<not> Less h j i then h else heap_down (Swap h i j) j n)"
  by auto
termination by (relation "measure (\<lambda>(_, i, n). n - i)") (auto simp: Let_def split: if_splits)

declare heap_up.simps [simp del] heap_down.simps [simp del]

definition down_moved :: "pq \<Rightarrow> nat \<Rightarrow> nat \<Rightarrow> bool" where
  "down_moved h i n =
     (let j1 = 2 * i + 1; j2 = j1 + 1; j = (if j2 < n \<and> Less h j2 j1 then j2 else j1) in
      j1 < n \<and> Less h j i)"

definition heap_Push :: "nat \<Rightarrow> pq \<Rightarrow> pq" where
  "heap_Push a h = (let h = pq_Push a h in heap_up h (length (snd h) - 1))"

definition heap_Pop :: "pq \<Rightarrow> pq \<times> nat" where
  "heap_Pop h = (let n = length (snd h) - 1 in pq_Pop (heap_down (Swap h 0 n) 0 n))"

definition heap_Fix :: "nat \<Rightarrow> pq \<Rightarrow> pq" where
  "heap_Fix i h =
     (let n = length (snd h); h' = heap_down h i n in
      if down_moved h i n then h' else heap_up h' i)"

interpretation tq: heap_order "task_less ts" for ts
  by unfold_locales (auto simp: task_less_def split: if_splits)

text \<open>
  The indices and the queue do not affect the comparison: on the queue, \<open>up\<close> and \<open>down\<close> are the
  generic ones.
\<close>

lemma task_less_set_index [simp]: "task_less (set_index a k ts) = task_less ts"
proof -
  have "t_priority (set_index a k ts ! b) = t_priority (ts ! b) \<and>
        t_time (set_index a k ts ! b) = t_time (ts ! b)" for b
    by (cases "a = b"; cases "a < length ts") (simp_all add: set_index_def list_update_beyond)
  then show ?thesis by (simp add: fun_eq_iff task_less_def)
qed

lemma length_set_index [simp]: "length (set_index a k ts) = length ts"
  by (simp add: set_index_def)

lemma Swap_parts: "snd (Swap h i j) = swap_at i j (snd h)" "task_less (fst (Swap h i j)) = task_less (fst h)"
  "length (fst (Swap h i j)) = length (fst h)"
  by (simp_all add: Swap_def Let_def)

lemma heap_up_less: "task_less (fst (heap_up h j)) = task_less (fst h) \<and>
    length (fst (heap_up h j)) = length (fst h)"
proof (induction h j rule: heap_up.induct)
  case (1 h j)
  then show ?case by (simp add: heap_up.simps [of h j] Let_def Swap_parts)
qed

lemma heap_down_less: "task_less (fst (heap_down h i n)) = task_less (fst h) \<and>
    length (fst (heap_down h i n)) = length (fst h)"
proof (induction h i n rule: heap_down.induct)
  case (1 h i n)
  then show ?case by (simp add: heap_down.simps [of h i n] Let_def Swap_parts)
qed

lemma heap_up_sift: "snd (heap_up h j) = sift_up (task_less (fst h)) (snd h) j"
proof (induction h j rule: heap_up.induct)
  case (1 h j)
  then show ?case
    by (simp add: heap_up.simps [of h j] sift_up.simps [of _ "snd h" j] Let_def Swap_parts Less_def)
qed

lemma heap_down_eq:
  "heap_down h i n =
     (let j = small_child (task_less (fst h)) (snd h) i n in
      if n \<le> 2 * i + 1 \<or> \<not> task_less (fst h) (snd h ! j) (snd h ! i) then h
      else heap_down (Swap h i j) j n)"
  by (subst heap_down.simps) (simp add: small_child_def Less_def Let_def)

lemma heap_down_sift: "snd (heap_down h i n) = sift_down (task_less (fst h)) (snd h) i n"
proof (induction "n - i" arbitrary: h i rule: less_induct)
  case less
  let ?j = "small_child (task_less (fst h)) (snd h) i n"
  show ?case
  proof (cases "n \<le> 2 * i + 1 \<or> \<not> task_less (fst h) (snd h ! ?j) (snd h ! i)")
    case True
    then show ?thesis
      by (subst heap_down_eq, subst sift_down.simps) (simp add: Let_def)
  next
    case False
    then have "n - ?j < n - i"
      using small_child_bounds(1,3) [where i = i and lt = "task_less (fst h)" and q = "snd h" and n = n] by simp
    from less [OF this] False show ?thesis
      by (subst heap_down_eq, subst sift_down.simps) (simp add: Let_def Swap_parts)
  qed
qed

section \<open>Indices\<close>

text \<open>The queue has no task twice, each of its tasks knows its place, and all others say -1.\<close>

definition index_ok :: "pq \<Rightarrow> bool" where
  "index_ok h \<longleftrightarrow>
     distinct (snd h) \<and> set (snd h) \<subseteq> {..<length (fst h)} \<and>
     (\<forall>i < length (snd h). t_index (fst h ! (snd h ! i)) = int i) \<and>
     (\<forall>a < length (fst h). a \<notin> set (snd h) \<longrightarrow> t_index (fst h ! a) = -1)"

lemma set_index_nth:
  "a < length ts \<Longrightarrow> set_index a k ts ! b = (if b = a then (ts ! a)\<lparr>t_index := k\<rparr> else ts ! b)"
  by (auto simp: set_index_def nth_list_update)

lemma index_ok_Swap:
  assumes "index_ok h" and "i < length (snd h)" and "j < length (snd h)"
  shows "index_ok (Swap h i j)"
proof -
  obtain ts q where h: "h = (ts, q)" by (cases h)
  let ?q = "swap_at i j q"
  have i: "i < length q" and j: "j < length q" and d: "distinct q" and b: "set q \<subseteq> {..<length ts}"
    and ix: "\<And>k. k < length q \<Longrightarrow> t_index (ts ! (q ! k)) = int k"
    and out: "\<And>a. a < length ts \<Longrightarrow> a \<notin> set q \<Longrightarrow> t_index (ts ! a) = -1"
    using assms by (auto simp: h index_ok_def)
  have mq: "mset ?q = mset q" using mset_swap_at [OF i j] .
  have dq: "distinct ?q" using mq d mset_eq_imp_distinct_iff by blast
  have sq: "set ?q = set q" using mq mset_eq_setD by blast
  have at: "?q ! i = q ! j" "?q ! j = q ! i" using i j by (auto simp: nth_list_update)
  have bd: "q ! k < length ts" if "k < length q" for k using b that nth_mem by blast
  have "t_index (set_index (q ! i) (int j) (set_index (q ! j) (int i) ts) ! (?q ! k)) = int k"
    if k: "k < length q" for k
  proof -
    consider "k = i" | "k = j" | "k \<noteq> i" "k \<noteq> j" by blast
    then show ?thesis
    proof cases
      case 3
      then have "?q ! k = q ! k" "q ! k \<noteq> q ! i" "q ! k \<noteq> q ! j"
        using k i j d by (auto simp: nth_eq_iff_index_eq)
      then show ?thesis using bd i j k ix by (simp add: set_index_nth)
    qed (use at bd i j d in \<open>auto simp: set_index_nth nth_eq_iff_index_eq\<close>)
  qed
  moreover have "t_index (set_index (q ! i) (int j) (set_index (q ! j) (int i) ts) ! a) = -1"
    if "a < length ts" "a \<notin> set q" for a
  proof -
    have "a \<noteq> q ! i" "a \<noteq> q ! j" using that i j by auto
    then show ?thesis using out [OF that] bd i j by (simp add: set_index_nth)
  qed
  ultimately show ?thesis
    using dq sq b by (simp add: h Swap_def Let_def index_ok_def at)
qed

lemma index_ok_up: "index_ok h \<Longrightarrow> j < length (snd h) \<Longrightarrow> index_ok (heap_up h j)"
proof (induction h j rule: heap_up.induct)
  case (1 h j)
  have "index_ok (Swap h (parent j) j)" using 1 by (intro index_ok_Swap) auto
  with 1 show ?case by (simp add: heap_up.simps [of h j] Let_def Swap_parts)
qed

lemma index_ok_down: "index_ok h \<Longrightarrow> n \<le> length (snd h) \<Longrightarrow> index_ok (heap_down h i n)"
proof (induction h i n rule: heap_down.induct)
  case (1 h i n)
  let ?j = "if 2 * i + 1 + 1 < n \<and> Less h (2 * i + 1 + 1) (2 * i + 1) then 2 * i + 1 + 1 else 2 * i + 1"
  show ?case
  proof (cases "n \<le> 2 * i + 1 \<or> \<not> Less h ?j i")
    case True then show ?thesis using 1 by (auto simp: heap_down.simps [of h i n] Let_def)
  next
    case False
    then have "index_ok (Swap h i ?j)" using 1 by (intro index_ok_Swap) auto
    with False 1 show ?thesis by (auto simp: heap_down.simps [of h i n] Let_def Swap_parts)
  qed
qed

section \<open>Push, pop and fix\<close>

text \<open>Only indices change: \<open>strip\<close> forgets them.\<close>

definition strip :: "task list \<Rightarrow> task list" where
  "strip ts = map (\<lambda>t. t\<lparr>t_index := 0\<rparr>) ts"

lemma strip_set_index [simp]: "strip (set_index a k ts) = strip ts"
  by (cases "a < length ts") (simp_all add: strip_def set_index_def map_update list_update_beyond
      list_update_same_conv)

lemma strip_Swap [simp]: "strip (fst (Swap h i j)) = strip (fst h)"
  by (simp add: Swap_def Let_def)

lemma strip_up [simp]: "strip (fst (heap_up h j)) = strip (fst h)"
  by (induction h j rule: heap_up.induct) (subst heap_up.simps, simp add: Let_def)

lemma strip_down [simp]: "strip (fst (heap_down h i n)) = strip (fst h)"
  by (induction h i n rule: heap_down.induct) (subst heap_down.simps, simp add: Let_def)

lemma strip_length: "strip ts = strip ts' \<Longrightarrow> length ts = length ts'"
  unfolding strip_def by (metis length_map)

lemma strip_nth: "strip ts = strip ts' \<Longrightarrow> a < length ts \<Longrightarrow>
    (ts ! a)\<lparr>t_index := 0\<rparr> = (ts' ! a)\<lparr>t_index := 0\<rparr>"
  unfolding strip_def by (metis length_map nth_map)

lemma strip_fields:
  assumes "strip ts = strip ts'" and "a < length ts"
  shows "t_cid (ts ! a) = t_cid (ts' ! a)" "t_priority (ts ! a) = t_priority (ts' ! a)"
    "t_time (ts ! a) = t_time (ts' ! a)" "t_closed (ts ! a) = t_closed (ts' ! a)"
    "t_b (ts ! a) = t_b (ts' ! a)" "t_err (ts ! a) = t_err (ts' ! a)" "t_ip (ts ! a) = t_ip (ts' ! a)"
  using arg_cong [OF strip_nth [OF assms], of t_cid] arg_cong [OF strip_nth [OF assms], of t_priority]
    arg_cong [OF strip_nth [OF assms], of t_time] arg_cong [OF strip_nth [OF assms], of t_closed]
    arg_cong [OF strip_nth [OF assms], of t_b] arg_cong [OF strip_nth [OF assms], of t_err]
    arg_cong [OF strip_nth [OF assms], of t_ip]
  by simp_all

abbreviation pq_heap :: "pq \<Rightarrow> bool" where
  "pq_heap h \<equiv> tq.heap_ok (fst h) (length (snd h)) (snd h)"

text \<open>What the three operations keep and return.\<close>

lemma heap_up_length [simp]: "j < length (snd h) \<Longrightarrow> length (snd (heap_up h j)) = length (snd h)"
  using arg_cong [OF sift_up_perm, of j "snd h" size "task_less (fst h)"] by (simp add: heap_up_sift)

lemma heap_down_length [simp]:
  "n \<le> length (snd h) \<Longrightarrow> length (snd (heap_down h i n)) = length (snd h)"
  using arg_cong [OF sift_down_perm, of n "snd h" size "task_less (fst h)"] by (simp add: heap_down_sift)

lemma heap_up_mset: "j < length (snd h) \<Longrightarrow> mset (snd (heap_up h j)) = mset (snd h)"
  by (simp add: heap_up_sift sift_up_perm)

lemma heap_down_mset: "n \<le> length (snd h) \<Longrightarrow> mset (snd (heap_down h i n)) = mset (snd h)"
  by (simp add: heap_down_sift sift_down_perm)

lemma heap_Push_correct:
  assumes ix: "index_ok h" and hp: "pq_heap h" and a: "a < length (fst h)" "a \<notin> set (snd h)"
  shows "index_ok (heap_Push a h)" "pq_heap (heap_Push a h)"
    "mset (snd (heap_Push a h)) = add_mset a (mset (snd h))" "strip (fst (heap_Push a h)) = strip (fst h)"
proof -
  obtain ts q where h: "h = (ts, q)" by (cases h)
  let ?h = "(set_index a (int (length q)) ts, q @ [a])"
  have def: "heap_Push a h = heap_up ?h (length q)" by (simp add: heap_Push_def pq_Push_def h)
  have "index_ok ?h"
    using ix a by (auto simp: index_ok_def h set_index_nth nth_append less_Suc_eq)
  then show "index_ok (heap_Push a h)" unfolding def by (rule index_ok_up) simp
  have "tq.heap_ok ts (length (q @ [a])) (sift_up (task_less ts) (q @ [a]) (length q))"
    using tq.push_heap [of ts q a] hp by (simp add: h)
  moreover have "length (snd (heap_up ?h (length q))) = length (q @ [a])" by simp
  moreover have "snd (heap_up ?h (length q)) = sift_up (task_less ts) (q @ [a]) (length q)"
    by (simp add: heap_up_sift)
  moreover have "task_less (fst (heap_up ?h (length q))) = task_less ts"
    using heap_up_less [of ?h] by simp
  ultimately show "pq_heap (heap_Push a h)" unfolding def tq.heap_ok_def by metis
  show "mset (snd (heap_Push a h)) = add_mset a (mset (snd h))"
    unfolding def by (simp add: heap_up_mset h)
  show "strip (fst (heap_Push a h)) = strip (fst h)" unfolding def by (simp add: h)
qed

lemma heap_Pop_correct:
  assumes ix: "index_ok h" and hp: "pq_heap h" and ne: "snd h \<noteq> []" and pop: "heap_Pop h = (h', a)"
  shows "index_ok h'" "pq_heap h'" "mset (snd h) = add_mset a (mset (snd h'))"
    "strip (fst h') = strip (fst h)" "\<forall>b \<in> set (snd h). \<not> task_less (fst h) b a"
proof -
  obtain ts q where h: "h = (ts, q)" by (cases h)
  define n where "n = length q - 1"
  have n: "length q = Suc n" using ne by (cases q) (auto simp: h n_def)
  let ?s = "Swap h 0 n" and ?d = "heap_down (Swap h 0 n) 0 n"
  have lens: "length (snd ?s) = Suc n" by (simp add: Swap_parts h n)
  have lend: "length (snd ?d) = Suc n" using lens by simp
  have ixd: "index_ok ?d"
    using index_ok_down [OF index_ok_Swap [OF ix, of 0 n]] n h lens by simp
  have last: "last (snd ?d) = q ! 0"
  proof -
    have "last (snd ?d) = snd ?d ! n" using lend by (metis last_conv_nth diff_Suc_1 list.size(3) nat.distinct(1))
    also have "\<dots> = snd ?s ! n" by (simp add: heap_down_sift sift_down_above)
    finally show ?thesis using n by (simp add: Swap_parts h nth_list_update)
  qed
  have h': "h' = (set_index (last (snd ?d)) (-1) (fst ?d), butlast (snd ?d))" and a: "a = last (snd ?d)"
    using pop by (auto simp: heap_Pop_def pq_Pop_def h n_def Let_def)
  have split: "snd ?d = butlast (snd ?d) @ [a]"
    using lend a by (metis append_butlast_last_id length_0_conv nat.distinct(1))
  show "index_ok h'"
  proof -
    have d: "distinct (butlast (snd ?d))" "a \<notin> set (butlast (snd ?d))"
      using ixd arg_cong [OF split, of distinct] by (simp_all add: index_ok_def)
    have sd: "set (snd ?d) = insert a (set (butlast (snd ?d)))"
      using arg_cong [OF split, of set] by simp
    then have al: "a < length (fst ?d)" and sub: "set (butlast (snd ?d)) \<subseteq> {..<length (fst ?d)}"
      using ixd by (simp_all add: index_ok_def)
    show ?thesis
      unfolding index_ok_def h' a [symmetric] fst_conv snd_conv length_set_index
    proof (intro conjI allI impI)
      fix i assume i: "i < length (butlast (snd ?d))"
      then have "butlast (snd ?d) ! i = snd ?d ! i" "butlast (snd ?d) ! i \<noteq> a"
        using nth_butlast d(2) nth_mem by (metis, metis)
      then show "t_index (set_index a (- 1) (fst ?d) ! (butlast (snd ?d) ! i)) = int i"
        using ixd i al lend by (simp add: set_index_nth index_ok_def)
    next
      fix b assume "b < length (fst ?d)" "b \<notin> set (butlast (snd ?d))"
      then show "t_index (set_index a (- 1) (fst ?d) ! b) = - 1"
        using ixd al sd by (cases "b = a") (simp_all add: set_index_nth index_ok_def)
    qed (use d sub in auto)
  qed
  have tl: "task_less (fst h') = task_less ts"
    using heap_down_less [of ?s] by (simp add: h' Swap_parts h)
  show "pq_heap h'"
  proof -
    have "tq.heap_ok ts n (snd ?d)"
      using tq.pop_heap [of ts n q] hp n by (simp add: h heap_down_sift Swap_parts)
    then have "tq.heap_ok ts n (butlast (snd ?d))"
      using lend by (auto simp: tq.heap_ok_def nth_butlast)
    then show ?thesis using lend tl by (simp add: h' tq.heap_ok_def)
  qed
  have md: "mset (snd ?d) = mset q"
    using lens n by (simp add: heap_down_mset Swap_parts h mset_swap)
  show "mset (snd h) = add_mset a (mset (snd h'))"
    using arg_cong [OF split, of mset] md by (simp add: h h')
  show "strip (fst h') = strip (fst h)" by (simp add: h')
  show "\<forall>b \<in> set (snd h). \<not> task_less (fst h) b a"
  proof
    fix b assume "b \<in> set (snd h)"
    then obtain k where "k < length q" "b = q ! k" by (auto simp: h in_set_conv_nth)
    then show "\<not> task_less (fst h) b a"
      using tq.heap_root [of ts "length q" q k] hp a last by (simp add: h)
  qed
qed

text \<open>Raising the priority of a queued task and fixing its place.\<close>

lemma task_less_raised:
  assumes "a < length ts" and "prio (t_priority (ts ! a)) < prio p"
  defines "us \<equiv> ts[a := (ts ! a)\<lparr>t_priority := p\<rparr>]"
  shows "b \<noteq> a \<Longrightarrow> c \<noteq> a \<Longrightarrow> task_less us b c = task_less ts b c"
    and "\<not> task_less ts b a \<Longrightarrow> \<not> task_less us b a"
proof -
  have eq: "b \<noteq> a \<Longrightarrow> us ! b = ts ! b" "t_priority (us ! a) = p" for b
    using assms(1) by (auto simp: us_def nth_list_update)
  show "b \<noteq> a \<Longrightarrow> c \<noteq> a \<Longrightarrow> task_less us b c = task_less ts b c"
    by (simp add: task_less_def eq)
  show "\<not> task_less ts b a \<Longrightarrow> \<not> task_less us b a"
    using assms(2) by (cases "b = a") (auto simp: task_less_def eq split: if_splits)
qed

lemma heap_Fix_raised:
  assumes ix: "index_ok (ts, q)" and hp: "pq_heap (ts, q)" and i: "i < length q" and a: "q ! i = a"
    and p: "prio (t_priority (ts ! a)) < prio p"
  defines "us \<equiv> ts[a := (ts ! a)\<lparr>t_priority := p\<rparr>]"
  shows "index_ok (heap_Fix i (us, q))" "pq_heap (heap_Fix i (us, q))"
    "mset (snd (heap_Fix i (us, q))) = mset q" "strip (fst (heap_Fix i (us, q))) = strip us"
proof -
  have al: "a < length ts" using ix i a nth_mem [OF i] by (auto simp: index_ok_def)
  have d: "distinct q" using ix by (simp add: index_ok_def)
  have old: "0 < k \<Longrightarrow> k < length q \<Longrightarrow> \<not> task_less ts (q ! k) (q ! parent k)" for k
    using hp by (simp add: tq.heap_ok_def)
  have ne: "k < length q \<Longrightarrow> k \<noteq> i \<Longrightarrow> q ! k \<noteq> a" for k
    using d i a nth_eq_iff_index_eq by blast
  note raised = task_less_raised [OF al p, folded us_def]
  have child: "\<not> task_less us (q ! k) a" if "0 < k" "k < length q" "parent k = i" for k
    using raised(2) old [OF that(1,2)] that(3) a by simp
  have stay: "\<not> down_moved (us, q) i (length q)"
  proof
    assume m: "down_moved (us, q) i (length q)"
    have "\<not> task_less us (q ! k) a" if "k = 2 * i + 1 \<or> k = 2 * i + 2" "k < length q" for k
      using child [of k] parent_iff [of k i] that by auto
    with m show False by (auto simp: down_moved_def Less_def Let_def a split: if_splits)
  qed
  have same: "heap_down (us, q) i (length q) = (us, q)"
    using stay by (subst heap_down.simps) (auto simp: down_moved_def Let_def)
  have def: "heap_Fix i (us, q) = heap_up (us, q) i"
    using stay same by (simp add: heap_Fix_def Let_def)
  have "tq.up_ok us (length q) i q"
    unfolding tq.up_ok_def
  proof (intro conjI allI impI)
    fix k assume k: "0 < k \<and> k < length q \<and> k \<noteq> i"
    then have pk: "parent k < length q" using parent_less [of k] by simp
    show "\<not> task_less us (q ! k) (q ! parent k)"
    proof (cases "parent k = i")
      case True then show ?thesis using child k a by metis
    next
      case False
      then show ?thesis using raised(1) [OF ne [of k] ne [OF pk]] old k by metis
    qed
  next
    fix k assume k: "0 < k \<and> k < length q \<and> parent k = i \<and> 0 < i"
    have ki: "k \<noteq> i" "parent i \<noteq> i" "parent i < length q"
      using k parent_less [of k] parent_less [of i] i by auto
    have "\<not> task_less ts (q ! k) (q ! parent i)"
      using tq.not_less_trans old [of k] old [of i] k i by metis
    then show "\<not> task_less us (q ! k) (q ! parent i)"
      using raised(1) [OF ne [of k] ne [of "parent i"]] ki k by metis
  qed
  then have "tq.heap_ok us (length q) (sift_up (task_less us) q i)"
    using i by (rule tq.sift_up_heap) simp
  then show "pq_heap (heap_Fix i (us, q))"
    using heap_up_less [of "(us, q)" i] i heap_up_length [of i "(us, q)"]
    by (simp add: def heap_up_sift)
  have "t_index (us ! b) = t_index (ts ! b)" for b
    using al by (auto simp: us_def nth_list_update)
  then have "index_ok (us, q)" using ix by (simp add: index_ok_def us_def)
  then show "index_ok (heap_Fix i (us, q))" unfolding def using i by (intro index_ok_up) simp_all
  show "mset (snd (heap_Fix i (us, q))) = mset q" "strip (fst (heap_Fix i (us, q))) = strip us"
    using i by (simp_all add: def heap_up_mset)
qed

section \<open>The downloader\<close>

record dl =
  d_tasks :: "task list"
  d_queue :: "nat list"
  d_inflight :: "(string, nat) gomap"

definition NewBlockDownloader :: dl where
  "NewBlockDownloader = \<lparr>d_tasks = [], d_queue = [], d_inflight = []\<rparr>"

abbreviation d_pq :: "dl \<Rightarrow> pq" where
  "d_pq s \<equiv> (d_tasks s, d_queue s)"

definition set_pq :: "pq \<Rightarrow> dl \<Rightarrow> dl" where
  "set_pq h s = s\<lparr>d_tasks := fst h, d_queue := snd h\<rparr>"

text \<open>\<open>str\<close> is \<open>Cid.String()\<close>: two CIDs have the same key when their version 1 forms are the same.\<close>

definition cidKey :: "(cid \<Rightarrow> string) \<Rightarrow> cid \<Rightarrow> string" where
  "cidKey str c = str (NewCidV1 (cid_type c) (cid_hash c))"

definition new_task :: "cid \<Rightarrow> downloadPriority \<Rightarrow> string \<Rightarrow> nat \<Rightarrow> task" where
  "new_task c p ip now =
     \<lparr>t_cid = c, t_priority = p, t_index = 0, t_time = now, t_ip = ip, t_b = None, t_err = None,
      t_closed = False\<rparr>"

text \<open>
  \<open>queueBlock\<close>, under the lock: the task, and whether it is new.  A block in flight gets the higher
  priority, and moves in the queue when it is still there, and the client's address when it had none.
\<close>

definition raise_priority :: "nat \<Rightarrow> downloadPriority \<Rightarrow> dl \<Rightarrow> dl" where
  "raise_priority a p s =
     (if t_priority (d_tasks s ! a) < p then
        let ts = (d_tasks s)[a := (d_tasks s ! a)\<lparr>t_priority := p\<rparr>] in
        if 0 \<le> t_index (ts ! a) then set_pq (heap_Fix (nat (t_index (ts ! a))) (ts, d_queue s)) s
        else s\<lparr>d_tasks := ts\<rparr>
      else s)"

definition fill_client :: "nat \<Rightarrow> string \<Rightarrow> dl \<Rightarrow> dl" where
  "fill_client a ip s =
     (if t_ip (d_tasks s ! a) = [] \<and> ip \<noteq> []
      then s\<lparr>d_tasks := (d_tasks s)[a := (d_tasks s ! a)\<lparr>t_ip := ip\<rparr>]\<rparr> else s)"

definition queueBlock ::
    "(cid \<Rightarrow> string) \<Rightarrow> nat \<Rightarrow> cid \<Rightarrow> downloadPriority \<Rightarrow> string \<Rightarrow> dl \<Rightarrow> dl \<times> nat \<times> bool" where
  "queueBlock str now c p ip s =
     (case gm_get (d_inflight s) (cidKey str c) of
        Some a \<Rightarrow> (fill_client a ip (raise_priority a p s), a, False)
      | None \<Rightarrow>
          let a = length (d_tasks s);
              s1 = s\<lparr>d_tasks := d_tasks s @ [new_task c p ip now],
                     d_inflight := gm_set (cidKey str c) a (d_inflight s)\<rparr>
          in (set_pq (heap_Push a (d_pq s1)) s1, a, True))"

text \<open>
  \<open>Get\<close> up to the wait, and the wait: \<open>canceled\<close> says that \<open>select\<close> took the case of the context.
\<close>

definition dl_Get ::
    "(cid \<Rightarrow> string) \<Rightarrow> (cid \<Rightarrow> gerr option) \<Rightarrow> nat \<Rightarrow> ctx \<Rightarrow> cid \<Rightarrow> dl \<Rightarrow> gerr + (dl \<times> nat)" where
  "dl_Get str exists_err now cx c s =
     (case ctx_err cx of
        Some e \<Rightarrow> Inl e
      | None \<Rightarrow>
          (case exists_err c of
             Some e \<Rightarrow> Inl e
           | None \<Rightarrow>
               let (s', a, _) = queueBlock str now c Max (GetClientIP cx) s in Inr (s', a)))"

definition br_block :: "task \<Rightarrow> cid \<Rightarrow> gerr option \<Rightarrow> gerr + block" where
  "br_block t c canceled =
     (case canceled of
        Some e \<Rightarrow> Inl e
      | None \<Rightarrow>
          (case t_err t of
             Some e \<Rightarrow> Inl e
           | None \<Rightarrow> Inr \<lparr>b_cid = c, b_data = (case t_b t of Some b \<Rightarrow> b | None \<Rightarrow> [])\<rparr>))"

text \<open>
  \<open>downloadBlockData\<close>: \<open>download\<close> is the storage service, which gives the object's bytes and the
  error its reader ends with, if any; \<open>mh_type\<close> and \<open>mh_sum\<close> are go-multihash's.  18 is \<open>mh.SHA2_256\<close>.
\<close>

definition downloadBlockData ::
    "(cid \<Rightarrow> gerr + bytes \<times> gerr option) \<Rightarrow> (bytes \<Rightarrow> nat) \<Rightarrow> (bytes \<Rightarrow> nat \<Rightarrow> gerr + bytes) \<Rightarrow>
     cid \<Rightarrow> gerr + bytes" where
  "downloadBlockData download mh_type mh_sum c =
     (case download c of
        Inl e \<Rightarrow> Inl (Wrapped ''failed to download block'' e)
      | Inr (_, Some e) \<Rightarrow> Inl (Wrapped ''failed to read block'' e)
      | Inr (b, None) \<Rightarrow>
          if mh_type (cid_hash c) \<noteq> 18 then Inl (Opaque ''unsupported hash function'')
          else (case mh_sum b (mh_type (cid_hash c)) of
             Inl e \<Rightarrow> Inl (Wrapped ''failed to verify block'' e)
           | Inr h \<Rightarrow>
               if cid_hash c \<noteq> h then Inl (Opaque ''block hash mismatch'') else Inr b))"

text \<open>A worker: it takes the first task, \<open>doDownloadTask\<close> stores the result and wakes the waiters,
  and the task leaves the map.  A download of high priority asks for \<open>queueRelated\<close>.\<close>

definition worker_pop :: "dl \<Rightarrow> (dl \<times> nat) option" where
  "worker_pop s =
     (if d_queue s = [] then None
      else let (h, a) = heap_Pop (d_pq s) in Some (set_pq h s, a))"

definition doDownloadTask :: "nat \<Rightarrow> gerr + bytes \<Rightarrow> dl \<Rightarrow> dl \<times> bool" where
  "doDownloadTask a r s =
     (let t = d_tasks s ! a;
          t' = (case r of Inl e \<Rightarrow> t\<lparr>t_err := Some e\<rparr> | Inr b \<Rightarrow> t\<lparr>t_b := Some b\<rparr>)
      in (s\<lparr>d_tasks := (d_tasks s)[a := t'\<lparr>t_closed := True\<rparr>]\<rparr>,
          (case r of Inl _ \<Rightarrow> False | Inr _ \<Rightarrow> High \<le> t_priority t)))"

definition worker_delete :: "(cid \<Rightarrow> string) \<Rightarrow> nat \<Rightarrow> dl \<Rightarrow> dl" where
  "worker_delete str a s =
     s\<lparr>d_inflight := gm_del (cidKey str (t_cid (d_tasks s ! a))) (d_inflight s)\<rparr>"

text \<open>\<open>queueRelated\<close> with the metadata store's answers; each block comes with the time it is queued at.\<close>

fun queue_existing ::
    "(cid \<Rightarrow> string) \<Rightarrow> (cid \<Rightarrow> gerr option) \<Rightarrow> downloadPriority \<Rightarrow> (cid \<times> nat) list \<Rightarrow> dl \<Rightarrow> dl" where
  "queue_existing str exists_err p [] s = s"
| "queue_existing str exists_err p ((c, now) # cs) s =
     queue_existing str exists_err p cs
       (if exists_err c \<noteq> None then s else fst (queueBlock str now c p [] s))"

definition queueRelated ::
    "(cid \<Rightarrow> string) \<Rightarrow> (cid \<Rightarrow> gerr option) \<Rightarrow> (nat \<Rightarrow> nat) \<Rightarrow> gerr + cid list \<Rightarrow> gerr + cid list \<Rightarrow>
     dl \<Rightarrow> dl" where
  "queueRelated str exists_err clock siblings children s =
     (case siblings of
        Inl _ \<Rightarrow> s
      | Inr sibs \<Rightarrow>
          (case children of
             Inl _ \<Rightarrow> s
           | Inr chs \<Rightarrow>
               let n = length sibs in
               queue_existing str exists_err Low (zip chs (map clock [n..<n + length chs]))
                 (queue_existing str exists_err Medium (zip sibs (map clock [0..<n])) s)))"

section \<open>Callers and workers together\<close>

text \<open>\<open>x_running\<close> are the tasks that workers have taken and not yet removed from the map.\<close>

record dl_sys =
  x_d :: dl
  x_running :: "nat list"

inductive dl_step :: "(cid \<Rightarrow> string) \<Rightarrow> dl_sys \<Rightarrow> dl_sys \<Rightarrow> bool" for str where
  x_queue: "queueBlock str now c p ip (x_d x) = (s', a, new) \<Longrightarrow> dl_step str x (x\<lparr>x_d := s'\<rparr>)"
| x_pop: "worker_pop (x_d x) = Some (s', a) \<Longrightarrow>
     dl_step str x (x\<lparr>x_d := s', x_running := a # x_running x\<rparr>)"
| x_download: "a \<in> set (x_running x) \<Longrightarrow> \<not> t_closed (d_tasks (x_d x) ! a) \<Longrightarrow>
     doDownloadTask a r (x_d x) = (s', related) \<Longrightarrow> dl_step str x (x\<lparr>x_d := s'\<rparr>)"
| x_delete: "a \<in> set (x_running x) \<Longrightarrow> t_closed (d_tasks (x_d x) ! a) \<Longrightarrow>
     dl_step str x (x\<lparr>x_d := worker_delete str a (x_d x), x_running := remove1 a (x_running x)\<rparr>)"

inductive dl_reach :: "(cid \<Rightarrow> string) \<Rightarrow> dl_sys \<Rightarrow> bool" for str where
  dl_init: "dl_reach str \<lparr>x_d = NewBlockDownloader, x_running = []\<rparr>"
| dl_next: "dl_reach str x \<Longrightarrow> dl_step str x y \<Longrightarrow> dl_reach str y"

definition active :: "dl_sys \<Rightarrow> nat list" where
  "active x = d_queue (x_d x) @ x_running x"

definition task_key :: "(cid \<Rightarrow> string) \<Rightarrow> dl \<Rightarrow> nat \<Rightarrow> string" where
  "task_key str s a = cidKey str (t_cid (d_tasks s ! a))"

text \<open>
  The queue is a heap with right indices; the map points to the queued and running tasks, all of
  them and no others, each under its own key; no queued task is finished.
\<close>

definition dl_inv :: "(cid \<Rightarrow> string) \<Rightarrow> dl_sys \<Rightarrow> bool" where
  "dl_inv str x \<longleftrightarrow>
     index_ok (d_pq (x_d x)) \<and> pq_heap (d_pq (x_d x)) \<and>
     distinct (active x) \<and> set (active x) \<subseteq> {..<length (d_tasks (x_d x))} \<and>
     (\<forall>a \<in> set (active x). gm_get (d_inflight (x_d x)) (task_key str (x_d x) a) = Some a) \<and>
     (\<forall>k a. gm_get (d_inflight (x_d x)) k = Some a \<longrightarrow>
        a \<in> set (active x) \<and> task_key str (x_d x) a = k) \<and>
     (\<forall>a \<in> set (d_queue (x_d x)). \<not> t_closed (d_tasks (x_d x) ! a))"

lemma set_pq_simps [simp]: "d_tasks (set_pq h s) = fst h" "d_queue (set_pq h s) = snd h"
  "d_inflight (set_pq h s) = d_inflight s" "set_pq (d_pq s) s = s"
  by (simp_all add: set_pq_def)

lemma dl_invD:
  assumes "dl_inv str x"
  shows "index_ok (d_pq (x_d x))" "pq_heap (d_pq (x_d x))" "distinct (active x)"
    "set (active x) \<subseteq> {..<length (d_tasks (x_d x))}"
    "a \<in> set (active x) \<Longrightarrow> gm_get (d_inflight (x_d x)) (task_key str (x_d x) a) = Some a"
    "gm_get (d_inflight (x_d x)) k = Some a \<Longrightarrow> a \<in> set (active x)"
    "gm_get (d_inflight (x_d x)) k = Some a \<Longrightarrow> task_key str (x_d x) a = k"
    "a \<in> set (d_queue (x_d x)) \<Longrightarrow> \<not> t_closed (d_tasks (x_d x) ! a)"
  using assms unfolding dl_inv_def by blast+

lemma index_ok_fields: "index_ok (ts, q) \<Longrightarrow> length us = length ts \<Longrightarrow>
    (\<And>a. a < length ts \<Longrightarrow> t_index (us ! a) = t_index (ts ! a)) \<Longrightarrow> index_ok (us, q)"
  unfolding index_ok_def fst_conv snd_conv
  by (metis (no_types, lifting) lessThan_iff nth_mem subset_iff)

lemma heap_ok_cong: "tq.heap_ok ts n q \<Longrightarrow> n \<le> length q \<Longrightarrow>
    (\<And>a b. a \<in> set q \<Longrightarrow> b \<in> set q \<Longrightarrow> task_less us a b = task_less ts a b) \<Longrightarrow> tq.heap_ok us n q"
  unfolding tq.heap_ok_def
  by (metis (no_types, lifting) less_trans nat_neq_iff not_less nth_mem order.strict_trans2 parent_less)

text \<open>A change of tasks and queue that keeps the CIDs, and the marks of the queued tasks.\<close>

lemma dl_inv_update:
  assumes inv: "dl_inv str x" and h: "index_ok h" "pq_heap h"
    and m: "mset (snd h) = mset (d_queue (x_d x))" and l: "length (fst h) = length (d_tasks (x_d x))"
    and f: "\<And>b. b < length (fst h) \<Longrightarrow> t_cid (fst h ! b) = t_cid (d_tasks (x_d x) ! b)"
      "\<And>b. b \<in> set (d_queue (x_d x)) \<Longrightarrow> t_closed (fst h ! b) = t_closed (d_tasks (x_d x) ! b)"
  shows "dl_inv str (x\<lparr>x_d := set_pq h (x_d x)\<rparr>)" (is "dl_inv str ?y")
proof -
  have sq: "set (snd h) = set (d_queue (x_d x))" using m mset_eq_setD by blast
  have sa: "set (active ?y) = set (active x)" by (simp add: active_def sq)
  have "mset (active ?y) = mset (active x)" using m by (simp add: active_def)
  then have d: "distinct (active ?y)" using dl_invD(3) [OF inv] mset_eq_imp_distinct_iff by blast
  have key: "a \<in> set (active x) \<Longrightarrow> task_key str (x_d ?y) a = task_key str (x_d x) a" for a
    using f(1) [of a] dl_invD(4) [OF inv] l by (auto simp: task_key_def)
  show ?thesis
    using inv h d l sa key f(2) sq unfolding dl_inv_def
    by (intro conjI ballI allI impI) simp_all
qed

lemma dl_inv_raise:
  assumes inv: "dl_inv str x" and a: "a \<in> set (active x)" and p: "prio (t_priority (d_tasks (x_d x) ! a)) < prio p"
  defines "ts \<equiv> (d_tasks (x_d x))[a := (d_tasks (x_d x) ! a)\<lparr>t_priority := p\<rparr>]"
  shows "0 \<le> t_index (ts ! a) \<Longrightarrow>
      dl_inv str (x\<lparr>x_d := set_pq (heap_Fix (nat (t_index (ts ! a))) (ts, d_queue (x_d x))) (x_d x)\<rparr>)"
    and "\<not> 0 \<le> t_index (ts ! a) \<Longrightarrow> dl_inv str (x\<lparr>x_d := (x_d x)\<lparr>d_tasks := ts\<rparr>\<rparr>)"
proof -
  let ?ts = "d_tasks (x_d x)" and ?q = "d_queue (x_d x)"
  have al: "a < length ?ts" using a dl_invD(4) [OF inv] by auto
  have ix: "index_ok (?ts, ?q)" and hp: "pq_heap (?ts, ?q)" using dl_invD(1,2) [OF inv] by simp_all
  have ti: "t_index (ts ! a) = t_index (?ts ! a)" using al by (simp add: ts_def)
  have l: "length ts = length ?ts" by (simp add: ts_def)
  have fld: "t_cid (ts ! b) = t_cid (?ts ! b)" "t_closed (ts ! b) = t_closed (?ts ! b)"
    "t_index (ts ! b) = t_index (?ts ! b)" if "b < length ?ts" for b
    using al that by (simp_all add: ts_def nth_list_update)
  { assume pos: "0 \<le> t_index (ts ! a)"
    then have "a \<in> set ?q" using ix al ti by (force simp: index_ok_def)
    then obtain i where i: "i < length ?q" "?q ! i = a" by (auto simp: in_set_conv_nth)
    then have "nat (t_index (ts ! a)) = i" using ix ti by (auto simp: index_ok_def)
    moreover have "dl_inv str (x\<lparr>x_d := set_pq (heap_Fix i (ts, ?q)) (x_d x)\<rparr>)"
    proof (rule dl_inv_update [OF inv])
      note fx = heap_Fix_raised [OF ix hp i p, folded ts_def]
      show "index_ok (heap_Fix i (ts, ?q))" "pq_heap (heap_Fix i (ts, ?q))"
        "mset (snd (heap_Fix i (ts, ?q))) = mset ?q" using fx by simp_all
      show ll: "length (fst (heap_Fix i (ts, ?q))) = length ?ts"
        using strip_length [OF fx(4)] l by simp
      have qb: "b \<in> set ?q \<Longrightarrow> b < length ?ts" for b using ix by (auto simp: index_ok_def)
      fix b
      show "b < length (fst (heap_Fix i (ts, ?q))) \<Longrightarrow> t_cid (fst (heap_Fix i (ts, ?q)) ! b) = t_cid (?ts ! b)"
        using strip_fields(1) [OF fx(4)] fld ll by simp
      show "b \<in> set ?q \<Longrightarrow> t_closed (fst (heap_Fix i (ts, ?q)) ! b) = t_closed (?ts ! b)"
        using strip_fields(4) [OF fx(4)] fld ll qb [of b] by simp
    qed
    ultimately show "dl_inv str (x\<lparr>x_d := set_pq (heap_Fix (nat (t_index (ts ! a))) (ts, ?q)) (x_d x)\<rparr>)"
      by simp
  next
    assume neg: "\<not> 0 \<le> t_index (ts ! a)"
    have out: "a \<notin> set ?q"
    proof
      assume "a \<in> set ?q"
      then obtain i where "i < length ?q" "?q ! i = a" by (auto simp: in_set_conv_nth)
      then show False using ix ti neg by (auto simp: index_ok_def)
    qed
    have "dl_inv str (x\<lparr>x_d := set_pq (ts, ?q) (x_d x)\<rparr>)"
    proof (rule dl_inv_update [OF inv])
      show "index_ok (ts, ?q)" using index_ok_fields [OF ix l] fld by simp
      have "tq.heap_ok ts (length ?q) ?q"
      proof (rule heap_ok_cong [of ?ts "length ?q" ?q ts])
        fix b c assume "b \<in> set ?q" "c \<in> set ?q"
        then show "task_less ts b c = task_less ?ts b c"
          using out task_less_raised(1) [OF al p, folded ts_def, of b c] by metis
      qed (use hp in simp_all)
      then show "pq_heap (ts, ?q)" by simp
    qed (use fld l ix in \<open>auto simp: index_ok_def\<close>)
    then show "dl_inv str (x\<lparr>x_d := (x_d x)\<lparr>d_tasks := ts\<rparr>\<rparr>)" by (simp add: set_pq_def)
  }
qed

text \<open>A change of one task in a field that neither the order, the indices, the CIDs nor the marks of
  queued tasks depend on.\<close>

lemma dl_inv_field:
  assumes inv: "dl_inv str x"
    and t: "t_cid t = t_cid (d_tasks (x_d x) ! a)" "t_priority t = t_priority (d_tasks (x_d x) ! a)"
      "t_time t = t_time (d_tasks (x_d x) ! a)" "t_index t = t_index (d_tasks (x_d x) ! a)"
      "a \<in> set (d_queue (x_d x)) \<Longrightarrow> t_closed t = t_closed (d_tasks (x_d x) ! a)"
  shows "dl_inv str (x\<lparr>x_d := (x_d x)\<lparr>d_tasks := (d_tasks (x_d x))[a := t]\<rparr>\<rparr>)"
proof (cases "a < length (d_tasks (x_d x))")
  case False
  then show ?thesis using inv by (simp add: list_update_beyond)
next
  case True
  let ?ts = "d_tasks (x_d x)" and ?us = "(d_tasks (x_d x))[a := t]" and ?q = "d_queue (x_d x)"
  have same: "?us ! a = t" "\<And>b. b \<noteq> a \<Longrightarrow> ?us ! b = ?ts ! b" using True by simp_all
  have f: "t_cid (?us ! b) = t_cid (?ts ! b)" "t_priority (?us ! b) = t_priority (?ts ! b)"
    "t_time (?us ! b) = t_time (?ts ! b)" "t_index (?us ! b) = t_index (?ts ! b)"
    "b \<in> set ?q \<Longrightarrow> t_closed (?us ! b) = t_closed (?ts ! b)" for b
  proof -
    consider "b = a" "?us ! b = t" | "b \<noteq> a" "?us ! b = ?ts ! b" using same by metis
    then show "t_cid (?us ! b) = t_cid (?ts ! b)" "t_priority (?us ! b) = t_priority (?ts ! b)"
      "t_time (?us ! b) = t_time (?ts ! b)" "t_index (?us ! b) = t_index (?ts ! b)"
      "b \<in> set ?q \<Longrightarrow> t_closed (?us ! b) = t_closed (?ts ! b)"
      using t by (cases, metis, metis)+
  qed
  have tl: "task_less ?us = task_less ?ts" by (simp only: fun_eq_iff task_less_def f simp_thms)
  have "dl_inv str (x\<lparr>x_d := set_pq (?us, ?q) (x_d x)\<rparr>)"
  proof (rule dl_inv_update [OF inv])
    show "index_ok (?us, ?q)"
      by (rule index_ok_fields [OF dl_invD(1) [OF inv]]) (simp_all only: f(4) length_list_update)
    show "pq_heap (?us, ?q)" using dl_invD(2) [OF inv] by (simp only: fst_conv snd_conv tl)
    show "t_cid (fst (?us, ?q) ! b) = t_cid (?ts ! b)" for b using f(1) [of b] by (simp only: fst_conv)
    show "b \<in> set ?q \<Longrightarrow> t_closed (fst (?us, ?q) ! b) = t_closed (?ts ! b)" for b
      using f(5) [of b] by (simp only: fst_conv)
  qed simp_all
  then show ?thesis by (simp add: set_pq_def)
qed

lemma index_ok_snoc:
  assumes "index_ok (ts, q)" and "t_index t = -1"
  shows "index_ok (ts @ [t], q)"
proof -
  have b: "a \<in> set q \<Longrightarrow> a < length ts" for a using assms(1) by (auto simp: index_ok_def)
  have "i < length q \<Longrightarrow> t_index ((ts @ [t]) ! (q ! i)) = int i" for i
    using assms(1) b [of "q ! i"] by (simp add: index_ok_def nth_append)
  moreover have "a < Suc (length ts) \<Longrightarrow> a \<notin> set q \<Longrightarrow> t_index ((ts @ [t]) ! a) = -1" for a
    using assms by (cases "a = length ts") (simp_all add: index_ok_def nth_append)
  ultimately show ?thesis
    using assms(1) b unfolding index_ok_def fst_conv snd_conv by (simp add: less_SucI subset_iff)
qed

lemma heap_ok_snoc:
  assumes "tq.heap_ok ts (length q) q" and "set q \<subseteq> {..<length ts}"
  shows "tq.heap_ok (ts @ [t]) (length q) q"
proof (rule heap_ok_cong [OF assms(1)])
  fix a b assume "a \<in> set q" "b \<in> set q"
  then have "(ts @ [t]) ! a = ts ! a" "(ts @ [t]) ! b = ts ! b"
    using assms(2) by (auto simp: nth_append)
  then show "task_less (ts @ [t]) a b = task_less ts a b" by (simp only: task_less_def)
qed simp

lemma heap_Push_snoc:
  "heap_Push (length ts) (ts @ [t\<lparr>t_index := i\<rparr>], q) = heap_Push (length ts) (ts @ [t], q)"
proof -
  have "pq_Push (length ts) (ts @ [t\<lparr>t_index := i\<rparr>], q) = pq_Push (length ts) (ts @ [t], q)"
    by (simp add: pq_Push_def set_index_def)
  then show ?thesis unfolding heap_Push_def by (rule arg_cong)
qed

lemma dl_inv_queueBlock:
  assumes inv: "dl_inv str x" and q: "queueBlock str now c p ip (x_d x) = (s', a, new)"
  shows "dl_inv str (x\<lparr>x_d := s'\<rparr>) \<and> gm_get (d_inflight s') (cidKey str c) = Some a"
proof (cases "gm_get (d_inflight (x_d x)) (cidKey str c)")
  case (Some b)
  have b: "b \<in> set (active x)" using dl_invD(6) [OF inv Some] .
  let ?s1 = "raise_priority b p (x_d x)"
  have s': "s' = fill_client b ip ?s1" and ab: "a = b"
    using q Some by (auto simp: queueBlock_def)
  have inv1: "dl_inv str (x\<lparr>x_d := ?s1\<rparr>)"
    using dl_inv_raise [OF inv b] inv by (simp add: raise_priority_def Let_def)
  have "dl_inv str (x\<lparr>x_d := s'\<rparr>)"
    using inv1 dl_inv_field [OF inv1, of "(d_tasks ?s1 ! b)\<lparr>t_ip := ip\<rparr>" b]
    by (simp add: s' fill_client_def)
  moreover have "d_inflight s' = d_inflight (x_d x)"
    by (simp add: s' fill_client_def raise_priority_def Let_def)
  ultimately show ?thesis using Some ab by simp
next
  case None
  let ?ts = "d_tasks (x_d x)" and ?q = "d_queue (x_d x)"
  let ?a = "length ?ts" and ?us = "d_tasks (x_d x) @ [new_task c p ip now]"
  let ?h = "heap_Push ?a (?us, ?q)"
  let ?k = "cidKey str c"
  have s': "s' = set_pq ?h ((x_d x)\<lparr>d_tasks := ?us, d_inflight := gm_set ?k ?a (d_inflight (x_d x))\<rparr>)"
    and a: "a = ?a" using q None by (auto simp: queueBlock_def Let_def)
  note D = dl_invD [OF inv]
  have bound: "b < ?a" if "b \<in> set (active x)" for b using D(4) that by auto
  have qb: "b \<in> set ?q \<Longrightarrow> b \<in> set (active x)" for b by (simp add: active_def)
  have P: "index_ok ?h" "pq_heap ?h" "mset (snd ?h) = add_mset ?a (mset ?q)" "strip (fst ?h) = strip ?us"
  proof -
    let ?vs = "d_tasks (x_d x) @ [(new_task c p ip now)\<lparr>t_index := -1\<rparr>]"
    have ix: "index_ok (?vs, ?q)" using D(1) by (rule index_ok_snoc) simp
    have eq: "heap_Push ?a (?vs, ?q) = ?h" by (rule heap_Push_snoc)
    have "tq.heap_ok ?vs (length ?q) ?q"
    proof (rule heap_ok_snoc)
      show "tq.heap_ok ?ts (length ?q) ?q" using D(2) by simp
      show "set ?q \<subseteq> {..<length ?ts}" using bound qb by blast
    qed
    then have hp0: "pq_heap (?vs, ?q)" by simp
    have new: "?a < length (fst (?vs, ?q))" "?a \<notin> set (snd (?vs, ?q))" using bound qb by auto
    note R = heap_Push_correct [OF ix hp0 new, unfolded eq]
    have "strip (fst ?h) = strip ?us" using R(4) by (simp add: strip_def)
    then show "strip (fst ?h) = strip ?us" .
    show "index_ok ?h" by (rule R(1))
    show "pq_heap ?h" by (rule R(2))
    show "mset (snd ?h) = add_mset ?a (mset ?q)" using R(3) by simp
  qed
  have len: "length (fst ?h) = Suc ?a" using strip_length [OF P(4)] by simp
  have cid: "t_cid (fst ?h ! b) = t_cid (?us ! b)" "t_closed (fst ?h ! b) = t_closed (?us ! b)"
    if "b < Suc ?a" for b using strip_fields(1,4) [OF P(4)] len that by simp_all
  let ?y = "x\<lparr>x_d := s'\<rparr>"
  have ma: "mset (active ?y) = add_mset ?a (mset (active x))" using P(3) by (simp add: active_def s')
  have sa: "set (active ?y) = insert ?a (set (active x))"
    using ma by (metis set_mset_add_mset_insert set_mset_mset)
  have dis: "distinct (active ?y)"
  proof -
    have "distinct (?a # active x)" using D(3) bound by auto
    then show ?thesis using ma mset_eq_imp_distinct_iff [of "active ?y" "?a # active x"] by simp
  qed
  have key: "task_key str s' b = (if b = ?a then ?k else task_key str (x_d x) b)" if "b < Suc ?a" for b
    using cid [OF that] that by (auto simp: task_key_def s' nth_append new_task_def)
  have fresh: "task_key str (x_d x) b \<noteq> ?k" if "b \<in> set (active x)" for b
    using D(5) [OF that] None by auto
  have infl: "gm_get (d_inflight s') k = (if k = ?k then Some ?a else gm_get (d_inflight (x_d x)) k)" for k
    by (simp add: s' gm_simps)
  have "\<forall>b \<in> set (active ?y). gm_get (d_inflight s') (task_key str s' b) = Some b"
  proof
    fix b assume "b \<in> set (active ?y)"
    then consider "b = ?a" | "b \<in> set (active x)" using sa by blast
    then show "gm_get (d_inflight s') (task_key str s' b) = Some b"
    proof cases
      case 1 then show ?thesis using key [of b] infl by simp
    next
      case 2
      then show ?thesis using key [of b] bound [OF 2] fresh [OF 2] D(5) [OF 2] infl by simp
    qed
  qed
  moreover have "\<forall>k b. gm_get (d_inflight s') k = Some b \<longrightarrow> b \<in> set (active ?y) \<and> task_key str s' b = k"
  proof (intro allI impI)
    fix k b assume g: "gm_get (d_inflight s') k = Some b"
    show "b \<in> set (active ?y) \<and> task_key str s' b = k"
    proof (cases "k = ?k")
      case True then show ?thesis using g key [of ?a] sa infl by simp
    next
      case False
      then have g': "gm_get (d_inflight (x_d x)) k = Some b" using g infl by simp
      then show ?thesis using D(6) [OF g'] D(7) [OF g'] bound [OF D(6) [OF g']] key [of b] sa by auto
    qed
  qed
  moreover have "\<forall>b \<in> set (snd ?h). \<not> t_closed (fst ?h ! b)"
  proof
    fix b assume "b \<in> set (snd ?h)"
    then consider "b = ?a" | "b \<in> set ?q"
      using P(3) by (metis insert_iff set_mset_add_mset_insert set_mset_mset)
    then show "\<not> t_closed (fst ?h ! b)"
    proof cases
      case 1 then show ?thesis using cid(2) [of b] by (simp add: new_task_def)
    next
      case 2
      then have "b < ?a" using bound qb by blast
      then show ?thesis using D(8) [OF 2] cid(2) [of b] by (simp add: nth_append)
    qed
  qed
  ultimately have "dl_inv str ?y"
    using P(1,2) dis sa bound len unfolding dl_inv_def by (auto simp: s' less_SucI)
  then show ?thesis by (simp add: s' a gm_simps)
qed

lemma dl_inv_pop:
  assumes inv: "dl_inv str x" and pop: "worker_pop (x_d x) = Some (s', a)"
  shows "dl_inv str (x\<lparr>x_d := s', x_running := a # x_running x\<rparr>)" (is "dl_inv str ?y")
    and "\<forall>b \<in> set (d_queue (x_d x)). \<not> task_less (d_tasks (x_d x)) b a"
    and "a \<in> set (d_queue (x_d x))"
proof -
  let ?h = "d_pq (x_d x)"
  note D = dl_invD [OF inv]
  obtain h' where h': "heap_Pop ?h = (h', a)" and s': "s' = set_pq h' (x_d x)" and ne: "snd ?h \<noteq> []"
    using pop by (auto simp: worker_pop_def split_def Let_def split: if_splits)
      (metis prod.collapse)
  note P = heap_Pop_correct [OF D(1,2) ne h']
  show "\<forall>b \<in> set (d_queue (x_d x)). \<not> task_less (d_tasks (x_d x)) b a" using P(5) by simp
  show aq: "a \<in> set (d_queue (x_d x))"
    using P(3) by (metis set_mset_mset snd_conv union_single_eq_member)
  have ma: "mset (active ?y) = mset (active x)" using P(3) by (simp add: active_def s')
  have sa: "set (active ?y) = set (active x)" using ma mset_eq_setD by blast
  have len: "length (fst h') = length (d_tasks (x_d x))" using strip_length [OF P(4)] by simp
  have bound: "b \<in> set (active x) \<Longrightarrow> b < length (d_tasks (x_d x))" for b using D(4) by auto
  have key: "b \<in> set (active x) \<Longrightarrow> task_key str s' b = task_key str (x_d x) b" for b
    using strip_fields(1) [OF P(4)] bound len by (simp add: task_key_def s')
  have "set (snd h') \<subseteq> set (d_queue (x_d x))"
    using P(3) by (metis set_mset_mset snd_conv set_mset_add_mset_insert subset_insertI)
  then have cl: "\<forall>b \<in> set (snd h'). \<not> t_closed (fst h' ! b)"
    using D(8) strip_fields(4) [OF P(4)] bound len by (auto simp: active_def)
  have "distinct (active ?y)" using ma D(3) mset_eq_imp_distinct_iff by blast
  then show "dl_inv str ?y"
    using inv P(1,2) sa len key cl unfolding dl_inv_def
    by (intro conjI ballI allI impI) (simp_all add: s')
qed

lemma dl_inv_download:
  assumes inv: "dl_inv str x" and a: "a \<in> set (x_running x)" and d: "doDownloadTask a r (x_d x) = (s', rel)"
  shows "dl_inv str (x\<lparr>x_d := s'\<rparr>)"
proof -
  have out: "a \<notin> set (d_queue (x_d x))"
    using a dl_invD(3) [OF inv] by (auto simp: active_def)
  show ?thesis
    using d out dl_inv_field [OF inv, of "(d_tasks (x_d x) ! a)\<lparr>t_err := Some e, t_closed := True\<rparr>" a for e]
      dl_inv_field [OF inv, of "(d_tasks (x_d x) ! a)\<lparr>t_b := Some b, t_closed := True\<rparr>" a for b]
    by (cases r) (auto simp: doDownloadTask_def Let_def)
qed

lemma dl_inv_delete:
  assumes inv: "dl_inv str x" and a: "a \<in> set (x_running x)"
  shows "dl_inv str (x\<lparr>x_d := worker_delete str a (x_d x), x_running := remove1 a (x_running x)\<rparr>)"
    (is "dl_inv str ?y")
proof -
  note D = dl_invD [OF inv]
  have aa: "a \<in> set (active x)" using a by (simp add: active_def)
  have da: "distinct (d_queue (x_d x))" "distinct (x_running x)" "a \<notin> set (d_queue (x_d x))"
    using D(3) a by (auto simp: active_def)
  then have sa: "set (active ?y) = set (active x) - {a}"
    by (auto simp: active_def worker_delete_def)
  have dis: "distinct (active ?y)" using D(3) by (auto simp: active_def worker_delete_def)
  have key: "task_key str (x_d ?y) = task_key str (x_d x)"
    by (simp add: fun_eq_iff task_key_def worker_delete_def)
  have infl: "gm_get (d_inflight (x_d ?y)) k = (if k = task_key str (x_d x) a then None
      else gm_get (d_inflight (x_d x)) k)" for k
    by (simp add: worker_delete_def task_key_def gm_simps)
  have same: "d_queue (x_d ?y) = d_queue (x_d x)" "d_tasks (x_d ?y) = d_tasks (x_d x)"
    by (simp_all add: worker_delete_def)
  have "task_key str (x_d x) b \<noteq> task_key str (x_d x) a" if "b \<in> set (active x)" "b \<noteq> a" for b
    using D(5) [OF that(1)] D(5) [OF aa] that(2) by auto
  then have "\<forall>b \<in> set (active ?y). gm_get (d_inflight (x_d ?y)) (task_key str (x_d ?y) b) = Some b"
    using D(5) unfolding sa key infl by auto
  moreover have "\<forall>k b. gm_get (d_inflight (x_d ?y)) k = Some b \<longrightarrow>
      b \<in> set (active ?y) \<and> task_key str (x_d ?y) b = k"
    using D(6,7) unfolding sa key infl by (auto split: if_splits)
  moreover have "set (active ?y) \<subseteq> {..<length (d_tasks (x_d x))}" using D(4) unfolding sa by auto
  ultimately show ?thesis
    using D(1,2,8) dis unfolding dl_inv_def same by blast
qed

lemma dl_reach_inv: "dl_reach str x \<Longrightarrow> dl_inv str x"
proof (induction rule: dl_reach.induct)
  case dl_init
  show ?case by (simp add: dl_inv_def NewBlockDownloader_def index_ok_def active_def tq.heap_ok_def)
next
  case (dl_next x y)
  from dl_next(2) dl_next(3) show ?case
    by cases (auto dest: dl_inv_queueBlock dl_inv_pop(1) dl_inv_download intro: dl_inv_delete)
qed

section \<open>Properties\<close>

text \<open>Two callers ask for two blocks, the second one as a prefetch.\<close>

definition ex_c1 :: cid where "ex_c1 = Cid 1 85 ''a''"
definition ex_c2 :: cid where "ex_c2 = Cid 1 85 ''b''"

definition ex_dl :: "dl" where
  "ex_dl = fst (queueBlock cid_hash 7 ex_c2 Low [] (fst (queueBlock cid_hash 9 ex_c1 Max ''ip'' NewBlockDownloader)))"

lemma ex_dl_reach: "dl_reach cid_hash \<lparr>x_d = ex_dl, x_running = []\<rparr>"
proof -
  let ?x0 = "\<lparr>x_d = NewBlockDownloader, x_running = []\<rparr>"
  obtain s1 a1 n1 where q1: "queueBlock cid_hash 9 ex_c1 Max ''ip'' NewBlockDownloader = (s1, a1, n1)"
    by (metis prod_cases3)
  from dl_reach.dl_next [OF dl_reach.dl_init dl_step.x_queue [of cid_hash 9 ex_c1 Max "''ip''" ?x0]] q1
  have r1: "dl_reach cid_hash \<lparr>x_d = s1, x_running = []\<rparr>" by simp
  obtain s2 a2 n2 where q2: "queueBlock cid_hash 7 ex_c2 Low [] s1 = (s2, a2, n2)"
    by (metis prod_cases3)
  from dl_reach.dl_next [OF r1 dl_step.x_queue [of cid_hash 7 ex_c2 Low "[]"]] q2
  have "dl_reach cid_hash \<lparr>x_d = s2, x_running = []\<rparr>" by simp
  then show ?thesis by (simp add: ex_dl_def q1 q2)
qed

lemma ex_dl_pop: "(case worker_pop ex_dl of Some (s, a) \<Rightarrow> a = 0 \<and> d_queue s = [1] | None \<Rightarrow> False)"
  by code_simp

text \<open>C25. The task a worker takes is the most urgent: no queued task has a higher priority, and among those
  of its priority none was queued before it, however requests, raises of priority, pops and
  completions have interleaved.\<close>

theorem downloader_takes_most_urgent:
  assumes "dl_reach str x" and "worker_pop (x_d x) = Some (s', a)" and "b \<in> set (d_queue (x_d x))"
  shows "a \<in> set (d_queue (x_d x)) \<and>
    (t_priority (d_tasks (x_d x) ! b) < t_priority (d_tasks (x_d x) ! a) \<or>
     t_priority (d_tasks (x_d x) ! b) = t_priority (d_tasks (x_d x) ! a) \<and>
     t_time (d_tasks (x_d x) ! a) \<le> t_time (d_tasks (x_d x) ! b))"
proof -
  have "\<not> task_less (d_tasks (x_d x)) b a"
    using dl_inv_pop(2) [OF dl_reach_inv [OF assms(1)] assms(2)] assms(3) by blast
  then show ?thesis
    using dl_inv_pop(3) [OF dl_reach_inv [OF assms(1)] assms(2)]
    using prio_inject [of "t_priority (d_tasks (x_d x) ! b)" "t_priority (d_tasks (x_d x) ! a)"]
    by (fastforce simp: task_less_def not_less simp del: prio_inject split: if_splits)
qed

theorem downloader_takes_most_urgent_witness:
  "t_priority (d_tasks ex_dl ! 1) < t_priority (d_tasks ex_dl ! 0)"
proof -
  obtain s a where p: "worker_pop ex_dl = Some (s, a)" "a = 0"
    using ex_dl_pop by (auto split: option.splits)
  have q: "1 \<in> set (d_queue ex_dl)" "t_priority (d_tasks ex_dl ! 1) \<noteq> t_priority (d_tasks ex_dl ! 0)"
    by code_simp+
  show ?thesis using downloader_takes_most_urgent [OF ex_dl_reach, of s a 1] p q by simp
qed

text \<open>C31. At any time at most one download of a block is queued or running: the keys of the active tasks
  are distinct, and the map finds the active task of each key.\<close>

theorem downloader_one_per_block:
  assumes "dl_reach str x"
  shows "distinct (map (task_key str (x_d x)) (active x)) \<and>
    (\<forall>k a. gm_get (d_inflight (x_d x)) k = Some a \<longleftrightarrow>
       a \<in> set (active x) \<and> task_key str (x_d x) a = k)"
proof -
  note D = dl_invD [OF dl_reach_inv [OF assms]]
  have "inj_on (task_key str (x_d x)) (set (active x))"
    using D(5) by (intro inj_onI) (metis option.inject)
  then show ?thesis using D(3,5-7) by (auto simp: distinct_map)
qed

theorem downloader_one_per_block_witness:
  "distinct (map (task_key cid_hash ex_dl) [0, 1])"
proof -
  have "active \<lparr>x_d = ex_dl, x_running = []\<rparr> = [0, 1]" by code_simp
  then show ?thesis using downloader_one_per_block [OF ex_dl_reach] by simp
qed

lemma raise_priority_tasks:
  assumes inv: "dl_inv str x" and a: "a \<in> set (active x)"
  shows "length (d_tasks (raise_priority a p (x_d x))) = length (d_tasks (x_d x)) \<and>
    t_priority (d_tasks (raise_priority a p (x_d x)) ! a) = max (t_priority (d_tasks (x_d x) ! a)) p \<and>
    t_cid (d_tasks (raise_priority a p (x_d x)) ! a) = t_cid (d_tasks (x_d x) ! a)"
proof (cases "t_priority (d_tasks (x_d x) ! a) < p")
  case False
  then show ?thesis by (simp add: raise_priority_def max_def)
next
  case True
  let ?ts = "d_tasks (x_d x)" and ?q = "d_queue (x_d x)"
  let ?us = "?ts[a := (?ts ! a)\<lparr>t_priority := p\<rparr>]"
  have al: "a < length ?ts" using a dl_invD(4) [OF inv] by auto
  have ua: "t_priority (?us ! a) = p" "t_cid (?us ! a) = t_cid (?ts ! a)" "t_index (?us ! a) = t_index (?ts ! a)"
    using al by simp_all
  have mx: "max (t_priority (?ts ! a)) p = p" using True by (simp add: max_def)
  show ?thesis
  proof (cases "0 \<le> t_index (?us ! a)")
    case False
    then show ?thesis using True ua mx by (simp add: raise_priority_def Let_def)
  next
    case pos: True
    have ix: "index_ok (?ts, ?q)" and hp: "pq_heap (?ts, ?q)" using dl_invD(1,2) [OF inv] by simp_all
    have "a \<in> set ?q" using ix al pos ua(3) by (force simp: index_ok_def)
    then obtain i where i: "i < length ?q" "?q ! i = a" by (auto simp: in_set_conv_nth)
    then have ti: "nat (t_index (?us ! a)) = i" using ix ua(3) by (auto simp: index_ok_def)
    have p: "prio (t_priority (?ts ! a)) < prio p" using True by simp
    have st: "strip (fst (heap_Fix i (?us, ?q))) = strip ?us" using heap_Fix_raised(4) [OF ix hp i p] .
    have eq: "d_tasks (raise_priority a p (x_d x)) = fst (heap_Fix i (?us, ?q))"
      using True pos ti by (simp add: raise_priority_def Let_def)
    show ?thesis
      using strip_length [OF st] strip_fields(1,2) [OF st, of a] al ua mx by (simp add: eq)
  qed
qed

lemma fill_client_tasks: "a < length (d_tasks s) \<Longrightarrow>
   length (d_tasks (fill_client a ip s)) = length (d_tasks s) \<and>
   t_priority (d_tasks (fill_client a ip s) ! a) = t_priority (d_tasks s ! a) \<and>
   t_cid (d_tasks (fill_client a ip s) ! a) = t_cid (d_tasks s ! a)"
  by (simp add: fill_client_def)

text \<open>The task \<open>Get\<close> waits on is queued or being downloaded, is one for the block asked for, and is
  at the highest priority; when the block was already in flight it is that download, and no task
  is added.\<close>

lemma downloader_get_joins:
  assumes r: "dl_reach str x" and g: "dl_Get str exists_err now cx c (x_d x) = Inr (s', a)"
  shows "a \<in> set (active (x\<lparr>x_d := s'\<rparr>)) \<and> task_key str s' a = cidKey str c \<and>
    t_priority (d_tasks s' ! a) = Max \<and>
    (case gm_get (d_inflight (x_d x)) (cidKey str c) of
       Some b \<Rightarrow> a = b \<and> length (d_tasks s') = length (d_tasks (x_d x))
     | None \<Rightarrow> a = length (d_tasks (x_d x)) \<and> length (d_tasks s') = Suc (length (d_tasks (x_d x))))"
proof -
  note inv = dl_reach_inv [OF r]
  obtain new where q: "queueBlock str now c Max (GetClientIP cx) (x_d x) = (s', a, new)"
    using g by (auto simp: dl_Get_def split: option.splits prod.splits)
  have inv': "dl_inv str (x\<lparr>x_d := s'\<rparr>)" and fl: "gm_get (d_inflight s') (cidKey str c) = Some a"
    using dl_inv_queueBlock [OF inv q] by simp_all
  have act: "a \<in> set (active (x\<lparr>x_d := s'\<rparr>))" "task_key str s' a = cidKey str c"
    using dl_invD(6,7) [OF inv'] fl by fastforce+
  show ?thesis
  proof (cases "gm_get (d_inflight (x_d x)) (cidKey str c)")
    case (Some b)
    have b: "b \<in> set (active x)" using dl_invD(6) [OF inv Some] .
    have "s' = fill_client b (GetClientIP cx) (raise_priority b Max (x_d x))" and ab: "a = b"
      using q Some by (auto simp: queueBlock_def)
    moreover have "b < length (d_tasks (x_d x))" using dl_invD(4) [OF inv] b by auto
    moreover have "max p Max = Max" for p by (cases p) (simp_all add: max_def)
    ultimately show ?thesis
      using raise_priority_tasks [OF inv b, of Max] fill_client_tasks [of b "raise_priority b Max (x_d x)"]
        Some act by simp
  next
    case None
    let ?a = "length (d_tasks (x_d x))" and ?us = "d_tasks (x_d x) @ [new_task c Max (GetClientIP cx) now]"
    have s': "d_tasks s' = fst (heap_Push ?a (?us, d_queue (x_d x)))" and a: "a = ?a"
      using q None by (auto simp: queueBlock_def Let_def)
    have "strip (d_tasks s') = strip ?us"
      unfolding s' by (simp add: heap_Push_def pq_Push_def Let_def)
    from strip_length [OF this] strip_fields(2) [OF this, of ?a] show ?thesis
      using None act a by (simp add: new_task_def)
  qed
qed

lemma downloader_get_joins_example:
  "t_priority (d_tasks (fst (projr (dl_Get cid_hash (\<lambda>_. None) 11 Background ex_c2 ex_dl))) ! 1) = Max"
proof -
  have "dl_Get cid_hash (\<lambda>_. None) 11 Background ex_c2 ex_dl =
      Inr (fst (projr (dl_Get cid_hash (\<lambda>_. None) 11 Background ex_c2 ex_dl)), 1)"
    by code_simp
  then show ?thesis using downloader_get_joins [OF ex_dl_reach, of "\<lambda>_. None" 11 Background ex_c2] by simp
qed

text \<open>The data a download returns hashes to the multihash of the CID asked for, under SHA2-256: an object
  that was altered, cut short or has another hash function is an error.\<close>

lemma downloader_data_verified:
  assumes "downloadBlockData download mh_type mh_sum c = Inr b"
  shows "download c = Inr (b, None) \<and> mh_type (cid_hash c) = 18 \<and> mh_sum b 18 = Inr (cid_hash c)"
  using assms by (auto simp: downloadBlockData_def split: sum.splits option.splits if_splits prod.splits)

lemma downloader_data_verified_example:
  "(\<lambda>b (_ :: nat). Inr b :: gerr + bytes) ''a'' 18 = Inr (cid_hash ex_c1)"
  using downloader_data_verified [of "\<lambda>c. Inr (''a'', None)" "\<lambda>_. 18" "\<lambda>b _. Inr b" ex_c1 "''a''"]
  by (simp add: downloadBlockData_def ex_c1_def)

end
