(* ===== verification/MetadataStore.thy ===== *)
theory MetadataStore
  imports Cid_Context
begin

text \<open>
  \<^verbatim>\<open>internal/protocol/store/metadata.go\<close> over the tables of \<^verbatim>\<open>internal/db/ipfs_block.go\<close>,
  \<^verbatim>\<open>ipfs_linked_block.go\<close> and \<^verbatim>\<open>unixfs_node.go\<close>: which blocks are pinned, how they link, and the
  UnixFS facts about them.  A table is a list of its rows in the order of their ids; a column
  that holds a CID's bytes holds the CID.  Every operation takes \<open>fault\<close>, the error the database
  ends the transaction with, or \<open>None\<close>; an error inside a transaction undoes it.  \<open>fk\<close> says whether
  the database enforces foreign keys.
\<close>

section \<open>Tables\<close>

record block_row =
  br_id :: nat
  br_cid :: cid
  br_size :: nat
  br_ann :: "nat option"       \<comment> \<open>\<open>LastAnnouncement\<close>\<close>
  br_ready :: bool

record link_row =
  lr_parent :: "nat option"
  lr_child :: nat
  lr_index :: nat

record unixfs_node =
  un_name :: string
  un_type :: nat
  un_size :: int
  un_children :: "cid list"

record unixfs_row =
  ur_block :: nat
  ur_node :: unixfs_node
  ur_deleted :: bool           \<comment> \<open>\<open>deleted_at\<close> is set\<close>

record meta_db =
  md_blocks :: "block_row list"
  md_links :: "link_row list"
  md_unixfs :: "unixfs_row list"
  md_next :: nat

definition find_block :: "cid \<Rightarrow> meta_db \<Rightarrow> block_row option" where
  "find_block c db = find (\<lambda>r. br_cid r = c) (md_blocks db)"

definition block_at :: "nat \<Rightarrow> meta_db \<Rightarrow> block_row option" where
  "block_at i db = find (\<lambda>r. br_id r = i) (md_blocks db)"

text \<open>\<open>IPFSBlock.BeforeSave\<close>.\<close>

definition block_BeforeSave :: "block_row \<Rightarrow> block_row" where
  "block_BeforeSave r = r\<lparr>br_cid := NormalizeCid (br_cid r)\<rparr>"

text \<open>\<open>db.RetryableTransaction\<close>: it commits or, at an error, leaves the database as it was.\<close>

definition in_tx :: "gerr option \<Rightarrow> (meta_db \<Rightarrow> gerr + meta_db) \<Rightarrow> meta_db \<Rightarrow> (gerr + unit) \<times> meta_db" where
  "in_tx fault f db =
     (case fault of
        Some e \<Rightarrow> (Inl e, db)
      | None \<Rightarrow> (case f db of Inl e \<Rightarrow> (Inl e, db) | Inr db' \<Rightarrow> (Inr (), db')))"

text \<open>A loop that stops at the first error.\<close>

fun fold_err :: "('a \<Rightarrow> 's \<Rightarrow> gerr + 's) \<Rightarrow> 'a list \<Rightarrow> 's \<Rightarrow> gerr + 's" where
  "fold_err f [] s = Inr s"
| "fold_err f (x # xs) s = (case f x s of Inl e \<Rightarrow> Inl e | Inr s' \<Rightarrow> fold_err f xs s')"

section \<open>UnixFS metadata of a block\<close>

datatype unixfs_type = TRaw | TDirectory | TFile | TMetadata | TSymlink | THAMTShard

text \<open>What \<open>dagnode.AnalyzeNode\<close> finds; \<open>cast\<close> is \<open>cid.Cast\<close>.\<close>

record analyzed =
  an_unixfs :: bool
  an_type :: unixfs_type
  an_file_size :: nat
  an_names :: "string list"
  an_cids :: "bytes list"
  an_sizes :: "nat list"

record pinned_block =
  p_cid :: cid
  p_links :: "cid list"
  p_size :: nat
  p_node :: "gerr + analyzed"  \<comment> \<open>the node, as its analysis\<close>

fun unixfs_type_code :: "unixfs_type \<Rightarrow> nat option" where
  "unixfs_type_code TFile = Some 2"
| "unixfs_type_code TDirectory = Some 1"
| "unixfs_type_code TSymlink = Some 4"
| "unixfs_type_code THAMTShard = Some 5"
| "unixfs_type_code _ = None"

definition ExtractNodeMetadata :: "(bytes \<Rightarrow> cid option) \<Rightarrow> pinned_block \<Rightarrow> gerr + unixfs_node" where
  "ExtractNodeMetadata cast b =
     (case p_node b of
        Inl e \<Rightarrow> Inl e
      | Inr an \<Rightarrow>
          if \<not> an_unixfs an then Inl (Opaque ''node is not a UnixFS node'')
          else (case unixfs_type_code (an_type an) of
             None \<Rightarrow> Inl (Opaque ''unsupported UnixFS type'')
           | Some t \<Rightarrow>
               if length (an_names an) \<noteq> length (an_cids an) \<or> length (an_sizes an) \<noteq> length (an_cids an)
               then Inl (Opaque ''inconsistent link array lengths'')
               else Inr \<lparr>un_name = [], un_type = t,
                         un_size = (if an_type an = TFile then int (an_file_size an) else 0),
                         un_children = map NormalizeCid (List.map_filter cast (an_cids an))\<rparr>))"

section \<open>Pinning\<close>

text \<open>A block made ready outside the transaction, with its UnixFS row if it has one.\<close>

record prepared_block =
  pb_cid :: cid
  pb_links :: "cid list"
  pb_size :: nat
  pb_unixfs :: "unixfs_node option"

definition prepare :: "(bytes \<Rightarrow> cid option) \<Rightarrow> pinned_block \<Rightarrow> prepared_block" where
  "prepare cast b =
     (let b' = b\<lparr>p_cid := NormalizeCid (p_cid b), p_links := lo_uniq (map NormalizeCid (p_links b))\<rparr>
      in \<lparr>pb_cid = p_cid b', pb_links = p_links b', pb_size = p_size b',
          pb_unixfs = (case ExtractNodeMetadata cast b' of Inr u \<Rightarrow> Some u | Inl _ \<Rightarrow> None)\<rparr>)"

definition new_block :: "cid \<Rightarrow> nat \<Rightarrow> bool \<Rightarrow> meta_db \<Rightarrow> meta_db" where
  "new_block c sz ready db =
     db\<lparr>md_blocks := md_blocks db @
          [block_BeforeSave \<lparr>br_id = md_next db, br_cid = c, br_size = sz, br_ann = None, br_ready = ready\<rparr>],
        md_next := md_next db + 1\<rparr>"

text \<open>\<open>ensureChildBlocksFromSet\<close>: one \<open>INSERT ... ON CONFLICT DO NOTHING\<close> of a placeholder per CID.\<close>

definition ensure_child :: "cid \<Rightarrow> meta_db \<Rightarrow> meta_db" where
  "ensure_child c db = (if find_block c db \<noteq> None then db else new_block c 0 False db)"

definition ensureChildBlocksFromSet :: "cid list \<Rightarrow> meta_db \<Rightarrow> meta_db" where
  "ensureChildBlocksFromSet cs db = fold ensure_child cs db"

definition ensureChildBlocks :: "prepared_block \<Rightarrow> meta_db \<Rightarrow> meta_db" where
  "ensureChildBlocks pb db = ensureChildBlocksFromSet (lo_uniq (pb_links pb)) db"

text \<open>The upsert of the block's own row, with the id read back.\<close>

definition upsert_block :: "cid \<Rightarrow> nat \<Rightarrow> meta_db \<Rightarrow> meta_db \<times> nat" where
  "upsert_block c sz db =
     (case find_block c db of
        Some r \<Rightarrow>
          (db\<lparr>md_blocks := map (\<lambda>x. if br_cid x = c then x\<lparr>br_size := sz, br_ready := True\<rparr> else x)
                             (md_blocks db)\<rparr>, br_id r)
      | None \<Rightarrow> (new_block c sz True db, md_next db))"

definition upsert_unixfs :: "nat \<Rightarrow> unixfs_node \<Rightarrow> meta_db \<Rightarrow> meta_db" where
  "upsert_unixfs i u db =
     (if \<exists>x \<in> set (md_unixfs db). ur_block x = i
      then db\<lparr>md_unixfs := map (\<lambda>x. if ur_block x = i then x\<lparr>ur_node := u\<rparr> else x) (md_unixfs db)\<rparr>
      else db\<lparr>md_unixfs := md_unixfs db @ [\<lparr>ur_block = i, ur_node = u, ur_deleted = False\<rparr>]\<rparr>)"

definition link_key :: "link_row \<Rightarrow> nat option \<times> nat \<times> nat" where
  "link_key l = (lr_parent l, lr_child l, lr_index l)"

text \<open>The constraint \<open>UNIQUE (parent_id, child_id, link_index)\<close>; two NULLs are different.\<close>

definition links_unique :: "link_row list \<Rightarrow> bool" where
  "links_unique ls \<longleftrightarrow> distinct (map link_key (filter (\<lambda>l. lr_parent l \<noteq> None) ls))"

text \<open>One link of a block: the row is inserted or, when it is there, an orphan row is adopted.\<close>

definition link_child :: "nat \<Rightarrow> nat \<times> cid \<Rightarrow> meta_db \<Rightarrow> gerr + meta_db" where
  "link_child parent_id ic db =
     (case find_block (snd ic) db of
        None \<Rightarrow> Inl (Wrapped ''failed to find child block'' RecordNotFound)
      | Some ch \<Rightarrow>
          let l = \<lparr>lr_parent = Some parent_id, lr_child = br_id ch, lr_index = fst ic\<rparr> in
          if link_key l \<notin> link_key ` set (md_links db) then Inr (db\<lparr>md_links := md_links db @ [l]\<rparr>)
          else
            let ls = map (\<lambda>x. if lr_child x = br_id ch \<and> lr_parent x = None
                              then x\<lparr>lr_parent := Some parent_id\<rparr> else x) (md_links db) in
            if links_unique ls then Inr (db\<lparr>md_links := ls\<rparr>)
            else Inl (Wrapped ''failed to update linked block'' (Opaque ''UNIQUE constraint failed'')))"

definition pinPreparedBlockInTx :: "prepared_block \<Rightarrow> meta_db \<Rightarrow> gerr + meta_db" where
  "pinPreparedBlockInTx pb db =
     (let (db1, i) = upsert_block (pb_cid pb) (pb_size pb) db;
          db2 = (case pb_unixfs pb of Some u \<Rightarrow> upsert_unixfs i u db1 | None \<Rightarrow> db1)
      in fold_err (link_child i) (enumerate 0 (pb_links pb)) db2)"

definition meta_Pin ::
    "gerr option \<Rightarrow> (bytes \<Rightarrow> cid option) \<Rightarrow> pinned_block \<Rightarrow> meta_db \<Rightarrow> (gerr + unit) \<times> meta_db" where
  "meta_Pin fault cast b db =
     (let pb = prepare cast b
      in in_tx fault (\<lambda>db. pinPreparedBlockInTx pb (ensureChildBlocks pb db)) db)"

definition BatchPin ::
    "gerr option \<Rightarrow> (bytes \<Rightarrow> cid option) \<Rightarrow> pinned_block list \<Rightarrow> meta_db \<Rightarrow> (gerr + unit) \<times> meta_db" where
  "BatchPin fault cast bs db =
     (let prepared = map (prepare cast) bs;
          childCIDSet = lo_uniq (concat (map pb_links prepared))
      in in_tx fault
           (\<lambda>db. fold_err pinPreparedBlockInTx prepared (ensureChildBlocksFromSet childCIDSet db)) db)"

section \<open>Unpinning\<close>

text \<open>The UnixFS row is only marked deleted; the links and the block are removed.\<close>

definition soft_delete :: "nat \<Rightarrow> unixfs_row \<Rightarrow> unixfs_row" where
  "soft_delete i u = (if ur_block u = i then u\<lparr>ur_deleted := True\<rparr> else u)"

definition remove_block :: "nat \<Rightarrow> meta_db \<Rightarrow> meta_db" where
  "remove_block i db = db\<lparr>
     md_links := filter (\<lambda>l. lr_parent l \<noteq> Some i \<and> lr_child l \<noteq> i) (md_links db),
     md_blocks := filter (\<lambda>x. br_id x \<noteq> i) (md_blocks db)\<rparr>"

definition meta_Unpin :: "bool \<Rightarrow> gerr option \<Rightarrow> cid \<Rightarrow> meta_db \<Rightarrow> (gerr + unit) \<times> meta_db" where
  "meta_Unpin fk fault c db =
     in_tx fault (\<lambda>db.
       case find_block (NormalizeCid c) db of
         None \<Rightarrow> Inr db
       | Some r \<Rightarrow>
           let db1 = db\<lparr>md_unixfs := map (soft_delete (br_id r)) (md_unixfs db)\<rparr>
           in if fk \<and> (\<exists>u \<in> set (md_unixfs db1). ur_block u = br_id r)
              then Inl (Wrapped ''failed to delete block'' (Opaque ''FOREIGN KEY constraint failed''))
              else Inr (remove_block (br_id r) db1)) db"

section \<open>Queries\<close>

definition BlockExists :: "gerr option \<Rightarrow> cid \<Rightarrow> meta_db \<Rightarrow> gerr option" where
  "BlockExists fault c db =
     (let c = NormalizeCid c in
      case fault of
        Some e \<Rightarrow> Some (if errors_is e RecordNotFound then IpldNotFound
                        else Wrapped ''failed to check block existence'' e)
      | None \<Rightarrow>
          (case find (\<lambda>r. br_cid r = c \<and> br_ready r) (md_blocks db) of
             None \<Rightarrow> Some IpldNotFound
           | Some r \<Rightarrow> if br_ready r then None else Some IpldNotFound))"

definition limited :: "nat option \<Rightarrow> 'a list \<Rightarrow> 'a list" where
  "limited n xs = (case n of Some k \<Rightarrow> take k xs | None \<Rightarrow> xs)"

definition ready_cid :: "meta_db \<Rightarrow> nat \<Rightarrow> cid option" where
  "ready_cid db i =
     (case block_at i db of Some r \<Rightarrow> if br_ready r then Some (br_cid r) else None | None \<Rightarrow> None)"

definition BlockChildren :: "gerr option \<Rightarrow> cid \<Rightarrow> nat option \<Rightarrow> meta_db \<Rightarrow> gerr + cid list" where
  "BlockChildren fault c max_rows db =
     (case fault of
        Some e \<Rightarrow> Inl (Wrapped ''failed to query children'' e)
      | None \<Rightarrow>
          let p = (\<lambda>i. case block_at i db of Some r \<Rightarrow> br_cid r = NormalizeCid c | None \<Rightarrow> False);
              rows = filter (\<lambda>l. (case lr_parent l of Some i \<Rightarrow> p i | None \<Rightarrow> False) \<and>
                                 ready_cid db (lr_child l) \<noteq> None) (md_links db)
          in Inr (limited max_rows (List.map_filter (\<lambda>l. ready_cid db (lr_child l)) (sort_key lr_index rows))))"

text \<open>The limit applies to the links, before those to blocks that are not ready are dropped.\<close>

definition BlockSiblings :: "gerr option \<Rightarrow> cid \<Rightarrow> nat \<Rightarrow> meta_db \<Rightarrow> gerr + cid list" where
  "BlockSiblings fault c max_rows db =
     (case fault of
        Some e \<Rightarrow> Inl (Wrapped ''failed to query siblings'' e)
      | None \<Rightarrow>
          let at_c = (\<lambda>i. case block_at i db of Some r \<Rightarrow> br_cid r = NormalizeCid c | None \<Rightarrow> False);
              child_blocks = filter (\<lambda>l. at_c (lr_child l) \<and> lr_parent l \<noteq> None) (md_links db);
              later = concat (map (\<lambda>l. replicate (length (filter
                        (\<lambda>cb. lr_parent l = lr_parent cb \<and> lr_index cb < lr_index l) child_blocks)) l)
                        (md_links db))
          in Inr (List.map_filter (\<lambda>l. ready_cid db (lr_child l)) (take max_rows (sort_key lr_index later))))"

text \<open>The blocks to announce: never announced ones first (NULL sorts first), then the oldest.\<close>

definition ann_time :: "nat option \<Rightarrow> nat" where
  "ann_time a = (case a of None \<Rightarrow> 0 | Some t \<Rightarrow> Suc t)"

definition due :: "nat \<Rightarrow> block_row \<Rightarrow> bool" where
  "due since r \<longleftrightarrow> br_ready r \<and> (case br_ann r of None \<Rightarrow> True | Some t \<Rightarrow> t < since)"

definition ProvideCIDs :: "gerr option \<Rightarrow> nat \<Rightarrow> nat \<Rightarrow> meta_db \<Rightarrow> gerr + (cid \<times> nat) list" where
  "ProvideCIDs fault since limit db =
     (case fault of
        Some e \<Rightarrow> Inl (Wrapped ''failed to query'' e)
      | None \<Rightarrow>
          Inr (map (\<lambda>r. (br_cid r, case br_ann r of Some t \<Rightarrow> t | None \<Rightarrow> 0))
                (take limit (sort_key (\<lambda>r. ann_time (br_ann r)) (filter (due since) (md_blocks db))))))"

record pinned_stats =
  ps_total :: int
  ps_announced :: int
  ps_pending :: int

definition CountPinned :: "gerr option \<Rightarrow> gerr option \<Rightarrow> nat \<Rightarrow> meta_db \<Rightarrow> gerr + pinned_stats" where
  "CountPinned fault1 fault2 since db =
     (case fault1 of
        Some e \<Rightarrow> Inl (Wrapped ''failed to count pinned'' e)
      | None \<Rightarrow>
          (case fault2 of
             Some e \<Rightarrow> Inl (Wrapped ''failed to count announced'' e)
           | None \<Rightarrow>
               let total = int (length (filter br_ready (md_blocks db)));
                   announced = int (length (filter (\<lambda>r. br_ready r \<and>
                     (case br_ann r of Some t \<Rightarrow> since \<le> t | None \<Rightarrow> False)) (md_blocks db)))
               in Inr \<lparr>ps_total = total, ps_announced = announced, ps_pending = total - announced\<rparr>))"

definition announce_one :: "nat \<Rightarrow> cid \<Rightarrow> meta_db \<Rightarrow> gerr + meta_db" where
  "announce_one t c db =
     (let c = NormalizeCid c;
          hit = (\<lambda>r. br_cid r = c \<and> br_ready r)
      in if \<exists>r \<in> set (md_blocks db). hit r
         then Inr (db\<lparr>md_blocks := map (\<lambda>r. if hit r then r\<lparr>br_ann := Some t\<rparr> else r) (md_blocks db)\<rparr>)
         else Inl (Opaque ''no block found with CID''))"

definition SetLastAnnouncement ::
    "gerr option \<Rightarrow> cid list \<Rightarrow> nat \<Rightarrow> meta_db \<Rightarrow> (gerr + unit) \<times> meta_db" where
  "SetLastAnnouncement fault cs t db = in_tx fault (fold_err (announce_one t) cs) db"

text \<open>
  \<open>Pinned\<close>: the error of the query is declared anew inside the \<open>if\<close>, so it is logged and the named
  result \<open>err\<close> stays nil.
\<close>

definition Pinned :: "gerr option \<Rightarrow> nat \<Rightarrow> nat \<Rightarrow> meta_db \<Rightarrow> gerr + cid list" where
  "Pinned fault offset limit db =
     (let rows = (case fault of
                    Some e \<Rightarrow> []
                  | None \<Rightarrow> take limit (drop offset (filter br_ready (md_blocks db))))
      in Inr (map (\<lambda>r. NormalizeCid (br_cid r)) rows))"

definition meta_Size :: "gerr option \<Rightarrow> cid \<Rightarrow> meta_db \<Rightarrow> gerr + nat" where
  "meta_Size fault c db =
     (case fault of
        Some e \<Rightarrow> Inl (Wrapped ''failed to query block size'' e)
      | None \<Rightarrow>
          (case find_block (NormalizeCid c) db of
             None \<Rightarrow> Inl (Wrapped ''failed to query block size'' RecordNotFound)
           | Some r \<Rightarrow> Inr (br_size r)))"

definition live_unixfs :: "nat \<Rightarrow> meta_db \<Rightarrow> unixfs_row option" where
  "live_unixfs i db = find (\<lambda>u. ur_block u = i \<and> \<not> ur_deleted u) (md_unixfs db)"

definition GetUnixFSMetadata :: "gerr option \<Rightarrow> cid \<Rightarrow> meta_db \<Rightarrow> gerr + unixfs_node" where
  "GetUnixFSMetadata fault c db =
     (case fault of
        Some e \<Rightarrow> Inl (Wrapped ''failed to query UnixFS metadata'' e)
      | None \<Rightarrow>
          (case find_block (NormalizeCid c) db of
             None \<Rightarrow> Inl (Wrapped ''failed to query UnixFS metadata'' RecordNotFound)
           | Some r \<Rightarrow>
               (case live_unixfs (br_id r) db of
                  None \<Rightarrow> Inl (Wrapped ''failed to query UnixFS metadata'' RecordNotFound)
                | Some u \<Rightarrow> Inr (ur_node u))))"

section \<open>Changes of metadata\<close>

definition MarkBlockReady :: "gerr option \<Rightarrow> cid \<Rightarrow> bool \<Rightarrow> meta_db \<Rightarrow> (gerr + unit) \<times> meta_db" where
  "MarkBlockReady fault c ready db =
     in_tx fault (\<lambda>db.
       case find_block (NormalizeCid c) db of
         None \<Rightarrow> Inl (Wrapped ''failed to find block'' RecordNotFound)
       | Some r \<Rightarrow>
           Inr (db\<lparr>md_blocks := map (\<lambda>x. if br_id x = br_id r then x\<lparr>br_ready := ready\<rparr> else x)
                                  (md_blocks db)\<rparr>)) db"

text \<open>\<open>FirstOrCreate\<close> changes no row that is there; it reads it.\<close>

definition UpdateUnixFSMetadata ::
    "gerr option \<Rightarrow> cid \<Rightarrow> unixfs_node \<Rightarrow> meta_db \<Rightarrow> (gerr + unit) \<times> meta_db" where
  "UpdateUnixFSMetadata fault c u db =
     in_tx fault (\<lambda>db.
       case find_block (NormalizeCid c) db of
         None \<Rightarrow> Inl (Wrapped ''failed to find block'' RecordNotFound)
       | Some r \<Rightarrow>
           (case live_unixfs (br_id r) db of
              Some _ \<Rightarrow> Inr db
            | None \<Rightarrow>
                if \<exists>x \<in> set (md_unixfs db). ur_block x = br_id r
                then Inl (Wrapped ''failed to upsert UnixFS metadata'' (Opaque ''UNIQUE constraint failed''))
                else Inr (db\<lparr>md_unixfs := md_unixfs db @
                       [\<lparr>ur_block = br_id r, ur_node = u, ur_deleted = False\<rparr>]\<rparr>))) db"

text \<open>
  The name of a block in its first parent; \<open>links_of\<close> reads and decodes a block from the node and
  gives its links.
\<close>

definition resolveNameFromParentWithBlock ::
    "(cid \<Rightarrow> gerr + (cid \<times> string) list) \<Rightarrow> cid \<Rightarrow> block_row \<Rightarrow> meta_db \<Rightarrow> gerr + string" where
  "resolveNameFromParentWithBlock links_of childCid childBlock db =
     (let childCid = NormalizeCid childCid in
      case find (\<lambda>l. lr_child l = br_id childBlock) (md_links db) of
        None \<Rightarrow> Inl (Wrapped ''no parent found for node'' RecordNotFound)
      | Some l \<Rightarrow>
          (case (case lr_parent l of Some i \<Rightarrow> block_at i db | None \<Rightarrow> None) of
             None \<Rightarrow> Inl (Wrapped ''failed to find parent block'' RecordNotFound)
           | Some p \<Rightarrow>
               (case links_of (br_cid p) of
                  Inl e \<Rightarrow> Inl e
                | Inr ls \<Rightarrow>
                    (case find (\<lambda>cn. NormalizeCid (fst cn) = childCid) ls of
                       Some cn \<Rightarrow> Inr (snd cn)
                     | None \<Rightarrow> Inl (Opaque ''name not found in parent links'')))))"

definition fill_name ::
    "(cid \<Rightarrow> gerr + (cid \<times> string) list) \<Rightarrow> cid \<Rightarrow> meta_db \<Rightarrow> gerr + meta_db" where
  "fill_name links_of c db =
     (case find_block c db of
        None \<Rightarrow> Inl (Wrapped ''failed to find block for CID'' RecordNotFound)
      | Some r \<Rightarrow>
          (case live_unixfs (br_id r) db of
             None \<Rightarrow> Inr db
           | Some u \<Rightarrow>
               if un_name (ur_node u) \<noteq> [] then Inr db
               else (case resolveNameFromParentWithBlock links_of c r db of
                  Inl _ \<Rightarrow> Inr db
                | Inr name \<Rightarrow>
                    Inr (db\<lparr>md_unixfs := map (\<lambda>x. if ur_block x = br_id r \<and> \<not> ur_deleted x
                           then x\<lparr>ur_node := (ur_node x)\<lparr>un_name := name\<rparr>\<rparr> else x) (md_unixfs db)\<rparr>))))"

text \<open>One transaction per CID; the first error ends the loop and keeps what was written.\<close>

fun ProcessMissingUnixFSNames ::
    "(cid \<Rightarrow> gerr + (cid \<times> string) list) \<Rightarrow> (cid \<times> gerr option) list \<Rightarrow> meta_db \<Rightarrow>
     (gerr + unit) \<times> meta_db" where
  "ProcessMissingUnixFSNames links_of [] db = (Inr (), db)"
| "ProcessMissingUnixFSNames links_of ((c, fault) # cs) db =
     (case in_tx fault (fill_name links_of (NormalizeCid c)) db of
        (Inl e, db') \<Rightarrow> (Inl e, db')
      | (Inr _, db') \<Rightarrow> ProcessMissingUnixFSNames links_of cs db')"

lemma snd_enumerate: "ic \<in> set (enumerate n xs) \<Longrightarrow> snd ic \<in> set xs"
  by (metis in_set_zip enumerate_eq_zip nth_mem)

section \<open>Well-formed databases\<close>

text \<open>
  Ids and CIDs determine rows, CIDs are normalised, every link joins two rows and is there once,
  and a block has at most one UnixFS row.
\<close>

definition md_wf :: "meta_db \<Rightarrow> bool" where
  "md_wf db \<longleftrightarrow>
     distinct (map br_id (md_blocks db)) \<and> (\<forall>r \<in> set (md_blocks db). br_id r < md_next db) \<and>
     distinct (map br_cid (md_blocks db)) \<and>
     (\<forall>r \<in> set (md_blocks db). NormalizeCid (br_cid r) = br_cid r) \<and>
     (\<forall>l \<in> set (md_links db). lr_child l \<in> br_id ` set (md_blocks db) \<and>
        (\<exists>p \<in> set (md_blocks db). lr_parent l = Some (br_id p))) \<and>
     distinct (map link_key (md_links db)) \<and> distinct (map ur_block (md_unixfs db))"

definition empty_meta :: meta_db where
  "empty_meta = \<lparr>md_blocks = [], md_links = [], md_unixfs = [], md_next = 1\<rparr>"

lemma md_wf_empty: "md_wf empty_meta"
  by (simp add: md_wf_def empty_meta_def)

text \<open>Growth: rows keep their id and CID and stay ready, links stay.\<close>

definition md_le :: "meta_db \<Rightarrow> meta_db \<Rightarrow> bool" where
  "md_le db db' \<longleftrightarrow>
     (\<forall>r \<in> set (md_blocks db). \<exists>r' \<in> set (md_blocks db').
        br_id r' = br_id r \<and> br_cid r' = br_cid r \<and> (br_ready r \<longrightarrow> br_ready r')) \<and>
     set (md_links db) \<subseteq> set (md_links db')"

lemma md_le_refl [simp]: "md_le db db"
  by (auto simp: md_le_def)

lemma md_le_trans: "md_le a b \<Longrightarrow> md_le b c \<Longrightarrow> md_le a c"
  unfolding md_le_def
proof (elim conjE, intro conjI ballI)
  fix r assume ab: "\<forall>r \<in> set (md_blocks a). \<exists>r' \<in> set (md_blocks b).
      br_id r' = br_id r \<and> br_cid r' = br_cid r \<and> (br_ready r \<longrightarrow> br_ready r')"
    and bc: "\<forall>r \<in> set (md_blocks b). \<exists>r' \<in> set (md_blocks c).
      br_id r' = br_id r \<and> br_cid r' = br_cid r \<and> (br_ready r \<longrightarrow> br_ready r')"
    and r: "r \<in> set (md_blocks a)"
  obtain r1 where r1: "r1 \<in> set (md_blocks b)" "br_id r1 = br_id r" "br_cid r1 = br_cid r"
    "br_ready r \<longrightarrow> br_ready r1" using ab r by blast
  obtain r2 where "r2 \<in> set (md_blocks c)" "br_id r2 = br_id r1" "br_cid r2 = br_cid r1"
    "br_ready r1 \<longrightarrow> br_ready r2" using bc r1(1) by blast
  with r1 show "\<exists>r' \<in> set (md_blocks c). br_id r' = br_id r \<and> br_cid r' = br_cid r \<and>
      (br_ready r \<longrightarrow> br_ready r')" by auto
qed blast

definition has_cid :: "meta_db \<Rightarrow> cid \<Rightarrow> bool" where
  "has_cid db c \<longleftrightarrow> c \<in> br_cid ` set (md_blocks db)"

lemma has_cid_mono: "md_le a b \<Longrightarrow> has_cid a c \<Longrightarrow> has_cid b c"
  unfolding md_le_def has_cid_def by (metis (no_types, lifting) image_iff)

lemma find_block_SomeD: "find_block c db = Some r \<Longrightarrow> r \<in> set (md_blocks db) \<and> br_cid r = c"
  unfolding find_block_def by (auto simp: find_Some_iff)

lemma find_block_None: "find_block c db = None \<longleftrightarrow> \<not> has_cid db c"
  unfolding find_block_def has_cid_def by (auto simp: find_None_iff)

lemma find_block_wf:
  assumes "md_wf db" and "r \<in> set (md_blocks db)"
  shows "find_block (br_cid r) db = Some r"
proof (cases "find_block (br_cid r) db")
  case None
  then show ?thesis using assms(2) by (simp add: find_block_None has_cid_def)
next
  case (Some x)
  then have "x \<in> set (md_blocks db)" "br_cid x = br_cid r" using find_block_SomeD by auto
  then have "x = r" using assms by (auto simp: md_wf_def distinct_map inj_on_def)
  then show ?thesis using Some by simp
qed

lemma block_at_wf:
  assumes "md_wf db" and "r \<in> set (md_blocks db)"
  shows "block_at (br_id r) db = Some r"
proof (cases "block_at (br_id r) db")
  case None
  then show ?thesis using assms(2) by (auto simp: block_at_def find_None_iff)
next
  case (Some x)
  then have "x \<in> set (md_blocks db)" "br_id x = br_id r"
    by (auto simp: block_at_def find_Some_iff)
  then have "x = r" using assms by (auto simp: md_wf_def distinct_map inj_on_def)
  then show ?thesis using Some by simp
qed

text \<open>A loop of steps that all succeed, grow the state and each establish a lasting fact.\<close>

lemma fold_err_all:
  assumes step: "\<And>x s. x \<in> set xs \<Longrightarrow> P s \<Longrightarrow> \<exists>s'. f x s = Inr s' \<and> P s' \<and> R s s' \<and> Q x s'"
    and refl: "\<And>s. R s s" and trans: "\<And>a b c. R a b \<Longrightarrow> R b c \<Longrightarrow> R a c"
    and mono: "\<And>x a b. R a b \<Longrightarrow> Q x a \<Longrightarrow> Q x b"
    and "P s"
  shows "\<exists>s'. fold_err f xs s = Inr s' \<and> P s' \<and> R s s' \<and> (\<forall>x \<in> set xs. Q x s')"
  using step \<open>P s\<close>
proof (induction xs arbitrary: s)
  case Nil then show ?case using refl by simp
next
  case (Cons x xs)
  obtain s1 where s1: "f x s = Inr s1" "P s1" "R s s1" "Q x s1"
    using Cons.prems(1) [of x s] Cons.prems(2) by auto
  obtain s2 where "fold_err f xs s1 = Inr s2" "P s2" "R s1 s2" "\<forall>x \<in> set xs. Q x s2"
    using Cons.IH [of s1] Cons.prems(1) s1(2) by auto
  with s1 show ?case using trans mono by auto
qed

section \<open>Each step keeps the database well-formed\<close>

lemma new_block_wf:
  assumes "md_wf db" and "\<not> has_cid db (NormalizeCid c)"
  shows "md_wf (new_block c sz rd db)" "md_le db (new_block c sz rd db)"
    "\<exists>r \<in> set (md_blocks (new_block c sz rd db)). br_id r = md_next db \<and> br_cid r = NormalizeCid c \<and> br_ready r = rd"
  using assms by (auto simp: md_wf_def new_block_def block_BeforeSave_def md_le_def has_cid_def
      image_iff less_Suc_eq)

lemma ensure_child_wf:
  assumes "md_wf db" and "NormalizeCid c = c"
  shows "md_wf (ensure_child c db) \<and> md_le db (ensure_child c db) \<and> has_cid (ensure_child c db) c"
proof (cases "find_block c db")
  case None
  then have n: "\<not> has_cid db (NormalizeCid c)" using assms(2) by (simp add: find_block_None)
  show ?thesis
    using new_block_wf [OF assms(1) n, of 0 False] None assms(2)
    by (auto simp: ensure_child_def has_cid_def image_iff)
next
  case (Some r)
  then show ?thesis using assms(1) find_block_None [of c db] by (simp add: ensure_child_def)
qed

lemma ensure_children_wf:
  "md_wf db \<Longrightarrow> \<forall>c \<in> set cs. NormalizeCid c = c \<Longrightarrow>
   md_wf (ensureChildBlocksFromSet cs db) \<and> md_le db (ensureChildBlocksFromSet cs db) \<and>
   (\<forall>c \<in> set cs. has_cid (ensureChildBlocksFromSet cs db) c)"
  unfolding ensureChildBlocksFromSet_def
proof (induction cs arbitrary: db)
  case (Cons c cs)
  note e = ensure_child_wf [of db c]
  show ?case
    using Cons.IH [of "ensure_child c db"] Cons.prems e md_le_trans has_cid_mono by auto
qed simp

text \<open>A change of the rows' other columns.\<close>

lemma map_blocks_wf:
  assumes wf: "md_wf db" and g: "\<And>x. br_id (g x) = br_id x" "\<And>x. br_cid (g x) = br_cid x"
  shows "md_wf (db\<lparr>md_blocks := map g (md_blocks db)\<rparr>)"
    "(\<And>x. br_ready x \<Longrightarrow> br_ready (g x)) \<Longrightarrow> md_le db (db\<lparr>md_blocks := map g (md_blocks db)\<rparr>)"
proof -
  have m: "map br_id (map g bs) = map br_id bs" "map br_cid (map g bs) = map br_cid bs" for bs
    by (simp_all add: comp_def g)
  have i: "br_id ` (g ` S) = br_id ` S" for S by (simp add: image_image g)
  show "md_wf (db\<lparr>md_blocks := map g (md_blocks db)\<rparr>)"
    using wf m [of "md_blocks db"] i [of "set (md_blocks db)"] g
    unfolding md_wf_def by (simp del: map_map)
  show "md_le db (db\<lparr>md_blocks := map g (md_blocks db)\<rparr>)" if "\<And>x. br_ready x \<Longrightarrow> br_ready (g x)"
    using that g unfolding md_le_def by auto
qed

lemma upsert_block_wf:
  assumes "md_wf db" and "NormalizeCid c = c"
  shows "md_wf (fst (upsert_block c sz db)) \<and> md_le db (fst (upsert_block c sz db)) \<and>
    (\<exists>r \<in> set (md_blocks (fst (upsert_block c sz db))).
       br_id r = snd (upsert_block c sz db) \<and> br_cid r = c \<and> br_ready r)"
proof (cases "find_block c db")
  case None
  then have n: "\<not> has_cid db (NormalizeCid c)" using assms(2) by (simp add: find_block_None)
  show ?thesis
    using new_block_wf [OF assms(1) n, of sz True] None assms(2) by (auto simp: upsert_block_def)
next
  case (Some r)
  define g where "g = (\<lambda>x :: block_row. if br_cid x = c then x\<lparr>br_size := sz, br_ready := True\<rparr> else x)"
  have g: "br_id (g x) = br_id x" "br_cid (g x) = br_cid x" "br_ready x \<Longrightarrow> br_ready (g x)" for x
    by (auto simp: g_def)
  have r: "r \<in> set (md_blocks db)" "br_cid r = c" using find_block_SomeD [OF Some] by auto
  have u: "upsert_block c sz db = (db\<lparr>md_blocks := map g (md_blocks db)\<rparr>, br_id r)"
    using Some by (simp add: upsert_block_def g_def)
  have "br_ready (g r)" using r by (simp add: g_def)
  then have "\<exists>x \<in> set (map g (md_blocks db)). br_id x = br_id r \<and> br_cid x = c \<and> br_ready x"
    using r g(1,2) by auto
  then show ?thesis
    using map_blocks_wf [OF assms(1) g(1,2)] g(3) by (simp add: u)
qed

lemma upsert_unixfs_wf: "md_wf db \<Longrightarrow> md_wf (upsert_unixfs i u db)"
  by (auto simp: md_wf_def upsert_unixfs_def comp_def if_distrib [of ur_block] cong: if_cong)

lemma upsert_unixfs_blocks [simp]: "md_blocks (upsert_unixfs i u db) = md_blocks db"
  "md_links (upsert_unixfs i u db) = md_links db"
  by (simp_all add: upsert_unixfs_def)

text \<open>What a pinned block leaves: its row is ready, and every link is a row.\<close>

definition link_stored :: "nat \<Rightarrow> nat \<times> cid \<Rightarrow> meta_db \<Rightarrow> bool" where
  "link_stored p ic db \<longleftrightarrow>
     (\<exists>ch \<in> set (md_blocks db). br_cid ch = snd ic \<and>
        \<lparr>lr_parent = Some p, lr_child = br_id ch, lr_index = fst ic\<rparr> \<in> set (md_links db))"

definition block_stored :: "prepared_block \<Rightarrow> meta_db \<Rightarrow> bool" where
  "block_stored pb db \<longleftrightarrow>
     (\<exists>r \<in> set (md_blocks db). br_cid r = pb_cid pb \<and> br_ready r \<and>
        (\<forall>ic \<in> set (enumerate 0 (pb_links pb)). link_stored (br_id r) ic db))"

lemma link_stored_mono: "md_le a b \<Longrightarrow> link_stored p ic a \<Longrightarrow> link_stored p ic b"
  unfolding md_le_def link_stored_def by (metis (no_types, lifting) subset_iff)

lemma block_stored_mono:
  assumes le: "md_le a b" and "block_stored pb a"
  shows "block_stored pb b"
proof -
  obtain r where r: "r \<in> set (md_blocks a)" "br_cid r = pb_cid pb" "br_ready r"
    "\<forall>ic \<in> set (enumerate 0 (pb_links pb)). link_stored (br_id r) ic a"
    using assms(2) by (auto simp: block_stored_def)
  obtain r' where "r' \<in> set (md_blocks b)" "br_id r' = br_id r" "br_cid r' = br_cid r" "br_ready r'"
    using le r(1,3) by (auto simp: md_le_def)
  then show ?thesis using r(2,4) link_stored_mono [OF le] by (auto simp: block_stored_def)
qed

lemma adopt_none:
  assumes "\<forall>l \<in> set ls. lr_parent l \<noteq> None"
  shows "map (\<lambda>x. if lr_child x = i \<and> lr_parent x = None then x\<lparr>lr_parent := p\<rparr> else x) ls = ls"
  using assms by (intro map_idI) auto

lemma link_key_inject: "link_key a = link_key b \<longleftrightarrow> a = b"
  by (auto simp: link_key_def intro: link_row.equality)

lemma link_child_wf:
  assumes wf: "md_wf db" and p: "i \<in> br_id ` set (md_blocks db)" and c: "has_cid db (snd ic)"
  shows "\<exists>db'. link_child i ic db = Inr db' \<and> md_wf db' \<and> md_le db db' \<and> link_stored i ic db' \<and>
    md_blocks db' = md_blocks db"
proof -
  obtain ch where ch: "find_block (snd ic) db = Some ch"
    using c find_block_None [of "snd ic" db] by (cases "find_block (snd ic) db") auto
  have chm: "ch \<in> set (md_blocks db)" "br_cid ch = snd ic" using find_block_SomeD [OF ch] by auto
  let ?l = "\<lparr>lr_parent = Some i, lr_child = br_id ch, lr_index = fst ic\<rparr>"
  show ?thesis
  proof (cases "link_key ?l \<in> link_key ` set (md_links db)")
    case False
    have "md_wf (db\<lparr>md_links := md_links db @ [?l]\<rparr>)"
      using wf p chm False by (auto simp: md_wf_def)
    then show ?thesis
      using ch chm False by (auto simp: link_child_def md_le_def link_stored_def)
  next
    case True
    then have in_links: "?l \<in> set (md_links db)"
      by (metis imageE link_key_inject)
    have ad: "map (\<lambda>x. if lr_child x = br_id ch \<and> lr_parent x = None
        then x\<lparr>lr_parent := Some i\<rparr> else x) (md_links db) = md_links db"
      using wf by (intro adopt_none) (auto simp: md_wf_def)
    have "filter (\<lambda>l. lr_parent l \<noteq> None) (md_links db) = md_links db"
      using wf by (intro filter_True) (auto simp: md_wf_def)
    then have "links_unique (md_links db)" using wf by (simp add: links_unique_def md_wf_def)
    then show ?thesis
      using ch chm True ad wf in_links by (auto simp: link_child_def Let_def link_stored_def)
  qed
qed

lemma pinPreparedBlock_wf:
  assumes wf: "md_wf db" and n: "NormalizeCid (pb_cid pb) = pb_cid pb"
    and ch: "\<forall>c \<in> set (pb_links pb). has_cid db c"
  shows "\<exists>db'. pinPreparedBlockInTx pb db = Inr db' \<and> md_wf db' \<and> md_le db db' \<and> block_stored pb db'"
proof -
  let ?u = "upsert_block (pb_cid pb) (pb_size pb) db"
  define db2 where "db2 = (case pb_unixfs pb of Some u \<Rightarrow> upsert_unixfs (snd ?u) u (fst ?u) | None \<Rightarrow> fst ?u)"
  have b: "md_blocks db2 = md_blocks (fst ?u)" "md_links db2 = md_links (fst ?u)"
    by (simp_all add: db2_def split: option.splits)
  note U = upsert_block_wf [OF wf n, of "pb_size pb"]
  have wf2: "md_wf db2" using U upsert_unixfs_wf by (auto simp: db2_def split: option.splits)
  have le2: "md_le db db2" using U b by (auto simp: md_le_def)
  obtain r where r: "r \<in> set (md_blocks db2)" "br_id r = snd ?u" "br_cid r = pb_cid pb" "br_ready r"
    using U b by auto
  let ?P = "\<lambda>s. md_wf s \<and> md_blocks s = md_blocks db2"
  have "\<exists>s'. fold_err (link_child (snd ?u)) (enumerate 0 (pb_links pb)) db2 = Inr s' \<and> ?P s' \<and>
      md_le db2 s' \<and> (\<forall>ic \<in> set (enumerate 0 (pb_links pb)). link_stored (snd ?u) ic s')"
  proof (rule fold_err_all [where P = ?P and R = md_le and Q = "link_stored (snd ?u)"])
    fix ic s assume ic: "ic \<in> set (enumerate 0 (pb_links pb))" and s: "?P s"
    have "snd ic \<in> set (pb_links pb)" using ic by (rule snd_enumerate)
    then have "has_cid db2 (snd ic)" using ch has_cid_mono [OF le2] by blast
    then have "has_cid s (snd ic)" using s by (simp add: has_cid_def)
    moreover have "snd ?u \<in> br_id ` set (md_blocks s)" using r s by force
    ultimately show "\<exists>s'. link_child (snd ?u) ic s = Inr s' \<and> ?P s' \<and> md_le s s' \<and> link_stored (snd ?u) ic s'"
      using link_child_wf [of s "snd ?u" ic] s by auto
  qed (use wf2 md_le_trans link_stored_mono in auto)
  then obtain s' where s': "fold_err (link_child (snd ?u)) (enumerate 0 (pb_links pb)) db2 = Inr s'"
    "md_wf s'" "md_blocks s' = md_blocks db2" "md_le db2 s'"
    "\<forall>ic \<in> set (enumerate 0 (pb_links pb)). link_stored (snd ?u) ic s'" by blast
  have "pinPreparedBlockInTx pb db = Inr s'"
    using s'(1) by (simp add: pinPreparedBlockInTx_def split_def Let_def db2_def)
  moreover have "block_stored pb s'" using r s'(3,5) by (auto simp: block_stored_def)
  ultimately show ?thesis using s'(2) md_le_trans [OF le2 s'(4)] by blast
qed

lemma prepare_normal: "NormalizeCid (pb_cid (prepare cast b)) = pb_cid (prepare cast b)"
  "\<forall>c \<in> set (pb_links (prepare cast b)). NormalizeCid c = c"
  by (auto simp: prepare_def Let_def)

lemma prepare_parts [simp]: "pb_cid (prepare cast b) = NormalizeCid (p_cid b)"
  "pb_links (prepare cast b) = lo_uniq (map NormalizeCid (p_links b))"
  by (simp_all add: prepare_def Let_def)

lemma BatchPin_correct:
  assumes wf: "md_wf db"
  shows "\<exists>db'. BatchPin None cast bs db = (Inr (), db') \<and> md_wf db' \<and> md_le db db' \<and>
    (\<forall>b \<in> set bs. block_stored (prepare cast b) db')"
proof -
  let ?ps = "map (prepare cast) bs"
  let ?cs = "lo_uniq (concat (map pb_links ?ps))"
  have "\<forall>c \<in> set ?cs. NormalizeCid c = c"
  proof
    fix c assume "c \<in> set ?cs"
    then obtain b where "c \<in> set (pb_links (prepare cast b))"
      by (auto simp del: prepare_parts)
    then show "NormalizeCid c = c" using prepare_normal(2) by blast
  qed
  note E = ensure_children_wf [OF wf this]
  let ?db = "ensureChildBlocksFromSet ?cs db"
  let ?P = "\<lambda>s. md_wf s \<and> (\<forall>c \<in> set ?cs. has_cid s c)"
  have "\<exists>s'. fold_err pinPreparedBlockInTx ?ps ?db = Inr s' \<and> ?P s' \<and> md_le ?db s' \<and>
      (\<forall>pb \<in> set ?ps. block_stored pb s')"
  proof (rule fold_err_all [where P = ?P and R = md_le and Q = block_stored])
    fix pb s assume pb: "pb \<in> set ?ps" and s: "?P s"
    have "\<forall>c \<in> set (pb_links pb). has_cid s c" using pb s by auto
    moreover have "NormalizeCid (pb_cid pb) = pb_cid pb" using pb by auto
    ultimately show "\<exists>s'. pinPreparedBlockInTx pb s = Inr s' \<and> ?P s' \<and> md_le s s' \<and> block_stored pb s'"
      using pinPreparedBlock_wf [of s pb] s has_cid_mono by blast
  qed (use E md_le_trans block_stored_mono in auto)
  then obtain s' where s': "fold_err pinPreparedBlockInTx ?ps ?db = Inr s'" "md_wf s'" "md_le ?db s'"
    "\<forall>pb \<in> set ?ps. block_stored pb s'" by blast
  have "BatchPin None cast bs db = (Inr (), s')"
    using s'(1) by (simp add: BatchPin_def in_tx_def Let_def)
  moreover have "md_le db s'" using E s'(3) md_le_trans by blast
  ultimately show ?thesis using s'(2,4) by auto
qed

text \<open>\<open>Pin\<close> is \<open>BatchPin\<close> of one block.\<close>

lemma Pin_BatchPin: "meta_Pin fault cast b db = BatchPin fault cast [b] db"
proof -
  have "lo_uniq (lo_uniq xs) = lo_uniq xs" for xs :: "cid list" using lo_uniq_idem .
  then show ?thesis
    by (simp add: meta_Pin_def BatchPin_def ensureChildBlocks_def in_tx_def Let_def split: option.splits sum.splits)
qed

lemma in_tx_wf: "(\<And>db'. f db = Inr db' \<Longrightarrow> md_wf db') \<Longrightarrow> md_wf db \<Longrightarrow> md_wf (snd (in_tx fault f db))"
  by (auto simp: in_tx_def split: option.splits sum.splits)

lemma map_unixfs_wf: "md_wf db \<Longrightarrow> (\<And>x. ur_block (g x) = ur_block x) \<Longrightarrow>
    md_wf (db\<lparr>md_unixfs := map g (md_unixfs db)\<rparr>)"
  by (simp add: md_wf_def comp_def)

lemma add_unixfs_wf: "md_wf db \<Longrightarrow> \<not> (\<exists>x \<in> set (md_unixfs db). ur_block x = ur_block u) \<Longrightarrow>
    md_wf (db\<lparr>md_unixfs := md_unixfs db @ [u]\<rparr>)"
  by (simp add: md_wf_def image_iff) metis

lemma remove_block_wf:
  assumes wf: "md_wf db"
  shows "md_wf (remove_block i db)"
proof -
  have "lr_child l \<in> br_id ` set (md_blocks (remove_block i db)) \<and>
        (\<exists>p \<in> set (md_blocks (remove_block i db)). lr_parent l = Some (br_id p))"
    if "l \<in> set (md_links (remove_block i db))" for l
    using that wf unfolding md_wf_def remove_block_def by fastforce
  then show ?thesis
    using wf unfolding md_wf_def by (auto simp: remove_block_def distinct_map_filter)
qed

lemma soft_delete_block [simp]: "ur_block (soft_delete i u) = ur_block u"
  by (simp add: soft_delete_def)

lemma Unpin_wf: "md_wf db \<Longrightarrow> md_wf (snd (meta_Unpin fk fault c db))"
  unfolding meta_Unpin_def
  by (rule in_tx_wf) (auto simp: Let_def split: option.splits if_splits
      intro!: remove_block_wf map_unixfs_wf)

lemma MarkBlockReady_wf: "md_wf db \<Longrightarrow> md_wf (snd (MarkBlockReady fault c ready db))"
  unfolding MarkBlockReady_def
  by (rule in_tx_wf) (auto split: option.splits intro!: map_blocks_wf(1))

lemma announce_one_wf: "md_wf db \<Longrightarrow> announce_one t c db = Inr db' \<Longrightarrow> md_wf db'"
  by (auto simp: announce_one_def Let_def split: if_splits intro!: map_blocks_wf(1))

lemma fold_err_inv:
  "fold_err f xs s = Inr s' \<Longrightarrow> P s \<Longrightarrow> (\<And>x s s'. x \<in> set xs \<Longrightarrow> P s \<Longrightarrow> f x s = Inr s' \<Longrightarrow> P s') \<Longrightarrow> P s'"
proof (induction xs arbitrary: s)
  case (Cons x xs)
  then obtain s1 where "f x s = Inr s1" "fold_err f xs s1 = Inr s'" by (auto split: sum.splits)
  then show ?case using Cons.IH [of s1] Cons.prems(2,3) by auto
qed simp

lemma SetLastAnnouncement_wf: "md_wf db \<Longrightarrow> md_wf (snd (SetLastAnnouncement fault cs t db))"
  unfolding SetLastAnnouncement_def
  by (rule in_tx_wf) (auto intro: fold_err_inv [where P = md_wf] announce_one_wf)

lemma UpdateUnixFSMetadata_wf: "md_wf db \<Longrightarrow> md_wf (snd (UpdateUnixFSMetadata fault c u db))"
  unfolding UpdateUnixFSMetadata_def
  by (rule in_tx_wf) (auto split: option.splits if_splits intro!: add_unixfs_wf)

lemma fill_name_wf: "md_wf db \<Longrightarrow> fill_name links_of c db = Inr db' \<Longrightarrow> md_wf db'"
  by (auto simp: fill_name_def split: option.splits if_splits sum.splits intro!: map_unixfs_wf)

lemma ProcessMissing_wf: "md_wf db \<Longrightarrow> md_wf (snd (ProcessMissingUnixFSNames links_of cs db))"
proof (induction links_of cs db rule: ProcessMissingUnixFSNames.induct)
  case (2 links_of c fault cs db)
  have "md_wf (snd (in_tx fault (fill_name links_of (NormalizeCid c)) db))"
    using 2(2) fill_name_wf by (intro in_tx_wf)
  then show ?case using 2 by (auto split: prod.splits sum.splits)
qed simp

lemma BatchPin_wf: "md_wf db \<Longrightarrow> md_wf (snd (BatchPin fault cast bs db))"
proof (cases fault)
  case None
  assume "md_wf db"
  then show ?thesis using BatchPin_correct [of db cast bs] None by auto
qed (simp add: BatchPin_def in_tx_def Let_def)

section \<open>Lookups in a well-formed database\<close>

lemma BlockExists_iff:
  "BlockExists None c db = None \<longleftrightarrow> (\<exists>r \<in> set (md_blocks db). br_cid r = NormalizeCid c \<and> br_ready r)"
  by (auto simp: BlockExists_def Let_def find_None_iff find_Some_iff split: option.splits)

lemma BlockExists_not: "BlockExists None c db \<noteq> None \<Longrightarrow> BlockExists None c db = Some IpldNotFound"
  by (auto simp: BlockExists_def Let_def split: option.splits if_splits)

lemma BlockExists_mono: "md_le a b \<Longrightarrow> BlockExists None c a = None \<Longrightarrow> BlockExists None c b = None"
  unfolding md_le_def BlockExists_iff by (metis (no_types, lifting))

lemma block_stored_exists: "block_stored (prepare cast b) db \<Longrightarrow> BlockExists None (p_cid b) db = None"
  by (auto simp: block_stored_def BlockExists_iff)

section \<open>The order of children\<close>

text \<open>The links of a parent that had none are appended in order.\<close>

definition child_id :: "meta_db \<Rightarrow> cid \<Rightarrow> nat" where
  "child_id db c = br_id (the (find_block c db))"

lemma link_children_append:
  assumes "\<forall>ic \<in> set ics. has_cid db (snd ic)" and "distinct (map fst ics)"
    and "\<forall>l \<in> set (md_links db). lr_parent l = Some i \<longrightarrow> lr_index l \<notin> fst ` set ics"
  shows "fold_err (link_child i) ics db = Inr (db\<lparr>md_links := md_links db @
    map (\<lambda>ic. \<lparr>lr_parent = Some i, lr_child = child_id db (snd ic), lr_index = fst ic\<rparr>) ics\<rparr>)"
  using assms
proof (induction ics arbitrary: db)
  case (Cons ic ics)
  let ?l = "\<lparr>lr_parent = Some i, lr_child = child_id db (snd ic), lr_index = fst ic\<rparr>"
  let ?db = "db\<lparr>md_links := md_links db @ [?l]\<rparr>"
  obtain ch where ch: "find_block (snd ic) db = Some ch"
    using Cons.prems(1) find_block_None [of "snd ic" db] by (cases "find_block (snd ic) db") auto
  have new: "link_key ?l \<notin> link_key ` set (md_links db)"
  proof
    assume "link_key ?l \<in> link_key ` set (md_links db)"
    then have "?l \<in> set (md_links db)" by (metis imageE link_key_inject)
    then show False using Cons.prems(3) by fastforce
  qed
  have step: "link_child i ic db = Inr ?db"
    using ch new by (simp add: link_child_def child_id_def Let_def)
  have same: "find_block c ?db = find_block c db" "child_id ?db c = child_id db c" for c
    by (simp_all add: find_block_def child_id_def)
  have "fold_err (link_child i) ics ?db = Inr (?db\<lparr>md_links := md_links ?db @
    map (\<lambda>ic. \<lparr>lr_parent = Some i, lr_child = child_id ?db (snd ic), lr_index = fst ic\<rparr>) ics\<rparr>)"
  proof (rule Cons.IH)
    show "\<forall>ic \<in> set ics. has_cid ?db (snd ic)" using Cons.prems(1) by (simp add: has_cid_def)
    show "distinct (map fst ics)" using Cons.prems(2) by simp
    show "\<forall>l \<in> set (md_links ?db). lr_parent l = Some i \<longrightarrow> lr_index l \<notin> fst ` set ics"
      using Cons.prems(2,3) by auto
  qed
  then show ?case using step by (simp add: same)
qed simp

lemma map_filter_ready:
  assumes wf: "md_wf db" and "\<forall>c \<in> set cs. has_cid db c \<and> NormalizeCid c = c"
  shows "List.map_filter (\<lambda>l. ready_cid db (lr_child l))
      (filter (\<lambda>l. ready_cid db (lr_child l) \<noteq> None)
        (map (\<lambda>ic. \<lparr>lr_parent = p, lr_child = child_id db (snd ic), lr_index = fst ic\<rparr>) (enumerate n cs))) =
    filter (\<lambda>c. BlockExists None c db = None) cs"
  using assms(2)
proof (induction cs arbitrary: n)
  case (Cons c cs)
  obtain r where r: "r \<in> set (md_blocks db)" "br_cid r = c"
    using Cons.prems by (auto simp: has_cid_def)
  then have "child_id db c = br_id r" using find_block_wf [OF wf r(1)] by (simp add: child_id_def)
  then have rc: "ready_cid db (child_id db c) = (if br_ready r then Some c else None)"
    using block_at_wf [OF wf r(1)] r(2) by (simp add: ready_cid_def)
  have "BlockExists None c db = None \<longleftrightarrow> br_ready r"
  proof -
    have "x = r" if "x \<in> set (md_blocks db)" "br_cid x = c" for x
      using find_block_wf [OF wf that(1)] find_block_wf [OF wf r(1)] r(2) that(2) by simp
    moreover have nc: "NormalizeCid c = c" using Cons.prems by simp
    ultimately show ?thesis unfolding BlockExists_iff nc using r by blast
  qed
  then show ?case using Cons rc by (simp add: List.map_filter_simps)
qed (simp add: List.map_filter_simps)

lemma ensure_links: "md_links (ensureChildBlocksFromSet cs db) = md_links db"
  unfolding ensureChildBlocksFromSet_def
  by (induction cs arbitrary: db) (simp_all add: ensure_child_def new_block_def)

lemma sorted_enumerate_fst: "sorted (map fst (enumerate n xs))"
  by (simp add: sorted_upt)

text \<open>The link rows of a block that had none, and what \<open>BlockChildren\<close> reads back from them.\<close>

definition new_links :: "meta_db \<Rightarrow> nat \<Rightarrow> cid list \<Rightarrow> link_row list" where
  "new_links db i cs =
     map (\<lambda>ic. \<lparr>lr_parent = Some i, lr_child = child_id db (snd ic), lr_index = fst ic\<rparr>) (enumerate 0 cs)"

lemma wf_same_block:
  assumes "md_wf db" and "r \<in> set (md_blocks db)" and "x \<in> set (md_blocks db)"
    and "br_id x = br_id r \<or> br_cid x = br_cid r"
  shows "x = r"
  using assms by (auto simp: md_wf_def distinct_map inj_on_def)

lemma noparent_later:
  assumes wf: "md_wf db" "md_wf db2" and le: "md_le db db2" and r: "r \<in> set (md_blocks db2)"
    and fresh: "\<forall>x \<in> set (md_blocks db). br_cid x = br_cid r \<longrightarrow>
      (\<forall>l \<in> set (md_links db). lr_parent l \<noteq> Some (br_id x))"
    and l: "l \<in> set (md_links db)"
  shows "lr_parent l \<noteq> Some (br_id r)"
proof
  assume li: "lr_parent l = Some (br_id r)"
  then obtain p where p: "p \<in> set (md_blocks db)" "br_id p = br_id r" using wf(1) l by (auto simp: md_wf_def)
  obtain p' where p': "p' \<in> set (md_blocks db2)" "br_id p' = br_id p" "br_cid p' = br_cid p"
    using le p(1) by (auto simp: md_le_def)
  then have "p' = r" using wf_same_block [OF wf(2) r p'(1)] p(2) by simp
  then show False using fresh p p'(3) l li by auto
qed

lemma fresh_pin:
  assumes wf: "md_wf db"
    and fresh: "\<forall>r \<in> set (md_blocks db). br_cid r = pb_cid pb \<longrightarrow>
      (\<forall>l \<in> set (md_links db). lr_parent l \<noteq> Some (br_id r))"
    and pb: "pb = prepare cast b"
  obtains db2 r where "md_wf db2" "r \<in> set (md_blocks db2)" "br_cid r = pb_cid pb"
    "\<forall>l \<in> set (md_links db). lr_parent l \<noteq> Some (br_id r)" "\<forall>c \<in> set (pb_links pb). has_cid db2 c"
    "pinPreparedBlockInTx pb (ensureChildBlocks pb db) =
       Inr (db2\<lparr>md_links := md_links db @ new_links db2 (br_id r) (pb_links pb)\<rparr>)"
proof -
  let ?cs = "pb_links pb"
  have n: "NormalizeCid (pb_cid pb) = pb_cid pb" "\<forall>c \<in> set ?cs. NormalizeCid c = c"
    unfolding pb by (rule prepare_normal)+
  define db1 where "db1 = ensureChildBlocks pb db"
  have E: "md_wf db1" "md_le db db1" "\<forall>c \<in> set ?cs. has_cid db1 c" "md_links db1 = md_links db"
    using ensure_children_wf [OF wf, of "lo_uniq ?cs"] n(2) ensure_links
    by (simp_all add: db1_def ensureChildBlocks_def)
  let ?u = "upsert_block (pb_cid pb) (pb_size pb) db1"
  define db2 where "db2 = (case pb_unixfs pb of Some u \<Rightarrow> upsert_unixfs (snd ?u) u (fst ?u) | None \<Rightarrow> fst ?u)"
  have b2: "md_blocks db2 = md_blocks (fst ?u)" "md_links db2 = md_links (fst ?u)"
    by (simp_all add: db2_def split: option.splits)
  have l2: "md_links db2 = md_links db"
    by (simp add: b2(2) upsert_block_def new_block_def E(4) split: option.splits)
  note U = upsert_block_wf [OF E(1) n(1), of "pb_size pb"]
  have wf2: "md_wf db2" using U upsert_unixfs_wf by (auto simp: db2_def split: option.splits)
  have le12: "md_le db1 db2" using U b2 by (auto simp: md_le_def)
  then have le2: "md_le db db2" using E(2) md_le_trans by blast
  obtain r where r: "r \<in> set (md_blocks db2)" "br_id r = snd ?u" "br_cid r = pb_cid pb"
    using U b2 by auto
  have has2: "\<forall>c \<in> set ?cs. has_cid db2 c" using E(3) has_cid_mono [OF le12] by blast
  have np: "\<forall>l \<in> set (md_links db). lr_parent l \<noteq> Some (br_id r)"
    using noparent_later [OF wf wf2 le2 r(1)] fresh r(3) by simp
  have "fold_err (link_child (br_id r)) (enumerate 0 ?cs) db2 =
      Inr (db2\<lparr>md_links := md_links db2 @ new_links db2 (br_id r) ?cs\<rparr>)"
    unfolding new_links_def
  proof (rule link_children_append)
    show "\<forall>ic \<in> set (enumerate 0 ?cs). has_cid db2 (snd ic)" using has2 snd_enumerate by blast
    show "\<forall>l \<in> set (md_links db2). lr_parent l = Some (br_id r) \<longrightarrow> lr_index l \<notin> fst ` set (enumerate 0 ?cs)"
      using np l2 by auto
  qed simp
  then have "pinPreparedBlockInTx pb db1 = Inr (db2\<lparr>md_links := md_links db @ new_links db2 (br_id r) ?cs\<rparr>)"
    by (simp add: pinPreparedBlockInTx_def split_def Let_def db2_def r(2) l2 [symmetric])
  then show thesis using that [OF wf2 r(1,3) np has2] by (simp add: db1_def)
qed

lemma sort_new_links: "sort_key lr_index (filter Q (new_links db i cs)) = filter Q (new_links db i cs)"
proof (rule sort_key_id_if_sorted)
  have "sorted (map lr_index (new_links db i cs))"
    by (simp add: new_links_def comp_def sorted_enumerate_fst del: enumerate_eq_zip)
  then show "sorted (map lr_index (filter Q (new_links db i cs)))" by (rule sorted_filter)
qed

lemma BlockChildren_fresh:
  assumes wf: "md_wf db" and r: "r \<in> set (md_blocks db)" "br_cid r = NormalizeCid c"
    and np: "\<forall>l \<in> set ls. lr_parent l \<noteq> Some (br_id r)"
    and cs: "\<forall>c \<in> set cs. has_cid db c \<and> NormalizeCid c = c"
    and db': "db' = db\<lparr>md_links := ls @ new_links db (br_id r) cs\<rparr>"
  shows "BlockChildren None c None db' = Inr (filter (\<lambda>c. BlockExists None c db' = None) cs)"
proof -
  let ?new = "new_links db (br_id r) cs" and ?ready = "\<lambda>l. ready_cid db (lr_child l)"
  have same: "block_at k db' = block_at k db" "ready_cid db' k = ready_cid db k"
    "BlockExists None d db' = BlockExists None d db" for k d
    by (simp_all add: db' block_at_def ready_cid_def BlockExists_def)
  define P where "P = (\<lambda>l :: link_row. (case lr_parent l of
      Some i \<Rightarrow> (case block_at i db of Some r \<Rightarrow> br_cid r = NormalizeCid c | None \<Rightarrow> False)
    | None \<Rightarrow> False) \<and> ready_cid db (lr_child l) \<noteq> None)"
  have "\<not> P l" if l: "l \<in> set ls" for l
  proof
    assume "P l"
    then obtain k x where k: "lr_parent l = Some k" "block_at k db = Some x" "br_cid x = NormalizeCid c"
      by (auto simp: P_def split: option.splits)
    then have x: "x \<in> set (md_blocks db)" "br_id x = k" by (auto simp: block_at_def find_Some_iff)
    then have "x = r" using wf_same_block [OF wf r(1) x(1)] k(3) r(2) by simp
    then show False using np l k(1) x(2) by blast
  qed
  then have "filter P (ls @ ?new) = filter P ?new" by (simp add: filter_empty_conv)
  also have "\<dots> = filter (\<lambda>l. ?ready l \<noteq> None) ?new"
    using block_at_wf [OF wf r(1)] r(2) by (intro filter_cong) (auto simp: P_def new_links_def)
  finally have f: "filter P (md_links db') = filter (\<lambda>l. ?ready l \<noteq> None) ?new" by (simp add: db')
  have "BlockChildren None c None db' = Inr (List.map_filter ?ready (sort_key lr_index (filter P (md_links db'))))"
    by (simp add: BlockChildren_def limited_def P_def same Let_def)
  also have "\<dots> = Inr (List.map_filter ?ready (filter (\<lambda>l. ?ready l \<noteq> None) ?new))"
    by (simp only: f sort_new_links)
  also have "\<dots> = Inr (filter (\<lambda>c. BlockExists None c db = None) cs)"
    unfolding new_links_def by (simp only: map_filter_ready [OF wf cs])
  finally show ?thesis by (simp only: same)
qed

section \<open>Properties\<close>

text \<open>C35. Every operation keeps the tables well-formed, whether it succeeds, fails on its input or meets a
  database error: no CID gets two rows, no link is stored twice or dangles, and no block gets two
  UnixFS rows.\<close>

theorem metadata_wf_preserved:
  assumes "md_wf db"
  shows "md_wf (snd (meta_Pin fault cast b db)) \<and> md_wf (snd (BatchPin fault cast bs db)) \<and>
    md_wf (snd (meta_Unpin fk fault c db)) \<and> md_wf (snd (MarkBlockReady fault c rd db)) \<and>
    md_wf (snd (SetLastAnnouncement fault cs t db)) \<and> md_wf (snd (UpdateUnixFSMetadata fault c u db)) \<and>
    md_wf (snd (ProcessMissingUnixFSNames links_of cfs db))"
  using assms by (simp add: Pin_BatchPin BatchPin_wf Unpin_wf MarkBlockReady_wf
      SetLastAnnouncement_wf UpdateUnixFSMetadata_wf ProcessMissing_wf)

definition ex_pin :: "cid \<Rightarrow> cid list \<Rightarrow> pinned_block" where
  "ex_pin c ls = \<lparr>p_cid = c, p_links = ls, p_size = 5,
     p_node = Inr \<lparr>an_unixfs = True, an_type = TFile, an_file_size = 5, an_names = [], an_cids = [], an_sizes = []\<rparr>\<rparr>"

definition ex_a :: cid where "ex_a = Cid 1 112 ''a''"
definition ex_b :: cid where "ex_b = Cid 0 112 ''b''"

definition ex_db :: meta_db where
  "ex_db = snd (BatchPin None (\<lambda>_. None) [ex_pin ex_a [ex_b], ex_pin ex_b []] empty_meta)"

lemma ex_db_wf: "md_wf ex_db"
  unfolding ex_db_def by (rule BatchPin_wf [OF md_wf_empty])

theorem metadata_wf_preserved_witness:
  "md_wf (snd (meta_Unpin False None ex_b ex_db)) \<and> md_blocks ex_db \<noteq> []"
proof -
  have "md_blocks ex_db \<noteq> []" by code_simp
  then show ?thesis
    using metadata_wf_preserved [OF ex_db_wf, of None "\<lambda>_. None" "ex_pin ex_a []" "[]" False ex_b True "[]" 0]
    by blast
qed



text \<open>After a block without stored links is pinned, \<open>BlockChildren\<close> lists its distinct links in the order
  of the block, those that are pinned themselves.\<close>

lemma metadata_children_in_order:
  assumes wf: "md_wf db"
    and fresh: "\<forall>r \<in> set (md_blocks db). br_cid r = NormalizeCid (p_cid b) \<longrightarrow>
      (\<forall>l \<in> set (md_links db). lr_parent l \<noteq> Some (br_id r))"
    and pin: "meta_Pin None cast b db = (Inr (), db')"
  shows "BlockChildren None (p_cid b) None db' =
    Inr (filter (\<lambda>c. BlockExists None c db' = None) (lo_uniq (map NormalizeCid (p_links b))))"
proof -
  define pb where "pb = prepare cast b"
  have p: "pb_cid pb = NormalizeCid (p_cid b)" "pb_links pb = lo_uniq (map NormalizeCid (p_links b))"
    by (simp_all add: pb_def)
  have p3: "\<forall>c \<in> set (pb_links pb). NormalizeCid c = c"
    unfolding pb_def by (rule prepare_normal)
  obtain db2 r where r: "md_wf db2" "r \<in> set (md_blocks db2)" "br_cid r = pb_cid pb"
    "\<forall>l \<in> set (md_links db). lr_parent l \<noteq> Some (br_id r)" "\<forall>c \<in> set (pb_links pb). has_cid db2 c"
    and pin2: "pinPreparedBlockInTx pb (ensureChildBlocks pb db) =
       Inr (db2\<lparr>md_links := md_links db @ new_links db2 (br_id r) (pb_links pb)\<rparr>)"
    using fresh_pin [OF wf _ pb_def] fresh p(1) by metis
  have db': "db' = db2\<lparr>md_links := md_links db @ new_links db2 (br_id r) (pb_links pb)\<rparr>"
    using pin pin2 by (simp add: meta_Pin_def in_tx_def pb_def Let_def)
  have "\<forall>c \<in> set (pb_links pb). has_cid db2 c \<and> NormalizeCid c = c" using r(5) p3 by blast
  from BlockChildren_fresh [OF r(1,2) _ r(4) this db'] show ?thesis using r(3) p(1,2) by simp
qed

lemma metadata_children_in_order_example:
  "BlockChildren None ex_a None (snd (meta_Pin None (\<lambda>_. None) (ex_pin ex_a [ex_b, ex_a, ex_b]) empty_meta)) = Inr [ex_a]"
proof -
  let ?b = "ex_pin ex_a [ex_b, ex_a, ex_b]"
  let ?db = "snd (meta_Pin None (\<lambda>_. None) ?b empty_meta)"
  have "meta_Pin None (\<lambda>_. None) ?b empty_meta = (Inr (), ?db)" by code_simp
  then have "BlockChildren None (p_cid ?b) None ?db =
    Inr (filter (\<lambda>c. BlockExists None c ?db = None) (lo_uniq (map NormalizeCid (p_links ?b))))"
    by (rule metadata_children_in_order [OF md_wf_empty, rotated]) (simp add: empty_meta_def)
  moreover have "filter (\<lambda>c. BlockExists None c ?db = None) (lo_uniq (map NormalizeCid (p_links ?b))) = [ex_a]"
    "p_cid ?b = ex_a" by code_simp+
  ultimately show ?thesis by simp
qed

text \<open>After an \<open>Unpin\<close> that succeeds the block is gone, with every link to and from it, and the other
  blocks exist as before.\<close>

lemma metadata_unpin:
  assumes wf: "md_wf db" and u: "meta_Unpin fk None c db = (Inr (), db')"
  shows "BlockExists None c db' = Some IpldNotFound \<and>
    (\<forall>d. NormalizeCid d \<noteq> NormalizeCid c \<longrightarrow> BlockExists None d db' = BlockExists None d db) \<and>
    (\<forall>l \<in> set (md_links db'). l \<in> set (md_links db) \<and>
       (\<forall>r. find_block (NormalizeCid c) db = Some r \<longrightarrow> lr_parent l \<noteq> Some (br_id r) \<and> lr_child l \<noteq> br_id r))"
proof (cases "find_block (NormalizeCid c) db")
  case None
  then have "db' = db" using u by (simp add: meta_Unpin_def in_tx_def)
  moreover have "BlockExists None c db \<noteq> None"
    using None unfolding find_block_None has_cid_def BlockExists_iff by (metis imageI)
  ultimately show ?thesis using None BlockExists_not by simp
next
  case (Some r)
  let ?db = "db\<lparr>md_unixfs := map (soft_delete (br_id r)) (md_unixfs db)\<rparr>"
  have db': "db' = remove_block (br_id r) ?db"
    using u Some by (simp add: meta_Unpin_def in_tx_def Let_def split: if_splits)
  have blocks: "set (md_blocks db') = {x \<in> set (md_blocks db). br_id x \<noteq> br_id r}"
    and links: "set (md_links db') = {l \<in> set (md_links db). lr_parent l \<noteq> Some (br_id r) \<and> lr_child l \<noteq> br_id r}"
    by (auto simp: db' remove_block_def)
  have r: "r \<in> set (md_blocks db)" "br_cid r = NormalizeCid c" using find_block_SomeD [OF Some] by auto
  have iff: "x \<in> set (md_blocks db) \<Longrightarrow> br_id x = br_id r \<longleftrightarrow> br_cid x = NormalizeCid c" for x
    using wf r by (auto simp: md_wf_def distinct_map inj_on_def)
  have "BlockExists None c db' \<noteq> None" using iff by (auto simp: BlockExists_iff blocks)
  moreover have "BlockExists None d db' = BlockExists None d db" if d: "NormalizeCid d \<noteq> NormalizeCid c" for d
  proof -
    have "BlockExists None d db' = None \<longleftrightarrow> BlockExists None d db = None"
      using iff d unfolding BlockExists_iff blocks by auto
    then show ?thesis using BlockExists_not [of d db] BlockExists_not [of d db'] by metis
  qed
  ultimately show ?thesis using BlockExists_not links Some by auto
qed

lemma metadata_unpin_example:
  "BlockExists None ex_b (snd (meta_Unpin False None ex_b ex_db)) = Some IpldNotFound \<and>
   BlockExists None ex_b ex_db = None"
proof -
  have "meta_Unpin False None ex_b ex_db = (Inr (), snd (meta_Unpin False None ex_b ex_db))"
    "BlockExists None ex_b ex_db = None" by code_simp+
  then show ?thesis using metadata_unpin [OF ex_db_wf, of False ex_b] by blast
qed

text \<open>Where foreign keys are enforced a block with a UnixFS row can never be unpinned: the row is only
  marked deleted, still refers to the block, and the delete of the block fails and undoes all.\<close>

lemma metadata_unpin_unixfs_fails:
  assumes "find_block (NormalizeCid c) db = Some r" and "\<exists>u \<in> set (md_unixfs db). ur_block u = br_id r"
  shows "\<exists>e. meta_Unpin True None c db = (Inl e, db)"
proof -
  have "\<exists>u \<in> set (map (soft_delete (br_id r)) (md_unixfs db)). ur_block u = br_id r" using assms(2) by simp
  then show ?thesis using assms(1) by (simp add: meta_Unpin_def in_tx_def Let_def)
qed

lemma metadata_unpin_unixfs_fails_example:
  "\<exists>e. meta_Unpin True None ex_b ex_db = (Inl e, ex_db)"
proof -
  have f: "find_block (NormalizeCid ex_b) ex_db =
      Some \<lparr>br_id = 1, br_cid = NormalizeCid ex_b, br_size = 5, br_ann = None, br_ready = True\<rparr>"
    by code_simp
  have "\<exists>u \<in> set (md_unixfs ex_db). ur_block u = 1" by code_simp
  then show ?thesis by (intro metadata_unpin_unixfs_fails [OF f]) simp
qed

lemma length_partition:
  "length (filter P xs) = length (filter (\<lambda>x. P x \<and> Q x) xs) + length (filter (\<lambda>x. P x \<and> \<not> Q x) xs)"
  by (induction xs) auto

lemma due_count: "length (filter br_ready bs) - length (filter (\<lambda>r. br_ready r \<and>
     (case br_ann r of Some t \<Rightarrow> since \<le> t | None \<Rightarrow> False)) bs) = length (filter (due since) bs)"
proof -
  have "filter (due since) bs = filter (\<lambda>r. br_ready r \<and>
      \<not> (case br_ann r of Some t \<Rightarrow> since \<le> t | None \<Rightarrow> False)) bs"
    by (rule filter_cong) (auto simp: due_def split: option.splits)
  then show ?thesis
    using length_partition [of br_ready bs "\<lambda>r. case br_ann r of Some t \<Rightarrow> since \<le> t | None \<Rightarrow> False"] by simp
qed

lemma ann_time_mono: "ann_time a \<le> ann_time b \<Longrightarrow>
    (case a of Some t \<Rightarrow> t | None \<Rightarrow> 0) \<le> (case b of Some t \<Rightarrow> t | None \<Rightarrow> (0 :: nat))"
  by (auto simp: ann_time_def split: option.splits)

text \<open>The pending count of \<open>CountPinned\<close> is the number of blocks that are due, and \<open>ProvideCIDs\<close> lists
  as many of those as its limit allows, each once, in the order of their last announcement, which
  puts the blocks never announced first.\<close>

lemma metadata_provide_due:
  assumes wf: "md_wf db" and st: "CountPinned None None since db = Inr st"
    and xs: "ProvideCIDs None since n db = Inr xs"
  shows "ps_pending st = int (length (filter (due since) (md_blocks db))) \<and>
    length xs = min n (nat (ps_pending st)) \<and> sorted (map snd xs) \<and> distinct (map fst xs) \<and>
    (\<forall>c \<in> fst ` set xs. \<exists>r \<in> set (md_blocks db). br_cid r = c \<and> due since r)"
proof -
  define ds where "ds = sort_key (\<lambda>r. ann_time (br_ann r)) (filter (due since) (md_blocks db))"
  let ?t = "\<lambda>r. case br_ann r of Some t \<Rightarrow> t | None \<Rightarrow> 0"
  have xs: "xs = map (\<lambda>r. (br_cid r, ?t r)) (take n ds)"
    using xs by (simp add: ProvideCIDs_def ds_def)
  have p: "ps_pending st = int (length (filter (due since) (md_blocks db)))"
  proof -
    have "length (filter (\<lambda>r. br_ready r \<and> (case br_ann r of Some t \<Rightarrow> since \<le> t | None \<Rightarrow> False)) (md_blocks db))
        \<le> length (filter br_ready (md_blocks db))"
      using length_partition [of br_ready "md_blocks db"
        "\<lambda>r. case br_ann r of Some t \<Rightarrow> since \<le> t | None \<Rightarrow> False"] by simp
    then show ?thesis using st due_count [of "md_blocks db" since] by (auto simp: CountPinned_def Let_def)
  qed
  have "sorted (map (\<lambda>r. ann_time (br_ann r)) (take n ds))"
    unfolding ds_def by (metis sorted_sort_key sorted_wrt_take take_map)
  then have srt: "sorted (map snd xs)"
    using ann_time_mono by (auto simp: xs comp_def sorted_map intro: sorted_wrt_mono_rel [rotated])
  have "distinct (map br_cid (filter (due since) (md_blocks db)))"
    using wf by (simp add: md_wf_def distinct_map_filter)
  then have "distinct (map br_cid ds)"
    using mset_eq_imp_distinct_iff [of "map br_cid ds" "map br_cid (filter (due since) (md_blocks db))"]
    by (simp add: ds_def)
  then have dis: "distinct (map fst xs)" by (simp add: xs comp_def take_map [symmetric])
  have "set (take n ds) \<subseteq> set (filter (due since) (md_blocks db))"
    using set_take_subset [of n ds] by (simp add: ds_def)
  then have "\<forall>c \<in> fst ` set xs. \<exists>r \<in> set (md_blocks db). br_cid r = c \<and> due since r"
    by (auto simp: xs)
  moreover have "length xs = min n (nat (ps_pending st))" by (simp add: xs p ds_def min.commute)
  ultimately show ?thesis using p srt dis by blast
qed

lemma metadata_provide_due_example:
  "ProvideCIDs None 3 1 ex_db = Inr [(Cid 1 112 ''b'', 0)] \<and> sorted (map snd [(Cid 1 112 ''b'', 0 :: nat)])"
proof -
  have "CountPinned None None 3 ex_db = Inr \<lparr>ps_total = 2, ps_announced = 0, ps_pending = 2\<rparr>"
    "ProvideCIDs None 3 1 ex_db = Inr [(Cid 1 112 ''b'', 0)]" by code_simp+
  then show ?thesis using metadata_provide_due [OF ex_db_wf] by blast
qed

lemma announce_one_due:
  assumes "announce_one t c db = Inr db'" and "since \<le> t"
  shows "\<forall>r \<in> set (md_blocks db'). br_cid r = NormalizeCid c \<longrightarrow> \<not> due since r"
    and "\<forall>r \<in> set (md_blocks db). br_cid r = d \<longrightarrow> \<not> due since r \<Longrightarrow>
         \<forall>r \<in> set (md_blocks db'). br_cid r = d \<longrightarrow> \<not> due since r"
  using assms by (auto simp: announce_one_def Let_def due_def split: if_splits)

lemma announce_all_due:
  "fold_err (announce_one t) cs db = Inr db' \<Longrightarrow> since \<le> t \<Longrightarrow>
   \<forall>d \<in> NormalizeCid ` set cs \<union> D. \<forall>r \<in> set (md_blocks db'). br_cid r = d \<longrightarrow> \<not> due since r"
  if "\<forall>d \<in> D. \<forall>r \<in> set (md_blocks db). br_cid r = d \<longrightarrow> \<not> due since r"
  using that
proof (induction cs arbitrary: db D)
  case (Cons c cs)
  obtain db1 where d1: "announce_one t c db = Inr db1" "fold_err (announce_one t) cs db1 = Inr db'"
    using Cons.prems(1) by (auto split: sum.splits)
  have "\<forall>d \<in> insert (NormalizeCid c) D. \<forall>r \<in> set (md_blocks db1). br_cid r = d \<longrightarrow> \<not> due since r"
    using announce_one_due [OF d1(1) Cons.prems(2)] Cons.prems(3) by blast
  from Cons.IH [OF d1(2) Cons.prems(2) this] show ?case by auto
qed auto

text \<open>After \<open>SetLastAnnouncement\<close> with a time not before \<open>since\<close>, none of its blocks is listed again by
  \<open>ProvideCIDs\<close> for \<open>since\<close>; when one of its CIDs is not pinned, nothing is recorded for any of them.\<close>

lemma metadata_announced_not_due:
  assumes "SetLastAnnouncement fault cs t db = (res, db')" and "since \<le> t"
  shows "(case res of
      Inr _ \<Rightarrow> \<forall>n xs. ProvideCIDs None since n db' = Inr xs \<longrightarrow> (\<forall>c \<in> set cs. NormalizeCid c \<notin> fst ` set xs)
    | Inl _ \<Rightarrow> db' = db)"
proof (cases res)
  case (Inl e)
  then show ?thesis using assms(1)
    by (auto simp: SetLastAnnouncement_def in_tx_def split: option.splits sum.splits)
next
  case (Inr u)
  then have f: "fold_err (announce_one t) cs db = Inr db'"
    using assms(1) by (auto simp: SetLastAnnouncement_def in_tx_def split: option.splits sum.splits)
  have nd: "\<not> due since r" if "c \<in> set cs" "r \<in> set (md_blocks db')" "br_cid r = NormalizeCid c" for c r
    using announce_all_due [of "{}", OF _ f assms(2)] that by auto
  have "NormalizeCid c \<notin> fst ` set xs" if "ProvideCIDs None since n db' = Inr xs" "c \<in> set cs" for n xs c
  proof
    assume "NormalizeCid c \<in> fst ` set xs"
    moreover have "fst ` set xs = br_cid ` set (take n (sort_key (\<lambda>r. ann_time (br_ann r))
        (filter (due since) (md_blocks db'))))"
      using that(1) by (auto simp: ProvideCIDs_def image_image)
    ultimately obtain r where "r \<in> set (take n (sort_key (\<lambda>r. ann_time (br_ann r))
        (filter (due since) (md_blocks db'))))" "br_cid r = NormalizeCid c" by (metis imageE)
    moreover from this(1) have "r \<in> set (filter (due since) (md_blocks db'))"
      by (metis in_set_takeD set_sort)
    ultimately show False using nd [OF that(2), of r] by simp
  qed
  then show ?thesis using Inr by simp
qed

lemma metadata_announced_not_due_example:
  "ProvideCIDs None 3 9 (snd (SetLastAnnouncement None [ex_b] 4 ex_db)) = Inr [(ex_a, 0)] \<and>
   NormalizeCid ex_b \<notin> fst ` set [(ex_a, 0 :: nat)]"
proof -
  have "SetLastAnnouncement None [ex_b] 4 ex_db = (Inr (), snd (SetLastAnnouncement None [ex_b] 4 ex_db))"
    "ProvideCIDs None 3 9 (snd (SetLastAnnouncement None [ex_b] 4 ex_db)) = Inr [(ex_a, 0)]" by code_simp+
  moreover have "\<forall>n xs. ProvideCIDs None 3 n (snd (SetLastAnnouncement None [ex_b] 4 ex_db)) = Inr xs \<longrightarrow>
      (\<forall>c \<in> set [ex_b]. NormalizeCid c \<notin> fst ` set xs)"
    using metadata_announced_not_due [of None "[ex_b]" 4 ex_db "Inr ()"
        "snd (SetLastAnnouncement None [ex_b] 4 ex_db)" 3] calculation(1) by (simp del: list.set)
  ultimately show ?thesis by (metis list.set_intros(1))
qed

text \<open>Two updates that do not happen: \<open>Pinned\<close> answers a database error with an empty list and no error,
  and \<open>UpdateUnixFSMetadata\<close>, on a block that has its UnixFS row, reports success and changes
  nothing.\<close>

lemma metadata_silent_failures:
  assumes "find_block (NormalizeCid c) db = Some r" and "live_unixfs (br_id r) db \<noteq> None"
  shows "Pinned (Some e) off lim db = Inr [] \<and> UpdateUnixFSMetadata None c u db = (Inr (), db)"
  using assms by (auto simp: Pinned_def UpdateUnixFSMetadata_def in_tx_def)

lemma metadata_silent_failures_example:
  "UpdateUnixFSMetadata None ex_b \<lparr>un_name = ''n'', un_type = 1, un_size = 0, un_children = []\<rparr> ex_db =
    (Inr (), ex_db)"
proof -
  let ?r = "\<lparr>br_id = 1, br_cid = NormalizeCid ex_b, br_size = 5, br_ann = None, br_ready = True\<rparr>"
  have f: "find_block (NormalizeCid ex_b) ex_db = Some ?r" by code_simp
  have "live_unixfs (br_id ?r) ex_db \<noteq> None" by code_simp
  from metadata_silent_failures [OF f this, of Canceled 0 0] show ?thesis by blast
qed

end
