(* ===== verification/Batcher.thy ===== *)
theory Batcher
  imports MetadataStore
begin

text \<open>
  \<^verbatim>\<open>internal/protocol/store/batcher.go\<close>: blocks are collected and handed to \<open>BatchPin\<close> when the batch
  is full or flushed.  The batcher knows its store by the locale \<open>batch_pinner\<close> only; the metadata
  store is the interpretation at the end, with the database errors it will meet as a list, one
  per call.
\<close>

record 'b batcher =
  bt_size :: nat
  bt_batch :: "'b list"
  bt_err :: "gerr option"
  bt_closed :: bool

definition defaultBatchSize :: nat where "defaultBatchSize = 50"

definition newMetadataBatcher :: "nat \<Rightarrow> 'b batcher" where
  "newMetadataBatcher n = \<lparr>bt_size = n, bt_batch = [], bt_err = None, bt_closed = False\<rparr>"

type_synonym ('b, 's) pinner = "'b list \<Rightarrow> 's \<Rightarrow> (gerr + unit) \<times> 's"

text \<open>The error returned, the batcher and the store after the call.\<close>

definition flushLocked ::
    "('b, 's) pinner \<Rightarrow> 'b batcher \<Rightarrow> 's \<Rightarrow> gerr option \<times> 'b batcher \<times> 's" where
  "flushLocked pin b s =
     (if bt_batch b = [] then (None, b, s)
      else
        let b' = b\<lparr>bt_batch := []\<rparr> in
        case pin (bt_batch b) s of
          (Inl e, s') \<Rightarrow> (Some e, b'\<lparr>bt_err := Some e\<rparr>, s')
        | (Inr _, s') \<Rightarrow> (None, b', s'))"

definition batch_Add ::
    "('b, 's) pinner \<Rightarrow> 'b \<Rightarrow> 'b batcher \<Rightarrow> 's \<Rightarrow> gerr option \<times> 'b batcher \<times> 's" where
  "batch_Add pin x b s =
     (if bt_err b \<noteq> None then (bt_err b, b, s)
      else if bt_closed b then (None, b, s)
      else
        let b' = b\<lparr>bt_batch := bt_batch b @ [x]\<rparr> in
        if bt_size b' \<le> length (bt_batch b') then flushLocked pin b' s else (None, b', s))"

definition batch_Flush ::
    "('b, 's) pinner \<Rightarrow> 'b batcher \<Rightarrow> 's \<Rightarrow> gerr option \<times> 'b batcher \<times> 's" where
  "batch_Flush pin b s = (if bt_closed b then (bt_err b, b, s) else flushLocked pin b s)"

definition batch_Close ::
    "('b, 's) pinner \<Rightarrow> 'b batcher \<Rightarrow> 's \<Rightarrow> gerr option \<times> 'b batcher \<times> 's" where
  "batch_Close pin b s = (let (e, b', s') = flushLocked pin b s in (e, b'\<lparr>bt_closed := True\<rparr>, s'))"

text \<open>A caller that adds blocks until one is refused.\<close>

fun add_all ::
    "('b, 's) pinner \<Rightarrow> 'b list \<Rightarrow> 'b batcher \<Rightarrow> 's \<Rightarrow> gerr option \<times> 'b batcher \<times> 's" where
  "add_all pin [] b s = (None, b, s)"
| "add_all pin (x # xs) b s =
     (case batch_Add pin x b s of
        (Some e, b', s') \<Rightarrow> (Some e, b', s')
      | (None, b', s') \<Rightarrow> add_all pin xs b' s')"

section \<open>What a batcher asks of its store\<close>

locale batch_pinner =
  fixes pin :: "'b list \<Rightarrow> 's \<Rightarrow> (gerr + unit) \<times> 's"
    and stored :: "'b \<Rightarrow> 's \<Rightarrow> bool"
    and ok :: "'s \<Rightarrow> bool"
  assumes pin_ok: "ok s \<Longrightarrow> pin bs s = (r, s') \<Longrightarrow> ok s'"
    and pin_stored: "ok s \<Longrightarrow> pin bs s = (Inr u, s') \<Longrightarrow> b \<in> set bs \<Longrightarrow> stored b s'"
    and pin_keeps: "ok s \<Longrightarrow> pin bs s = (r, s') \<Longrightarrow> stored b s \<Longrightarrow> stored b s'"
begin

text \<open>Every block accepted so far is in the batch or stored.\<close>

definition accepted :: "'b set \<Rightarrow> 'b batcher \<Rightarrow> 's \<Rightarrow> bool" where
  "accepted A b s \<longleftrightarrow> ok s \<and> bt_err b = None \<and> \<not> bt_closed b \<and> (\<forall>x \<in> A. x \<in> set (bt_batch b) \<or> stored x s)"

lemma flush_accepted:
  assumes "accepted A b s" and f: "flushLocked pin b s = (None, b', s')"
  shows "accepted A b' s' \<and> bt_batch b' = [] \<and> (\<forall>x \<in> A. stored x s')"
proof (cases "bt_batch b = []")
  case True
  then show ?thesis using assms by (auto simp: flushLocked_def accepted_def)
next
  case False
  then obtain u where p: "pin (bt_batch b) s = (Inr u, s')" and b': "b' = b\<lparr>bt_batch := []\<rparr>"
    using f by (auto simp: flushLocked_def Let_def split: prod.splits sum.splits)
  have "stored x s'" if "x \<in> A" for x
    using assms(1) that pin_stored [OF _ p] pin_keeps [OF _ p] by (auto simp: accepted_def)
  then show ?thesis using assms(1) b' pin_ok [OF _ p] by (simp add: accepted_def)
qed

lemma add_accepted:
  assumes "accepted A b s" and a: "batch_Add pin x b s = (None, b', s')"
  shows "accepted (insert x A) b' s'"
proof -
  let ?b = "b\<lparr>bt_batch := bt_batch b @ [x]\<rparr>"
  have acc: "accepted (insert x A) ?b s" using assms(1) by (auto simp: accepted_def)
  show ?thesis
    using a assms(1) acc flush_accepted [OF acc]
    by (auto simp: batch_Add_def accepted_def [of A] Let_def split: if_splits)
qed

lemma add_all_accepted:
  "accepted A b s \<Longrightarrow> add_all pin xs b s = (None, b', s') \<Longrightarrow> accepted (set xs \<union> A) b' s'"
proof (induction xs arbitrary: A b s)
  case (Cons x xs)
  obtain b1 s1 where a: "batch_Add pin x b s = (None, b1, s1)" "add_all pin xs b1 s1 = (None, b', s')"
    using Cons.prems(2) by (auto split: prod.splits option.splits)
  show ?case using Cons.IH [OF add_accepted [OF Cons.prems(1) a(1)] a(2)] by simp
qed simp

lemma add_all_flush_stored:
  assumes "ok s" and "add_all pin xs (newMetadataBatcher n) s = (None, b, s1)"
    and "batch_Flush pin b s1 = (None, b2, s2)" and "x \<in> set xs"
  shows "stored x s2"
proof -
  have "accepted {} (newMetadataBatcher n) s" using assms(1) by (simp add: accepted_def newMetadataBatcher_def)
  then have a: "accepted (set xs) b s1" using add_all_accepted [OF _ assms(2)] by fastforce
  moreover have "flushLocked pin b s1 = (None, b2, s2)"
    using assms(3) a by (simp add: batch_Flush_def accepted_def)
  ultimately show ?thesis using flush_accepted assms(4) by blast
qed

end

section \<open>The metadata store as the batcher's store\<close>

type_synonym meta_sched = "meta_db \<times> gerr option list"

definition sched_pin :: "(bytes \<Rightarrow> cid option) \<Rightarrow> (pinned_block, meta_sched) pinner" where
  "sched_pin cast bs s =
     (case s of
        (db, []) \<Rightarrow> let (r, db') = BatchPin None cast bs db in (r, (db', []))
      | (db, f # fs) \<Rightarrow> let (r, db') = BatchPin f cast bs db in (r, (db', fs)))"

definition sched_stored :: "(bytes \<Rightarrow> cid option) \<Rightarrow> pinned_block \<Rightarrow> meta_sched \<Rightarrow> bool" where
  "sched_stored cast b s \<longleftrightarrow> block_stored (prepare cast b) (fst s)"

definition sched_ok :: "meta_sched \<Rightarrow> bool" where
  "sched_ok s \<longleftrightarrow> md_wf (fst s)"

lemma sched_pin_cases:
  assumes "sched_ok s" and "sched_pin cast bs s = (r, s')"
  shows "sched_ok s' \<and> md_le (fst s) (fst s') \<and>
    (r = Inr u \<longrightarrow> (\<forall>b \<in> set bs. sched_stored cast b s'))"
proof -
  have step: "md_wf db' \<and> md_le (fst s) db' \<and> (r = Inr u \<longrightarrow> (\<forall>b \<in> set bs. block_stored (prepare cast b) db'))"
    if b: "BatchPin f cast bs (fst s) = (r, db')" for f db'
  proof (cases f)
    case None
    then show ?thesis using b BatchPin_correct [of "fst s" cast bs] assms(1) by (auto simp: sched_ok_def)
  next
    case (Some e)
    then show ?thesis using b assms(1) by (auto simp: BatchPin_def in_tx_def Let_def sched_ok_def)
  qed
  show ?thesis
  proof (cases "snd s")
    case Nil
    then have "BatchPin None cast bs (fst s) = (r, fst s')"
      using assms(2) by (cases s) (auto simp: sched_pin_def split: prod.splits)
    from step [OF this] show ?thesis by (simp add: sched_ok_def sched_stored_def)
  next
    case (Cons f fs)
    then have "BatchPin f cast bs (fst s) = (r, fst s')"
      using assms(2) by (cases s) (auto simp: sched_pin_def split: prod.splits)
    from step [OF this] show ?thesis by (simp add: sched_ok_def sched_stored_def)
  qed
qed

interpretation mp: batch_pinner "sched_pin cast" "sched_stored cast" sched_ok for cast
proof
  fix s bs r s' b u
  assume ok: "sched_ok s"
  show "sched_pin cast bs s = (r, s') \<Longrightarrow> sched_ok s'" using sched_pin_cases [OF ok] by blast
  show "sched_pin cast bs s = (Inr u, s') \<Longrightarrow> b \<in> set bs \<Longrightarrow> sched_stored cast b s'"
    using sched_pin_cases [OF ok] by blast
  show "sched_pin cast bs s = (r, s') \<Longrightarrow> sched_stored cast b s \<Longrightarrow> sched_stored cast b s'"
    using sched_pin_cases [OF ok] block_stored_mono unfolding sched_stored_def by blast
qed

section \<open>Properties\<close>

text \<open>C40. When every \<open>Add\<close> and the final \<open>Flush\<close> report no error, every block is pinned in the metadata
  store with all its links, however the blocks fell into batches.\<close>

theorem batcher_stores_all:
  assumes "md_wf db" and "add_all (sched_pin cast) bs (newMetadataBatcher n) (db, faults) = (None, b, s1)"
    and "batch_Flush (sched_pin cast) b s1 = (None, b2, s2)"
  shows "\<forall>x \<in> set bs. BlockExists None (p_cid x) (fst s2) = None \<and> block_stored (prepare cast x) (fst s2)"
proof
  fix x assume "x \<in> set bs"
  then have "sched_stored cast x s2"
    using assms by (intro mp.add_all_flush_stored [OF _ assms(2,3)]) (simp_all add: sched_ok_def)
  then show "BlockExists None (p_cid x) (fst s2) = None \<and> block_stored (prepare cast x) (fst s2)"
    using block_stored_exists by (auto simp: sched_stored_def)
qed

theorem batcher_stores_all_witness:
  "BlockExists None ex_a (fst (snd (snd (batch_Flush (sched_pin (\<lambda>_. None))
     (fst (snd (add_all (sched_pin (\<lambda>_. None)) [ex_pin ex_a [], ex_pin ex_b []] (newMetadataBatcher 2) (empty_meta, []))))
     (snd (snd (add_all (sched_pin (\<lambda>_. None)) [ex_pin ex_a [], ex_pin ex_b []] (newMetadataBatcher 2) (empty_meta, [])))))))) = None"
proof -
  let ?r = "add_all (sched_pin (\<lambda>_. None)) [ex_pin ex_a [], ex_pin ex_b []] (newMetadataBatcher 2) (empty_meta, [])"
  let ?f = "batch_Flush (sched_pin (\<lambda>_. None)) (fst (snd ?r)) (snd (snd ?r))"
  have "fst ?r = None" "fst ?f = None" by code_simp+
  then have "?r = (None, fst (snd ?r), snd (snd ?r))" "?f = (None, fst (snd ?f), snd (snd ?f))"
    by (metis prod.collapse)+
  from batcher_stores_all [OF md_wf_empty this] show ?thesis by (simp add: ex_pin_def)
qed

text \<open>A flush that fails is reported by the call that caused it and by every later \<open>Add\<close>, but not by
  the next \<open>Flush\<close>: the batch is gone and \<open>Flush\<close> finds nothing to do.  An \<open>Add\<close> on a closed batcher
  drops the block and reports no error.\<close>

lemma batcher_error_then_flush:
  assumes "flushLocked pin b s = (Some e, b', s')" and "\<not> bt_closed b"
  shows "batch_Flush pin b' s' = (None, b', s') \<and> batch_Add pin x b' s' = (Some e, b', s') \<and>
    (bt_err c = None \<longrightarrow> bt_closed c \<longrightarrow> batch_Add pin x c s = (None, c, s))"
  using assms by (auto simp: flushLocked_def batch_Flush_def batch_Add_def Let_def
      split: if_splits prod.splits sum.splits)

lemma batcher_error_then_flush_example:
  "batch_Flush (\<lambda>_ s. (Inl EOF, s)) \<lparr>bt_size = 2, bt_batch = [], bt_err = Some EOF, bt_closed = False\<rparr> () =
     (None, \<lparr>bt_size = 2, bt_batch = [] :: nat list, bt_err = Some EOF, bt_closed = False\<rparr>, ())"
  using batcher_error_then_flush [of "\<lambda>_ s. (Inl EOF, s)" "\<lparr>bt_size = 2, bt_batch = [7 :: nat], bt_err = None, bt_closed = False\<rparr>"
      "()" EOF "\<lparr>bt_size = 2, bt_batch = [], bt_err = Some EOF, bt_closed = False\<rparr>" "()" 8
      "newMetadataBatcher 1"]
  by (simp add: flushLocked_def)

end
