(* ===== verification/Quota.thy ===== *)
theory Quota
  imports Cid_Context
begin

text \<open>
  \<^verbatim>\<open>internal/quota/quota.go\<close> and \<^verbatim>\<open>internal/protocol/quota_helpers.go\<close>: checks against the quota
  service, reservations and their release.  The service is a parameter, absent or with a state
  of its own; what the theorems ask of it is \<open>service_ok\<close>: a check that reserves adds its
  reservation to those held, one that fails adds none, and a release takes it away.  Event
  emission is left out.
\<close>

section \<open>The service\<close>

datatype check_kind = CheckTypeUpload | CheckTypeStorage | CheckTypeDownload

record quota_result =
  q_allowed :: bool
  q_current :: u64
  q_limit :: "u64 option"
  q_reservation :: "nat option"

record 'q quota_service =
  qs_check :: "check_kind \<Rightarrow> nat \<Rightarrow> u64 \<Rightarrow> bool \<Rightarrow> 'q \<Rightarrow> (gerr + quota_result) \<times> 'q"
  qs_group :: "bytes \<Rightarrow> u64 \<Rightarrow> 'q \<Rightarrow> gerr + bool"
  qs_release :: "quota_result \<Rightarrow> 'q \<Rightarrow> 'q"

definition res_held :: "quota_result \<Rightarrow> nat multiset" where
  "res_held r = (case q_reservation r of Some i \<Rightarrow> {#i#} | None \<Rightarrow> {#})"

definition opt_held :: "quota_result option \<Rightarrow> nat multiset" where
  "opt_held r = (case r of Some r \<Rightarrow> res_held r | None \<Rightarrow> {#})"

definition service_ok :: "('q \<Rightarrow> nat multiset) \<Rightarrow> 'q quota_service \<Rightarrow> bool" where
  "service_ok held qs \<longleftrightarrow>
     (\<forall>k u n rsv q. case qs_check qs k u n rsv q of
        (Inl e, q') \<Rightarrow> held q' = held q | (Inr r, q') \<Rightarrow> held q' = held q + res_held r) \<and>
     (\<forall>r q. held (qs_release qs r q) = held q - res_held r)"

section \<open>Checks\<close>

text \<open>\<open>CheckUploadQuota\<close>, \<open>CheckStorageQuota\<close> and \<open>CheckDownloadQuota\<close>: no result without a service.\<close>

definition CheckQuota ::
    "'q quota_service option \<Rightarrow> check_kind \<Rightarrow> nat \<Rightarrow> u64 \<Rightarrow> bool \<Rightarrow> 'q \<Rightarrow>
     (gerr + quota_result option) \<times> 'q" where
  "CheckQuota svc kind user n reserve q =
     (case svc of
        None \<Rightarrow> (Inr None, q)
      | Some qs \<Rightarrow>
          (case qs_check qs kind user n reserve q of
             (Inl e, q') \<Rightarrow> (Inl e, q')
           | (Inr r, q') \<Rightarrow> (Inr (Some r), q')))"

definition quota_exceeded :: "check_kind \<Rightarrow> gerr" where
  "quota_exceeded kind =
     Opaque (case kind of
       CheckTypeUpload \<Rightarrow> ''upload quota exceeded''
     | CheckTypeStorage \<Rightarrow> ''storage quota exceeded''
     | CheckTypeDownload \<Rightarrow> ''download quota exceeded'')"

definition ValidateQuota ::
    "'q quota_service option \<Rightarrow> check_kind \<Rightarrow> nat \<Rightarrow> u64 \<Rightarrow> 'q \<Rightarrow> gerr option \<times> 'q" where
  "ValidateQuota svc kind user n q =
     (case CheckQuota svc kind user n False q of
        (Inl e, q') \<Rightarrow> (Some (Wrapped ''quota check failed'' e), q')
      | (Inr None, q') \<Rightarrow> (None, q')
      | (Inr (Some r), q') \<Rightarrow> (if q_allowed r then None else Some (quota_exceeded kind), q'))"

text \<open>An error of the service is not reported: the group counts as available.\<close>

definition CheckCIDGroupDownloadAvailability ::
    "'q quota_service option \<Rightarrow> bytes \<Rightarrow> u64 \<Rightarrow> 'q \<Rightarrow> gerr + bool" where
  "CheckCIDGroupDownloadAvailability svc h n q =
     (case svc of
        None \<Rightarrow> Inr True
      | Some qs \<Rightarrow> (case qs_group qs h n q of Inr b \<Rightarrow> Inr b | Inl _ \<Rightarrow> Inr True))"

definition release_opt :: "'q quota_service option \<Rightarrow> quota_result option \<Rightarrow> 'q \<Rightarrow> 'q" where
  "release_opt svc r q =
     (case r of
        None \<Rightarrow> q
      | Some r \<Rightarrow> (case svc of Some qs \<Rightarrow> qs_release qs r q | None \<Rightarrow> q))"

definition CheckWithReservation ::
    "'q quota_service option \<Rightarrow> check_kind \<Rightarrow> nat \<Rightarrow> u64 \<Rightarrow> 'q \<Rightarrow>
     (gerr + quota_result option) \<times> 'q" where
  "CheckWithReservation svc kind user n q =
     (case CheckQuota svc kind user n True q of
        (Inl e, q') \<Rightarrow> (Inl (Wrapped ''usage check failed'' e), q')
      | (Inr None, q') \<Rightarrow> (Inr None, q')
      | (Inr (Some r), q') \<Rightarrow>
          if \<not> q_allowed r
          then (Inl (Wrapped ''usage'' (quota_exceeded kind)), release_opt svc (Some r) q')
          else (Inr (Some r), q'))"

definition ReleaseReservations :: "'q quota_service option \<Rightarrow> quota_result option list \<Rightarrow> 'q \<Rightarrow> 'q" where
  "ReleaseReservations svc rs q = fold (release_opt svc) rs q"

record block_reservations =
  rv_upload :: "quota_result option"
  rv_storage :: "quota_result option"

definition ReleaseAll :: "'q quota_service option \<Rightarrow> block_reservations \<Rightarrow> 'q \<Rightarrow> 'q" where
  "ReleaseAll svc br q = release_opt svc (rv_storage br) (release_opt svc (rv_upload br) q)"

definition ReleaseBlockReservationsMap ::
    "'q quota_service option \<Rightarrow> (cid, block_reservations) gomap \<Rightarrow> 'q \<Rightarrow> 'q" where
  "ReleaseBlockReservationsMap svc m q = fold (ReleaseAll svc) (map snd m) q"

section \<open>Reservations for the blocks of an upload\<close>

text \<open>The sizes are \<open>uint64\<close>, and so is their sum: it wraps.\<close>

fun CalculateTotalCIDSize ::
    "(cid \<Rightarrow> gerr + u64) \<Rightarrow> cid list \<Rightarrow> u64 \<Rightarrow> (cid, u64) gomap \<Rightarrow> u64 \<times> (cid, u64) gomap" where
  "CalculateTotalCIDSize get_size [] tot sizes = (tot, sizes)"
| "CalculateTotalCIDSize get_size (c # cs) tot sizes =
     (case get_size c of
        Inl _ \<Rightarrow> CalculateTotalCIDSize get_size cs tot sizes
      | Inr n \<Rightarrow> CalculateTotalCIDSize get_size cs (tot + n) (gm_set c n sizes))"

definition CreateReservationMap ::
    "cid list \<Rightarrow> quota_result option \<Rightarrow> (cid, quota_result) gomap" where
  "CreateReservationMap cs r =
     (case r of None \<Rightarrow> [] | Some r \<Rightarrow> fold (\<lambda>c m. gm_set c r m) cs [])"

fun create_reservations ::
    "'q quota_service option \<Rightarrow> nat \<Rightarrow> (cid \<times> u64) list \<Rightarrow> (cid, block_reservations) gomap \<Rightarrow> 'q \<Rightarrow>
     (gerr + (cid, block_reservations) gomap) \<times> 'q" where
  "create_reservations svc user [] acc q = (Inr acc, q)"
| "create_reservations svc user ((c, n) # cs) acc q =
     (if n = 0 then create_reservations svc user cs acc q
      else case CheckWithReservation svc CheckTypeUpload user n q of
        (Inl e, q1) \<Rightarrow>
          (Inl (Wrapped ''failed to create upload reservation for block'' e),
           ReleaseBlockReservationsMap svc acc q1)
      | (Inr up, q1) \<Rightarrow>
          (case CheckWithReservation svc CheckTypeStorage user n q1 of
             (Inl e, q2) \<Rightarrow>
               (Inl (Wrapped ''failed to create storage reservation for block'' e),
                ReleaseBlockReservationsMap svc acc (release_opt svc up q2))
           | (Inr st, q2) \<Rightarrow>
               create_reservations svc user cs (gm_set c \<lparr>rv_upload = up, rv_storage = st\<rparr> acc) q2))"

definition CreatePerBlockReservationsWithSizes ::
    "'q quota_service option \<Rightarrow> nat \<Rightarrow> (cid, u64) gomap \<Rightarrow> 'q \<Rightarrow>
     (gerr + (cid, block_reservations) gomap) \<times> 'q" where
  "CreatePerBlockReservationsWithSizes svc user sizes q = create_reservations svc user sizes [] q"

text \<open>The sizes come from the blockstore; a block it does not know or that is empty is left out.\<close>

definition known_sizes :: "(cid \<Rightarrow> gerr + int) \<Rightarrow> cid list \<Rightarrow> (cid, u64) gomap" where
  "known_sizes get_size cs =
     fold (\<lambda>c m. case get_size c of
       Inl _ \<Rightarrow> m | Inr n \<Rightarrow> if 0 < n then gm_set c (word_of_int n) m else m) cs []"

definition CreatePerBlockReservations ::
    "'q quota_service option \<Rightarrow> (cid \<Rightarrow> gerr + int) \<Rightarrow> cid list \<Rightarrow> nat \<Rightarrow> 'q \<Rightarrow>
     (gerr + (cid, block_reservations) gomap) \<times> 'q" where
  "CreatePerBlockReservations svc get_size cs user q =
     CreatePerBlockReservationsWithSizes svc user (known_sizes get_size cs) q"

section \<open>What is held\<close>

definition map_held :: "(cid, block_reservations) gomap \<Rightarrow> nat multiset" where
  "map_held m = sum_list (map (\<lambda>(_, br). opt_held (rv_upload br) + opt_held (rv_storage br)) m)"

definition svc_ok :: "('q \<Rightarrow> nat multiset) \<Rightarrow> 'q quota_service option \<Rightarrow> bool" where
  "svc_ok held svc \<longleftrightarrow> (case svc of None \<Rightarrow> True | Some qs \<Rightarrow> service_ok held qs)"

lemma CheckQuota_held:
  "svc_ok held svc \<Longrightarrow> CheckQuota svc k u n rsv q = (r, q') \<Longrightarrow>
   held q' = held q + (case r of Inl _ \<Rightarrow> {#} | Inr x \<Rightarrow> opt_held x)"
proof (cases svc)
  case (Some qs)
  assume ok: "svc_ok held svc" and c: "CheckQuota svc k u n rsv q = (r, q')"
  have law: "case qs_check qs k u n rsv q of
      (Inl e, q') \<Rightarrow> held q' = held q | (Inr r, q') \<Rightarrow> held q' = held q + res_held r"
    using ok Some unfolding svc_ok_def service_ok_def by simp
  show ?thesis
    using c Some law by (cases "qs_check qs k u n rsv q"; cases "fst (qs_check qs k u n rsv q)")
      (auto simp: CheckQuota_def opt_held_def)
qed (auto simp: CheckQuota_def opt_held_def)

lemma release_opt_held:
  "svc_ok held svc \<Longrightarrow> svc = None \<longrightarrow> r = None \<Longrightarrow> held (release_opt svc r q) = held q - opt_held r"
  by (auto simp: svc_ok_def service_ok_def release_opt_def opt_held_def split: option.splits)

lemma CheckQuota_none: "CheckQuota None k u n rsv q = (Inr None, q)"
  by (simp add: CheckQuota_def)

lemma CheckWithReservation_none: "CheckWithReservation None k u n q = (Inr None, q)"
  by (simp add: CheckWithReservation_def CheckQuota_none)

lemma CheckWithReservation_held:
  assumes ok: "svc_ok held svc" and c: "CheckWithReservation svc k u n q = (r, q')"
  shows "held q' = held q + (case r of Inl _ \<Rightarrow> {#} | Inr x \<Rightarrow> opt_held x)"
proof -
  obtain r1 q1 where c1: "CheckQuota svc k u n True q = (r1, q1)" by (metis prod.exhaust)
  note h1 = CheckQuota_held [OF ok c1]
  show ?thesis
  proof (cases r1)
    case (Inl e) then show ?thesis using c c1 h1 by (auto simp: CheckWithReservation_def)
  next
    case r1: (Inr x)
    show ?thesis
    proof (cases x)
      case None then show ?thesis using c c1 h1 r1 by (auto simp: CheckWithReservation_def)
    next
      case (Some y)
      then have "svc \<noteq> None" using c1 r1 Some by (cases svc) (auto simp: CheckQuota_def)
      then have "held (release_opt svc (Some y) q1) = held q1 - opt_held (Some y)"
        using release_opt_held [OF ok] by blast
      then show ?thesis
        using c c1 h1 r1 Some by (auto simp: CheckWithReservation_def split: if_splits)
    qed
  qed
qed

lemma ReleaseMap_held:
  "svc_ok held svc \<Longrightarrow> svc = None \<longrightarrow> (\<forall>(c, br) \<in> set m. rv_upload br = None \<and> rv_storage br = None) \<Longrightarrow>
   held (ReleaseBlockReservationsMap svc m q) = held q - map_held m"
  unfolding ReleaseBlockReservationsMap_def
proof (induction m arbitrary: q)
  case Nil then show ?case by (simp add: map_held_def)
next
  case (Cons x m)
  obtain c br where x: "x = (c, br)" by (cases x)
  have "held (ReleaseAll svc br q) = held q - (opt_held (rv_upload br) + opt_held (rv_storage br))"
    using Cons.prems x release_opt_held [OF Cons.prems(1)] by (simp add: ReleaseAll_def)
  then show ?case using Cons.IH [of "ReleaseAll svc br q"] Cons.prems x
    by (simp add: map_held_def)
qed

lemma map_held_set:
  "c \<notin> set (gm_keys m) \<Longrightarrow> map_held (gm_set c br m) =
     map_held m + (opt_held (rv_upload br) + opt_held (rv_storage br))"
  by (induction m) (auto simp: map_held_def)

lemma create_reservations_held:
  assumes ok: "svc_ok held svc" and "distinct (map fst cs @ gm_keys acc)"
    and none: "svc = None \<longrightarrow> (\<forall>(c, br) \<in> set acc. rv_upload br = None \<and> rv_storage br = None)"
    and "held q = H + map_held acc" and "create_reservations svc user cs acc q = (r, q')"
  shows "held q' = H + (case r of Inl _ \<Rightarrow> {#} | Inr m \<Rightarrow> map_held m)"
  using assms(2-)
proof (induction cs arbitrary: acc q)
  case Nil then show ?case by auto
next
  case (Cons cn cs)
  obtain c n where cn: "cn = (c, n)" by (cases cn)
  show ?case
  proof (cases "n = 0")
    case True
    then show ?thesis using Cons.prems cn by (intro Cons.IH [of acc q]) auto
  next
    case False
    obtain r1 q1 where c1: "CheckWithReservation svc CheckTypeUpload user n q = (r1, q1)"
      by (metis prod.exhaust)
    note h1 = CheckWithReservation_held [OF ok c1]
    show ?thesis
    proof (cases r1)
      case (Inl e)
      then show ?thesis
        using Cons.prems cn False c1 h1 ReleaseMap_held [OF ok Cons.prems(2)] by auto
    next
      case r1: (Inr up)
      obtain r2 q2 where c2: "CheckWithReservation svc CheckTypeStorage user n q1 = (r2, q2)"
        by (metis prod.exhaust)
      note h2 = CheckWithReservation_held [OF ok c2]
      have upn: "svc = None \<longrightarrow> up = None" using c1 r1 by (auto simp: CheckWithReservation_none)
      show ?thesis
      proof (cases r2)
        case (Inl e)
        then show ?thesis
          using Cons.prems cn False c1 c2 r1 h1 h2 ReleaseMap_held [OF ok Cons.prems(2)]
            release_opt_held [OF ok upn] by (auto simp: add.assoc)
      next
        case (Inr st)
        have stn: "svc = None \<longrightarrow> st = None" using c2 Inr by (auto simp: CheckWithReservation_none)
        let ?acc = "gm_set c \<lparr>rv_upload = up, rv_storage = st\<rparr> acc"
        have fresh: "c \<notin> set (gm_keys acc)" using Cons.prems(1) cn by auto
        have "held q' = H + (case r of Inl _ \<Rightarrow> {#} | Inr m \<Rightarrow> map_held m)"
        proof (rule Cons.IH [of ?acc q2])
          have "set (gm_keys ?acc) = insert c (set (gm_keys acc))" by (rule gm_keys_set)
          then show "distinct (map fst cs @ gm_keys ?acc)"
            using Cons.prems(1) cn by (auto simp del: set_map)
          show "svc = None \<longrightarrow> (\<forall>(c, br) \<in> set ?acc. rv_upload br = None \<and> rv_storage br = None)"
          proof
            assume "svc = None"
            then have "\<forall>(c, br) \<in> set acc. rv_upload br = None \<and> rv_storage br = None"
              and "up = None" "st = None" using Cons.prems(2) upn stn by simp_all
            then show "\<forall>(c, br) \<in> set ?acc. rv_upload br = None \<and> rv_storage br = None"
              by (induction acc) auto
          qed
          show "held q2 = H + map_held ?acc"
            using Cons.prems(3) h1 h2 r1 Inr by (simp add: map_held_set [OF fresh] add_ac)
          show "create_reservations svc user cs ?acc q2 = (r, q')"
            using Cons.prems(4) cn False c1 c2 r1 Inr by simp
        qed
        then show ?thesis .
      qed
    qed
  qed
qed

section \<open>Properties\<close>

text \<open>C36. Reserving for the blocks of an upload leaks nothing: when any check fails every reservation made
  on the way is released, and on success exactly those in the returned map are held.\<close>

theorem quota_no_leak:
  assumes "svc_ok held svc" and "gm_wf sizes"
    and "CreatePerBlockReservationsWithSizes svc user sizes q = (r, q')"
  shows "held q' = held q + (case r of Inl _ \<Rightarrow> {#} | Inr m \<Rightarrow> map_held m)"
  using create_reservations_held [OF assms(1), of sizes "[]" q "held q" user r q'] assms(2,3)
  by (simp add: CreatePerBlockReservationsWithSizes_def map_held_def)

text \<open>A service that counts: it allows up to a number of bytes in all and numbers its reservations.\<close>

definition ex_service :: "(nat \<times> nat multiset) quota_service" where
  "ex_service = \<lparr>
     qs_check = (\<lambda>k u n rsv (i, h).
       (Inr \<lparr>q_allowed = size h < 3, q_current = 0, q_limit = None, q_reservation = Some i\<rparr>, (Suc i, add_mset i h))),
     qs_group = (\<lambda>_ _ _. Inl Canceled),
     qs_release = (\<lambda>r (i, h). (i, h - res_held r))\<rparr>"

lemma ex_service_ok: "svc_ok snd (Some ex_service)"
  by (auto simp: svc_ok_def service_ok_def ex_service_def res_held_def)

theorem quota_no_leak_witness:
  "snd (snd (CreatePerBlockReservationsWithSizes (Some ex_service) 7
     [(Cid 1 85 ''a'', 5), (Cid 1 85 ''b'', 6)] (0, {#}))) = {#}"
proof -
  let ?r = "CreatePerBlockReservationsWithSizes (Some ex_service) 7
     [(Cid 1 85 ''a'', 5), (Cid 1 85 ''b'', 6)] (0, {#})"
  have "\<exists>e. fst ?r = Inl e"
    by (simp add: CreatePerBlockReservationsWithSizes_def CheckWithReservation_def CheckQuota_def
        ex_service_def)
  then obtain e where e: "?r = (Inl e, snd ?r)" by (metis prod.collapse)
  from quota_no_leak [OF ex_service_ok _ e] show ?thesis by simp
qed

lemma CalculateTotalCIDSize_sum:
  "fst (CalculateTotalCIDSize get_size cs tot sizes) =
     tot + word_of_nat (sum_list (map (\<lambda>c. case get_size c of Inr n \<Rightarrow> unat n | Inl _ \<Rightarrow> 0) cs))"
  by (induction get_size cs tot sizes rule: CalculateTotalCIDSize.induct)
    (simp_all split: sum.split add: add.assoc)

text \<open>The total that a quota check asks for is the sum of the known sizes modulo \<open>2\<^sup>6\<^sup>4\<close>: where the true
  sum exceeds the range, the check is made for less than the upload needs.\<close>

lemma quota_total_wraps:
  "unat (fst (CalculateTotalCIDSize get_size cs 0 [])) =
     sum_list (map (\<lambda>c. case get_size c of Inr n \<Rightarrow> unat n | Inl _ \<Rightarrow> 0) cs) mod 2 ^ 64"
  by (simp add: CalculateTotalCIDSize_sum unat_of_nat)

text \<open>The availability check of a download never reports an error: without the service, and when the
  service fails, the download is allowed.\<close>

lemma quota_group_fails_open:
  "(\<exists>b. CheckCIDGroupDownloadAvailability svc h n q = Inr b) \<and>
   CheckCIDGroupDownloadAvailability None h n q = Inr True \<and>
   (qs_group qs h n q = Inl e \<longrightarrow> CheckCIDGroupDownloadAvailability (Some qs) h n q = Inr True)"
  by (auto simp: CheckCIDGroupDownloadAvailability_def split: option.splits sum.splits)

end
