(* ===== verification/PeerTracker.thy ===== *)
theory PeerTracker
  imports Cid_Context
begin

text \<open>
  \<^verbatim>\<open>internal/protocol/ipfs/peer_tracker.go\<close>: which peers asked for which block.  The random index is
  an argument, \<open>None\<close> when the system's random source fails.
\<close>

type_synonym tracker = "(cid, string list) gomap"

definition AddRequest :: "cid \<Rightarrow> string \<Rightarrow> tracker \<Rightarrow> tracker" where
  "AddRequest c ip t =
     (let c = NormalizeCid c in
      if ip = [] \<or> \<not> cid_defined c then t
      else
        let peers = (case gm_get t c of Some ps \<Rightarrow> ps | None \<Rightarrow> []) in
        if ip \<in> set peers then t else gm_set c (peers @ [ip]) t)"

text \<open>The list without the element at an index, as the random pick leaves it: the last one moves there.\<close>

definition swap_remove :: "nat \<Rightarrow> 'a list \<Rightarrow> 'a list" where
  "swap_remove i xs = butlast (xs[i := last xs])"

definition GetAndRemoveRandomPeer :: "nat option \<Rightarrow> cid \<Rightarrow> tracker \<Rightarrow> (string \<times> bool) \<times> tracker" where
  "GetAndRemoveRandomPeer rnd c t =
     (let c = NormalizeCid c in
      case gm_get t c of
        None \<Rightarrow> (([], False), t)
      | Some [] \<Rightarrow> (([], False), t)
      | Some peers \<Rightarrow>
          let i = (case rnd of Some i \<Rightarrow> i | None \<Rightarrow> 0) in
          ((peers ! i, True),
           if length peers = 1 then gm_del c t else gm_set c (swap_remove i peers) t))"

definition PopPeer :: "cid \<Rightarrow> tracker \<Rightarrow> (string \<times> bool) \<times> tracker" where
  "PopPeer c t =
     (let c = NormalizeCid c in
      case gm_get t c of
        None \<Rightarrow> (([], False), t)
      | Some [] \<Rightarrow> (([], False), t)
      | Some (p # ps) \<Rightarrow> ((p, True), if ps = [] then gm_del c t else gm_set c ps t))"

text \<open>One peer out of one list: the entry goes with its only peer.\<close>

definition drop_peer :: "string \<Rightarrow> cid \<Rightarrow> tracker \<Rightarrow> tracker" where
  "drop_peer ip c t =
     (case gm_get t c of
        None \<Rightarrow> t
      | Some peers \<Rightarrow>
          if ip \<in> set peers then
            if length peers = 1 then gm_del c t else gm_set c (remove1 ip peers) t
          else t)"

definition RemovePeer :: "cid \<Rightarrow> string \<Rightarrow> tracker \<Rightarrow> tracker" where
  "RemovePeer c ip t = drop_peer ip (NormalizeCid c) t"

definition RemovePeerFromAll :: "string \<Rightarrow> tracker \<Rightarrow> tracker" where
  "RemovePeerFromAll ip t = (if ip = [] then t else fold (drop_peer ip) (gm_keys t) t)"

section \<open>Invariant\<close>

text \<open>No list is empty or has a peer twice, no peer is the empty string, and keys are normalised.\<close>

definition tracker_ok :: "tracker \<Rightarrow> bool" where
  "tracker_ok t \<longleftrightarrow>
     (\<forall>c ps. gm_get t c = Some ps \<longrightarrow> ps \<noteq> [] \<and> distinct ps \<and> [] \<notin> set ps \<and> NormalizeCid c = c)"

definition tracked :: "tracker \<Rightarrow> cid \<Rightarrow> string set" where
  "tracked t c = (case gm_get t c of Some ps \<Rightarrow> set ps | None \<Rightarrow> {})"

lemma tracker_okD: "tracker_ok t \<Longrightarrow> gm_get t c = Some ps \<Longrightarrow>
    ps \<noteq> [] \<and> distinct ps \<and> [] \<notin> set ps \<and> NormalizeCid c = c"
  by (simp add: tracker_ok_def)

lemma tracker_ok_set: "tracker_ok t \<Longrightarrow> ps \<noteq> [] \<Longrightarrow> distinct ps \<Longrightarrow> [] \<notin> set ps \<Longrightarrow> NormalizeCid c = c \<Longrightarrow>
    tracker_ok (gm_set c ps t)"
  by (simp add: tracker_ok_def gm_simps)

lemma tracker_ok_del: "tracker_ok t \<Longrightarrow> tracker_ok (gm_del c t)"
  by (simp add: tracker_ok_def gm_simps)

lemma swap_remove_props:
  assumes "i < length xs" and "distinct xs"
  shows "mset xs = add_mset (xs ! i) (mset (swap_remove i xs))"
    and "distinct (swap_remove i xs)" and "set (swap_remove i xs) = set xs - {xs ! i}"
proof -
  obtain ys l where xs: "xs = ys @ [l]" using assms(1) by (cases xs rule: rev_cases) auto
  show m: "mset xs = add_mset (xs ! i) (mset (swap_remove i xs))"
  proof (cases "i = length ys")
    case True then show ?thesis by (simp add: swap_remove_def xs)
  next
    case False
    then have i: "i < length ys" using assms(1) xs by simp
    have "swap_remove i xs = ys[i := l]" using i by (simp add: swap_remove_def xs list_update_append)
    moreover have "add_mset (ys ! i) (mset (ys[i := l])) = add_mset l (mset ys)"
      using i by (simp add: mset_update)
    ultimately show ?thesis using i by (simp add: xs nth_append)
  qed
  then have "distinct (xs ! i # swap_remove i xs)"
    using assms(2) mset_eq_imp_distinct_iff [of xs "xs ! i # swap_remove i xs"] by simp
  then show "distinct (swap_remove i xs)" by simp
  have "set xs = insert (xs ! i) (set (swap_remove i xs))"
    using m by (metis set_mset_add_mset_insert set_mset_mset)
  then show "set (swap_remove i xs) = set xs - {xs ! i}"
    using \<open>distinct (xs ! i # swap_remove i xs)\<close> by auto
qed

lemma drop_peer_ok: "tracker_ok t \<Longrightarrow> tracker_ok (drop_peer ip c t)"
proof (cases "gm_get t c")
  case (Some ps)
  assume ok: "tracker_ok t"
  note p = tracker_okD [OF ok Some]
  have ne: "remove1 ip ps \<noteq> []" if "ip \<in> set ps" "length ps \<noteq> 1"
    using that length_remove1 [of ip ps] by (cases ps) (auto simp: length_Suc_conv)
  show ?thesis
    using ok Some p ne by (auto simp: drop_peer_def intro!: tracker_ok_set tracker_ok_del dest: in_remove1D)
qed (simp add: drop_peer_def)

lemma drop_peer_tracked: "tracker_ok t \<Longrightarrow>
    tracked (drop_peer ip c t) d = (if d = c then tracked t c - {ip} else tracked t d)"
proof (cases "gm_get t c")
  case (Some ps)
  assume ok: "tracker_ok t"
  then have "distinct ps" using tracker_okD Some by blast
  then show ?thesis
    using Some by (auto simp: drop_peer_def tracked_def gm_simps length_Suc_conv split: option.splits)
qed (simp add: drop_peer_def tracked_def)

lemma drop_peers: "tracker_ok t \<Longrightarrow> tracker_ok (fold (drop_peer ip) cs t) \<and>
    tracked (fold (drop_peer ip) cs t) d = (if d \<in> set cs then tracked t d - {ip} else tracked t d)"
  by (induction cs arbitrary: t) (auto simp: drop_peer_ok drop_peer_tracked)

lemma AddRequest_set:
  assumes ok: "tracker_ok t"
  shows "tracker_ok (AddRequest c ip t) \<and>
    tracked (AddRequest c ip t) (NormalizeCid c) =
      (if ip = [] \<or> \<not> cid_defined (NormalizeCid c) then tracked t (NormalizeCid c)
       else insert ip (tracked t (NormalizeCid c)))"
proof -
  let ?c = "NormalizeCid c"
  let ?ps = "case gm_get t ?c of Some ps \<Rightarrow> ps | None \<Rightarrow> []"
  have ps: "distinct ?ps" "[] \<notin> set ?ps" "set ?ps = tracked t ?c"
    using tracker_okD [OF ok] by (auto simp: tracked_def split: option.splits)
  have "tracker_ok (AddRequest c ip t)"
    using ok ps by (auto simp: AddRequest_def Let_def intro!: tracker_ok_set)
  moreover have "tracked (AddRequest c ip t) ?c =
      (if ip = [] \<or> \<not> cid_defined ?c then tracked t ?c else insert ip (tracked t ?c))"
    using ps(3) by (auto simp: AddRequest_def Let_def tracked_def gm_simps split: option.splits)
  ultimately show ?thesis by simp
qed

lemma RemovePeerFromAll_set:
  assumes ok: "tracker_ok t"
  shows "tracker_ok (RemovePeerFromAll ip t) \<and> ip \<notin> tracked (RemovePeerFromAll ip t) d"
proof (cases "ip = []")
  case True
  then show ?thesis using ok tracker_okD [OF ok]
    by (auto simp: RemovePeerFromAll_def tracked_def split: option.splits)
next
  case False
  have "d \<notin> set (gm_keys t) \<Longrightarrow> tracked t d = {}"
    using gm_get_None_iff [of t d] by (simp add: tracked_def)
  then show ?thesis using False drop_peers [OF ok, of ip "gm_keys t"]
    by (auto simp: RemovePeerFromAll_def split: if_splits)
qed

lemma GetAndRemove_set:
  assumes ok: "tracker_ok t" and i: "i < card (tracked t (NormalizeCid c))"
  shows "case GetAndRemoveRandomPeer (Some i) c t of
       ((p, found), t') \<Rightarrow> found \<and> p \<in> tracked t (NormalizeCid c) \<and> tracker_ok t' \<and>
         tracked t' (NormalizeCid c) = tracked t (NormalizeCid c) - {p}"
proof -
  let ?c = "NormalizeCid c"
  obtain ps where g: "gm_get t ?c = Some ps" using i by (cases "gm_get t ?c") (auto simp: tracked_def)
  note p = tracker_okD [OF ok g]
  have il: "i < length ps" using i g p distinct_card by (fastforce simp: tracked_def)
  note sw = swap_remove_props [OF il]
  show ?thesis
  proof (cases "length ps = 1")
    case True
    then obtain x where "ps = [x]" by (auto simp: length_Suc_conv)
    then show ?thesis using g il ok by (auto simp: GetAndRemoveRandomPeer_def Let_def tracked_def gm_simps tracker_ok_del)
  next
    case False
    have "length (swap_remove i ps) = length ps - 1" by (simp add: swap_remove_def)
    then have ne: "swap_remove i ps \<noteq> []" using False il by (cases "swap_remove i ps") auto
    have "GetAndRemoveRandomPeer (Some i) c t = ((ps ! i, True), gm_set ?c (swap_remove i ps) t)"
      using False g p by (cases ps) (auto simp: GetAndRemoveRandomPeer_def Let_def)
    moreover have "tracker_ok (gm_set ?c (swap_remove i ps) t)"
      using p sw ne by (intro tracker_ok_set [OF ok]) simp_all
    moreover have "tracked (gm_set ?c (swap_remove i ps) t) ?c = set (swap_remove i ps)" "tracked t ?c = set ps"
      using g by (simp_all add: tracked_def gm_simps)
    moreover have "set (swap_remove i ps) = set ps - {ps ! i}" using sw(3) p by blast
    ultimately show ?thesis using nth_mem [OF il] by simp
  qed
qed

section \<open>Properties\<close>

text \<open>The tracker is a set of peers per block: asking adds the peer once, a random pick returns one of
  them and takes exactly it out, and a peer that leaves is in no set any more; every operation
  keeps the lists free of repetitions, empty strings and empty entries.\<close>

lemma tracker_sets:
  assumes ok: "tracker_ok t"
  shows "tracker_ok (AddRequest c ip t) \<and>
    tracked (AddRequest c ip t) (NormalizeCid c) =
      (if ip = [] \<or> \<not> cid_defined (NormalizeCid c) then tracked t (NormalizeCid c)
       else insert ip (tracked t (NormalizeCid c))) \<and>
    tracker_ok (RemovePeerFromAll ip t) \<and> ip \<notin> tracked (RemovePeerFromAll ip t) d \<and>
    (\<forall>i < card (tracked t (NormalizeCid c)). case GetAndRemoveRandomPeer (Some i) c t of
       ((p, found), t') \<Rightarrow> found \<and> p \<in> tracked t (NormalizeCid c) \<and> tracker_ok t' \<and>
         tracked t' (NormalizeCid c) = tracked t (NormalizeCid c) - {p})"
proof -
  have "\<forall>i < card (tracked t (NormalizeCid c)). case GetAndRemoveRandomPeer (Some i) c t of
       ((p, found), t') \<Rightarrow> found \<and> p \<in> tracked t (NormalizeCid c) \<and> tracker_ok t' \<and>
         tracked t' (NormalizeCid c) = tracked t (NormalizeCid c) - {p}"
    by (intro allI impI) (rule GetAndRemove_set [OF ok])
  with AddRequest_set [OF ok, of c ip] RemovePeerFromAll_set [OF ok, of ip d] show ?thesis by (intro conjI) simp_all
qed

lemma tracker_sets_example:
  "''1.2.3.4'' \<in> tracked (AddRequest (Cid 0 112 ''h'') ''1.2.3.4'' []) (Cid 1 112 ''h'')"
  using tracker_sets [of "[]" "Cid 0 112 ''h''" "''1.2.3.4''"]
  by (simp add: tracker_ok_def cid_defined_def)

end
