(* ===== verification/BlockStore.thy ===== *)
theory BlockStore
  imports Batcher Quota PeerTracker
begin

text \<open>
  \<^verbatim>\<open>internal/protocol/store/blockstore.go\<close> and \<^verbatim>\<open>virtual.go\<close>: the blockstore over the metadata store,
  the object storage, the downloader and the batcher.  The answers of the storage service, the
  downloader, the block decoder and the upload service are arguments.  The upload of an object,
  the deletion of one and a download event are recorded in the order they happen.
\<close>

datatype store_effect =
    Uploaded bytes bytes                \<comment> \<open>hash and data\<close>
  | Deleted bytes
  | DownloadCompleted nat string nat    \<comment> \<open>upload id, attributed address, bytes\<close>

record bstore =
  bk_meta :: meta_sched
  bk_batcher :: "pinned_block batcher"
  bk_tracker :: "tracker option"
  bk_effects :: "store_effect list"

abbreviation bk_db :: "bstore \<Rightarrow> meta_db" where
  "bk_db s \<equiv> fst (bk_meta s)"

definition NewBlockStore :: "meta_sched \<Rightarrow> tracker option \<Rightarrow> bstore" where
  "NewBlockStore ms tr =
     \<lparr>bk_meta = ms, bk_batcher = newMetadataBatcher defaultBatchSize, bk_tracker = tr, bk_effects = []\<rparr>"

section \<open>Writing\<close>

text \<open>\<open>encoding.DecodeBlock\<close> gives the links of a block and what the analysis of its node finds.\<close>

type_synonym decoder = "block \<Rightarrow> gerr + cid list \<times> (gerr + analyzed)"

definition blockLinks :: "decoder \<Rightarrow> block \<Rightarrow> cid list" where
  "blockLinks decode b = (case decode b of Inl _ \<Rightarrow> [] | Inr (ls, _) \<Rightarrow> ls)"

definition bs_Put ::
    "(bytes \<Rightarrow> cid option) \<Rightarrow> decoder \<Rightarrow> gerr option \<Rightarrow> ctx \<Rightarrow> block \<Rightarrow> bstore \<Rightarrow> gerr option \<times> bstore" where
  "bs_Put cast decode upload_err cx b s =
     (if IsVirtualReadEnabled cx then (None, s)
      else case upload_err of
        Some e \<Rightarrow> (Some (Wrapped ''failed to store block'' e), s)
      | None \<Rightarrow>
          let s1 = s\<lparr>bk_effects := bk_effects s @ [Uploaded (cid_hash (b_cid b)) (b_data b)]\<rparr> in
          case decode b of
            Inl e \<Rightarrow> (Some (Wrapped ''failed to decode block'' e), s1)
          | Inr (_, node) \<Rightarrow>
              let meta = \<lparr>p_cid = b_cid b, p_links = blockLinks decode b, p_size = length (b_data b),
                          p_node = node\<rparr>;
                  (e, bt, ms) = batch_Add (sched_pin cast) meta (bk_batcher s1) (bk_meta s1);
                  s2 = s1\<lparr>bk_batcher := bt, bk_meta := ms\<rparr>
              in (case e of Some e \<Rightarrow> (Some (Wrapped ''failed to pin block'' e), s2) | None \<Rightarrow> (None, s2)))"

fun bs_PutMany ::
    "(bytes \<Rightarrow> cid option) \<Rightarrow> decoder \<Rightarrow> ctx \<Rightarrow> (block \<times> gerr option) list \<Rightarrow> bstore \<Rightarrow>
     gerr option \<times> bstore" where
  "bs_PutMany cast decode cx [] s = (None, s)"
| "bs_PutMany cast decode cx ((b, ue) # bs) s =
     (case bs_Put cast decode ue cx b s of
        (Some e, s') \<Rightarrow> (Some (Wrapped ''failed to put block'' e), s')
      | (None, s') \<Rightarrow> bs_PutMany cast decode cx bs s')"

definition bs_Flush :: "(bytes \<Rightarrow> cid option) \<Rightarrow> bstore \<Rightarrow> gerr option \<times> bstore" where
  "bs_Flush cast s =
     (let (e, bt, ms) = batch_Flush (sched_pin cast) (bk_batcher s) (bk_meta s)
      in (e, s\<lparr>bk_batcher := bt, bk_meta := ms\<rparr>))"

definition bs_DeleteBlock ::
    "bool \<Rightarrow> gerr option \<Rightarrow> gerr option \<Rightarrow> ctx \<Rightarrow> cid \<Rightarrow> bstore \<Rightarrow> gerr option \<times> bstore" where
  "bs_DeleteBlock fk unpin_fault delete_err cx c s =
     (if IsVirtualReadEnabled cx then (None, s)
      else case meta_Unpin fk unpin_fault c (bk_db s) of
        (Inl e, _) \<Rightarrow> (Some (Wrapped ''failed to unpin block'' e), s)
      | (Inr _, db') \<Rightarrow>
          let s1 = s\<lparr>bk_meta := (db', snd (bk_meta s))\<rparr> in
          (case delete_err of
             Some e \<Rightarrow> (Some e, s1)
           | None \<Rightarrow> (None, s1\<lparr>bk_effects := bk_effects s1 @ [Deleted (cid_hash c)]\<rparr>)))"

section \<open>Reading\<close>

text \<open>\<open>format.IsNotFound\<close> holds of \<open>format.ErrNotFound\<close>, also wrapped.\<close>

definition IsNotFound :: "gerr \<Rightarrow> bool" where
  "IsNotFound e \<longleftrightarrow> errors_is e IpldNotFound"

definition bs_Has :: "gerr option \<Rightarrow> ctx \<Rightarrow> cid \<Rightarrow> bstore \<Rightarrow> gerr + bool" where
  "bs_Has fault cx c s =
     (if IsVirtualReadEnabled cx then Inr False
      else case BlockExists fault c (bk_db s) of
        None \<Rightarrow> Inr True
      | Some e \<Rightarrow> if IsNotFound e then Inr False else Inl (Wrapped ''failed to get block location'' e))"

text \<open>
  \<open>Get\<close>: \<open>svc\<close> and \<open>q\<close> are the quota service and its state, \<open>download\<close> the downloader, \<open>upload\<close> what
  \<open>GetUpload\<close> finds, \<open>rnd\<close> the random index of the attribution.
\<close>

definition attribution ::
    "nat option \<Rightarrow> ctx \<Rightarrow> cid \<Rightarrow> tracker option \<Rightarrow> string \<times> tracker option" where
  "attribution rnd cx c tr =
     (let clientIP = GetClientIP cx in
      if clientIP = [] then
        (case tr of
           None \<Rightarrow> (clientIP, tr)
         | Some t \<Rightarrow>
             (case GetAndRemoveRandomPeer rnd c t of
                ((p, True), t') \<Rightarrow> (p, Some t')
              | ((_, False), t') \<Rightarrow> (clientIP, Some t')))
      else (clientIP, tr))"

definition bs_Get ::
    "'q quota_service option \<Rightarrow> 'q \<Rightarrow> gerr option \<Rightarrow> (cid \<Rightarrow> gerr + block) \<Rightarrow> gerr + nat option \<Rightarrow>
     nat option \<Rightarrow> ctx \<Rightarrow> cid \<Rightarrow> bstore \<Rightarrow> (gerr + block) \<times> bstore" where
  "bs_Get svc q fault download upload rnd cx c s =
     (if IsVirtualReadEnabled cx then (download c, s)
      else case meta_Size fault c (bk_db s) of
        Inl e \<Rightarrow> (Inl e, s)
      | Inr n \<Rightarrow>
          let checked = (if IsQuotaCheckSkipped cx then Inr True
                         else CheckCIDGroupDownloadAvailability svc (cid_hash c) (word_of_nat n) q) in
          case checked of
            Inl e \<Rightarrow> (Inl (Wrapped ''failed to check group quota availability'' e), s)
          | Inr False \<Rightarrow> (Inl IpldNotFound, s)
          | Inr True \<Rightarrow>
              (case download c of
                 Inl e \<Rightarrow> (Inl e, s)
               | Inr b \<Rightarrow>
                   if IsQuotaCheckSkipped cx then (Inr b, s)
                   else case upload of
                     Inr (Some up) \<Rightarrow>
                       let (ip, tr) = attribution rnd cx c (bk_tracker s)
                       in (Inr b, s\<lparr>bk_tracker := tr, bk_effects := bk_effects s @
                                    [DownloadCompleted up ip (length (b_data b))]\<rparr>)
                   | _ \<Rightarrow> (Inr b, s)))"

definition bs_GetSize ::
    "(cid \<Rightarrow> gerr + block) \<Rightarrow> gerr option \<Rightarrow> gerr option \<Rightarrow> ctx \<Rightarrow> cid \<Rightarrow> bstore \<Rightarrow> gerr + nat" where
  "bs_GetSize download exists_fault size_fault cx c s =
     (if IsVirtualReadEnabled cx then
        (case download c of Inl e \<Rightarrow> Inl e | Inr b \<Rightarrow> Inr (length (b_data b)))
      else case BlockExists exists_fault c (bk_db s) of
        Some e \<Rightarrow> Inl e
      | None \<Rightarrow> meta_Size size_fault c (bk_db s))"

text \<open>
  What \<open>AllKeysChan\<close> sends while its context lives, page by page.  The pages are read while the
  database does not change.  A version 0 form follows each dag-pb CID with a SHA2-256 multihash.
\<close>

definition key_forms :: "(bytes \<Rightarrow> bool) \<Rightarrow> cid \<Rightarrow> cid list" where
  "key_forms sha256 c =
     (if cid_type c = DagProtobuf \<and> sha256 (cid_hash c) then [c, NewCidV0 (cid_hash c)] else [c])"

lemma Pinned_empty: "Pinned None i (Suc n) db = Inr [] \<longleftrightarrow> length (filter br_ready (md_blocks db)) \<le> i"
  by (auto simp: Pinned_def)

function all_keys_from :: "(bytes \<Rightarrow> bool) \<Rightarrow> nat \<Rightarrow> meta_db \<Rightarrow> cid list" where
  "all_keys_from sha256 i db =
     (case Pinned None i 1000 db of
        Inl _ \<Rightarrow> []
      | Inr cs \<Rightarrow>
          if cs = [] then [] else concat (map (key_forms sha256) cs) @ all_keys_from sha256 (i + 1000) db)"
  by auto

termination
proof (relation "measure (\<lambda>(_, i, db). length (filter br_ready (md_blocks db)) - i)", simp)
  fix sha256 i db cs
  assume "Pinned None i 1000 db = Inr cs" "cs \<noteq> []"
  then have "\<not> length (filter br_ready (md_blocks db)) \<le> i"
    using Pinned_empty [of i 999 db] by auto
  then show "((sha256, i + 1000, db), sha256, i, db)
      \<in> measure (\<lambda>(_, i, db). length (filter br_ready (md_blocks db)) - i)" by simp
qed

declare all_keys_from.simps [simp del]

definition bs_AllKeys :: "(bytes \<Rightarrow> bool) \<Rightarrow> ctx \<Rightarrow> bstore \<Rightarrow> cid list" where
  "bs_AllKeys sha256 cx s = (if IsVirtualReadEnabled cx then [] else all_keys_from sha256 0 (bk_db s))"

text \<open>\<open>VirtualBlockStore\<close>: a virtual read goes to the store itself, anything else through the cache.\<close>

definition virtual_route :: "ctx \<Rightarrow> ('op \<Rightarrow> 'r) \<Rightarrow> ('op \<Rightarrow> 'r) \<Rightarrow> 'op \<Rightarrow> 'r" where
  "virtual_route cx direct cached op = (if IsVirtualReadEnabled cx then direct op else cached op)"

definition virtual_Flush :: "('s \<Rightarrow> gerr option \<times> 's) option \<Rightarrow> 's \<Rightarrow> gerr option \<times> 's" where
  "virtual_Flush flusher s = (case flusher of Some f \<Rightarrow> f s | None \<Rightarrow> (None, s))"

section \<open>Puts as additions to the batch\<close>

definition put_meta :: "decoder \<Rightarrow> block \<Rightarrow> pinned_block" where
  "put_meta decode b = \<lparr>p_cid = b_cid b, p_links = blockLinks decode b, p_size = length (b_data b),
     p_node = (case decode b of Inr (_, node) \<Rightarrow> node | Inl e \<Rightarrow> Inl e)\<rparr>"

lemma bs_Put_adds:
  assumes "bs_Put cast decode ue cx b s = (None, s')" and "\<not> IsVirtualReadEnabled cx"
  shows "batch_Add (sched_pin cast) (put_meta decode b) (bk_batcher s) (bk_meta s) =
    (None, bk_batcher s', bk_meta s')"
  using assms by (auto simp: bs_Put_def put_meta_def Let_def split: option.splits sum.splits prod.splits)

lemma bs_PutMany_adds:
  "bs_PutMany cast decode cx bs s = (None, s') \<Longrightarrow> \<not> IsVirtualReadEnabled cx \<Longrightarrow>
   add_all (sched_pin cast) (map (put_meta decode \<circ> fst) bs) (bk_batcher s) (bk_meta s) =
     (None, bk_batcher s', bk_meta s')"
proof (induction cast decode cx bs s rule: bs_PutMany.induct)
  case (2 cast decode cx b ue bs s)
  obtain s1 where s1: "bs_Put cast decode ue cx b s = (None, s1)" "bs_PutMany cast decode cx bs s1 = (None, s')"
    using "2.prems"(1) by (auto split: prod.splits option.splits)
  show ?case
    using "2.IH" [OF s1(1) [symmetric] refl s1(2) "2.prems"(2)] bs_Put_adds [OF s1(1) "2.prems"(2)] by simp
qed simp

section \<open>Properties\<close>


definition ex_decode :: decoder where
  "ex_decode b = Inr ([], Inl (Opaque ''raw''))"

definition ex_ctx :: ctx where "ex_ctx = Background"

definition ex_bs :: bstore where
  "ex_bs = snd (bs_Flush (\<lambda>_. None) (snd (bs_PutMany (\<lambda>_. None) ex_decode ex_ctx
     [(\<lparr>b_cid = ex_b, b_data = ''x''\<rparr>, None)] (NewBlockStore (empty_meta, []) None))))"


text \<open>On a block that is not in the store \<open>Has\<close> says false and \<open>GetSize\<close> answers with
  \<open>format.ErrNotFound\<close>, but the error of \<open>Get\<close> is not a not-found error.\<close>

lemma blockstore_absent:
  assumes "find_block (NormalizeCid c) (bk_db s) = None" and "\<not> IsVirtualReadEnabled cx"
  shows "bs_Has None cx c s = Inr False \<and> bs_GetSize download None None cx c s = Inl IpldNotFound \<and>
    (\<exists>e. bs_Get svc q None download upload rnd cx c s = (Inl e, s) \<and> \<not> IsNotFound e)"
proof -
  have "BlockExists None c (bk_db s) \<noteq> None"
    using assms(1) unfolding find_block_None has_cid_def BlockExists_iff by (metis imageI)
  then have "BlockExists None c (bk_db s) = Some IpldNotFound" by (rule BlockExists_not)
  then show ?thesis
    using assms by (simp add: bs_Has_def bs_GetSize_def bs_Get_def meta_Size_def IsNotFound_def)
qed

lemma blockstore_absent_example:
  "bs_Has None ex_ctx ex_a ex_bs = Inr False"
proof -
  have "find_block (NormalizeCid ex_a) (bk_db ex_bs) = None" "\<not> IsVirtualReadEnabled ex_ctx" by code_simp+
  from blockstore_absent [OF this, of "\<lambda>_. Inl EOF" None "()" "Inl EOF" None] show ?thesis by blast
qed

text \<open>\<open>AllKeysChan\<close> ends after all pages and sends every pinned block once, in the order of the table,
  each followed by its version 0 form where it has one.\<close>

lemma blockstore_all_keys:
  "all_keys_from sha256 i db =
     concat (map (key_forms sha256) (map (\<lambda>r. NormalizeCid (br_cid r)) (drop i (filter br_ready (md_blocks db)))))"
proof (induction sha256 i db rule: all_keys_from.induct)
  case (1 sha256 i db)
  let ?rs = "filter br_ready (md_blocks db)"
  let ?page = "map (\<lambda>r. NormalizeCid (br_cid r)) (take 1000 (drop i ?rs))"
  have p: "Pinned None i 1000 db = Inr ?page" by (simp add: Pinned_def)
  show ?case
  proof (cases "?page = []")
    case True
    then show ?thesis by (subst all_keys_from.simps) (simp add: p)
  next
    case False
    have "drop i ?rs = take 1000 (drop i ?rs) @ drop (i + 1000) ?rs"
      by (metis add.commute append_take_drop_id drop_drop)
    then have "map (\<lambda>r. NormalizeCid (br_cid r)) (drop i ?rs) =
        ?page @ map (\<lambda>r. NormalizeCid (br_cid r)) (drop (i + 1000) ?rs)"
      by (metis map_append)
    then show ?thesis
      using 1 [OF p False] False by (subst all_keys_from.simps) (simp only: p sum.case if_False map_append concat_append)
  qed
qed

text \<open>A virtual read changes nothing and sees nothing of the store: \<open>Put\<close> and \<open>DeleteBlock\<close> report success
  without an effect, \<open>Has\<close> is false, no key is listed, and \<open>Get\<close> is the downloader's answer.\<close>

lemma blockstore_virtual_read:
  assumes "IsVirtualReadEnabled cx"
  shows "bs_Put cast decode ue cx b s = (None, s) \<and> bs_DeleteBlock fk uf de cx c s = (None, s) \<and>
    bs_Has fault cx c s = Inr False \<and> bs_AllKeys sha256 cx s = [] \<and>
    bs_Get svc q fault download upload rnd cx c s = (download c, s)"
  using assms by (simp add: bs_Put_def bs_DeleteBlock_def bs_Has_def bs_AllKeys_def bs_Get_def)

end
