(* ===== verification/BlockQueue.thy ===== *)
theory BlockQueue
  imports Cid_Context
begin

text \<open>
  \<^verbatim>\<open>internal/protocol/block_queue.go\<close>: the worker pool that stores the blocks of an upload.  A run of
  \<open>ProcessBlocks\<close> is a sequence of steps of its loop, of the workers and of its context.  What
  \<open>Next\<close> answers is a list, the end of the list is \<open>io.EOF\<close>; the outcomes of \<open>AddBlock\<close> and of the
  final flush are open in each step, and \<open>retry-go\<close>'s \<open>Do\<close> is a parameter.
\<close>

section \<open>Operations\<close>

definition maxRetries :: nat where "maxRetries = 3"

definition isContextCanceled :: "gerr \<Rightarrow> bool" where
  "isContextCanceled e \<longleftrightarrow> e = Canceled \<or> e = DeadlineExceeded"

definition resolveWorkerCount :: "int \<Rightarrow> int \<Rightarrow> int" where
  "resolveWorkerCount configured cpus =
     (if 0 < configured then configured else min (max (2 * cpus) 4) 16)"

record bqueue =
  q_err :: "gerr option"        \<comment> \<open>\<open>bp.ctx.Err()\<close>\<close>
  q_jobs :: "block list"        \<comment> \<open>submitted and not yet taken by a worker\<close>
  q_running :: "block list"
  q_chan :: "gerr option"       \<comment> \<open>\<open>errChan\<close>, which has room for one error\<close>
  q_once :: bool                \<comment> \<open>\<open>errOnce\<close> has run\<close>
  q_failed :: nat
  q_added :: "block list"       \<comment> \<open>blocks that \<open>AddBlock\<close> has stored\<close>
  q_done :: "cid list"          \<comment> \<open>CIDs the processor was told are done\<close>

definition NewBlockQueue :: "gerr option \<Rightarrow> bqueue" where
  "NewBlockQueue err = \<lparr>q_err = err, q_jobs = [], q_running = [], q_chan = None, q_once = False,
     q_failed = 0, q_added = [], q_done = []\<rparr>"

definition bq_cancel :: "gerr \<Rightarrow> bqueue \<Rightarrow> bqueue" where
  "bq_cancel e q = (if q_err q = None then q\<lparr>q_err := Some e\<rparr> else q)"

definition bq_queueBlock :: "block \<Rightarrow> bqueue \<Rightarrow> gerr option \<times> bqueue" where
  "bq_queueBlock b q =
     (case q_err q of Some e \<Rightarrow> (Some e, q) | None \<Rightarrow> (None, q\<lparr>q_jobs := q_jobs q @ [b]\<rparr>))"

definition recordError :: "gerr \<Rightarrow> bqueue \<Rightarrow> bqueue" where
  "recordError e q =
     (let q' = q\<lparr>q_failed := q_failed q + 1\<rparr> in
      if q_once q' then q'
      else bq_cancel Canceled (q'\<lparr>q_once := True, q_chan := (case q_chan q' of None \<Rightarrow> Some e | c \<Rightarrow> c)\<rparr>))"

text \<open>
  \<open>Do\<close> of retry-go, given the number of attempts the context leaves time for, the bound of attempts,
  the \<open>RetryIf\<close> predicate and the outcome of each attempt.  Documented: it succeeds when an
  attempt does that comes after failures it may retry, and when it fails with a context's
  error, that is the error of its own context, which ended, or the error of an attempt.
\<close>

type_synonym retrier = "nat \<Rightarrow> nat \<Rightarrow> (gerr \<Rightarrow> bool) \<Rightarrow> (nat \<Rightarrow> gerr option) \<Rightarrow> gerr option"

definition retry_ok :: "retrier \<Rightarrow> bool" where
  "retry_ok retry \<longleftrightarrow>
     (\<forall>k n p f. retry k n p f = None \<longleftrightarrow>
        (\<exists>i < min k n. f i = None \<and> (\<forall>j < i. \<exists>e. f j = Some e \<and> p e))) \<and>
     (\<forall>k n p f e. retry k n p f = Some e \<longrightarrow> isContextCanceled e \<longrightarrow> k < n \<or> (\<exists>i < n. f i = Some e))"

definition processBlockInternal :: "gerr option \<Rightarrow> gerr option" where
  "processBlockInternal add = map_option (Wrapped ''failed to add block'') add"

definition processBlock :: "retrier \<Rightarrow> nat \<Rightarrow> (nat \<Rightarrow> gerr option) \<Rightarrow> gerr option" where
  "processBlock retry k adds =
     retry k maxRetries (\<lambda>e. \<not> isContextCanceled e) (\<lambda>i. processBlockInternal (adds i))"

text \<open>
  A worker takes a job, and drops it when the context has ended; later it finishes with the result of
  \<open>processBlock\<close>.  With \<open>persist\<close> the processor streams and hears of the block now.
\<close>

definition job_start :: "block \<Rightarrow> bqueue \<Rightarrow> bqueue" where
  "job_start b q =
     (let q' = q\<lparr>q_jobs := remove1 b (q_jobs q)\<rparr> in
      if q_err q' \<noteq> None then q' else q'\<lparr>q_running := b # q_running q'\<rparr>)"

definition job_finish :: "bool \<Rightarrow> block \<Rightarrow> gerr option \<Rightarrow> bqueue \<Rightarrow> bqueue" where
  "job_finish persist b r q =
     (let q' = q\<lparr>q_running := remove1 b (q_running q)\<rparr> in
      case r of
        None \<Rightarrow> q'\<lparr>q_added := q_added q' @ [b],
                   q_done := (if persist then q_done q' @ [b_cid b] else q_done q')\<rparr>
      | Some e \<Rightarrow> if isContextCanceled e then q' else recordError e q')"

text \<open>The end of \<open>ProcessBlocks\<close>, after \<open>StopWait\<close>.\<close>

definition pb_result :: "gerr option \<Rightarrow> cid list \<Rightarrow> bqueue \<Rightarrow> gerr + cid list \<times> cid list" where
  "pb_result flush roots q =
     (case flush of
        Some e \<Rightarrow> Inl (Wrapped ''failed to flush metadata'' e)
      | None \<Rightarrow>
          (case q_chan q of
             Some e \<Rightarrow> Inl (Wrapped ''block processing failed'' e)
           | None \<Rightarrow>
               (case q_err q of
                  Some e \<Rightarrow> if \<not> isContextCanceled e then Inl (Wrapped ''block processing failed'' e)
                            else Inr (q_done q, roots)
                | None \<Rightarrow> Inr (q_done q, roots))))"

section \<open>Runs\<close>

datatype pb_phase = Reading | Draining | Returned "gerr + cid list \<times> cid list"

record pb_sys =
  p_q :: bqueue
  p_nexts :: "(gerr + block) list"
  p_taken :: "block list"       \<comment> \<open>blocks \<open>Next\<close> has given\<close>
  p_phase :: pb_phase

definition pb_init :: "(gerr + block) list \<Rightarrow> pb_sys" where
  "pb_init nexts = \<lparr>p_q = NewBlockQueue None, p_nexts = nexts, p_taken = [], p_phase = Reading\<rparr>"

text \<open>
  One turn of the reading loop.  An error of \<open>Next\<close> returns at once; the deferred \<open>release\<close> cancels
  and \<open>Stop\<close> drops what no worker has taken.
\<close>

definition pb_read :: "bool \<Rightarrow> pb_sys \<Rightarrow> pb_sys" where
  "pb_read persist s =
     (case p_nexts s of
        [] \<Rightarrow> s\<lparr>p_phase := Draining\<rparr>
      | Inl e # ns \<Rightarrow>
          if e = EOF then s\<lparr>p_nexts := ns, p_phase := Draining\<rparr>
          else s\<lparr>p_nexts := ns, p_q := bq_cancel Canceled (p_q s\<lparr>q_jobs := []\<rparr>),
                 p_phase := Returned (Inl (Wrapped ''failed to get next block'' e))\<rparr>
      | Inr b # ns \<Rightarrow>
          let s' = s\<lparr>p_nexts := ns, p_taken := p_taken s @ [b]\<rparr> in
          (case bq_queueBlock b (p_q s) of
             (Some e, q) \<Rightarrow>
               if isContextCanceled e then s'\<lparr>p_phase := Draining\<rparr>
               else s'\<lparr>p_q := q\<lparr>q_jobs := []\<rparr>,
                       p_phase := Returned (Inl (Wrapped ''failed to queue block'' e))\<rparr>
           | (None, q) \<Rightarrow>
               s'\<lparr>p_q := (if persist then q else q\<lparr>q_done := q_done q @ [b_cid b]\<rparr>)\<rparr>))"

text \<open>\<open>k\<close> is the number of attempts the context leaves time for: fewer than the bound only when it has ended.\<close>

inductive pb_step :: "bool \<Rightarrow> nat \<Rightarrow> retrier \<Rightarrow> cid list \<Rightarrow> pb_sys \<Rightarrow> pb_sys \<Rightarrow> bool"
  for persist workers retry roots where
  st_read: "p_phase s = Reading \<Longrightarrow> pb_step persist workers retry roots s (pb_read persist s)"
| st_start: "b \<in> set (q_jobs (p_q s)) \<Longrightarrow> length (q_running (p_q s)) < workers \<Longrightarrow>
     pb_step persist workers retry roots s (s\<lparr>p_q := job_start b (p_q s)\<rparr>)"
| st_finish: "b \<in> set (q_running (p_q s)) \<Longrightarrow> k < maxRetries \<longrightarrow> q_err (p_q s) \<noteq> None \<Longrightarrow>
     pb_step persist workers retry roots s (s\<lparr>p_q := job_finish persist b (processBlock retry k adds) (p_q s)\<rparr>)"
| st_ctx: "\<forall>r. p_phase s \<noteq> Returned r \<Longrightarrow> q_err (p_q s) = None \<Longrightarrow> e \<in> {Canceled, DeadlineExceeded} \<Longrightarrow>
     pb_step persist workers retry roots s (s\<lparr>p_q := bq_cancel e (p_q s)\<rparr>)"
| st_return: "p_phase s = Draining \<Longrightarrow> q_jobs (p_q s) = [] \<Longrightarrow> q_running (p_q s) = [] \<Longrightarrow>
     pb_step persist workers retry roots s (s\<lparr>p_phase := Returned (pb_result flush roots (p_q s))\<rparr>)"

inductive pb_run ::
    "bool \<Rightarrow> nat \<Rightarrow> retrier \<Rightarrow> cid list \<Rightarrow> nat \<Rightarrow> pb_sys \<Rightarrow> pb_sys \<Rightarrow> bool"
  for persist workers retry roots where
  run_none: "pb_run persist workers retry roots 0 s s"
| run_step: "pb_run persist workers retry roots n s t \<Longrightarrow> pb_step persist workers retry roots t u \<Longrightarrow>
     pb_run persist workers retry roots (Suc n) s u"

inductive_cases pb_stepE: "pb_step persist workers retry roots s t"
inductive_simps pb_run_0: "pb_run persist workers retry roots 0 s t"
inductive_cases pb_run_SucE: "pb_run persist workers retry roots (Suc n) s t"

section \<open>Retries\<close>

lemma retry_okD:
  assumes "retry_ok retry"
  shows "retry k n p f = None \<longleftrightarrow> (\<exists>i < min k n. f i = None \<and> (\<forall>j < i. \<exists>e. f j = Some e \<and> p e))"
    and "retry k n p f = Some e \<Longrightarrow> isContextCanceled e \<Longrightarrow> k < n \<or> (\<exists>i < n. f i = Some e)"
proof -
  note ok = assms [unfolded retry_ok_def]
  show "retry k n p f = None \<longleftrightarrow> (\<exists>i < min k n. f i = None \<and> (\<forall>j < i. \<exists>e. f j = Some e \<and> p e))"
    by (rule ok [THEN conjunct1, THEN spec, THEN spec, THEN spec, THEN spec])
  show "retry k n p f = Some e \<Longrightarrow> isContextCanceled e \<Longrightarrow> k < n \<or> (\<exists>i < n. f i = Some e)"
    by (rule ok [THEN conjunct2, THEN spec, THEN spec, THEN spec, THEN spec, THEN spec, THEN mp, THEN mp])
qed

lemma wrapped_not_canceled [simp]: "\<not> isContextCanceled (Wrapped m e)"
  by (simp add: isContextCanceled_def)

text \<open>An error of \<open>AddBlock\<close> reaches \<open>RetryIf\<close> wrapped, so it is retried whatever it is.\<close>

lemma processBlock_stored:
  assumes "retry_ok retry"
  shows "processBlock retry k adds = None \<longleftrightarrow> (\<exists>i < min k maxRetries. adds i = None)"
proof -
  have p: "(\<exists>e. processBlockInternal a = Some e \<and> \<not> isContextCanceled e) \<longleftrightarrow> a \<noteq> None"
    and n: "processBlockInternal a = None \<longleftrightarrow> a = None" for a
    by (cases a; simp add: processBlockInternal_def)+
  have "(\<exists>i < m. adds i = None \<and> (\<forall>j < i. adds j \<noteq> None)) \<longleftrightarrow> (\<exists>i < m. adds i = None)" for m
  proof
    assume "\<exists>i < m. adds i = None"
    then obtain i where i: "i < m" "adds i = None" by blast
    have "(LEAST i. adds i = None) \<le> i" using i(2) by (rule Least_le)
    moreover have "adds (LEAST i. adds i = None) = None" using i(2) by (rule LeastI)
    ultimately show "\<exists>i < m. adds i = None \<and> (\<forall>j < i. adds j \<noteq> None)"
      using i(1) not_less_Least [of _ "\<lambda>i. adds i = None"] le_less_trans by blast
  qed blast
  then show ?thesis unfolding processBlock_def retry_okD(1) [OF assms] p n .
qed

lemma processBlock_error:
  assumes "retry_ok retry" and "processBlock retry k adds = Some e" and c: "isContextCanceled e"
  shows "k < maxRetries"
proof -
  have "processBlockInternal a \<noteq> Some e" for a
    using c by (cases a) (auto simp: processBlockInternal_def)
  then show ?thesis
    using retry_okD(2) [OF assms(1) assms(2) [unfolded processBlock_def] c] by blast
qed

section \<open>Invariants\<close>

text \<open>
  The context's error is one of the two of the package \<open>context\<close>; an error recorded is in the channel and has
  cancelled the context; while the context lives every block taken is stored, running or waiting.
\<close>

definition bq_ok :: "bqueue \<Rightarrow> bool" where
  "bq_ok q \<longleftrightarrow> (\<forall>e. q_err q = Some e \<longrightarrow> isContextCanceled e) \<and> (q_chan q \<noteq> None \<longleftrightarrow> q_once q) \<and>
     (q_once q \<longrightarrow> q_err q \<noteq> None) \<and> (0 < q_failed q \<longrightarrow> q_once q)"

definition pb_inv :: "bool \<Rightarrow> pb_sys \<Rightarrow> bool" where
  "pb_inv persist s \<longleftrightarrow> bq_ok (p_q s) \<and>
     (q_err (p_q s) = None \<longrightarrow>
        mset (p_taken s) = mset (q_added (p_q s)) + mset (q_running (p_q s)) + mset (q_jobs (p_q s))) \<and>
     (persist \<longrightarrow> q_done (p_q s) = map b_cid (q_added (p_q s)))"

lemma bq_ok_cancel: "bq_ok q \<Longrightarrow> isContextCanceled e \<Longrightarrow> bq_ok (bq_cancel e q)"
  by (auto simp: bq_ok_def bq_cancel_def)

lemma bq_ok_record: "bq_ok q \<Longrightarrow> bq_ok (recordError e q) \<and> q_err (recordError e q) \<noteq> None \<and> q_once (recordError e q)"
  by (auto simp: bq_ok_def recordError_def bq_cancel_def isContextCanceled_def Let_def split: option.splits)

lemma bq_frame [simp]:
  "q_added (recordError e q) = q_added q" "q_done (recordError e q) = q_done q"
  "q_added (bq_cancel e q) = q_added q" "q_done (bq_cancel e q) = q_done q"
  "q_jobs (bq_cancel e q) = q_jobs q" "q_running (bq_cancel e q) = q_running q"
  "q_jobs (recordError e q) = q_jobs q" "q_running (recordError e q) = q_running q"
  "q_once (bq_cancel e q) = q_once q"
  by (simp_all add: recordError_def bq_cancel_def Let_def)

lemma bq_cancel_err [simp]: "q_err (bq_cancel e q) = Some (case q_err q of None \<Rightarrow> e | Some e' \<Rightarrow> e')"
  by (simp add: bq_cancel_def split: option.splits)

lemma pb_inv_init: "pb_inv persist (pb_init nexts)"
  by (simp add: pb_inv_def pb_init_def NewBlockQueue_def bq_ok_def)

lemma pb_inv_read:
  assumes "pb_inv persist s" shows "pb_inv persist (pb_read persist s)"
proof (cases "p_nexts s")
  case (Cons n ns)
  show ?thesis
  proof (cases n)
    case (Inl e)
    have "bq_ok (bq_cancel Canceled (p_q s\<lparr>q_jobs := []\<rparr>))"
      using assms by (intro bq_ok_cancel) (auto simp: pb_inv_def bq_ok_def isContextCanceled_def)
    then show ?thesis
      using assms Cons Inl by (auto simp: pb_read_def pb_inv_def)
  next
    case (Inr b)
    then show ?thesis
      using assms Cons
      by (auto simp: pb_read_def pb_inv_def bq_queueBlock_def bq_ok_def Let_def split: option.splits)
  qed
qed (use assms in \<open>simp add: pb_read_def pb_inv_def\<close>)

lemma pb_inv_start:
  assumes "pb_inv persist s" and "b \<in> set (q_jobs (p_q s))"
  shows "pb_inv persist (s\<lparr>p_q := job_start b (p_q s)\<rparr>)"
  using assms by (auto simp: pb_inv_def job_start_def bq_ok_def Let_def)

lemma pb_inv_finish:
  assumes inv: "pb_inv persist s" and b: "b \<in> set (q_running (p_q s))"
    and k: "k < maxRetries \<longrightarrow> q_err (p_q s) \<noteq> None" and r: "retry_ok retry"
  shows "pb_inv persist (s\<lparr>p_q := job_finish persist b (processBlock retry k adds) (p_q s)\<rparr>)"
proof (cases "processBlock retry k adds")
  case None
  then show ?thesis using inv b by (auto simp: pb_inv_def job_finish_def bq_ok_def Let_def)
next
  case (Some e)
  let ?q = "(p_q s)\<lparr>q_running := remove1 b (q_running (p_q s))\<rparr>"
  have ok: "bq_ok ?q" using inv by (simp add: pb_inv_def bq_ok_def)
  show ?thesis
  proof (cases "isContextCanceled e")
    case True
    then have "q_err (p_q s) \<noteq> None" using processBlock_error [OF r Some] k by blast
    then show ?thesis using inv Some True ok by (auto simp: pb_inv_def job_finish_def Let_def)
  next
    case False
    then show ?thesis
      using inv Some bq_ok_record [OF ok, of e] by (auto simp: pb_inv_def job_finish_def Let_def)
  qed
qed

lemma pb_inv_step:
  assumes "pb_step persist workers retry roots s t" and "retry_ok retry" and "pb_inv persist s"
  shows "pb_inv persist t"
  using assms(1)
proof cases
  case (st_ctx e)
  have "bq_ok (bq_cancel e (p_q s))"
    using assms(3) st_ctx by (intro bq_ok_cancel) (auto simp: pb_inv_def isContextCanceled_def)
  then show ?thesis using assms(3) st_ctx by (auto simp: pb_inv_def)
next
  case st_read
  then show ?thesis using pb_inv_read [OF assms(3)] by simp
next
  case (st_start b)
  then show ?thesis using pb_inv_start [OF assms(3)] by simp
next
  case (st_finish b k adds)
  then show ?thesis using pb_inv_finish [OF assms(3) _ _ assms(2)] by simp
next
  case st_return
  then show ?thesis using assms(3) by (simp add: pb_inv_def)
qed

text \<open>What has been read, and what a successful return says of the queue.\<close>

definition pb_read_inv :: "(gerr + block) list \<Rightarrow> pb_sys \<Rightarrow> bool" where
  "pb_read_inv nexts s \<longleftrightarrow>
     (case p_phase s of
        Reading \<Rightarrow> nexts = map Inr (p_taken s) @ p_nexts s
      | Draining \<Rightarrow> q_err (p_q s) = None \<longrightarrow> map Inr (p_taken s) = takeWhile (\<lambda>x. x \<noteq> Inl EOF) nexts
      | Returned (Inl _) \<Rightarrow> True
      | Returned (Inr (d, r)) \<Rightarrow>
          q_jobs (p_q s) = [] \<and> q_running (p_q s) = [] \<and> q_chan (p_q s) = None \<and> d = q_done (p_q s) \<and>
          (q_err (p_q s) = None \<longrightarrow> map Inr (p_taken s) = takeWhile (\<lambda>x. x \<noteq> Inl EOF) nexts))"

lemma takeWhile_Inr: "takeWhile (\<lambda>x. x \<noteq> Inl EOF) (map Inr bs @ ns) =
    map Inr bs @ takeWhile (\<lambda>x. x \<noteq> Inl EOF) ns"
  by (rule takeWhile_append2) auto

lemma takeWhile_Inr_all: "takeWhile (\<lambda>x. x \<noteq> Inl EOF) (map Inr bs) = map Inr bs"
  using takeWhile_Inr [of bs "[]"] by simp

lemma pb_read_inv_read:
  assumes "pb_read_inv nexts s" and "p_phase s = Reading" and "bq_ok (p_q s)"
  shows "pb_read_inv nexts (pb_read persist s)"
proof (cases "p_nexts s")
  case Nil
  then show ?thesis
    using assms by (simp add: pb_read_def pb_read_inv_def takeWhile_Inr_all)
next
  case (Cons n ns)
  have nexts: "nexts = map Inr (p_taken s) @ n # ns" using assms(1,2) Cons by (simp add: pb_read_inv_def)
  show ?thesis
  proof (cases n)
    case (Inl e)
    then show ?thesis using Cons nexts by (simp add: pb_read_def pb_read_inv_def takeWhile_Inr)
  next
    case (Inr b)
    then show ?thesis
      using Cons nexts assms(2,3)
      by (auto simp: pb_read_def pb_read_inv_def bq_queueBlock_def bq_ok_def Let_def split: option.splits)
  qed
qed

lemma pb_result_Inr: "pb_result flush roots q = Inr (d, r) \<Longrightarrow> q_chan q = None \<and> d = q_done q"
  by (auto simp: pb_result_def split: option.splits if_splits)

lemma pb_read_inv_step:
  assumes "pb_step persist workers retry roots s t" and "pb_read_inv nexts s" and "bq_ok (p_q s)"
  shows "pb_read_inv nexts t"
  using assms(1)
proof cases
  case st_read
  then show ?thesis using pb_read_inv_read assms by simp
next
  case (st_start b)
  then have e: "q_err (p_q t) = q_err (p_q s)" by (simp add: job_start_def Let_def)
  show ?thesis
    using assms(2) st_start e by (auto simp: pb_read_inv_def split: pb_phase.splits sum.splits)
next
  case (st_finish b k adds)
  then have e: "q_err (p_q t) = None \<Longrightarrow> q_err (p_q s) = None"
    using bq_ok_record [of "p_q s"]
    by (auto simp: job_finish_def recordError_def bq_cancel_def Let_def split: option.splits if_splits)
  show ?thesis
    using assms(2) st_finish e by (auto simp: pb_read_inv_def split: pb_phase.splits sum.splits)
next
  case (st_ctx e)
  then show ?thesis
    using assms(2) by (auto simp: pb_read_inv_def split: pb_phase.splits sum.splits)
next
  case (st_return flush)
  then show ?thesis
    using assms(2) pb_result_Inr [of flush roots "p_q s"]
    by (auto simp: pb_read_inv_def split: sum.splits)
qed

lemma pb_run_inv:
  assumes "pb_run persist workers retry roots n (pb_init nexts) s" and "retry_ok retry"
  shows "pb_inv persist s \<and> pb_read_inv nexts s"
  using assms(1)
proof (induction n "pb_init nexts" s)
  case run_none
  show ?case using pb_inv_init by (simp add: pb_read_inv_def pb_init_def)
next
  case (run_step n t u)
  then show ?case
    using pb_inv_step [OF _ assms(2)] pb_read_inv_step pb_inv_def by blast
qed

section \<open>Progress\<close>

definition pb_measure :: "pb_sys \<Rightarrow> nat" where
  "pb_measure s =
     (case p_phase s of Reading \<Rightarrow> 3 * length (p_nexts s) + 2 | Draining \<Rightarrow> 1 | Returned _ \<Rightarrow> 0) +
     2 * length (q_jobs (p_q s)) + length (q_running (p_q s)) + (if q_err (p_q s) = None then 1 else 0)"

lemma remove1_less: "b \<in> set xs \<Longrightarrow> length (remove1 b xs) < length xs"
  using length_pos_if_in_set [of b xs] by (simp add: length_remove1)

lemma pb_measure_read: "p_phase s = Reading \<Longrightarrow> pb_measure (pb_read persist s) < pb_measure s"
  by (cases "p_nexts s"; cases "hd (p_nexts s)")
    (auto simp: pb_measure_def pb_read_def bq_queueBlock_def Let_def split: option.splits)

lemma pb_measure_step:
  assumes "pb_step persist workers retry roots s t" shows "pb_measure t < pb_measure s"
  using assms
proof cases
  case st_read
  then show ?thesis using pb_measure_read by simp
next
  case (st_start b)
  then show ?thesis
    using remove1_less [of b "q_jobs (p_q s)"]
    by (cases "p_phase s") (simp_all add: pb_measure_def job_start_def Let_def)
next
  case (st_finish b k adds)
  have "q_err (p_q s) \<noteq> None \<Longrightarrow> q_err (p_q t) \<noteq> None"
    using st_finish by (auto simp: job_finish_def recordError_def bq_cancel_def Let_def split: option.splits)
  moreover have "q_running (p_q t) = remove1 b (q_running (p_q s))" "q_jobs (p_q t) = q_jobs (p_q s)"
    using st_finish by (simp_all add: job_finish_def Let_def split: option.splits)
  ultimately show ?thesis
    using st_finish remove1_less [of b "q_running (p_q s)"]
    by (cases "p_phase s") (auto simp: pb_measure_def)
next
  case (st_ctx e)
  then show ?thesis by (cases "p_phase s") (simp_all add: pb_measure_def)
next
  case st_return
  then show ?thesis by (simp add: pb_measure_def)
qed

lemma pb_run_bound:
  "pb_run persist workers retry roots n s t \<Longrightarrow> n + pb_measure t \<le> pb_measure s"
proof (induction n s t rule: pb_run.induct)
  case (run_step n s t u)
  then show ?case using pb_measure_step [OF run_step.hyps(2)] by simp
qed simp

lemma pb_progress:
  assumes "0 < workers" and "\<forall>r. p_phase s \<noteq> Returned r"
  shows "\<exists>t. pb_step persist workers retry roots s t"
proof (cases "p_phase s")
  case Draining
  show ?thesis
  proof (cases "q_running (p_q s)")
    case (Cons b bs)
    then show ?thesis using st_finish [of b s maxRetries] by (metis less_irrefl list.set_intros(1))
  next
    case run: Nil
    show ?thesis
    proof (cases "q_jobs (p_q s)")
      case Nil
      then show ?thesis using st_return [OF Draining] run by blast
    next
      case (Cons b bs)
      then show ?thesis using st_start [of b s] run assms(1) by (metis list.set_intros(1) list.size(3))
    qed
  qed
qed (use assms st_read in blast)+

section \<open>Properties\<close>


text \<open>The retrier the witnesses use: it tries until an attempt succeeds or may not be retried.\<close>

fun ex_retry_from :: "nat \<Rightarrow> (gerr \<Rightarrow> bool) \<Rightarrow> (nat \<Rightarrow> gerr option) \<Rightarrow> nat \<Rightarrow> gerr option" where
  "ex_retry_from 0 p f i = Some (Opaque ''no attempt left'')"
| "ex_retry_from (Suc n) p f i =
     (case f i of None \<Rightarrow> None | Some e \<Rightarrow> if p e then ex_retry_from n p f (Suc i) else Some e)"

definition ex_retry :: retrier where
  "ex_retry k n p f = ex_retry_from (min k n) p f 0"

lemma ex_retry_from_None: "ex_retry_from m p f i = None \<longleftrightarrow>
    (\<exists>j < m. f (i + j) = None \<and> (\<forall>l < j. \<exists>e. f (i + l) = Some e \<and> p e))"
proof (induction m arbitrary: i)
  case (Suc m)
  show ?case
  proof (cases "f i")
    case None
    then show ?thesis by (auto intro!: exI [of _ 0])
  next
    case (Some e)
    have split: "(\<forall>l < Suc j. \<exists>e. f (i + l) = Some e \<and> p e) \<longleftrightarrow>
        p e \<and> (\<forall>l < j. \<exists>e. f (Suc i + l) = Some e \<and> p e)" for j
      using Some by (auto simp: less_Suc_eq_0_disj)
    have "(\<exists>j < Suc m. f (i + j) = None \<and> (\<forall>l < j. \<exists>e. f (i + l) = Some e \<and> p e)) \<longleftrightarrow>
        (\<exists>j < m. f (Suc i + j) = None \<and> (\<forall>l < Suc j. \<exists>e. f (i + l) = Some e \<and> p e))"
      using Some by (auto simp: Ex_less_Suc2)
    then show ?thesis using Some Suc.IH [of "Suc i"] split by auto
  qed
qed simp

lemma ex_retry_from_Some: "ex_retry_from m p f i = Some e \<Longrightarrow> isContextCanceled e \<Longrightarrow> \<exists>j < m. f (i + j) = Some e"
proof (induction m arbitrary: i)
  case (Suc m)
  show ?case
  proof (cases "f i")
    case (Some e')
    show ?thesis
    proof (cases "p e'")
      case True
      then obtain j where "j < m" "f (Suc i + j) = Some e" using Suc Some by fastforce
      then show ?thesis by (auto intro!: exI [of _ "Suc j"])
    qed (use Suc Some in \<open>auto intro!: exI [of _ 0]\<close>)
  qed (use Suc in simp)
qed (auto simp: isContextCanceled_def)

lemma ex_retry_ok: "retry_ok ex_retry"
  unfolding retry_ok_def
proof (intro conjI allI impI)
  show "ex_retry k n p f = None \<longleftrightarrow> (\<exists>i < min k n. f i = None \<and> (\<forall>j < i. \<exists>e. f j = Some e \<and> p e))"
    for k n p f using ex_retry_from_None [of "min k n" p f 0] by (simp add: ex_retry_def)
  show "k < n \<or> (\<exists>i < n. f i = Some e)" if "ex_retry k n p f = Some e" "isContextCanceled e" for k n p f e
    using ex_retry_from_Some [of "min k n" p f 0 e] that by (auto simp: ex_retry_def)
qed

abbreviation ex_blk :: block where "ex_blk \<equiv> \<lparr>b_cid = Cid 1 85 ''h'', b_data = ''x''\<rparr>"

lemma ex_run_stored:
  "\<exists>n s. pb_run True 1 ex_retry [] n (pb_init [Inr ex_blk]) s \<and>
     p_phase s = Returned (Inr ([b_cid ex_blk], [])) \<and> q_err (p_q s) = None"
proof -
  let ?run = "\<lambda>s. \<exists>n. pb_run True 1 ex_retry [] n (pb_init [Inr ex_blk]) s"
  have step: "?run t" if "?run s" "pb_step True 1 ex_retry [] s t" for s t using that run_step by blast
  have pbk: "processBlock ex_retry 3 (\<lambda>_. None) = None" by code_simp
  define q where "q = \<lparr>q_err = None, q_jobs = [], q_running = [], q_chan = None, q_once = False,
     q_failed = 0, q_added = [], q_done = []\<rparr>"
  have "?run (pb_init [Inr ex_blk])" using run_none by blast
  moreover have "pb_read True (pb_init [Inr ex_blk]) =
      \<lparr>p_q = q\<lparr>q_jobs := [ex_blk]\<rparr>, p_nexts = [], p_taken = [ex_blk], p_phase = Reading\<rparr>"
    by (simp add: pb_read_def pb_init_def NewBlockQueue_def bq_queueBlock_def q_def)
  ultimately have r1: "?run \<lparr>p_q = q\<lparr>q_jobs := [ex_blk]\<rparr>, p_nexts = [], p_taken = [ex_blk], p_phase = Reading\<rparr>"
    using step [OF _ st_read] by (metis pb_init_def pb_sys.select_convs(4))
  have r2: "?run \<lparr>p_q = q\<lparr>q_running := [ex_blk]\<rparr>, p_nexts = [], p_taken = [ex_blk], p_phase = Reading\<rparr>"
    using step [OF r1 st_start [of ex_blk]] by (simp add: q_def job_start_def Let_def)
  have r3: "?run \<lparr>p_q = q\<lparr>q_added := [ex_blk], q_done := [b_cid ex_blk]\<rparr>, p_nexts = [], p_taken = [ex_blk],
      p_phase = Reading\<rparr>"
    using step [OF r2 st_finish [of ex_blk _ 3 True 1 ex_retry "[]" "\<lambda>_. None"]]
    by (simp add: q_def job_finish_def Let_def pbk maxRetries_def)
  have r4: "?run \<lparr>p_q = q\<lparr>q_added := [ex_blk], q_done := [b_cid ex_blk]\<rparr>, p_nexts = [], p_taken = [ex_blk],
      p_phase = Draining\<rparr>"
    using step [OF r3 st_read] by (simp add: pb_read_def)
  from step [OF r4 st_return [of _ True 1 ex_retry "[]" None]] show ?thesis
    by (fastforce simp: q_def pb_result_def)
qed


text \<open>C32. Every call of \<open>ProcessBlocks\<close> ends: a run over \<open>n\<close> answers of \<open>Next\<close> has at most \<open>3 n + 3\<close> steps,
  and until it has returned some step is possible, whatever the outcomes of \<open>AddBlock\<close>, the errors
  and the moment the context ends.\<close>

theorem blockqueue_terminates:
  assumes "pb_run persist workers retry roots n (pb_init nexts) s" and "0 < workers"
  shows "n \<le> 3 * length nexts + 3 \<and>
    ((\<forall>r. p_phase s \<noteq> Returned r) \<longrightarrow> (\<exists>t. pb_step persist workers retry roots s t))"
proof -
  have "pb_measure (pb_init nexts) = 3 * length nexts + 3"
    by (simp add: pb_measure_def pb_init_def NewBlockQueue_def)
  then show ?thesis using pb_run_bound [OF assms(1)] pb_progress [OF assms(2)] by auto
qed

theorem blockqueue_terminates_witness:
  "\<exists>t. pb_step True 4 ex_retry [] (pb_init [Inr ex_blk]) t"
  using blockqueue_terminates [OF run_none, of 4 "[Inr ex_blk]" True ex_retry "[]"]
  by (simp add: pb_init_def)

text \<open>When the 30 minutes of the context run out, \<open>ProcessBlocks\<close> can report success although nothing was
  stored, and for a processor that does not stream, list the block among those done.\<close>

lemma blockqueue_timeout_success:
  "\<exists>n s. pb_run False (Suc w) retry roots n (pb_init [Inr b]) s \<and>
     p_phase s = Returned (Inr ([b_cid b], roots)) \<and> q_added (p_q s) = []"
proof -
  let ?run = "\<lambda>s. \<exists>n. pb_run False (Suc w) retry roots n (pb_init [Inr b]) s"
  have step: "?run t" if "?run s" "pb_step False (Suc w) retry roots s t" for s t
    using that pb_run.run_step by blast
  define q where "q = \<lparr>q_err = None, q_jobs = [], q_running = [], q_chan = None, q_once = False,
     q_failed = 0, q_added = [], q_done = [b_cid b]\<rparr>"
  let ?s = "\<lambda>q ph. \<lparr>p_q = q, p_nexts = [], p_taken = [b], p_phase = ph\<rparr>"
  have "?run (pb_init [Inr b])" using run_none by blast
  moreover have "pb_read False (pb_init [Inr b]) = ?s (q\<lparr>q_jobs := [b]\<rparr>) Reading"
    by (simp add: pb_read_def pb_init_def NewBlockQueue_def bq_queueBlock_def q_def)
  ultimately have r1: "?run (?s (q\<lparr>q_jobs := [b]\<rparr>) Reading)"
    using step [OF _ st_read] by (metis pb_init_def pb_sys.select_convs(4))
  have r2: "?run (?s (q\<lparr>q_jobs := [b], q_err := Some DeadlineExceeded\<rparr>) Reading)"
    using step [OF r1 st_ctx [of _ DeadlineExceeded]] by (simp add: q_def bq_cancel_def)
  have r3: "?run (?s (q\<lparr>q_jobs := [b], q_err := Some DeadlineExceeded\<rparr>) Draining)"
    using step [OF r2 st_read] by (simp add: pb_read_def)
  have r4: "?run (?s (q\<lparr>q_err := Some DeadlineExceeded\<rparr>) Draining)"
    using step [OF r3 st_start [of b]] by (simp add: q_def job_start_def Let_def)
  from step [OF r4 st_return [of _ False "Suc w" retry roots None]] show ?thesis
    by (fastforce simp: q_def pb_result_def isContextCanceled_def)
qed

end
