(* ===== verification/DoneTracker.thy ===== *)
theory DoneTracker
  imports IPFS_Prelude
begin

text \<open>
  \<^verbatim>\<open>internal/protocol/done_tracker.go\<close>: the table of completed CIDs and of the goroutines that
  wait for one.  The tracker's state is a record; each method is split at the points where it
  gives up \<open>dt.mu\<close>, so that one definition is one critical section.  \<open>kb\<close> is \<open>string(c.Bytes())\<close>
  and \<open>cast\<close> is \<open>cid.Cast\<close>.  Channels are numbers; the system at the end of the theory
  runs any number of goroutines over one tracker and says which channels have been closed.
\<close>

section \<open>State and methods\<close>

record 'c cid_waiter =
  w_cid :: 'c
  w_done :: bool
  w_chans :: "nat list"

record ('k, 'c) done_tracker =
  dt_waiters :: "('k, 'c cid_waiter) gomap"
  dt_completed :: "('k, bool) gomap"

definition NewDoneTracker :: "('k, 'c) done_tracker" where
  "NewDoneTracker = \<lparr>dt_waiters = [], dt_completed = []\<rparr>"

text \<open>A Go map of booleans read at a missing key gives \<open>false\<close>.\<close>

definition completed_at :: "('k, 'c) done_tracker \<Rightarrow> 'k \<Rightarrow> bool" where
  "completed_at dt k = (gm_get (dt_completed dt) k = Some True)"

text \<open>
  \<open>Done\<close> up to the unlock: the new tracker and the channels it will close afterwards
  (\<open>waitersToClose\<close>).
\<close>

definition done_lock ::
    "('c \<Rightarrow> 'k) \<Rightarrow> 'c \<Rightarrow> ('k, 'c) done_tracker \<Rightarrow> ('k, 'c) done_tracker \<times> nat list" where
  "done_lock kb c dt =
     (let cidKey = kb c in
      case gm_get (dt_waiters dt) cidKey of
        None \<Rightarrow> (dt\<lparr>dt_completed := gm_set cidKey True (dt_completed dt)\<rparr>, [])
      | Some waiter \<Rightarrow>
          if w_done waiter then (dt, [])
          else (dt\<lparr>dt_completed := gm_set cidKey True (dt_completed dt),
                   dt_waiters := gm_del cidKey (dt_waiters dt)\<rparr>,
                w_chans waiter))"

text \<open>
  \<open>WaitDone\<close> up to its \<open>select\<close>: \<open>None\<close> when it returns \<open>true\<close> at once, otherwise the channel it
  waits on; \<open>ch\<close> is the channel \<open>make\<close> allocates.
\<close>

definition wait_lock ::
    "('c \<Rightarrow> 'k) \<Rightarrow> 'c \<Rightarrow> nat \<Rightarrow> ('k, 'c) done_tracker \<Rightarrow> ('k, 'c) done_tracker \<times> nat option" where
  "wait_lock kb c ch dt =
     (let cidKey = kb c in
      if completed_at dt cidKey then (dt, None)
      else
        let waiter = (case gm_get (dt_waiters dt) cidKey of
                        None \<Rightarrow> \<lparr>w_cid = c, w_done = False, w_chans = []\<rparr>
                      | Some w \<Rightarrow> w)
        in if w_done waiter then (dt, None)
           else (dt\<lparr>dt_waiters := gm_set cidKey (waiter\<lparr>w_chans := w_chans waiter @ [ch]\<rparr>)
                                    (dt_waiters dt)\<rparr>,
                 Some ch))"

text \<open>The \<open>ctx.Done()\<close> branch of that \<open>select\<close>: the channel is taken off its waiter.\<close>

definition wait_cancel :: "'k \<Rightarrow> nat \<Rightarrow> ('k, 'c) done_tracker \<Rightarrow> ('k, 'c) done_tracker" where
  "wait_cancel cidKey ch dt =
     (case gm_get (dt_waiters dt) cidKey of
        None \<Rightarrow> dt
      | Some w \<Rightarrow>
          let chans = remove1 ch (w_chans w) in
          dt\<lparr>dt_waiters := (if chans = [] then gm_del cidKey (dt_waiters dt)
                            else gm_set cidKey (w\<lparr>w_chans := chans\<rparr>) (dt_waiters dt))\<rparr>)"

definition IsDone :: "('c \<Rightarrow> 'k) \<Rightarrow> ('k, 'c) done_tracker \<Rightarrow> 'c \<Rightarrow> bool" where
  "IsDone kb dt c =
     (completed_at dt (kb c) \<or>
      (case gm_get (dt_waiters dt) (kb c) of None \<Rightarrow> False | Some w \<Rightarrow> w_done w))"

text \<open>The two loops of \<open>GetDoneCIDs\<close>, one entry at a time.\<close>

definition add_waiter ::
    "('c \<Rightarrow> 'k) \<Rightarrow> 'k \<times> 'c cid_waiter \<Rightarrow> ('k, 'c) gomap \<Rightarrow> ('k, 'c) gomap" where
  "add_waiter kb kw m =
     (let w = snd kw in if w_done w then gm_set (kb (w_cid w)) (w_cid w) m else m)"

definition add_cast ::
    "('k \<Rightarrow> 'c option) \<Rightarrow> 'k \<times> bool \<Rightarrow> ('k, 'c) gomap \<Rightarrow> ('k, 'c) gomap" where
  "add_cast cast kv m = (case cast (fst kv) of Some c \<Rightarrow> gm_set (fst kv) c m | None \<Rightarrow> m)"

definition GetDoneCIDs ::
    "('c \<Rightarrow> 'k) \<Rightarrow> ('k \<Rightarrow> 'c option) \<Rightarrow> ('k, 'c) done_tracker \<Rightarrow> 'c list" where
  "GetDoneCIDs kb cast dt =
     map snd (fold (add_cast cast) (dt_completed dt) (fold (add_waiter kb) (dt_waiters dt) []))"

definition Count :: "('k, 'c) done_tracker \<Rightarrow> nat" where
  "Count dt =
     length (filter (\<lambda>(_, w). w_done w) (dt_waiters dt)) +
     length (filter (\<lambda>(k, _). gm_get (dt_waiters dt) k = None) (dt_completed dt))"

definition Reset :: "('k, 'c) done_tracker \<Rightarrow> ('k, 'c) done_tracker" where
  "Reset dt = dt\<lparr>dt_waiters := [], dt_completed := []\<rparr>"

text \<open>The tracker after a whole call of \<open>Done\<close>, seen alone.\<close>

definition Done :: "('c \<Rightarrow> 'k) \<Rightarrow> 'c \<Rightarrow> ('k, 'c) done_tracker \<Rightarrow> ('k, 'c) done_tracker" where
  "Done kb c dt = fst (done_lock kb c dt)"

section \<open>Well-formed trackers\<close>

text \<open>
  The maps are maps, no waiter in the table is done (\<open>Done\<close> sets the flag and deletes
  the entry in one critical section), only \<open>true\<close> is stored, and no key is both waited for and
  completed.
\<close>

definition dt_wf :: "('k, 'c) done_tracker \<Rightarrow> bool" where
  "dt_wf dt \<longleftrightarrow>
     gm_wf (dt_waiters dt) \<and> gm_wf (dt_completed dt) \<and>
     (\<forall>k w. gm_get (dt_waiters dt) k = Some w \<longrightarrow> \<not> w_done w \<and> w_chans w \<noteq> []) \<and>
     (\<forall>k. gm_get (dt_completed dt) k \<noteq> Some False) \<and>
     (\<forall>k. gm_get (dt_completed dt) k \<noteq> None \<longrightarrow> gm_get (dt_waiters dt) k = None)"

lemma completed_at_wf: "dt_wf dt \<Longrightarrow> completed_at dt k \<longleftrightarrow> gm_get (dt_completed dt) k \<noteq> None"
  unfolding dt_wf_def completed_at_def by (metis (full_types) not_Some_eq)

lemma dt_wf_New: "dt_wf NewDoneTracker"
  by (simp add: dt_wf_def NewDoneTracker_def)

lemma dt_wf_done_lock: "dt_wf dt \<Longrightarrow> dt_wf (fst (done_lock kb c dt))"
  unfolding dt_wf_def done_lock_def Let_def
  by (auto simp: gm_simps split: option.splits if_splits)

lemma dt_wf_wait_lock: "dt_wf dt \<Longrightarrow> dt_wf (fst (wait_lock kb c ch dt))"
  using completed_at_wf [of dt "kb c"] unfolding dt_wf_def wait_lock_def Let_def
  by (auto simp: gm_simps split: option.splits if_splits)

lemma dt_wf_wait_cancel: "dt_wf dt \<Longrightarrow> dt_wf (wait_cancel k ch dt)"
  unfolding dt_wf_def wait_cancel_def Let_def
  by (auto simp: gm_simps split: option.splits if_splits)

lemma dt_wf_Reset: "dt_wf (Reset dt)"
  by (simp add: dt_wf_def Reset_def)

lemma dt_wf_Done: "dt_wf dt \<Longrightarrow> dt_wf (Done kb c dt)"
  by (simp add: Done_def dt_wf_done_lock)

lemmas dt_wf_intros = dt_wf_New dt_wf_done_lock dt_wf_wait_lock dt_wf_wait_cancel dt_wf_Reset
  dt_wf_Done

text \<open>In a well-formed tracker a CID is done exactly when its key is in the permanent record.\<close>

lemma IsDone_wf: "dt_wf dt \<Longrightarrow> IsDone kb dt c \<longleftrightarrow> kb c \<in> set (gm_keys (dt_completed dt))"
  using completed_at_wf [of dt "kb c"] unfolding dt_wf_def IsDone_def gm_key_get
  by (auto split: option.splits)

lemma IsDone_Done: "dt_wf dt \<Longrightarrow> IsDone kb (Done kb d dt) c \<longleftrightarrow> kb c = kb d \<or> IsDone kb dt c"
  by (auto simp: IsDone_def Done_def done_lock_def Let_def completed_at_def dt_wf_def gm_simps
           split: option.splits)

lemma IsDone_wait_lock: "dt_wf dt \<Longrightarrow> IsDone kb (fst (wait_lock kb d ch dt)) c = IsDone kb dt c"
  by (auto simp: IsDone_def wait_lock_def Let_def completed_at_def dt_wf_def gm_simps
           split: option.splits if_splits)

lemma IsDone_wait_cancel: "dt_wf dt \<Longrightarrow> IsDone kb (wait_cancel k ch dt) c = IsDone kb dt c"
  by (auto simp: IsDone_def wait_cancel_def Let_def completed_at_def dt_wf_def gm_simps
           split: option.splits if_splits)

lemma IsDone_Reset: "\<not> IsDone kb (Reset dt) c"
  by (simp add: IsDone_def Reset_def completed_at_def)

lemma IsDone_New: "\<not> IsDone kb NewDoneTracker c"
  by (simp add: IsDone_def NewDoneTracker_def completed_at_def)

text \<open>\<open>WaitDone\<close> returns at once exactly for a done CID.\<close>

lemma wait_lock_returns: "dt_wf dt \<Longrightarrow> snd (wait_lock kb c ch dt) = None \<longleftrightarrow> IsDone kb dt c"
  by (auto simp: wait_lock_def IsDone_def Let_def completed_at_def dt_wf_def split: option.splits)

section \<open>The set of done CIDs\<close>

lemma dt_wf_waiter: "dt_wf dt \<Longrightarrow> (k, w) \<in> set (dt_waiters dt) \<Longrightarrow> \<not> w_done w"
  unfolding dt_wf_def using map_of_is_SomeI by fast

lemma dt_wf_completed:
  "dt_wf dt \<Longrightarrow> (k, b) \<in> set (dt_completed dt) \<Longrightarrow> gm_get (dt_waiters dt) k = None"
  unfolding dt_wf_def by (metis map_of_is_SomeI option.discI)

lemma fold_no_done:
  "(\<And>kw. kw \<in> set ws \<Longrightarrow> \<not> w_done (snd kw)) \<Longrightarrow> fold (add_waiter kb) ws m = m"
  by (induction ws) (simp_all add: add_waiter_def Let_def)

lemma add_cast_wf: "gm_wf m \<Longrightarrow> gm_wf (fold (add_cast cast) ks m)"
  by (induction ks arbitrary: m) (auto simp: add_cast_def split: option.splits)

lemma add_cast_get:
  "gm_get (fold (add_cast cast) ks m) k =
     (if k \<in> set (gm_keys ks) \<and> cast k \<noteq> None then cast k else gm_get m k)"
  by (induction ks arbitrary: m) (auto simp: add_cast_def gm_simps split: option.splits)

lemma GetDoneCIDs_wf:
  assumes "dt_wf dt"
  shows "GetDoneCIDs kb cast dt = map snd (fold (add_cast cast) (dt_completed dt) [])"
proof -
  have *: "\<not> w_done (snd kw)" if "kw \<in> set (dt_waiters dt)" for kw
    using dt_wf_waiter [OF assms, of "fst kw" "snd kw"] that by simp
  show ?thesis by (simp add: GetDoneCIDs_def fold_no_done [OF *])
qed

lemma set_GetDoneCIDs:
  assumes "dt_wf dt" and cast: "\<And>k c. cast k = Some c \<longleftrightarrow> kb c = k"
  shows "set (GetDoneCIDs kb cast dt) = {c. IsDone kb dt c}"
proof -
  let ?m = "fold (add_cast cast) (dt_completed dt) []"
  have wf: "gm_wf ?m" by (simp add: add_cast_wf)
  have get: "gm_get ?m k = Some c \<longleftrightarrow> k \<in> set (gm_keys (dt_completed dt)) \<and> kb c = k" for k c
    using cast by (auto simp: add_cast_get)
  have "c \<in> set (map snd ?m) \<longleftrightarrow> IsDone kb dt c" for c
  proof -
    have "c \<in> set (map snd ?m) \<longleftrightarrow> (\<exists>k. (k, c) \<in> set ?m)" by force
    also have "\<dots> \<longleftrightarrow> kb c \<in> set (gm_keys (dt_completed dt))"
      by (auto simp: gm_mem_iff [OF wf] get)
    finally show ?thesis by (simp add: IsDone_wf [OF assms(1)])
  qed
  then show ?thesis by (auto simp: GetDoneCIDs_wf [OF assms(1)])
qed

lemma Count_wf:
  assumes "dt_wf dt"
  shows "Count dt = length (dt_completed dt)"
proof -
  have "filter (\<lambda>(_, w). w_done w) (dt_waiters dt) = []"
    using dt_wf_waiter [OF assms] by (auto simp: filter_empty_conv)
  moreover have "filter (\<lambda>(k, _). gm_get (dt_waiters dt) k = None) (dt_completed dt) = dt_completed dt"
    using dt_wf_completed [OF assms] by (intro filter_True) auto
  ultimately show ?thesis by (simp add: Count_def)
qed

section \<open>Goroutines over one tracker\<close>

text \<open>
  \<open>s_closing\<close> holds the channels a \<open>Done\<close> took out of the tracker and has not closed yet,
  \<open>s_closed\<close> those it has; \<open>s_parked\<close> are the goroutines in the \<open>select\<close> of \<open>WaitDone\<close>, each by
  the channel and the key it waits for.
\<close>

record ('k, 'c) dt_sys =
  s_dt :: "('k, 'c) done_tracker"
  s_next :: nat
  s_closing :: "nat list"
  s_closed :: "nat list"
  s_parked :: "(nat \<times> 'k) list"

datatype 'c dt_act =
    ADone 'c | AClose nat | AWaitNow 'c | AWaitPark 'c | AWake nat | ACancel nat | AReset

definition dt_init :: "('k, 'c) dt_sys" where
  "dt_init = \<lparr>s_dt = NewDoneTracker, s_next = 0, s_closing = [], s_closed = [], s_parked = []\<rparr>"

inductive dt_step :: "('c \<Rightarrow> 'k) \<Rightarrow> ('k, 'c) dt_sys \<Rightarrow> 'c dt_act \<Rightarrow> ('k, 'c) dt_sys \<Rightarrow> bool"
  for kb where
  step_done: "done_lock kb c (s_dt s) = (dt', chs) \<Longrightarrow>
     dt_step kb s (ADone c) (s\<lparr>s_dt := dt', s_closing := s_closing s @ chs\<rparr>)"
| step_close: "ch \<in> set (s_closing s) \<Longrightarrow>
     dt_step kb s (AClose ch)
       (s\<lparr>s_closing := remove1 ch (s_closing s), s_closed := ch # s_closed s\<rparr>)"
| step_wait_now: "wait_lock kb c (s_next s) (s_dt s) = (dt', None) \<Longrightarrow>
     dt_step kb s (AWaitNow c) (s\<lparr>s_dt := dt'\<rparr>)"
| step_wait_park: "wait_lock kb c (s_next s) (s_dt s) = (dt', Some ch) \<Longrightarrow>
     dt_step kb s (AWaitPark c)
       (s\<lparr>s_dt := dt', s_next := Suc (s_next s), s_parked := (ch, kb c) # s_parked s\<rparr>)"
| step_wake: "(ch, k) \<in> set (s_parked s) \<Longrightarrow> ch \<in> set (s_closed s) \<Longrightarrow>
     dt_step kb s (AWake ch) (s\<lparr>s_parked := remove1 (ch, k) (s_parked s)\<rparr>)"
| step_cancel: "(ch, k) \<in> set (s_parked s) \<Longrightarrow>
     dt_step kb s (ACancel ch)
       (s\<lparr>s_parked := remove1 (ch, k) (s_parked s), s_dt := wait_cancel k ch (s_dt s)\<rparr>)"
| step_reset: "dt_step kb s AReset (s\<lparr>s_dt := Reset (s_dt s)\<rparr>)"

inductive_cases dt_step_doneE: "dt_step kb s (ADone c) t"
inductive_cases dt_step_closeE: "dt_step kb s (AClose ch) t"
inductive_cases dt_step_wakeE: "dt_step kb s (AWake ch) t"
inductive_cases dt_step_resetE: "dt_step kb s AReset t"
inductive_simps dt_step_close_simp: "dt_step kb s (AClose ch) t"

inductive dt_steps :: "('c \<Rightarrow> 'k) \<Rightarrow> ('k, 'c) dt_sys \<Rightarrow> 'c dt_act list \<Rightarrow> ('k, 'c) dt_sys \<Rightarrow> bool"
  for kb where
  steps_nil: "dt_steps kb s [] s"
| steps_snoc: "dt_steps kb s as t \<Longrightarrow> dt_step kb t a u \<Longrightarrow> dt_steps kb s (as @ [a]) u"

text \<open>Channel \<open>ch\<close> is registered in the tracker under key \<open>k\<close>.\<close>

definition registered :: "('k, 'c) dt_sys \<Rightarrow> 'k \<Rightarrow> nat \<Rightarrow> bool" where
  "registered s k ch =
     (case gm_get (dt_waiters (s_dt s)) k of None \<Rightarrow> False | Some w \<Rightarrow> ch \<in> set (w_chans w))"

text \<open>
  The invariant of every run: a channel number below \<open>s_next\<close> is in at most one of: one
  waiter (once), the channels being closed (once), the closed ones.
\<close>

definition chan_inv :: "('k, 'c) dt_sys \<Rightarrow> bool" where
  "chan_inv s \<longleftrightarrow>
     dt_wf (s_dt s) \<and>
     (\<forall>k w. gm_get (dt_waiters (s_dt s)) k = Some w \<longrightarrow> distinct (w_chans w)) \<and>
     (\<forall>k ch. registered s k ch \<longrightarrow>
        ch < s_next s \<and> ch \<notin> set (s_closing s) \<and> ch \<notin> set (s_closed s)) \<and>
     (\<forall>k k' ch. registered s k ch \<longrightarrow> registered s k' ch \<longrightarrow> k = k') \<and>
     distinct (s_closing s) \<and>
     (\<forall>ch \<in> set (s_closing s). ch < s_next s \<and> ch \<notin> set (s_closed s)) \<and>
     (\<forall>ch \<in> set (s_closed s). ch < s_next s)"

text \<open>
  The invariant of the runs without \<open>Reset\<close>: a parked goroutine's channel is still
  registered under its key, or the key is completed and the channel is closed or about to be.
\<close>

definition parked_inv :: "('k, 'c) dt_sys \<Rightarrow> bool" where
  "parked_inv s \<longleftrightarrow>
     distinct (map fst (s_parked s)) \<and>
     (\<forall>(ch, k) \<in> set (s_parked s).
        ch < s_next s \<and>
        (registered s k ch \<or>
         completed_at (s_dt s) k \<and> (ch \<in> set (s_closing s) \<or> ch \<in> set (s_closed s))))"

lemma registered_init: "\<not> registered dt_init k ch"
  by (simp add: registered_def dt_init_def NewDoneTracker_def)

lemma chan_inv_init: "chan_inv dt_init"
  unfolding chan_inv_def
  by (simp add: registered_init) (simp add: dt_init_def dt_wf_New, simp add: NewDoneTracker_def)

lemma parked_inv_init: "parked_inv dt_init"
  by (simp add: parked_inv_def dt_init_def)

text \<open>What each critical section does to the registered channels.\<close>

lemma registered_done_lock:
  assumes "dt_wf (s_dt s)" and "done_lock kb c (s_dt s) = (dt', chs)"
  shows "registered (s\<lparr>s_dt := dt', s_closing := cl\<rparr>) k ch \<longleftrightarrow> registered s k ch \<and> k \<noteq> kb c"
    and "ch \<in> set chs \<longleftrightarrow> registered s (kb c) ch"
    and "(\<And>k w. gm_get (dt_waiters (s_dt s)) k = Some w \<Longrightarrow> distinct (w_chans w)) \<Longrightarrow> distinct chs"
    and "completed_at dt' k \<longleftrightarrow> completed_at (s_dt s) k \<or> k = kb c"
  using assms
  by (auto simp: registered_def done_lock_def Let_def dt_wf_def completed_at_def gm_simps
           split: option.splits if_splits)

lemma registered_wait_lock:
  assumes "dt_wf (s_dt s)" and "wait_lock kb c n (s_dt s) = (dt', r)"
  shows "registered (s\<lparr>s_dt := dt', s_next := m, s_parked := pk\<rparr>) k ch \<longleftrightarrow>
           registered s k ch \<or> (r = Some n \<and> ch = n \<and> k = kb c)"
    and "registered (s\<lparr>s_dt := dt'\<rparr>) k ch \<longleftrightarrow>
           registered s k ch \<or> (r = Some n \<and> ch = n \<and> k = kb c)"
    and "r = None \<or> r = Some n"
    and "completed_at dt' k = completed_at (s_dt s) k"
    and "r = None \<Longrightarrow> completed_at (s_dt s) (kb c)"
  using assms
  by (auto simp: registered_def wait_lock_def Let_def dt_wf_def completed_at_def gm_simps
           split: option.splits if_splits)

lemma registered_wait_cancel:
  assumes "dt_wf (s_dt s)"
    and "\<And>k w. gm_get (dt_waiters (s_dt s)) k = Some w \<Longrightarrow> distinct (w_chans w)"
  shows "registered (s\<lparr>s_parked := pk, s_dt := wait_cancel k0 c0 (s_dt s)\<rparr>) k ch \<longleftrightarrow>
           registered s k ch \<and> (k, ch) \<noteq> (k0, c0)"
    and "completed_at (wait_cancel k0 c0 (s_dt s)) k = completed_at (s_dt s) k"
proof -
  have "\<And>w. remove1 c0 (w_chans w) = [] \<Longrightarrow> distinct (w_chans w) \<Longrightarrow> set (w_chans w) \<subseteq> {c0}"
    by (metis Diff_eq_empty_iff set_empty set_remove1_eq)
  then show "registered (s\<lparr>s_parked := pk, s_dt := wait_cancel k0 c0 (s_dt s)\<rparr>) k ch \<longleftrightarrow>
           registered s k ch \<and> (k, ch) \<noteq> (k0, c0)"
    using assms
    by (auto simp: registered_def wait_cancel_def Let_def gm_simps split: option.splits if_splits)
  show "completed_at (wait_cancel k0 c0 (s_dt s)) k = completed_at (s_dt s) k"
    by (auto simp: wait_cancel_def Let_def completed_at_def split: option.splits)
qed

text \<open>The waiters' channel lists stay free of repetitions.\<close>

abbreviation chans_distinct :: "('k, 'c) done_tracker \<Rightarrow> bool" where
  "chans_distinct dt \<equiv> \<forall>k w. gm_get (dt_waiters dt) k = Some w \<longrightarrow> distinct (w_chans w)"

lemma chans_distinct_done_lock: "chans_distinct dt \<Longrightarrow> chans_distinct (fst (done_lock kb c dt))"
  by (auto simp: done_lock_def Let_def gm_simps split: option.splits)

lemma chans_distinct_wait_cancel: "chans_distinct dt \<Longrightarrow> chans_distinct (wait_cancel k ch dt)"
  by (auto simp: wait_cancel_def Let_def gm_simps split: option.splits)

lemma chans_distinct_wait_lock:
  "chans_distinct dt \<Longrightarrow>
   (\<And>w. gm_get (dt_waiters dt) (kb c) = Some w \<Longrightarrow> ch \<notin> set (w_chans w)) \<Longrightarrow>
   chans_distinct (fst (wait_lock kb c ch dt))"
  by (auto simp: wait_lock_def Let_def gm_simps split: option.splits if_splits)

lemma registered_get:
  "gm_get (dt_waiters (s_dt s)) k = Some w \<Longrightarrow> registered s k ch \<longleftrightarrow> ch \<in> set (w_chans w)"
  by (simp add: registered_def)

lemma registered_cong:
  "s_dt s = s_dt t \<Longrightarrow> registered s k ch = registered t k ch"
  by (simp add: registered_def)

lemma chan_inv_step: "dt_step kb s a t \<Longrightarrow> chan_inv s \<Longrightarrow> chan_inv t"
proof (induction rule: dt_step.induct)
  case (step_done c s dt' chs)
  note inv = step_done.prems [unfolded chan_inv_def]
  have wf: "dt_wf (s_dt s)" using inv by blast
  note reg = registered_done_lock [OF wf step_done.hyps]
  have "chans_distinct dt'" "dt_wf dt'"
    using chans_distinct_done_lock [of "s_dt s" kb c] dt_wf_done_lock [OF wf, of kb c] inv
    by (simp_all add: step_done.hyps)
  moreover have "distinct chs" using reg(3) inv by blast
  ultimately show ?case
    using inv by (auto simp: chan_inv_def reg(1,2))
next
  case (step_close ch s)
  have reg: "registered (s\<lparr>s_closing := x, s_closed := y\<rparr>) k c = registered s k c" for x y k c
    by (rule registered_cong) simp
  show ?case
    using step_close by (auto simp: chan_inv_def reg dest: notin_set_remove1)
next
  case (step_wait_now c s dt')
  note inv = step_wait_now.prems [unfolded chan_inv_def]
  have "dt' = s_dt s"
    using step_wait_now.hyps by (auto simp: wait_lock_def Let_def split: if_splits)
  then show ?case using step_wait_now.prems by simp
next
  case (step_wait_park c s dt' ch)
  note inv = step_wait_park.prems [unfolded chan_inv_def]
  have wf: "dt_wf (s_dt s)" using inv by blast
  note reg = registered_wait_lock [OF wf step_wait_park.hyps]
  have ch: "ch = s_next s" using reg(3) by simp
  have "chans_distinct (fst (wait_lock kb c (s_next s) (s_dt s)))"
    by (rule chans_distinct_wait_lock) (use inv registered_get in fastforce)+
  then have "chans_distinct dt'" "dt_wf dt'"
    using dt_wf_wait_lock [OF wf, of kb c "s_next s"] by (simp_all add: step_wait_park.hyps)
  then show ?case
    using inv unfolding chan_inv_def reg(1) ch by (fastforce simp: less_Suc_eq)
next
  case (step_wake ch k s)
  have reg: "registered (s\<lparr>s_parked := x\<rparr>) k c = registered s k c" for x k c
    by (rule registered_cong) simp
  show ?case using step_wake.prems by (simp add: chan_inv_def reg)
next
  case (step_cancel ch k s)
  note inv = step_cancel.prems [unfolded chan_inv_def]
  have wf: "dt_wf (s_dt s)" using inv by blast
  have reg: "registered (s\<lparr>s_parked := pk, s_dt := wait_cancel k ch (s_dt s)\<rparr>) k' c \<longleftrightarrow>
           registered s k' c \<and> (k', c) \<noteq> (k, ch)" for pk k' c
    using inv by (intro registered_wait_cancel(1) [OF wf]) blast
  show ?case
    using inv chans_distinct_wait_cancel [of "s_dt s" k ch] dt_wf_wait_cancel [OF wf, of k ch]
    unfolding chan_inv_def reg by simp blast
next
  case (step_reset s)
  have "\<not> registered (s\<lparr>s_dt := Reset (s_dt s)\<rparr>) k c" for k c
    by (simp add: registered_def Reset_def)
  then show ?case
    using step_reset by (simp add: chan_inv_def dt_wf_Reset) (simp add: Reset_def)
qed

lemma distinct_fst_same:
  "distinct (map fst xs) \<Longrightarrow> (a, b) \<in> set xs \<Longrightarrow> (a, c) \<in> set xs \<Longrightarrow> b = c"
  by (meson eq_key_imp_eq_value)

lemma distinct_map_remove1: "distinct (map f xs) \<Longrightarrow> distinct (map f (remove1 x xs))"
  by (auto simp: distinct_map intro: inj_on_subset)

lemma parked_other:
  "distinct (map fst xs) \<Longrightarrow> (ch, k) \<in> set xs \<Longrightarrow> (ch', k') \<in> set (remove1 (ch, k) xs) \<Longrightarrow>
     (ch', k') \<in> set xs \<and> ch' \<noteq> ch"
  by (metis distinct_fst_same distinct_map notin_set_remove1 set_remove1_eq DiffE singletonI)

lemma parked_invD:
  assumes "parked_inv s" and "(ch, k) \<in> set (s_parked s)"
  shows "ch < s_next s"
    and "registered s k ch \<or>
         completed_at (s_dt s) k \<and> (ch \<in> set (s_closing s) \<or> ch \<in> set (s_closed s))"
  using assms unfolding parked_inv_def by auto

lemma parked_invI:
  assumes "distinct (map fst (s_parked s))"
    and "\<And>ch k. (ch, k) \<in> set (s_parked s) \<Longrightarrow> ch < s_next s \<and>
           (registered s k ch \<or>
            completed_at (s_dt s) k \<and> (ch \<in> set (s_closing s) \<or> ch \<in> set (s_closed s)))"
  shows "parked_inv s"
  using assms unfolding parked_inv_def by blast

lemma parked_inv_step:
  "dt_step kb s a t \<Longrightarrow> chan_inv s \<Longrightarrow> parked_inv s \<Longrightarrow> a \<noteq> AReset \<Longrightarrow> parked_inv t"
proof (induction rule: dt_step.induct)
  case (step_done c s dt' chs)
  have wf: "dt_wf (s_dt s)" using step_done.prems(1) unfolding chan_inv_def by blast
  note reg = registered_done_lock [OF wf step_done.hyps]
  have "distinct (map fst (s_parked s))" using step_done.prems(2) by (simp add: parked_inv_def)
  then show ?case
    using parked_invD [OF step_done.prems(2)]
    by (auto simp: parked_inv_def reg(1,2,4))
next
  case (step_close ch s)
  have reg: "registered (s\<lparr>s_closing := x, s_closed := y\<rparr>) k c = registered s k c" for x y k c
    by (rule registered_cong) simp
  have "distinct (map fst (s_parked s))" using step_close.prems(2) by (simp add: parked_inv_def)
  then show ?case
    using parked_invD [OF step_close.prems(2)]
    by (auto simp: parked_inv_def reg) (metis in_set_remove1)
next
  case (step_wait_now c s dt')
  have "dt' = s_dt s"
    using step_wait_now.hyps by (auto simp: wait_lock_def Let_def split: if_splits)
  then show ?case using step_wait_now.prems by simp
next
  case (step_wait_park c s dt' ch)
  have wf: "dt_wf (s_dt s)" using step_wait_park.prems(1) unfolding chan_inv_def by blast
  note reg = registered_wait_lock [OF wf step_wait_park.hyps]
  have ch: "ch = s_next s" using reg(3) by simp
  have "distinct (map fst (s_parked s))"
    using step_wait_park.prems(2) by (simp add: parked_inv_def)
  moreover have "s_next s \<notin> fst ` set (s_parked s)"
    using parked_invD(1) [OF step_wait_park.prems(2)] by force
  ultimately show ?case
    using parked_invD [OF step_wait_park.prems(2)]
    by (auto simp: parked_inv_def reg(1,4) ch less_SucI) blast+
next
  case (step_wake ch k s)
  have reg: "registered (s\<lparr>s_parked := x\<rparr>) k c = registered s k c" for x k c
    by (rule registered_cong) simp
  let ?t = "s\<lparr>s_parked := remove1 (ch, k) (s_parked s)\<rparr>"
  have d: "distinct (map fst (s_parked s))" using step_wake.prems(2) by (simp add: parked_inv_def)
  show ?case
  proof (rule parked_invI)
    fix c' k' assume "(c', k') \<in> set (s_parked ?t)"
    then have "(c', k') \<in> set (s_parked s)" by (auto dest: in_remove1D)
    from parked_invD [OF step_wake.prems(2) this]
    show "c' < s_next ?t \<and>
       (registered ?t k' c' \<or>
        completed_at (s_dt ?t) k' \<and>
        (c' \<in> set (s_closing ?t) \<or>
         c' \<in> set (s_closed ?t)))"
      by (simp add: reg)
  qed (simp add: distinct_map_remove1 [OF d])
next
  case (step_cancel ch k s)
  have inv: "chan_inv s" by (rule step_cancel.prems(1))
  have wf: "dt_wf (s_dt s)" using inv unfolding chan_inv_def by blast
  have reg: "registered (s\<lparr>s_parked := pk, s_dt := wait_cancel k ch (s_dt s)\<rparr>) k' c \<longleftrightarrow>
           registered s k' c \<and> (k', c) \<noteq> (k, ch)" for pk k' c
    using inv by (intro registered_wait_cancel(1) [OF wf]) (auto simp: chan_inv_def)
  have comp: "completed_at (wait_cancel k ch (s_dt s)) k' = completed_at (s_dt s) k'" for k'
    using inv by (intro registered_wait_cancel(2) [OF wf]) (auto simp: chan_inv_def)
  have d: "distinct (map fst (s_parked s))"
    using step_cancel.prems(2) by (simp add: parked_inv_def)
  let ?t = "s\<lparr>s_parked := remove1 (ch, k) (s_parked s), s_dt := wait_cancel k ch (s_dt s)\<rparr>"
  show ?case
  proof (rule parked_invI)
    fix c' k' assume "(c', k') \<in> set (s_parked ?t)"
    then have "(c', k') \<in> set (remove1 (ch, k) (s_parked s))" by simp
    then have *: "(c', k') \<in> set (s_parked s) \<and> c' \<noteq> ch"
      by (rule parked_other [OF d step_cancel.hyps])
    then show "c' < s_next ?t \<and> (registered ?t k' c' \<or>
        completed_at (s_dt ?t) k' \<and> (c' \<in> set (s_closing ?t) \<or> c' \<in> set (s_closed ?t)))"
      using parked_invD [OF step_cancel.prems(2), of c' k'] by (simp add: reg comp)
  qed (simp add: distinct_map_remove1 [OF d])
next
  case (step_reset s)
  then show ?case by simp
qed

lemma dt_steps_chan_inv: "dt_steps kb s as t \<Longrightarrow> chan_inv s \<Longrightarrow> chan_inv t"
  by (induction rule: dt_steps.induct) (auto intro: chan_inv_step)

lemma dt_steps_parked_inv:
  "dt_steps kb s as t \<Longrightarrow> chan_inv s \<Longrightarrow> parked_inv s \<Longrightarrow> AReset \<notin> set as \<Longrightarrow> parked_inv t"
  by (induction rule: dt_steps.induct) (auto intro: parked_inv_step dt_steps_chan_inv)

text \<open>
  A channel nobody will close: its goroutine is parked and the tracker has forgotten it.
\<close>

definition orphan :: "('k, 'c) dt_sys \<Rightarrow> nat \<Rightarrow> bool" where
  "orphan s ch \<longleftrightarrow> ch < s_next s \<and> ch \<notin> set (s_closing s) \<and> ch \<notin> set (s_closed s) \<and>
     (\<forall>k. \<not> registered s k ch)"

lemma orphan_step: "dt_step kb s a t \<Longrightarrow> chan_inv s \<Longrightarrow> orphan s ch \<Longrightarrow> orphan t ch"
proof (induction rule: dt_step.induct)
  case (step_done c s dt' chs)
  have wf: "dt_wf (s_dt s)" using step_done.prems(1) unfolding chan_inv_def by blast
  note reg = registered_done_lock [OF wf step_done.hyps]
  show ?case using step_done.prems by (auto simp: orphan_def reg(1,2))
next
  case (step_close c s)
  have reg: "registered (s\<lparr>s_closing := x, s_closed := y\<rparr>) k c = registered s k c" for x y k c
    by (rule registered_cong) simp
  show ?case using step_close by (auto simp: orphan_def reg dest: notin_set_remove1)
next
  case (step_wait_now c s dt')
  have "dt' = s_dt s"
    using step_wait_now.hyps by (auto simp: wait_lock_def Let_def split: if_splits)
  then show ?case using step_wait_now.prems by simp
next
  case (step_wait_park c s dt' n)
  have wf: "dt_wf (s_dt s)" using step_wait_park.prems(1) unfolding chan_inv_def by blast
  note reg = registered_wait_lock [OF wf step_wait_park.hyps]
  show ?case using step_wait_park.prems reg(3) by (auto simp: orphan_def reg(1))
next
  case (step_wake c k s)
  have reg: "registered (s\<lparr>s_parked := x\<rparr>) k c = registered s k c" for x k c
    by (rule registered_cong) simp
  show ?case using step_wake.prems by (simp add: orphan_def reg)
next
  case (step_cancel c k s)
  have inv: "chan_inv s" by (rule step_cancel.prems(1))
  have wf: "dt_wf (s_dt s)" using inv unfolding chan_inv_def by blast
  have reg: "registered (s\<lparr>s_parked := pk, s_dt := wait_cancel k c (s_dt s)\<rparr>) k' c' \<longleftrightarrow>
           registered s k' c' \<and> (k', c') \<noteq> (k, c)" for pk k' c'
    using inv by (intro registered_wait_cancel(1) [OF wf]) (auto simp: chan_inv_def)
  show ?case using step_cancel.prems by (auto simp: orphan_def reg)
next
  case (step_reset s)
  have "\<not> registered (s\<lparr>s_dt := Reset (s_dt s)\<rparr>) k c" for k c
    by (simp add: registered_def Reset_def)
  then show ?case using step_reset.prems by (simp add: orphan_def)
qed

lemma orphan_steps: "dt_steps kb s as t \<Longrightarrow> chan_inv s \<Longrightarrow> orphan s ch \<Longrightarrow> orphan t ch"
  by (induction rule: dt_steps.induct) (auto intro: orphan_step dt_steps_chan_inv)

lemma dt_init_orphan_free: "dt_steps kb dt_init as s \<Longrightarrow> chan_inv s"
  using dt_steps_chan_inv chan_inv_init by blast

section \<open>The interface \<open>DoneTracker\<close>\<close>

text \<open>
  What the users of a tracker rely on: marking a CID makes exactly the CIDs with its key done
  and forgets none.  The lemma about a sequence of marks is proved from these laws.
\<close>

locale done_tracking =
  fixes inv :: "'s \<Rightarrow> bool"
    and mark :: "'c \<Rightarrow> 's \<Rightarrow> 's"
    and isdone :: "'s \<Rightarrow> 'c \<Rightarrow> bool"
    and key :: "'c \<Rightarrow> 'k"
  assumes inv_mark: "inv s \<Longrightarrow> inv (mark c s)"
    and isdone_mark: "inv s \<Longrightarrow> isdone (mark d s) c \<longleftrightarrow> key c = key d \<or> isdone s c"
begin

lemma inv_marks: "inv s \<Longrightarrow> inv (fold mark cs s)"
  by (induction cs arbitrary: s) (simp_all add: inv_mark)

lemma isdone_marks: "inv s \<Longrightarrow> isdone (fold mark cs s) c \<longleftrightarrow> key c \<in> key ` set cs \<or> isdone s c"
  by (induction cs arbitrary: s) (auto simp: inv_mark isdone_mark)

lemma mark_idem: "inv s \<Longrightarrow> isdone (mark c (mark c s)) d = isdone (mark c s) d"
  by (simp add: inv_mark isdone_mark)

end

interpretation dtr: done_tracking dt_wf "Done kb" "IsDone kb" kb for kb :: "'c \<Rightarrow> 'k"
  by unfold_locales (simp_all add: dt_wf_Done IsDone_Done)

section \<open>Properties\<close>

text \<open>C3. In every run of any number of goroutines over one tracker, \<open>Reset\<close> included, a channel
  is closed only while it is still open: \<open>Done\<close> never closes a channel twice, which in Go would
  be a panic.\<close>

theorem done_tracker_no_double_close:
  assumes "dt_steps kb dt_init acts s" and "dt_step kb s (AClose ch) t"
  shows "ch \<notin> set (s_closed s)"
proof -
  have "chan_inv s" using assms(1) by (rule dt_init_orphan_free)
  then show ?thesis using assms(2) by (auto simp: dt_step_close_simp chan_inv_def)
qed

text \<open>Runs of a tracker of numbered CIDs, for the witnesses.\<close>

lemma run_wait1: "dt_steps id dt_init [AWaitPark (7::nat)]
   \<lparr>s_dt = \<lparr>dt_waiters = [(7, \<lparr>w_cid = 7, w_done = False, w_chans = [0]\<rparr>)], dt_completed = []\<rparr>,
    s_next = 1, s_closing = [], s_closed = [], s_parked = [(0, 7)]\<rparr>"
  using dt_steps.steps_snoc [OF dt_steps.steps_nil dt_step.step_wait_park, of id 7 dt_init]
  by (simp add: dt_init_def NewDoneTracker_def wait_lock_def completed_at_def)

lemma run_wait1_done: "dt_steps id dt_init [AWaitPark (7::nat), ADone 7]
   \<lparr>s_dt = \<lparr>dt_waiters = [], dt_completed = [(7, True)]\<rparr>,
    s_next = 1, s_closing = [0], s_closed = [], s_parked = [(0, 7)]\<rparr>"
  using dt_steps.steps_snoc [OF run_wait1 dt_step.step_done, of 7]
  by (simp add: done_lock_def)

lemma step_close_example: "dt_step id
   \<lparr>s_dt = \<lparr>dt_waiters = [], dt_completed = [(7::nat, True)]\<rparr>,
    s_next = 1, s_closing = [0], s_closed = [], s_parked = [(0, 7)]\<rparr>
   (AClose 0)
   \<lparr>s_dt = \<lparr>dt_waiters = [], dt_completed = [(7, True)]\<rparr>,
    s_next = 1, s_closing = [], s_closed = [0], s_parked = [(0, 7)]\<rparr>"
  by (simp add: dt_step_close_simp)

theorem done_tracker_no_double_close_witness: "(0::nat) \<notin> set ([] :: nat list)"
  using done_tracker_no_double_close [OF run_wait1_done step_close_example] by simp


lemma step_done_example: "dt_step id
   \<lparr>s_dt = \<lparr>dt_waiters = [(7, \<lparr>w_cid = 7, w_done = False, w_chans = [0]\<rparr>)], dt_completed = []\<rparr>,
    s_next = 1, s_closing = [], s_closed = [], s_parked = [(0, 7)]\<rparr>
   (ADone (7::nat))
   \<lparr>s_dt = \<lparr>dt_waiters = [], dt_completed = [(7, True)]\<rparr>,
    s_next = 1, s_closing = [0], s_closed = [], s_parked = [(0, 7)]\<rparr>"
  using dt_step.step_done [of id 7 "\<lparr>s_dt = \<lparr>dt_waiters = [(7, \<lparr>w_cid = 7, w_done = False, w_chans = [0]\<rparr>)], dt_completed = []\<rparr>,
    s_next = 1, s_closing = [], s_closed = [], s_parked = [(0, 7)]\<rparr>"]
  by (simp add: done_lock_def)


text \<open>\<open>Reset\<close> drops the waiters without closing their channels: a goroutine parked at that
  moment is never woken by the tracker again, whatever is marked done afterwards (only its own
  context can end its wait).\<close>

lemma done_tracker_reset_orphans:
  assumes run: "dt_steps kb dt_init acts s" and p: "(ch, k) \<in> set (s_parked s)"
    and open_chan: "ch < s_next s" "ch \<notin> set (s_closing s)" "ch \<notin> set (s_closed s)"
    and r: "dt_step kb s AReset t" and cont: "dt_steps kb t acts' u"
  shows "ch \<notin> set (s_closing u) \<and> ch \<notin> set (s_closed u)"
proof -
  have ci: "chan_inv s" using run by (rule dt_init_orphan_free)
  have cit: "chan_inv t" using chan_inv_step [OF r ci] .
  have "orphan t ch"
    using r open_chan by (auto elim!: dt_step_resetE simp: orphan_def registered_def Reset_def)
  then have "orphan u ch" using orphan_steps [OF cont cit] by blast
  then show ?thesis by (simp add: orphan_def)
qed

lemma done_tracker_reset_orphans_example:
  "(0::nat) \<notin> set ([] :: nat list)"
  using done_tracker_reset_orphans [OF run_wait1, of 0 7, OF _ _ _ _ dt_step.step_reset
      dt_steps.steps_snoc [OF dt_steps.steps_nil dt_step.step_done, of id 7]]
  by (simp add: done_lock_def Reset_def)

text \<open>The list \<open>GetDoneCIDs\<close> returns holds exactly the CIDs \<open>IsDone\<close> accepts, and \<open>Count\<close> is
  the size of the permanent record, given that \<open>cid.Cast\<close> inverts \<open>Bytes()\<close>.\<close>

lemma done_tracker_reports:
  assumes "dt_wf dt" and "\<forall>k c. cast k = Some c \<longleftrightarrow> kb c = k"
  shows "set (GetDoneCIDs kb cast dt) = {c. IsDone kb dt c} \<and>
         Count dt = card (set (gm_keys (dt_completed dt)))"
proof -
  have "card (set (gm_keys (dt_completed dt))) = length (dt_completed dt)"
    using assms(1) distinct_card [of "map fst (dt_completed dt)"] by (simp add: dt_wf_def)
  then show ?thesis using assms by (simp add: set_GetDoneCIDs Count_wf)
qed

lemma done_tracker_reports_example:
  "set (GetDoneCIDs id Some (Done id (7::nat) NewDoneTracker)) = {c. IsDone id (Done id (7::nat) NewDoneTracker) c}"
  using done_tracker_reports [of "Done id (7::nat) NewDoneTracker" Some id]
  by (simp add: dt_wf_intros eq_commute)

end
