(* ===== verification/StreamingBlockstore.thy ===== *)
theory StreamingBlockstore
  imports Cid_Context DoneTracker
begin

text \<open>
  \<^verbatim>\<open>internal/protocol/streaming_blockstore.go\<close> and the datastore keys of
  \<^verbatim>\<open>internal/protocol/protocol.go\<close>: the blockstore an upload writes into, which hands each new
  block to the block processor through a buffered channel.  A method that blocks is split where
  it blocks: \<open>Put\<close> at its \<open>select\<close>, \<open>Get\<close>, \<open>Has\<close> and \<open>GetSize\<close> at \<open>WaitDone\<close>.  The bloom filter
  and the passthrough blockstore are parameters, and so are the encodings of CIDs and of
  datastore keys.  Logging and the time stamp of an entry, which nothing reads, are left out.
\<close>

section \<open>Encodings\<close>

text \<open>
  \<open>c.Bytes()\<close>, \<open>c.String()\<close>, \<open>dshelp.MultihashToDsKey\<close>, \<open>dshelp.DsKeyToMultihash\<close>, and go-datastore's
  \<open>NewKey\<close> and \<open>Name\<close>, with a key as its string.
\<close>

record cid_codec =
  cc_bytes :: "cid \<Rightarrow> bytes"
  cc_str :: "cid \<Rightarrow> string"
  cc_mh_key :: "bytes \<Rightarrow> string"
  cc_key_mh :: "string \<Rightarrow> bytes option"
  cc_new_key :: "string \<Rightarrow> string"
  cc_name :: "string \<Rightarrow> string"

definition KeyFromCID :: "cid_codec \<Rightarrow> cid \<Rightarrow> string" where
  "KeyFromCID cc c = cc_mh_key cc (cid_hash c)"

definition KeyToCIDString :: "cid_codec \<Rightarrow> string \<Rightarrow> string" where
  "KeyToCIDString cc key =
     (let key = cc_new_key cc (cc_name cc key) in
      case cc_key_mh cc key of
        None \<Rightarrow> []
      | Some m \<Rightarrow> cc_str cc (NewCidV0 m))"

definition KeyToCIDBinary :: "cid_codec \<Rightarrow> (string \<Rightarrow> cid option) \<Rightarrow> string \<Rightarrow> string" where
  "KeyToCIDBinary cc decode key =
     (let cidStr = KeyToCIDString cc key in
      case decode cidStr of Some c \<Rightarrow> cc_bytes cc c | None \<Rightarrow> key)"

text \<open>
  What the theorems ask of the encodings: the binary form of a CID determines it, a
  block's datastore key gives back its multihash, and neither the empty string nor
  the text of a version 0 CID (base58, starting with \<open>Qm\<close>) is the binary form of a CID (which
  starts with byte 1, or with bytes 18 and 32).
\<close>

definition codec_ok :: "cid_codec \<Rightarrow> bool" where
  "codec_ok cc \<longleftrightarrow>
     (\<forall>c d. cc_bytes cc c = cc_bytes cc d \<longrightarrow> c = d) \<and>
     (\<forall>c h. cc_bytes cc c \<noteq> cc_str cc (NewCidV0 h)) \<and>
     (\<forall>c. c \<noteq> Undef \<longrightarrow> cc_bytes cc c \<noteq> [])"

text \<open>bits-and-blooms' filter.  It has no false negatives.\<close>

record 'f bloom =
  bl_new :: 'f
  bl_add :: "'f \<Rightarrow> bytes \<Rightarrow> 'f"
  bl_test :: "'f \<Rightarrow> bytes \<Rightarrow> bool"

definition bloom_ok :: "'f bloom \<Rightarrow> bool" where
  "bloom_ok bl \<longleftrightarrow>
     (\<forall>f k. bl_test bl (bl_add bl f k) k) \<and>
     (\<forall>f k k'. bl_test bl f k \<longrightarrow> bl_test bl (bl_add bl f k') k)"

section \<open>State\<close>

record block_entry =
  e_block :: block
  e_key :: string

text \<open>The passthrough blockstore, when there is one.\<close>

record passthrough =
  pt_get :: "ctx \<Rightarrow> cid \<Rightarrow> gerr + block"
  pt_has :: "ctx \<Rightarrow> cid \<Rightarrow> gerr + bool"
  pt_size :: "ctx \<Rightarrow> cid \<Rightarrow> gerr + int"
  pt_keys :: "ctx \<Rightarrow> gerr + cid list"

record 'f sbs =
  sb_tracker :: "(bytes, cid) done_tracker"
  sb_delivery :: "block_entry list"       \<comment> \<open>what the buffered channel holds\<close>
  sb_cap :: nat                            \<comment> \<open>the channel's capacity\<close>
  sb_delivery_closed :: bool
  sb_processing_done :: bool
  sb_pending :: "(bytes, block_entry) gomap"
  sb_seen :: 'f
  sb_processed :: "(bytes, bool) gomap"
  sb_pending_count :: int
  sb_processed_count :: int
  sb_cancelled :: bool                     \<comment> \<open>\<open>s.ctx\<close> is cancelled\<close>
  sb_closed :: bool

definition NewStreamingBlockstoreWithDefaults ::
    "'f bloom \<Rightarrow> (bytes, cid) done_tracker \<Rightarrow> nat \<Rightarrow> 'f sbs" where
  "NewStreamingBlockstoreWithDefaults bl dt queueSize =
     \<lparr>sb_tracker = dt, sb_delivery = [], sb_cap = max queueSize 10, sb_delivery_closed = False,
      sb_processing_done = False, sb_pending = [], sb_seen = bl_new bl, sb_processed = [],
      sb_pending_count = 0, sb_processed_count = 0, sb_cancelled = False, sb_closed = False\<rparr>"

abbreviation ErrClosed :: gerr where "ErrClosed \<equiv> Opaque ''blockstore is closed''"
abbreviation ErrBlockNotFound :: gerr where "ErrBlockNotFound \<equiv> Opaque ''block not found''"
abbreviation ErrProcessingComplete :: gerr where
  "ErrProcessingComplete \<equiv> Opaque ''processing is complete, cannot accept new blocks''"

section \<open>Put\<close>

text \<open>
  \<open>Put\<close> and \<open>putBlock\<close> up to the \<open>select\<close>: an error, or the new state with the entry still to be sent,
  \<open>None\<close> for a block that is already pending.
\<close>

definition putBlock ::
    "cid_codec \<Rightarrow> 'f bloom \<Rightarrow> 'f sbs \<Rightarrow> block \<Rightarrow> gerr + ('f sbs \<times> block_entry option)" where
  "putBlock cc bl s b =
     (if sb_closed s then Inl ErrClosed
      else if sb_processing_done s then Inl ErrProcessingComplete
      else
        let blockKey = KeyFromCID cc (b_cid b);
            cidKey = cc_bytes cc (b_cid b);
            entry = \<lparr>e_block = b, e_key = blockKey\<rparr>
        in if gm_get (sb_pending s) cidKey \<noteq> None then Inr (s, None)
           else Inr (s\<lparr>sb_pending := gm_set cidKey entry (sb_pending s),
                       sb_pending_count := sb_pending_count s + 1,
                       sb_seen := bl_add bl (sb_seen s) blockKey\<rparr>, Some entry))"

definition put_begin ::
    "cid_codec \<Rightarrow> 'f bloom \<Rightarrow> 'f sbs \<Rightarrow> block \<Rightarrow> gerr + ('f sbs \<times> block_entry option)" where
  "put_begin cc bl s b = (if sb_closed s then Inl ErrClosed else putBlock cc bl s b)"

text \<open>
  The \<open>select\<close> of \<open>putBlock\<close>: Go picks any case that is ready.  A case that is not ready gives
  \<open>PutBlocked\<close>; a send on the closed channel panics.
\<close>

datatype put_select = SelSend | SelStoreDone | SelCtxDone

datatype 's put_result = PutOk 's | PutErr gerr 's | PutPanic | PutBlocked 's

fun put_finish :: "'f sbs \<Rightarrow> ctx \<Rightarrow> block_entry \<Rightarrow> put_select \<Rightarrow> 'f sbs put_result" where
  "put_finish s c e SelSend =
     (if sb_delivery_closed s then PutPanic
      else if length (sb_delivery s) < sb_cap s
           then PutOk (s\<lparr>sb_delivery := sb_delivery s @ [e]\<rparr>)
      else PutBlocked s)"
| "put_finish s c e SelStoreDone =
     (if sb_cancelled s then PutErr Canceled s else PutBlocked s)"
| "put_finish s c e SelCtxDone =
     (case ctx_err c of Some er \<Rightarrow> PutErr er s | None \<Rightarrow> PutBlocked s)"

text \<open>A whole \<open>Put\<close> with nothing in between, and \<open>PutMany\<close>; \<open>sel\<close> is the case Go picks.\<close>

definition sb_Put ::
    "cid_codec \<Rightarrow> 'f bloom \<Rightarrow> ctx \<Rightarrow> 'f sbs \<Rightarrow> block \<Rightarrow> put_select \<Rightarrow> 'f sbs put_result" where
  "sb_Put cc bl c s b sel =
     (case put_begin cc bl s b of
        Inl e \<Rightarrow> PutErr e s
      | Inr (s', None) \<Rightarrow> PutOk s'
      | Inr (s', Some e) \<Rightarrow> put_finish s' c e sel)"

fun sb_PutMany ::
    "cid_codec \<Rightarrow> 'f bloom \<Rightarrow> ctx \<Rightarrow> 'f sbs \<Rightarrow> (block \<times> put_select) list \<Rightarrow> 'f sbs put_result" where
  "sb_PutMany cc bl c s [] = PutOk s"
| "sb_PutMany cc bl c s ((b, sel) # bs) =
     (case sb_Put cc bl c s b sel of PutOk s' \<Rightarrow> sb_PutMany cc bl c s' bs | r \<Rightarrow> r)"

section \<open>Reading\<close>

text \<open>What a reading method has decided when it reaches \<open>WaitDone\<close>.\<close>

datatype 'a read_step = Return "gerr + 'a" | WaitThen

definition passthrough_ctx :: "ctx \<Rightarrow> ctx" where
  "passthrough_ctx c = SkipQuotaCheckOption (IsQuotaCheckSkipped c) c"

definition get_begin ::
    "cid_codec \<Rightarrow> passthrough option \<Rightarrow> 'f sbs \<Rightarrow> cid \<Rightarrow> block read_step" where
  "get_begin cc pt s c =
     (if sb_closed s then Return (Inl ErrClosed)
      else case gm_get (sb_pending s) (cc_bytes cc c) of
        Some entry \<Rightarrow> Return (Inr (e_block entry))
      | None \<Rightarrow>
          if pt \<noteq> None \<and> gm_get (sb_processed s) (cc_bytes cc c) \<noteq> None then WaitThen
          else Return (Inl ErrBlockNotFound))"

definition get_after_wait :: "passthrough \<Rightarrow> ctx \<Rightarrow> cid \<Rightarrow> bool \<Rightarrow> gerr + block" where
  "get_after_wait pt cx c waited =
     (if waited then pt_get pt (passthrough_ctx cx) c else Inl ErrBlockNotFound)"

definition has_begin :: "cid_codec \<Rightarrow> 'f bloom \<Rightarrow> 'f sbs \<Rightarrow> cid \<Rightarrow> bool read_step" where
  "has_begin cc bl s c =
     (if sb_closed s then Return (Inl ErrClosed)
      else if \<not> bl_test bl (sb_seen s) (KeyFromCID cc c) then Return (Inr False)
      else if gm_get (sb_pending s) (cc_bytes cc c) \<noteq> None then Return (Inr True)
      else if gm_get (sb_processed s) (cc_bytes cc c) \<noteq> None then Return (Inr True)
      else WaitThen)"

definition has_after_wait :: "passthrough option \<Rightarrow> ctx \<Rightarrow> cid \<Rightarrow> bool \<Rightarrow> gerr + bool" where
  "has_after_wait pt cx c waited =
     (if waited then Inr True
      else case pt of Some p \<Rightarrow> pt_has p (passthrough_ctx cx) c | None \<Rightarrow> Inr False)"

definition getsize_begin ::
    "cid_codec \<Rightarrow> passthrough option \<Rightarrow> ctx \<Rightarrow> 'f sbs \<Rightarrow> cid \<Rightarrow> int read_step" where
  "getsize_begin cc pt cx s c =
     (if sb_closed s then Return (Inl ErrClosed)
      else case gm_get (sb_pending s) (cc_bytes cc c) of
        Some entry \<Rightarrow> Return (Inr (int (length (b_data (e_block entry)))))
      | None \<Rightarrow>
          (case pt of
             Some p \<Rightarrow>
               if gm_get (sb_processed s) (cc_bytes cc c) \<noteq> None then WaitThen
               else Return (pt_size p (passthrough_ctx cx) c)
           | None \<Rightarrow> Return (Inl ErrBlockNotFound)))"

text \<open>Both outcomes of \<open>WaitDone\<close> ask the passthrough store.\<close>

definition getsize_after_wait :: "passthrough \<Rightarrow> ctx \<Rightarrow> cid \<Rightarrow> bool \<Rightarrow> gerr + int" where
  "getsize_after_wait pt cx c waited = pt_size pt (passthrough_ctx cx) c"

definition sb_DeleteBlock :: "'f sbs \<Rightarrow> cid \<Rightarrow> gerr + unit" where
  "sb_DeleteBlock s c = (if sb_closed s then Inl ErrClosed else Inr ())"

text \<open>What \<open>AllKeysChan\<close> sends while its context lives.\<close>

definition sb_AllKeys :: "passthrough option \<Rightarrow> ctx \<Rightarrow> 'f sbs \<Rightarrow> gerr + cid list" where
  "sb_AllKeys pt cx s =
     (if sb_closed s then Inl ErrClosed
      else Inr (map (\<lambda>(_, e). b_cid (e_block e)) (sb_pending s) @
                (case pt of
                   Some p \<Rightarrow> (case pt_keys p (passthrough_ctx cx) of Inr cs \<Rightarrow> cs | Inl _ \<Rightarrow> [])
                 | None \<Rightarrow> [])))"

section \<open>The consumer's side and the end of an upload\<close>

text \<open>
  Receiving from \<open>GetBlockStream\<close>: an entry, or the end of a closed and drained channel, or
  blocking.
\<close>

datatype 's recv_result = Received block_entry 's | StreamEnd | RecvBlocked

definition sb_receive :: "'f sbs \<Rightarrow> 'f sbs recv_result" where
  "sb_receive s =
     (case sb_delivery s of
        e # es \<Rightarrow> Received e (s\<lparr>sb_delivery := es\<rparr>)
      | [] \<Rightarrow> if sb_delivery_closed s then StreamEnd else RecvBlocked)"

definition sb_Close :: "'f sbs \<Rightarrow> 'f sbs" where
  "sb_Close s =
     (if sb_closed s then s
      else s\<lparr>sb_closed := True, sb_cancelled := True, sb_delivery_closed := True,
             sb_pending := [], sb_processed := [], sb_pending_count := 0, sb_processed_count := 0\<rparr>)"

definition sb_ProcessingDone :: "'f sbs \<Rightarrow> 'f sbs" where
  "sb_ProcessingDone s =
     (if sb_processing_done s then s
      else s\<lparr>sb_processing_done := True, sb_delivery_closed := True\<rparr>)"

definition MarkBlockProcessed :: "cid_codec \<Rightarrow> string \<Rightarrow> 'f sbs \<Rightarrow> 'f sbs" where
  "MarkBlockProcessed cc blockKey s =
     (let cidKey = KeyToCIDString cc (cc_new_key cc (cc_name cc (cc_new_key cc blockKey))) in
      s\<lparr>sb_pending := gm_del cidKey (sb_pending s),
        sb_pending_count := sb_pending_count s - 1,
        sb_processed := gm_set cidKey True (sb_processed s),
        sb_processed_count := sb_processed_count s + 1\<rparr>)"

definition MarkBlockPersisted :: "cid_codec \<Rightarrow> 'f bloom \<Rightarrow> cid \<Rightarrow> 'f sbs \<Rightarrow> 'f sbs" where
  "MarkBlockPersisted cc bl c s =
     s\<lparr>sb_seen := bl_add bl (sb_seen s) (KeyFromCID cc c),
       sb_tracker := Done (cc_bytes cc) c (sb_tracker s)\<rparr>"

definition MarkDone :: "cid_codec \<Rightarrow> 'f bloom \<Rightarrow> cid \<Rightarrow> 'f sbs \<Rightarrow> 'f sbs" where
  "MarkDone cc bl c s =
     s\<lparr>sb_seen := bl_add bl (sb_seen s) (KeyFromCID cc c),
       sb_tracker := Done (cc_bytes cc) c (sb_tracker s)\<rparr>"

definition GetPendingCount :: "'f sbs \<Rightarrow> int" where
  "GetPendingCount s = sb_pending_count s"

definition GetProcessedCount :: "'f sbs \<Rightarrow> int" where
  "GetProcessedCount s = sb_processed_count s"

section \<open>Producers, the consumer and the store together\<close>

text \<open>
  \<open>y_inflight\<close> are the entries of producers that stand at the \<open>select\<close> of \<open>putBlock\<close>, \<open>y_out\<close> what the
  consumer has received, oldest first.
\<close>

record 'f sb_sys =
  y_s :: "'f sbs"
  y_inflight :: "block_entry list"
  y_out :: "block_entry list"

definition sb_init :: "'f bloom \<Rightarrow> nat \<Rightarrow> 'f sb_sys" where
  "sb_init bl n =
     \<lparr>y_s = NewStreamingBlockstoreWithDefaults bl NewDoneTracker n, y_inflight = [], y_out = []\<rparr>"

inductive sb_step :: "cid_codec \<Rightarrow> 'f bloom \<Rightarrow> 'f sb_sys \<Rightarrow> 'f sb_sys \<Rightarrow> bool" for cc bl where
  y_put: "b_cid b \<noteq> Undef \<Longrightarrow> put_begin cc bl (y_s y) b = Inr (s', None) \<Longrightarrow>
     sb_step cc bl y (y\<lparr>y_s := s'\<rparr>)"
| y_put_new: "b_cid b \<noteq> Undef \<Longrightarrow> put_begin cc bl (y_s y) b = Inr (s', Some e) \<Longrightarrow>
     sb_step cc bl y (y\<lparr>y_s := s', y_inflight := e # y_inflight y\<rparr>)"
| y_send: "e \<in> set (y_inflight y) \<Longrightarrow> put_finish (y_s y) cx e SelSend = PutOk s' \<Longrightarrow>
     sb_step cc bl y (y\<lparr>y_s := s', y_inflight := remove1 e (y_inflight y)\<rparr>)"
| y_give_up: "e \<in> set (y_inflight y) \<Longrightarrow> put_finish (y_s y) cx e sel = PutErr er s' \<Longrightarrow>
     sb_step cc bl y (y\<lparr>y_s := s', y_inflight := remove1 e (y_inflight y)\<rparr>)"
| y_receive: "sb_receive (y_s y) = Received e s' \<Longrightarrow>
     sb_step cc bl y (y\<lparr>y_s := s', y_out := y_out y @ [e]\<rparr>)"
| y_processed: "sb_step cc bl y (y\<lparr>y_s := MarkBlockProcessed cc k (y_s y)\<rparr>)"
| y_persisted: "sb_step cc bl y (y\<lparr>y_s := MarkBlockPersisted cc bl c (y_s y)\<rparr>)"
| y_mark_done: "sb_step cc bl y (y\<lparr>y_s := MarkDone cc bl c (y_s y)\<rparr>)"
| y_processing_done: "sb_step cc bl y (y\<lparr>y_s := sb_ProcessingDone (y_s y)\<rparr>)"
| y_close: "sb_step cc bl y (y\<lparr>y_s := sb_Close (y_s y)\<rparr>)"

inductive sb_reach :: "cid_codec \<Rightarrow> 'f bloom \<Rightarrow> nat \<Rightarrow> 'f sb_sys \<Rightarrow> bool" for cc bl n where
  reach_init: "sb_reach cc bl n (sb_init bl n)"
| reach_step: "sb_reach cc bl n y \<Longrightarrow> sb_step cc bl y z \<Longrightarrow> sb_reach cc bl n z"

abbreviation e_cid :: "block_entry \<Rightarrow> cid" where
  "e_cid e \<equiv> b_cid (e_block e)"

text \<open>The entries the system has registered and not dropped.\<close>

definition live_entries :: "'f sb_sys \<Rightarrow> block_entry list" where
  "live_entries y = y_out y @ sb_delivery (y_s y) @ y_inflight y"

definition sb_inv :: "cid_codec \<Rightarrow> 'f bloom \<Rightarrow> 'f sb_sys \<Rightarrow> bool" where
  "sb_inv cc bl y \<longleftrightarrow>
     gm_wf (sb_pending (y_s y)) \<and>
     (\<forall>k e. gm_get (sb_pending (y_s y)) k = Some e \<longrightarrow>
        e_cid e \<noteq> Undef \<and> k = cc_bytes cc (e_cid e) \<and> e_key e = KeyFromCID cc (e_cid e) \<and>
        bl_test bl (sb_seen (y_s y)) (KeyFromCID cc (e_cid e))) \<and>
     (\<forall>c. c \<noteq> Undef \<longrightarrow> gm_get (sb_processed (y_s y)) (cc_bytes cc c) = None) \<and>
     sb_pending_count (y_s y) + sb_processed_count (y_s y) = int (length (sb_pending (y_s y))) \<and>
     distinct (map e_cid (live_entries y)) \<and>
     (\<not> sb_closed (y_s y) \<longrightarrow>
        (\<forall>e \<in> set (live_entries y). gm_get (sb_pending (y_s y)) (cc_bytes cc (e_cid e)) = Some e))"

text \<open>
  The key \<open>MarkBlockProcessed\<close> computes is the text of a version 0 CID, or empty: it is the binary
  key of no CID.
\<close>

lemma KeyToCIDString_no_key: "codec_ok cc \<Longrightarrow> c \<noteq> Undef \<Longrightarrow> KeyToCIDString cc k \<noteq> cc_bytes cc c"
  unfolding codec_ok_def KeyToCIDString_def Let_def
  by (metis (no_types, lifting) option.case_eq_if)

lemma gm_del_absent: "gm_get m k = None \<Longrightarrow> gm_del k m = m"
  by (rule delete_id) (simp add: map_of_eq_None_iff)

lemma length_gm_set_new: "gm_get m k = None \<Longrightarrow> length (gm_set k v m) = Suc (length m)"
  by (induction m) (auto split: if_splits)

lemma MarkBlockProcessed_pending:
  assumes "codec_ok cc"
    and "\<And>k e. gm_get (sb_pending s) k = Some e \<Longrightarrow> \<exists>c. c \<noteq> Undef \<and> k = cc_bytes cc c"
  shows "sb_pending (MarkBlockProcessed cc bk s) = sb_pending s"
  using assms KeyToCIDString_no_key [OF assms(1)] unfolding MarkBlockProcessed_def Let_def
  by (simp add: gm_del_absent) (metis gm_del_absent not_Some_eq)

lemma putBlock_cases:
  assumes "put_begin cc bl s b = Inr (s', r)"
  shows "\<not> sb_closed s" "\<not> sb_processing_done s"
    and "r = None \<Longrightarrow> s' = s"
    and "r = Some e \<Longrightarrow> e = \<lparr>e_block = b, e_key = KeyFromCID cc (b_cid b)\<rparr> \<and>
           gm_get (sb_pending s) (cc_bytes cc (b_cid b)) = None \<and>
           s' = s\<lparr>sb_pending := gm_set (cc_bytes cc (b_cid b)) e (sb_pending s),
                  sb_pending_count := sb_pending_count s + 1,
                  sb_seen := bl_add bl (sb_seen s) (KeyFromCID cc (b_cid b))\<rparr>"
  using assms
  by (auto simp: put_begin_def putBlock_def Let_def split: if_splits)

lemma put_finish_cases:
  "put_finish s cx e SelSend = PutOk s' \<Longrightarrow>
     \<not> sb_delivery_closed s \<and> length (sb_delivery s) < sb_cap s \<and>
     s' = s\<lparr>sb_delivery := sb_delivery s @ [e]\<rparr>"
  "put_finish s cx e sel = PutErr er s' \<Longrightarrow> s' = s"
  by (cases sel; auto split: if_splits option.splits)+

lemma sb_inv_init: "sb_inv cc bl (sb_init bl n)"
  by (simp add: sb_inv_def sb_init_def NewStreamingBlockstoreWithDefaults_def live_entries_def)

lemma sb_inv_frame:
  assumes "sb_inv cc bl y" and "sb_pending s = sb_pending (y_s y)"
    and "\<And>k. bl_test bl (sb_seen (y_s y)) k \<Longrightarrow> bl_test bl (sb_seen s) k"
    and "\<And>c. c \<noteq> Undef \<Longrightarrow> gm_get (sb_processed s) (cc_bytes cc c) = None"
    and "sb_pending_count s + sb_processed_count s =
           sb_pending_count (y_s y) + sb_processed_count (y_s y)"
    and "mset (y_out z @ sb_delivery s @ y_inflight z) \<subseteq># mset (live_entries y)"
    and "\<not> sb_closed s \<Longrightarrow> \<not> sb_closed (y_s y)"
    and "y_s z = s"
  shows "sb_inv cc bl z"
proof -
  have sub: "mset (live_entries z) \<subseteq># mset (live_entries y)"
    using assms(6,8) by (simp add: live_entries_def)
  then have "mset (map e_cid (live_entries z)) \<subseteq># mset (map e_cid (live_entries y))"
    by (simp add: image_mset_subseteq_mono)
  moreover have "distinct (map e_cid (live_entries y))" using assms(1) by (simp add: sb_inv_def)
  ultimately have d: "distinct (map e_cid (live_entries z))" by (rule distinct_sub_mset)
  have m: "e \<in> set (live_entries z) \<Longrightarrow> e \<in> set (live_entries y)" for e
    using set_mset_mono [OF sub] by auto
  show ?thesis
    using assms(1) m assms(3) unfolding sb_inv_def assms(8)
    by (intro conjI) (simp_all add: assms(2,4,5,7) d)
qed

lemma sb_inv_put_new:
  assumes "sb_inv cc bl y" and "codec_ok cc" and "bloom_ok bl"
    and "b_cid b \<noteq> Undef" and put: "put_begin cc bl (y_s y) b = Inr (s', Some e)"
  shows "sb_inv cc bl (y\<lparr>y_s := s', y_inflight := e # y_inflight y\<rparr>)"
proof -
  note p = putBlock_cases(1,2) [OF put] putBlock_cases(4) [OF put, of e, simplified]
  have inj: "cc_bytes cc c = cc_bytes cc d \<Longrightarrow> c = d" for c d
    using assms(2) by (auto simp: codec_ok_def)
  have new: "e_cid e' \<noteq> b_cid b" if "e' \<in> set (live_entries y)" for e'
    using that assms(1) p by (auto simp: sb_inv_def)
  let ?z = "y\<lparr>y_s := s', y_inflight := e # y_inflight y\<rparr>"
  have live: "mset (live_entries ?z) = add_mset e (mset (live_entries y))"
    using p by (simp add: live_entries_def)
  have dist: "distinct (map e_cid (live_entries ?z))"
  proof -
    have "distinct (map e_cid (e # live_entries y))"
      using assms(1) new p by (force simp: sb_inv_def)
    moreover have "mset (map e_cid (live_entries ?z)) = mset (map e_cid (e # live_entries y))"
      by (simp add: live)
    ultimately show ?thesis using mset_eq_imp_distinct_iff by blast
  qed
  have set: "set (live_entries ?z) = insert e (set (live_entries y))"
    using live by (metis set_mset_add_mset_insert set_mset_mset)
  have "\<forall>k e'. gm_get (sb_pending s') k = Some e' \<longrightarrow>
        e_cid e' \<noteq> Undef \<and> k = cc_bytes cc (e_cid e') \<and> e_key e' = KeyFromCID cc (e_cid e') \<and>
        bl_test bl (sb_seen s') (KeyFromCID cc (e_cid e'))"
    using assms(1,3,4) p by (auto simp: sb_inv_def gm_simps bloom_ok_def)
  moreover have "\<forall>e' \<in> set (live_entries ?z).
      gm_get (sb_pending s') (cc_bytes cc (e_cid e')) = Some e'"
    using assms(1) p new inj unfolding set by (auto simp: sb_inv_def gm_simps)
  ultimately show ?thesis
    using assms(1) p dist by (auto simp: sb_inv_def length_gm_set_new)
qed

lemma sb_inv_send:
  assumes inv: "sb_inv cc bl y" and "e \<in> set (y_inflight y)"
  shows "sb_inv cc bl (y\<lparr>y_s := (y_s y)\<lparr>sb_delivery := sb_delivery (y_s y) @ [e]\<rparr>,
             y_inflight := remove1 e (y_inflight y)\<rparr>)" (is "sb_inv cc bl ?z")
proof -
  have "mset (y_inflight y) = add_mset e (mset (remove1 e (y_inflight y)))"
    using assms(2) by simp
  then show ?thesis
    using inv by (intro sb_inv_frame [OF inv, of "y_s ?z"]) (simp_all add: live_entries_def sb_inv_def)
qed

lemma sb_inv_give_up:
  assumes inv: "sb_inv cc bl y"
  shows "sb_inv cc bl (y\<lparr>y_inflight := remove1 e (y_inflight y)\<rparr>)" (is "sb_inv cc bl ?z")
  using inv by (intro sb_inv_frame [OF inv, of "y_s ?z"])
    (simp_all add: live_entries_def sb_inv_def diff_subset_eq_self)

lemma sb_inv_receive:
  assumes inv: "sb_inv cc bl y" and "sb_delivery (y_s y) = e # es"
  shows "sb_inv cc bl (y\<lparr>y_s := (y_s y)\<lparr>sb_delivery := es\<rparr>, y_out := y_out y @ [e]\<rparr>)"
    (is "sb_inv cc bl ?z")
  using inv by (intro sb_inv_frame [OF inv, of "y_s ?z"])
    (simp_all add: live_entries_def sb_inv_def assms(2))

lemma sb_inv_processed:
  assumes inv: "sb_inv cc bl y" and cc: "codec_ok cc"
  shows "sb_inv cc bl (y\<lparr>y_s := MarkBlockProcessed cc k (y_s y)\<rparr>)" (is "sb_inv cc bl ?z")
proof -
  have pend: "sb_pending (MarkBlockProcessed cc k (y_s y)) = sb_pending (y_s y)"
    using inv by (intro MarkBlockProcessed_pending [OF cc]) (auto simp: sb_inv_def)
  have "gm_get (sb_processed (MarkBlockProcessed cc k (y_s y))) (cc_bytes cc c) = None"
    if "c \<noteq> Undef" for c
    using inv KeyToCIDString_no_key [OF cc that] that
    by (simp add: sb_inv_def MarkBlockProcessed_def Let_def gm_simps) metis
  then show ?thesis
    by (intro sb_inv_frame [OF inv pend])
      (simp_all add: live_entries_def MarkBlockProcessed_def Let_def)
qed

lemma sb_inv_seen:
  assumes inv: "sb_inv cc bl y" and bl: "bloom_ok bl"
  shows "sb_inv cc bl (y\<lparr>y_s := (y_s y)\<lparr>sb_seen := bl_add bl (sb_seen (y_s y)) k,
           sb_tracker := dt\<rparr>\<rparr>)" (is "sb_inv cc bl ?z")
  using inv bl by (intro sb_inv_frame [OF inv, of "y_s ?z"])
    (simp_all add: live_entries_def sb_inv_def bloom_ok_def)

lemma sb_inv_ProcessingDone:
  assumes inv: "sb_inv cc bl y"
  shows "sb_inv cc bl (y\<lparr>y_s := sb_ProcessingDone (y_s y)\<rparr>)" (is "sb_inv cc bl ?z")
  using inv by (intro sb_inv_frame [OF inv, of "y_s ?z"])
    (simp_all add: live_entries_def sb_inv_def sb_ProcessingDone_def split: if_splits)

lemma sb_inv_Close: "sb_inv cc bl y \<Longrightarrow> sb_inv cc bl (y\<lparr>y_s := sb_Close (y_s y)\<rparr>)"
  by (cases "sb_closed (y_s y)") (simp_all add: sb_Close_def sb_inv_def live_entries_def)

lemmas sb_inv_intros = sb_inv_send sb_inv_give_up sb_inv_receive sb_inv_processed sb_inv_seen
  sb_inv_ProcessingDone sb_inv_Close

lemma receive_cases:
  "sb_receive s = Received e s' \<Longrightarrow> \<exists>es. sb_delivery s = e # es \<and> s' = s\<lparr>sb_delivery := es\<rparr>"
  by (auto simp: sb_receive_def split: list.splits if_splits)

lemma sb_inv_step:
  assumes "sb_step cc bl y z" and cc: "codec_ok cc" and bl: "bloom_ok bl" and inv: "sb_inv cc bl y"
  shows "sb_inv cc bl z"
  using assms(1)
proof cases
  case (y_put b s')
  have "z = y" using y_put putBlock_cases(3) [OF y_put(3)] by simp
  then show ?thesis using inv by simp
next
  case (y_put_new b s' e)
  then show ?thesis using sb_inv_put_new [OF inv cc bl] by simp
next
  case (y_send e cx s')
  then show ?thesis using put_finish_cases(1) [OF y_send(3)] sb_inv_send [OF inv y_send(2)] by simp
next
  case (y_give_up e cx sel er s')
  then show ?thesis using put_finish_cases(2) [OF y_give_up(3)] sb_inv_give_up [OF inv] by simp
next
  case (y_receive e s')
  then show ?thesis using receive_cases [OF y_receive(2)] sb_inv_receive [OF inv] by auto
next
  case (y_persisted c)
  then show ?thesis using sb_inv_seen [OF inv bl] by (simp add: MarkBlockPersisted_def)
next
  case (y_mark_done c)
  then show ?thesis using sb_inv_seen [OF inv bl] by (simp add: MarkDone_def)
qed (use inv cc bl sb_inv_intros in simp_all)

lemma sb_reach_inv: "sb_reach cc bl n y \<Longrightarrow> codec_ok cc \<Longrightarrow> bloom_ok bl \<Longrightarrow> sb_inv cc bl y"
  by (induction rule: sb_reach.induct) (auto intro: sb_inv_init sb_inv_step)

section \<open>Concrete parameters\<close>

text \<open>An encoding and an exact filter with the properties the theorems ask for.\<close>

fun ex_cid_bytes :: "cid \<Rightarrow> bytes" where
  "ex_cid_bytes Undef = []"
| "ex_cid_bytes (Cid v t h) =
     CHR ''b'' # replicate v CHR ''v'' @ CHR ''.'' # replicate t CHR ''t'' @ CHR ''.'' # h"

definition ex_codec :: cid_codec where
  "ex_codec = \<lparr>cc_bytes = ex_cid_bytes, cc_str = (\<lambda>c. CHR ''Q'' # ex_cid_bytes c),
     cc_mh_key = (\<lambda>m. CHR ''/'' # m), cc_key_mh = (\<lambda>k. Some (drop 1 k)),
     cc_new_key = (\<lambda>n. if take 1 n = ''/'' then n else CHR ''/'' # n), cc_name = drop 1\<rparr>"

definition ex_bloom :: "bytes list bloom" where
  "ex_bloom = \<lparr>bl_new = [], bl_add = (\<lambda>f k. k # f), bl_test = (\<lambda>f k. k \<in> set f)\<rparr>"

lemma replicate_sep_inject:
  "x \<noteq> y \<Longrightarrow> replicate m x @ y # r = replicate n x @ y # s \<longleftrightarrow> m = n \<and> r = s"
proof (induction m arbitrary: n)
  case 0 then show ?case by (cases n) auto
next
  case (Suc m) then show ?case by (cases n) auto
qed

lemma ex_cid_bytes_inject: "ex_cid_bytes c = ex_cid_bytes d \<Longrightarrow> c = d"
  by (cases c; cases d) (simp_all add: replicate_sep_inject)

lemma ex_codec_ok: "codec_ok ex_codec"
  unfolding codec_ok_def
proof (intro conjI allI impI)
  fix c d assume "cc_bytes ex_codec c = cc_bytes ex_codec d"
  then show "c = d" by (simp add: ex_codec_def ex_cid_bytes_inject)
next
  fix c h show "cc_bytes ex_codec c \<noteq> cc_str ex_codec (NewCidV0 h)"
    by (cases c) (simp_all add: ex_codec_def)
next
  fix c assume "c \<noteq> Undef" then show "cc_bytes ex_codec c \<noteq> []"
    by (cases c) (simp_all add: ex_codec_def)
qed

lemma ex_bloom_ok: "bloom_ok ex_bloom"
  by (simp add: bloom_ok_def ex_bloom_def)

definition ex_block :: block where
  "ex_block = \<lparr>b_cid = Cid 1 0 ''h'', b_data = ''data''\<rparr>"

text \<open>A store of the smallest size that took one block and handed it to the consumer.\<close>

definition ex_entry :: block_entry where
  "ex_entry = \<lparr>e_block = ex_block, e_key = ''/h''\<rparr>"

definition ex_put :: "bytes list sbs" where
  "ex_put = (NewStreamingBlockstoreWithDefaults ex_bloom NewDoneTracker 0)
     \<lparr>sb_pending := [(ex_cid_bytes (Cid 1 0 ''h''), ex_entry)], sb_pending_count := 1,
      sb_seen := [''/h'']\<rparr>"

lemma ex_put_begin: "put_begin ex_codec ex_bloom (NewStreamingBlockstoreWithDefaults ex_bloom NewDoneTracker 0)
    ex_block = Inr (ex_put, Some ex_entry)"
  by (simp add: put_begin_def putBlock_def NewStreamingBlockstoreWithDefaults_def ex_put_def ex_block_def
      ex_entry_def ex_codec_def KeyFromCID_def Let_def ex_bloom_def)

lemma ex_reach_put: "sb_reach ex_codec ex_bloom 0 \<lparr>y_s = ex_put, y_inflight = [ex_entry], y_out = []\<rparr>"
proof -
  let ?i = "sb_init ex_bloom 0"
  have "put_begin ex_codec ex_bloom (y_s ?i) ex_block = Inr (ex_put, Some ex_entry)"
    using ex_put_begin by (simp add: sb_init_def)
  moreover have "b_cid ex_block \<noteq> Undef" by (simp add: ex_block_def)
  ultimately have "sb_step ex_codec ex_bloom ?i (?i\<lparr>y_s := ex_put, y_inflight := ex_entry # y_inflight ?i\<rparr>)"
    by (intro sb_step.y_put_new)
  from sb_reach.reach_step [OF sb_reach.reach_init this] show ?thesis by (simp add: sb_init_def)
qed

lemma ex_reach_out: "sb_reach ex_codec ex_bloom 0 \<lparr>y_s = ex_put, y_inflight = [], y_out = [ex_entry]\<rparr>"
proof -
  let ?y = "\<lparr>y_s = ex_put, y_inflight = [ex_entry], y_out = []\<rparr>"
  let ?s = "ex_put\<lparr>sb_delivery := [ex_entry]\<rparr>"
  let ?z = "\<lparr>y_s = ?s, y_inflight = [], y_out = []\<rparr>"
  have d: "sb_delivery ex_put = []" "ex_put\<lparr>sb_delivery := []\<rparr> = ex_put"
    by (simp_all add: ex_put_def NewStreamingBlockstoreWithDefaults_def)
  have "put_finish (y_s ?y) \<lparr>ctx_vals = [], ctx_err = None\<rparr> ex_entry SelSend = PutOk ?s"
    by (simp add: ex_put_def NewStreamingBlockstoreWithDefaults_def)
  then have "sb_step ex_codec ex_bloom ?y (?y\<lparr>y_s := ?s, y_inflight := remove1 ex_entry (y_inflight ?y)\<rparr>)"
    by (intro sb_step.y_send) simp_all
  from sb_reach.reach_step [OF ex_reach_put this]
  have r: "sb_reach ex_codec ex_bloom 0 ?z" by simp
  have "sb_receive (y_s ?z) = Received ex_entry ex_put"
    using d by (simp add: sb_receive_def)
  then have "sb_step ex_codec ex_bloom ?z (?z\<lparr>y_s := ex_put, y_out := y_out ?z @ [ex_entry]\<rparr>)"
    by (rule sb_step.y_receive)
  from sb_reach.reach_step [OF r this] show ?thesis by simp
qed

section \<open>Properties\<close>



text \<open>While the store is open, every block a producer registered and did not give up, delivered or
  not, can be read: \<open>Has\<close> answers true at once, with no false negative of the filter, and \<open>Get\<close> and
  \<open>GetSize\<close> return that block and its size without waiting.\<close>

lemma streaming_reads_back:
  assumes "sb_reach cc bl n y" and "codec_ok cc" and "bloom_ok bl"
    and "\<not> sb_closed (y_s y)" and "e \<in> set (live_entries y)"
  shows "has_begin cc bl (y_s y) (e_cid e) = Return (Inr True) \<and>
         get_begin cc pt (y_s y) (e_cid e) = Return (Inr (e_block e)) \<and>
         getsize_begin cc pt cx (y_s y) (e_cid e) =
           Return (Inr (int (length (b_data (e_block e)))))"
proof -
  have "gm_get (sb_pending (y_s y)) (cc_bytes cc (e_cid e)) = Some e"
    using sb_reach_inv [OF assms(1-3)] assms(4,5) by (simp add: sb_inv_def)
  moreover from this have "bl_test bl (sb_seen (y_s y)) (KeyFromCID cc (e_cid e))"
    using sb_reach_inv [OF assms(1-3)] by (simp add: sb_inv_def)
  ultimately show ?thesis
    using assms(4) by (simp add: has_begin_def get_begin_def getsize_begin_def)
qed

lemma streaming_reads_back_example:
  "get_begin ex_codec None ex_put (Cid 1 0 ''h'') = Return (Inr ex_block)"
  using streaming_reads_back [OF ex_reach_out ex_codec_ok ex_bloom_ok, of ex_entry None]
  by (simp add: ex_put_def NewStreamingBlockstoreWithDefaults_def live_entries_def ex_entry_def
      ex_block_def)

text \<open>In every reachable state \<open>MarkBlockProcessed\<close> removes no pending block, because the key it
  computes is the text of a CID and the map's keys are binary CIDs; so the two counters sum to
  the number of blocks held in memory, and \<open>Get\<close> never decides to wait for the passthrough store.\<close>

lemma streaming_processed_stays_pending:
  assumes "sb_reach cc bl n y" and "codec_ok cc" and "bloom_ok bl"
  shows "sb_pending (MarkBlockProcessed cc k (y_s y)) = sb_pending (y_s y) \<and>
         GetPendingCount (y_s y) + GetProcessedCount (y_s y) = int (length (sb_pending (y_s y))) \<and>
         (c = Undef \<or> get_begin cc pt (y_s y) c \<noteq> WaitThen)"
proof -
  note inv = sb_reach_inv [OF assms]
  have "sb_pending (MarkBlockProcessed cc k (y_s y)) = sb_pending (y_s y)"
    using inv by (intro MarkBlockProcessed_pending [OF assms(2)]) (auto simp: sb_inv_def)
  moreover have "c = Undef \<or> get_begin cc pt (y_s y) c \<noteq> WaitThen"
    using inv by (auto simp: sb_inv_def get_begin_def split: option.splits)
  ultimately show ?thesis
    using inv by (simp add: sb_inv_def GetPendingCount_def GetProcessedCount_def)
qed

lemma streaming_processed_stays_pending_example:
  "sb_pending (MarkBlockProcessed ex_codec ''/h'' ex_put) = sb_pending ex_put"
  using streaming_processed_stays_pending [OF ex_reach_out ex_codec_ok ex_bloom_ok, of "''/h''"]
  by simp

text \<open>A \<open>Put\<close> that ends by its caller's context leaves the block registered: a retry reports
  success and the block is not sent to the consumer.\<close>

lemma streaming_retry_after_cancel:
  assumes "put_begin cc bl s b = Inr (s', Some e)" and "put_finish s' cx e SelCtxDone = PutErr er s''"
  shows "sb_Put cc bl cx' s'' b sel = PutOk s'' \<and> sb_delivery s'' = sb_delivery s"
proof -
  have s'': "s'' = s'" using put_finish_cases(2) [OF assms(2)] .
  note p = putBlock_cases(1,2) [OF assms(1)] putBlock_cases(4) [OF assms(1), of e, simplified]
  have "put_begin cc bl s' b = Inr (s', None)"
    using p by (simp add: put_begin_def putBlock_def Let_def gm_simps)
  then show ?thesis using s'' p by (simp add: sb_Put_def)
qed

lemma streaming_retry_after_cancel_example:
  "sb_Put ex_codec ex_bloom Background ex_put ex_block SelSend = PutOk ex_put"
  using streaming_retry_after_cancel [OF ex_put_begin,
      of "\<lparr>ctx_vals = [], ctx_err = Some Canceled\<rparr>" Canceled ex_put Background SelSend]
  by simp

text \<open>A producer that passed the checks before \<open>ProcessingDone\<close> or \<open>Close\<close> and sends after it sends on
  a closed channel: the program panics.\<close>

lemma streaming_send_after_end_panics:
  assumes "put_begin cc bl s b = Inr (s', Some e)"
  shows "put_finish (sb_ProcessingDone s') cx e SelSend = PutPanic \<and>
         put_finish (sb_Close s') cx e SelSend = PutPanic"
  using putBlock_cases(1,2) [OF assms] putBlock_cases(4) [OF assms, of e]
  by (simp add: sb_ProcessingDone_def sb_Close_def)

lemma streaming_send_after_end_panics_example:
  "put_finish (sb_ProcessingDone ex_put) Background ex_entry SelSend = PutPanic"
  using streaming_send_after_end_panics [OF ex_put_begin] by simp

text \<open>The blocks of a list whose key is not yet pending, each at its first occurrence.\<close>

fun fresh_blocks :: "cid_codec \<Rightarrow> bytes set \<Rightarrow> block list \<Rightarrow> block list" where
  "fresh_blocks cc K [] = []"
| "fresh_blocks cc K (b # bs) =
     (if cc_bytes cc (b_cid b) \<in> K then fresh_blocks cc K bs
      else b # fresh_blocks cc (insert (cc_bytes cc (b_cid b)) K) bs)"

lemma sb_Put_open:
  assumes "\<not> sb_closed s" and "\<not> sb_processing_done s" and "\<not> sb_delivery_closed s"
    and "length (sb_delivery s) < sb_cap s \<or> gm_get (sb_pending s) (cc_bytes cc (b_cid b)) \<noteq> None"
  obtains s' where "sb_Put cc bl cx s b SelSend = PutOk s'" and "\<not> sb_closed s'"
    and "\<not> sb_processing_done s'" and "\<not> sb_delivery_closed s'" and "sb_cap s' = sb_cap s"
    and "set (gm_keys (sb_pending s')) = insert (cc_bytes cc (b_cid b)) (set (gm_keys (sb_pending s)))"
    and "map e_block (sb_delivery s') = map e_block (sb_delivery s) @
           (if cc_bytes cc (b_cid b) \<in> set (gm_keys (sb_pending s)) then [] else [b])"
proof (cases "gm_get (sb_pending s) (cc_bytes cc (b_cid b))")
  case None
  then have "cc_bytes cc (b_cid b) \<notin> set (gm_keys (sb_pending s))" by (simp add: gm_get_None_iff)
  with None assms that show ?thesis
    by (simp add: sb_Put_def put_begin_def putBlock_def Let_def gm_keys_set del: set_map)
next
  case (Some e)
  then have "cc_bytes cc (b_cid b) \<in> set (gm_keys (sb_pending s))" using gm_key_get by metis
  with Some assms(1-3) that [of s] show ?thesis
    by (simp add: sb_Put_def put_begin_def putBlock_def Let_def insert_absorb del: set_map)
qed

text \<open>Into an open store \<open>PutMany\<close> sends each new CID once, at its first occurrence and in the order
  of the argument, when the channel has room for them all.\<close>

lemma streaming_put_many_fifo:
  assumes "\<not> sb_closed s" and "\<not> sb_processing_done s" and "\<not> sb_delivery_closed s"
    and "length (sb_delivery s) + length bs \<le> sb_cap s"
  shows "\<exists>s'. sb_PutMany cc bl cx s (map (\<lambda>b. (b, SelSend)) bs) = PutOk s' \<and>
           map e_block (sb_delivery s') =
             map e_block (sb_delivery s) @ fresh_blocks cc (set (gm_keys (sb_pending s))) bs"
  using assms
proof (induction bs arbitrary: s)
  case (Cons b bs)
  obtain s1 where s1: "sb_Put cc bl cx s b SelSend = PutOk s1" "\<not> sb_closed s1"
      "\<not> sb_processing_done s1" "\<not> sb_delivery_closed s1" "sb_cap s1 = sb_cap s"
      "set (gm_keys (sb_pending s1)) = insert (cc_bytes cc (b_cid b)) (set (gm_keys (sb_pending s)))"
      "map e_block (sb_delivery s1) = map e_block (sb_delivery s) @
           (if cc_bytes cc (b_cid b) \<in> set (gm_keys (sb_pending s)) then [] else [b])"
    using Cons.prems by (auto intro: sb_Put_open [of s cc b bl cx])
  have len: "length (sb_delivery s1) \<le> Suc (length (sb_delivery s))"
    using arg_cong [OF s1(7), of length] by (simp split: if_splits)
  then have "\<exists>s'. sb_PutMany cc bl cx s1 (map (\<lambda>b. (b, SelSend)) bs) = PutOk s' \<and>
           map e_block (sb_delivery s') =
             map e_block (sb_delivery s1) @ fresh_blocks cc (set (gm_keys (sb_pending s1))) bs"
    using Cons.prems s1(2-5) by (intro Cons.IH) auto
  then show ?case using s1(1,6,7) by (auto simp: insert_absorb simp del: set_map)
qed simp

lemma streaming_put_many_fifo_example:
  "\<exists>s'. sb_PutMany ex_codec ex_bloom Background (NewStreamingBlockstoreWithDefaults ex_bloom NewDoneTracker 0)
      [(ex_block, SelSend), (ex_block, SelSend)] = PutOk s' \<and> map e_block (sb_delivery s') = [ex_block]"
  using streaming_put_many_fifo [of "NewStreamingBlockstoreWithDefaults ex_bloom NewDoneTracker 0"
      "[ex_block, ex_block]" ex_codec ex_bloom Background]
  by (simp add: NewStreamingBlockstoreWithDefaults_def)

text \<open>After \<open>Close\<close> every operation of the blockstore interface reports that it is closed, and a
  second \<open>Close\<close> changes nothing.\<close>

lemma streaming_closed:
  "put_begin cc bl (sb_Close s) b = Inl ErrClosed \<and>
   get_begin cc pt (sb_Close s) c = Return (Inl ErrClosed) \<and>
   has_begin cc bl (sb_Close s) c = Return (Inl ErrClosed) \<and>
   getsize_begin cc pt cx (sb_Close s) c = Return (Inl ErrClosed) \<and>
   sb_DeleteBlock (sb_Close s) c = Inl ErrClosed \<and>
   sb_AllKeys pt cx (sb_Close s) = Inl ErrClosed \<and>
   sb_Close (sb_Close s) = sb_Close s"
  by (simp add: sb_Close_def put_begin_def get_begin_def has_begin_def getsize_begin_def
      sb_DeleteBlock_def sb_AllKeys_def)

end
