(* ===== verification/BlockProcessor.thy ===== *)
theory BlockProcessor
  imports StreamingBlockstore
begin

text \<open>
  \<^verbatim>\<open>internal/protocol/block_processor_base.go\<close> and the processors of files, archives and CARs
  (\<^verbatim>\<open>block_processor_file.go\<close>, \<^verbatim>\<open>block_processor_archive.go\<close>, \<^verbatim>\<open>block_processor_car.go\<close>).  The node
  generator, the DAG service, the archive processor and the CAR reader are arguments; what they
  write into the streaming blockstore are steps of that component.
\<close>

section \<open>The base processor\<close>

record bproc =
  bp_started :: bool
  bp_completed :: bool
  bp_roots :: "cid list"
  bp_errs :: "gerr list"          \<comment> \<open>what \<open>errorChan\<close> holds\<close>
  bp_errs_closed :: bool
  bp_closed :: bool
  bp_err :: "gerr option"         \<comment> \<open>\<open>ctx.Err()\<close>\<close>
  bp_bg :: nat                    \<comment> \<open>background goroutines that have not ended\<close>

definition errorChan_cap :: nat where "errorChan_cap = 10"

definition NewBaseBlockProcessor :: "gerr option \<Rightarrow> bproc" where
  "NewBaseBlockProcessor err = \<lparr>bp_started = False, bp_completed = False, bp_roots = [], bp_errs = [],
     bp_errs_closed = False, bp_closed = False, bp_err = err, bp_bg = 0\<rparr>"

definition markStarted :: "bproc \<Rightarrow> bproc" where
  "markStarted p = p\<lparr>bp_started := True\<rparr>"

definition markCompleted :: "cid list \<Rightarrow> bproc \<Rightarrow> bproc" where
  "markCompleted rs p = p\<lparr>bp_completed := True, bp_roots := rs\<rparr>"

text \<open>\<open>None\<close> is the nil slice.\<close>

definition getRootCIDs :: "bproc \<Rightarrow> cid list option" where
  "getRootCIDs p = (if bp_completed p then Some (bp_roots p) else None)"

text \<open>A send on the closed channel panics: \<open>None\<close>.  A full channel drops the error.\<close>

definition sendError :: "gerr option \<Rightarrow> bproc \<Rightarrow> bproc option" where
  "sendError e p =
     (case e of
        None \<Rightarrow> Some p
      | Some e \<Rightarrow>
          if bp_errs_closed p then None
          else if length (bp_errs p) < errorChan_cap then Some (p\<lparr>bp_errs := bp_errs p @ [e]\<rparr>)
          else Some p)"

definition bg_start :: "bproc \<Rightarrow> bproc" where
  "bg_start p = p\<lparr>bp_bg := bp_bg p + 1\<rparr>"

text \<open>A background goroutine ends with the result of its function: the error is sent, then \<open>wg.Done\<close>.\<close>

definition bg_end :: "gerr option \<Rightarrow> bproc \<Rightarrow> bproc option" where
  "bg_end e p =
     map_option (\<lambda>q. q\<lparr>bp_bg := bp_bg q - 1\<rparr>)
       (sendError (map_option (Wrapped ''background processing failed'') e) p)"

text \<open>\<open>Close\<close> up to \<open>wg.Wait\<close>, and after it.\<close>

definition close_begin :: "bproc \<Rightarrow> bproc" where
  "close_begin p = p\<lparr>bp_closed := True, bp_err := (case bp_err p of None \<Rightarrow> Some Canceled | e \<Rightarrow> e)\<rparr>"

definition close_end :: "bproc \<Rightarrow> bproc" where
  "close_end p = p\<lparr>bp_errs_closed := True\<rparr>"

section \<open>Next\<close>

text \<open>The processor with the streaming blockstore it reads from.\<close>

type_synonym 'f fproc = "bproc \<times> 'f sbs"

datatype next_result = NextBlock block | NextErr gerr | NextWaits

datatype next_select = NxStream | NxCtx | NxErr

text \<open>
  The \<open>select\<close> of \<open>Next\<close>: Go picks one of the cases that are ready.  On the closed error channel the last
  case yields a nil block with a nil error, which the first component \<open>None\<close> stands for.
\<close>

definition next_select_step ::
    "cid_codec \<Rightarrow> next_select \<Rightarrow> 'f fproc \<Rightarrow> next_result option \<times> 'f fproc" where
  "next_select_step cc sel ps =
     (let (p, s) = ps in
      case sel of
        NxStream \<Rightarrow>
          (case sb_receive s of
             Received e s' \<Rightarrow> (Some (NextBlock (e_block e)), (p, MarkBlockProcessed cc (e_key e) s'))
           | StreamEnd \<Rightarrow>
               (case bp_errs p of
                  e # es \<Rightarrow> (Some (NextErr e), (p\<lparr>bp_errs := es\<rparr>, s))
                | [] \<Rightarrow> (if bp_errs_closed p then None else Some (NextErr EOF), ps))
           | RecvBlocked \<Rightarrow> (Some NextWaits, ps))
      | NxCtx \<Rightarrow> (case bp_err p of Some e \<Rightarrow> (Some (NextErr e), ps) | None \<Rightarrow> (Some NextWaits, ps))
      | NxErr \<Rightarrow>
          (case bp_errs p of
             e # es \<Rightarrow> (Some (NextErr e), (p\<lparr>bp_errs := es\<rparr>, s))
           | [] \<Rightarrow> (if bp_errs_closed p then None else Some NextWaits, ps)))"

definition start_once :: "bproc \<Rightarrow> bproc" where
  "start_once p = (if bp_started p then p else bg_start (markStarted p))"

text \<open>The processor of a file looks at its context first, that of an archive does not.\<close>

definition file_Next :: "cid_codec \<Rightarrow> next_select \<Rightarrow> 'f fproc \<Rightarrow> next_result option \<times> 'f fproc" where
  "file_Next cc sel ps =
     (if bp_closed (fst ps) then (Some (NextErr (Opaque ''processor is closed'')), ps)
      else case bp_err (fst ps) of
        Some e \<Rightarrow> (Some (NextErr e), ps)
      | None \<Rightarrow> next_select_step cc sel (start_once (fst ps), snd ps))"

definition archive_Next :: "cid_codec \<Rightarrow> next_select \<Rightarrow> 'f fproc \<Rightarrow> next_result option \<times> 'f fproc" where
  "archive_Next cc sel ps =
     (if bp_closed (fst ps) then (Some (NextErr (Opaque ''processor is closed'')), ps)
      else next_select_step cc sel (start_once (fst ps), snd ps))"

section \<open>The background work\<close>

text \<open>
  \<open>processFile\<close> after the file has been read: \<open>created\<close> is the result of \<open>CreateNode\<close>, \<open>added\<close> that of the DAG
  service.
\<close>

definition processFile ::
    "cid_codec \<Rightarrow> 'f bloom \<Rightarrow> gerr + cid \<Rightarrow> gerr option \<Rightarrow> 'f fproc \<Rightarrow> gerr option \<times> 'f fproc" where
  "processFile cc bl created added ps =
     (case created of
        Inl e \<Rightarrow> (Some e, ps)
      | Inr root \<Rightarrow>
          (case added of
             Some e \<Rightarrow> (Some e, ps)
           | None \<Rightarrow>
               (None, markCompleted [root] (fst ps), MarkDone cc bl root (sb_ProcessingDone (snd ps)))))"

definition processArchive :: "gerr option \<Rightarrow> gerr + cid \<Rightarrow> 'f fproc \<Rightarrow> gerr option \<times> 'f fproc" where
  "processArchive processed root ps =
     (case processed of
        Some e \<Rightarrow> (Some (Wrapped ''failed to process archive'' e), ps)
      | None \<Rightarrow>
          (case root of
             Inl e \<Rightarrow> (Some (Wrapped ''failed to get root node'' e), ps)
           | Inr c \<Rightarrow> (None, markCompleted [c] (fst ps), sb_ProcessingDone (snd ps))))"

definition file_Roots :: "'f fproc \<Rightarrow> cid list" where
  "file_Roots ps = (case getRootCIDs (fst ps) of Some rs \<Rightarrow> rs | None \<Rightarrow> [])"

definition archive_Roots :: "gerr + cid option \<Rightarrow> 'f fproc \<Rightarrow> cid list" where
  "archive_Roots root ps =
     (case getRootCIDs (fst ps) of
        Some rs \<Rightarrow> rs
      | None \<Rightarrow> (case root of Inr (Some c) \<Rightarrow> [c] | _ \<Rightarrow> []))"

text \<open>\<open>Release\<close> once the background work has ended.  The extractor and the file are closed as well.\<close>

definition file_Release :: "'f fproc \<Rightarrow> 'f fproc" where
  "file_Release ps = (close_end (close_begin (fst ps)), sb_Close (snd ps))"

definition archive_Release :: "'f fproc \<Rightarrow> 'f fproc" where
  "archive_Release ps = (let s = sb_Close (snd ps) in (close_end (close_begin (fst ps)), s))"

text \<open>\<open>CARBlockProcessor\<close> over the roots and the remaining blocks of its reader.\<close>

record car_proc =
  cp_roots :: "cid list"
  cp_blocks :: "(gerr + block) list"
  cp_called :: bool

definition car_Next :: "car_proc \<Rightarrow> (gerr + block) \<times> car_proc" where
  "car_Next p =
     (let p' = p\<lparr>cp_called := True\<rparr> in
      if \<not> cp_called p \<and> cp_roots p = []
      then (Inl (Opaque ''CAR file has no root blocks - empty or invalid CAR file''), p')
      else case cp_blocks p of [] \<Rightarrow> (Inl EOF, p') | b # bs \<Rightarrow> (b, p'\<lparr>cp_blocks := bs\<rparr>))"

section \<open>Life cycle\<close>

text \<open>The steps of a processor: \<open>None\<close> in the second place of \<open>bp_step\<close> is a panic.\<close>

inductive bp_step :: "bproc \<Rightarrow> bproc option \<Rightarrow> bool" where
  bps_start: "\<not> bp_closed p \<Longrightarrow> \<not> bp_started p \<Longrightarrow> bp_step p (Some (start_once p))"
| bps_completed: "0 < bp_bg p \<Longrightarrow> bp_step p (Some (markCompleted rs p))"
| bps_bg_end: "0 < bp_bg p \<Longrightarrow> bp_step p (bg_end e p)"
| bps_take: "bp_errs p = e # es \<Longrightarrow> bp_step p (Some (p\<lparr>bp_errs := es\<rparr>))"
| bps_close: "\<not> bp_closed p \<Longrightarrow> bp_step p (Some (close_begin p))"
| bps_closed: "bp_closed p \<Longrightarrow> bp_bg p = 0 \<Longrightarrow> bp_step p (Some (close_end p))"

inductive bp_reach :: "bproc \<Rightarrow> bool" where
  bpr_init: "bp_reach (NewBaseBlockProcessor err)"
| bpr_step: "bp_reach p \<Longrightarrow> bp_step p (Some q) \<Longrightarrow> bp_reach q"

inductive_cases bp_stepE: "bp_step p r"

definition bp_inv :: "bproc \<Rightarrow> bool" where
  "bp_inv p \<longleftrightarrow> (bp_errs_closed p \<longrightarrow> bp_closed p \<and> bp_bg p = 0) \<and> bp_bg p \<le> 1 \<and>
     (bp_bg p = 1 \<longrightarrow> bp_started p) \<and> length (bp_errs p) \<le> errorChan_cap \<and>
     (bp_completed p \<longrightarrow> bp_started p) \<and> (bp_closed p \<longrightarrow> bp_err p \<noteq> None)"

lemmas bp_op_defs = markStarted_def markCompleted_def sendError_def bg_start_def bg_end_def close_begin_def
  close_end_def start_once_def

lemma bp_inv_reach: "bp_reach p \<Longrightarrow> bp_inv p"
proof (induction rule: bp_reach.induct)
  case (bpr_init err)
  show ?case by (simp add: bp_inv_def NewBaseBlockProcessor_def errorChan_cap_def)
next
  case (bpr_step p q)
  from bpr_step.hyps(2) bpr_step.IH show ?case
    by (elim bp_stepE) (auto simp: bp_inv_def bp_op_defs split: option.splits if_splits)
qed

section \<open>Properties\<close>



text \<open>Calls of \<open>Next\<close> one after the other, each taking from the stream.\<close>

fun file_drain :: "cid_codec \<Rightarrow> nat \<Rightarrow> 'f fproc \<Rightarrow> next_result option list" where
  "file_drain cc 0 ps = []"
| "file_drain cc (Suc n) ps = (let (r, ps') = file_Next cc NxStream ps in r # file_drain cc n ps')"

lemma file_drain_stream:
  assumes "\<not> bp_closed p" "bp_err p = None" "bp_errs p = []" "\<not> bp_errs_closed p" "bp_started p"
    and "sb_delivery_closed s"
  shows "file_drain cc (length (sb_delivery s) + 1) (p, s) =
    map (\<lambda>e. Some (NextBlock (e_block e))) (sb_delivery s) @ [Some (NextErr EOF)]"
  using assms(6)
proof (induction "sb_delivery s" arbitrary: s)
  case Nil
  then show ?case
    using assms by (simp add: file_Next_def next_select_step_def sb_receive_def start_once_def)
next
  case (Cons e es)
  let ?s = "MarkBlockProcessed cc (e_key e) (s\<lparr>sb_delivery := es\<rparr>)"
  have d: "sb_delivery s = e # es" using Cons.hyps(2) by simp
  have "file_Next cc NxStream (p, s) = (Some (NextBlock (e_block e)), (p, ?s))"
    using assms d by (simp add: file_Next_def next_select_step_def sb_receive_def start_once_def)
  moreover have "sb_delivery ?s = es" "sb_delivery_closed ?s"
    using Cons.prems by (simp_all add: MarkBlockProcessed_def Let_def)
  ultimately show ?case using Cons.hyps(1) [of ?s] d by simp
qed

text \<open>After \<open>processFile\<close> succeeds, the calls of \<open>Next\<close> give the blocks that were still undelivered, in order,
  then \<open>io.EOF\<close>; the root is the node created, and it counts as done already, before those blocks
  have been taken, let alone stored.\<close>

lemma file_processor_ends:
  assumes "processFile cc bl (Inr root) None (p, s) = (None, ps)"
    and "\<not> bp_closed p" "bp_err p = None" "bp_errs p = []" "\<not> bp_errs_closed p" "bp_started p"
    and "\<not> sb_processing_done s" and "dt_wf (sb_tracker s)"
  shows "file_drain cc (length (sb_delivery s) + 1) ps =
      map (\<lambda>e. Some (NextBlock (e_block e))) (sb_delivery s) @ [Some (NextErr EOF)] \<and>
    file_Roots ps = [root] \<and> IsDone (cc_bytes cc) (sb_tracker (snd ps)) root \<and>
    sb_delivery (snd ps) = sb_delivery s"
proof -
  let ?s = "MarkDone cc bl root (sb_ProcessingDone s)"
  have ps: "ps = (markCompleted [root] p, ?s)" using assms(1) by (simp add: processFile_def)
  have d: "sb_delivery ?s = sb_delivery s" "sb_delivery_closed ?s"
    "sb_tracker ?s = Done (cc_bytes cc) root (sb_tracker s)"
    using assms(7) by (simp_all add: MarkDone_def sb_ProcessingDone_def)
  show ?thesis
    using file_drain_stream [of "markCompleted [root] p" ?s cc] assms(2-6,8) d
    by (simp add: ps markCompleted_def file_Roots_def getRootCIDs_def IsDone_Done)
qed

lemma file_processor_ends_example:
  "\<exists>ps :: bytes list fproc. file_drain ex_codec 2 ps = [Some (NextBlock ex_block), Some (NextErr EOF)]"
proof -
  define s where "s = (NewStreamingBlockstoreWithDefaults ex_bloom NewDoneTracker 10)\<lparr>sb_delivery := [ex_entry]\<rparr>"
  define p where "p = start_once (NewBaseBlockProcessor None)"
  define ps where "ps = snd (processFile ex_codec ex_bloom (Inr (b_cid ex_block)) None (p, s))"
  have pf: "processFile ex_codec ex_bloom (Inr (b_cid ex_block)) None (p, s) = (None, ps)"
    by (simp add: ps_def processFile_def)
  have p: "\<not> bp_closed p" "bp_err p = None" "bp_errs p = []" "\<not> bp_errs_closed p" "bp_started p"
    by (simp_all add: p_def start_once_def NewBaseBlockProcessor_def bg_start_def markStarted_def)
  have s: "\<not> sb_processing_done s" "dt_wf (sb_tracker s)" "sb_delivery s = [ex_entry]"
    by (simp_all add: s_def NewStreamingBlockstoreWithDefaults_def dt_wf_New)
  from file_processor_ends [OF pf p s(1,2)] s(3)
  have "file_drain ex_codec (length (sb_delivery s) + 1) ps = [Some (NextBlock (e_block ex_entry)), Some (NextErr EOF)]"
    by simp
  moreover have "length (sb_delivery s) + 1 = 2" "e_block ex_entry = ex_block" using s(3) by (simp_all add: ex_entry_def)
  ultimately show ?thesis by metis
qed

end
