(* ===== verification/Go_Strings.thy ===== *)
theory Go_Strings
  imports IPFS_Prelude
begin

text \<open>
  The functions of Go's packages \<open>strings\<close> and \<open>strconv\<close> that the sources call, on byte strings, and the text of
  an error.  Case folding is that of ASCII.
\<close>

section \<open>Package strings\<close>

definition HasPrefix :: "string \<Rightarrow> string \<Rightarrow> bool" where
  "HasPrefix s p \<longleftrightarrow> take (length p) s = p"

definition HasSuffix :: "string \<Rightarrow> string \<Rightarrow> bool" where
  "HasSuffix s t \<longleftrightarrow> length t \<le> length s \<and> drop (length s - length t) s = t"

definition TrimSuffix :: "string \<Rightarrow> string \<Rightarrow> string" where
  "TrimSuffix s t = (if HasSuffix s t then take (length s - length t) s else s)"

definition TrimPrefix :: "string \<Rightarrow> string \<Rightarrow> string" where
  "TrimPrefix s p = (if HasPrefix s p then drop (length p) s else s)"

definition TrimLeft :: "string \<Rightarrow> string \<Rightarrow> string" where
  "TrimLeft s cs = dropWhile (\<lambda>c. c \<in> set cs) s"

definition TrimRight :: "string \<Rightarrow> string \<Rightarrow> string" where
  "TrimRight s cs = rev (dropWhile (\<lambda>c. c \<in> set cs) (rev s))"

definition Trim :: "string \<Rightarrow> string \<Rightarrow> string" where
  "Trim s cs = TrimRight (TrimLeft s cs) cs"

fun Contains :: "string \<Rightarrow> string \<Rightarrow> bool" where
  "Contains [] t = (t = [])"
| "Contains (c # s) t = (HasPrefix (c # s) t \<or> Contains s t)"

definition lower_char :: "char \<Rightarrow> char" where
  "lower_char c = (let n = of_char c :: nat in if 65 \<le> n \<and> n \<le> 90 then char_of (n + 32) else c)"

definition upper_char :: "char \<Rightarrow> char" where
  "upper_char c = (let n = of_char c :: nat in if 97 \<le> n \<and> n \<le> 122 then char_of (n - 32) else c)"

definition ToLower :: "string \<Rightarrow> string" where
  "ToLower s = map lower_char s"

definition ToUpper :: "string \<Rightarrow> string" where
  "ToUpper s = map upper_char s"

definition EqualFold :: "string \<Rightarrow> string \<Rightarrow> bool" where
  "EqualFold s t \<longleftrightarrow> ToLower s = ToLower t"

text \<open>\<open>Split\<close> at a separator of one byte.\<close>

fun Split :: "string \<Rightarrow> char \<Rightarrow> string list" where
  "Split [] sep = [[]]"
| "Split (c # s) sep =
     (if c = sep then [] # Split s sep
      else case Split s sep of w # ws \<Rightarrow> (c # w) # ws | [] \<Rightarrow> [[c]])"

fun Join :: "string list \<Rightarrow> string \<Rightarrow> string" where
  "Join [] sep = []"
| "Join [w] sep = w"
| "Join (w # ws) sep = w @ sep @ Join ws sep"

definition is_space :: "char \<Rightarrow> bool" where
  "is_space c \<longleftrightarrow> c = CHR '' '' \<or> (of_char c :: nat) \<in> {9..13}"

text \<open>\<open>Fields\<close>: the maximal runs of bytes that are not white space.\<close>

fun Fields_from :: "string \<Rightarrow> string \<Rightarrow> string list" where
  "Fields_from w [] = (if w = [] then [] else [w])"
| "Fields_from w (c # s) =
     (if is_space c then (if w = [] then Fields_from [] s else w # Fields_from [] s)
      else Fields_from (w @ [c]) s)"

definition Fields :: "string \<Rightarrow> string list" where
  "Fields s = Fields_from [] s"

section \<open>Package strconv\<close>

fun dec :: "nat \<Rightarrow> string" where
  "dec n = (if n < 10 then [char_of (48 + n)] else dec (n div 10) @ [char_of (48 + n mod 10)])"

declare dec.simps [simp del]

definition is_digit :: "char \<Rightarrow> bool" where
  "is_digit c \<longleftrightarrow> 48 \<le> (of_char c :: nat) \<and> (of_char c :: nat) \<le> 57"

definition digits_val :: "string \<Rightarrow> nat" where
  "digits_val s = foldl (\<lambda>n c. 10 * n + (of_char c - 48)) 0 s"

text \<open>\<open>ParseUint(s, 10, bits)\<close>.\<close>

definition ParseUint :: "string \<Rightarrow> nat \<Rightarrow> gerr + nat" where
  "ParseUint s bits =
     (if s = [] \<or> \<not> list_all is_digit s then Inl (Opaque ''invalid syntax'')
      else if 2 ^ bits \<le> digits_val s then Inl (Opaque ''value out of range'')
      else Inr (digits_val s))"

section \<open>The text of an error\<close>

fun gerr_text :: "gerr \<Rightarrow> string" where
  "gerr_text Canceled = ''context canceled''"
| "gerr_text DeadlineExceeded = ''context deadline exceeded''"
| "gerr_text EOF = ''EOF''"
| "gerr_text RecordNotFound = ''record not found''"
| "gerr_text IpldNotFound = ''ipld: could not find node''"
| "gerr_text DsNotFound = ''datastore: key not found''"
| "gerr_text (Opaque m) = m"
| "gerr_text (Wrapped m e) = m @ '': '' @ gerr_text e"

section \<open>Laws\<close>

lemma HasPrefix_iff [str_simps]: "HasPrefix s p \<longleftrightarrow> (\<exists>r. s = p @ r)"
  by (metis HasPrefix_def append_eq_conv_conj append_take_drop_id)

lemma HasSuffix_iff [str_simps]: "HasSuffix s t \<longleftrightarrow> (\<exists>r. s = r @ t)"
proof
  assume "HasSuffix s t"
  then show "\<exists>r. s = r @ t" by (metis HasSuffix_def append_take_drop_id)
qed (auto simp: HasSuffix_def)

lemma HasSuffix_append [simp]: "HasSuffix (r @ t) t"
  by (auto simp: HasSuffix_iff)

lemma TrimSuffix_append [simp]: "TrimSuffix (r @ t) t = r"
  by (simp add: TrimSuffix_def)

lemma TrimSuffix_not: "\<not> HasSuffix s t \<Longrightarrow> TrimSuffix s t = s"
  by (simp add: TrimSuffix_def)

lemma TrimSuffix_cases:
  obtains r where "s = r @ t" "TrimSuffix s t = r" | "\<not> HasSuffix s t" "TrimSuffix s t = s"
  by (metis HasSuffix_iff TrimSuffix_append TrimSuffix_not)

lemma Contains_iff [str_simps]: "Contains s t \<longleftrightarrow> (\<exists>p r. s = p @ t @ r)"
proof (induction s t rule: Contains.induct)
  case (2 c s t)
  have "(\<exists>p r. c # s = p @ t @ r) \<longleftrightarrow> (\<exists>r. c # s = t @ r) \<or> (\<exists>p r. s = p @ t @ r)"
    by (metis append_Cons append_Nil list.inject neq_Nil_conv)
  then show ?case using 2 by (simp add: HasPrefix_iff)
qed simp

lemma Contains_infix [simp]: "Contains (p @ t @ r) t"
  by (auto simp: Contains_iff)

lemma gerr_text_Contains: "Contains (gerr_text e) t \<Longrightarrow> Contains (gerr_text (Wrapped m e)) t"
  by (auto simp: Contains_iff) (metis append.assoc append_Cons)

lemma Split_not_Nil [simp]: "Split s sep \<noteq> []"
  by (induction s sep rule: Split.induct) (auto split: list.splits)

lemma Join_Split: "Join (Split s sep) [sep] = s"
proof (induction s sep rule: Split.induct)
  case (2 c s sep)
  obtain w ws where w: "Split s sep = w # ws" using Split_not_Nil by (meson neq_Nil_conv)
  show ?case using 2 w by (cases ws) auto
qed simp

lemma Split_no_sep: "w \<in> set (Split s sep) \<Longrightarrow> sep \<notin> set w"
proof (induction s sep arbitrary: w rule: Split.induct)
  case (2 c s sep)
  obtain v vs where v: "Split s sep = v # vs" using Split_not_Nil by (meson neq_Nil_conv)
  show ?case using 2 v by (auto split: if_splits)
qed simp

end
