(* ===== verification/PowerDNS.thy ===== *)
theory PowerDNS
  imports Go_Strings
begin

text \<open>
  \<^verbatim>\<open>internal/service/dns/powerdns_client.go\<close>: the wrapper around the generated PowerDNS client, which is a
  parameter: what the server answers to a request, and its state after it.
\<close>

section \<open>The server's interface\<close>

record rr =
  rr_content :: string
  rr_disabled :: "bool option"

text \<open>A nil slice of records is \<open>None\<close>.\<close>

record rrset =
  rs_name :: string
  rs_type :: string
  rs_change :: string
  rs_ttl :: "int option"
  rs_records :: "rr list option"

record pzone =
  pz_id :: "string option"
  pz_rrsets :: "rrset list option"

text \<open>An HTTP response: status, body text, and the body decoded as JSON.\<close>

record 'b http =
  h_status :: nat
  h_text :: string
  h_body :: "gerr + 'b"

record 'p pdns_api =
  pa_create :: "string \<Rightarrow> string list \<Rightarrow> 'p \<Rightarrow> (gerr + pzone http) \<times> 'p"
  pa_get :: "string \<Rightarrow> 'p \<Rightarrow> gerr + pzone http"
  pa_patch :: "string \<Rightarrow> rrset list \<Rightarrow> 'p \<Rightarrow> (gerr + unit http) \<times> 'p"
  pa_delete :: "string \<Rightarrow> 'p \<Rightarrow> (gerr + unit http) \<times> 'p"

definition status_ok :: "nat \<Rightarrow> bool" where
  "status_ok n \<longleftrightarrow> 200 \<le> n \<and> n < 300"

section \<open>Zones\<close>

definition handleResponse :: "'b http \<Rightarrow> gerr + 'b" where
  "handleResponse r =
     (if \<not> status_ok (h_status r)
      then Inl (Opaque (''PowerDNS API returned status '' @ dec (h_status r) @ '', body: '' @ h_text r))
      else case h_body r of
        Inl e \<Rightarrow> Inl (Wrapped ''failed to decode response'' e)
      | Inr b \<Rightarrow> Inr b)"

definition canonical :: "string \<Rightarrow> string" where
  "canonical d = TrimSuffix d ''.'' @ ''.''"

definition pdns_GetZone :: "'p pdns_api \<Rightarrow> string \<Rightarrow> 'p \<Rightarrow> gerr + pzone" where
  "pdns_GetZone api zid p =
     (case pa_get api zid p of
        Inl e \<Rightarrow> Inl (Wrapped ''failed to get zone'' e)
      | Inr r \<Rightarrow> handleResponse r)"

text \<open>The id of the zone returned, which is all its callers use.\<close>

definition pdns_CreateZone ::
    "'p pdns_api \<Rightarrow> string \<Rightarrow> string list \<Rightarrow> 'p \<Rightarrow> (gerr + string) \<times> 'p" where
  "pdns_CreateZone api domain nameservers p =
     (case pa_create api (canonical domain) (map canonical nameservers) p of
        (Inl e, p') \<Rightarrow> (Inl (Wrapped ''failed to create zone'' e), p')
      | (Inr r, p') \<Rightarrow>
          (case handleResponse r of
             Inl e \<Rightarrow>
               if Contains (gerr_text e) ''status 409'' then
                 (case pdns_GetZone api (canonical domain) p' of
                    Inl g \<Rightarrow> (Inl (Wrapped ''zone already exists but failed to fetch it'' g), p')
                  | Inr z \<Rightarrow>
                      (case pz_id z of
                         None \<Rightarrow> (Inl (Opaque ''existing zone has no ID''), p')
                       | Some i \<Rightarrow> (Inr i, p')))
               else (Inl e, p')
           | Inr z \<Rightarrow>
               (case pz_id z of
                  None \<Rightarrow> (Inl (Opaque ''powerdns API returned zone with no ID''), p')
                | Some i \<Rightarrow> (Inr i, p'))))"

text \<open>These two look at no status.\<close>

definition pdns_UpdateZoneRRSets ::
    "'p pdns_api \<Rightarrow> string \<Rightarrow> rrset list \<Rightarrow> 'p \<Rightarrow> gerr option \<times> 'p" where
  "pdns_UpdateZoneRRSets api zid rs p =
     (case pa_patch api zid rs p of
        (Inl e, p') \<Rightarrow> (Some (Wrapped ''failed to update zone'' e), p')
      | (Inr _, p') \<Rightarrow> (None, p'))"

definition pdns_DeleteZone :: "'p pdns_api \<Rightarrow> string \<Rightarrow> 'p \<Rightarrow> gerr option \<times> 'p" where
  "pdns_DeleteZone api zid p =
     (case pa_delete api zid p of
        (Inl e, p') \<Rightarrow> (Some (Wrapped ''failed to delete zone'' e), p')
      | (Inr _, p') \<Rightarrow> (None, p'))"

section \<open>DNSSEC\<close>

record cryptokey =
  ck_active :: bool
  ck_published :: bool
  ck_ds :: "string list"

record dnssec_record =
  ds_key_tag :: nat
  ds_algorithm :: nat
  ds_digest_type :: nat
  ds_digest :: string

definition firstDSRecord :: "cryptokey list \<Rightarrow> string" where
  "firstDSRecord keys =
     (case find (\<lambda>k. ck_active k \<and> ck_published k \<and> ck_ds k \<noteq> []) keys of
        Some k \<Rightarrow> hd (ck_ds k)
      | None \<Rightarrow>
          (case find (\<lambda>k. ck_ds k \<noteq> []) keys of Some k \<Rightarrow> hd (ck_ds k) | None \<Rightarrow> []))"

text \<open>The fields after the first one that is \<open>DS\<close>, or all when none is.\<close>

fun after_DS :: "string list \<Rightarrow> string list option" where
  "after_DS [] = None"
| "after_DS (f # fs) = (if EqualFold f ''DS'' then Some fs else after_DS fs)"

definition parseDSRecord :: "string \<Rightarrow> gerr + dnssec_record" where
  "parseDSRecord s =
     (let all = Fields s;
          fields = (case after_DS all of Some fs \<Rightarrow> fs | None \<Rightarrow> all) in
      if length fields < 4 then Inl (Opaque ''invalid DS record'')
      else
        let fields = drop (length fields - 4) fields in
        case ParseUint (fields ! 0) 16 of
          Inl e \<Rightarrow> Inl (Wrapped ''invalid DS key tag'' e)
        | Inr tag \<Rightarrow>
            (case ParseUint (fields ! 1) 8 of
               Inl e \<Rightarrow> Inl (Wrapped ''invalid DS algorithm'' e)
             | Inr alg \<Rightarrow>
                 (case ParseUint (fields ! 2) 8 of
                    Inl e \<Rightarrow> Inl (Wrapped ''invalid DS digest type'' e)
                  | Inr dt \<Rightarrow>
                      Inr \<lparr>ds_key_tag = tag, ds_algorithm = alg, ds_digest_type = dt,
                           ds_digest = ToUpper (fields ! 3)\<rparr>)))"

text \<open>
  \<open>EnsureDNSSECAndGetDS\<close> with the results of its requests in order: enabling, the keys, the creation of a
  key, the keys again.
\<close>

definition EnsureDNSSECAndGetDS ::
    "gerr option \<Rightarrow> gerr + cryptokey list \<Rightarrow> gerr + cryptokey \<Rightarrow> gerr + cryptokey list \<Rightarrow> gerr + dnssec_record" where
  "EnsureDNSSECAndGetDS enabled keys created keys2 =
     (case enabled of
        Some e \<Rightarrow> Inl e
      | None \<Rightarrow>
          (case keys of
             Inl e \<Rightarrow> Inl e
           | Inr ks \<Rightarrow>
               if firstDSRecord ks \<noteq> [] then parseDSRecord (firstDSRecord ks)
               else case created of
                 Inl e \<Rightarrow> Inl e
               | Inr k \<Rightarrow>
                   if firstDSRecord [k] \<noteq> [] then parseDSRecord (firstDSRecord [k])
                   else case keys2 of
                     Inl e \<Rightarrow> Inl e
                   | Inr ks2 \<Rightarrow>
                       if firstDSRecord ks2 \<noteq> [] then parseDSRecord (firstDSRecord ks2)
                       else Inl (Opaque ''PowerDNS returned no DS records for zone'')))"

section \<open>Printing and parsing numbers\<close>

lemma of_char_digit: "n < 10 \<Longrightarrow> (of_char (char_of (48 + n)) :: nat) = 48 + n"
  by simp

lemma dec_digits: "list_all is_digit (dec n)"
proof (induction n rule: dec.induct)
  case (1 n)
  have d: "is_digit (char_of (48 + k))" if "k < 10" for k :: nat
    using that by (simp add: is_digit_def of_char_digit)
  show ?case
    using 1 d [of n] d [of "n mod 10"] by (subst dec.simps) simp
qed

lemma dec_not_Nil [simp]: "dec n \<noteq> []"
  by (subst dec.simps) simp

lemma digits_val_snoc: "digits_val (s @ [c]) = 10 * digits_val s + (of_char c - 48)"
  by (simp add: digits_val_def)

lemma digits_val_dec: "digits_val (dec n) = n"
proof (induction n rule: dec.induct)
  case (1 n)
  show ?case
  proof (cases "n < 10")
    case True
    then show ?thesis by (subst dec.simps) (simp add: digits_val_def of_char_digit)
  next
    case False
    have "digits_val (dec n) = 10 * digits_val (dec (n div 10)) + n mod 10"
      using False by (subst dec.simps) (simp add: digits_val_snoc of_char_digit)
    then show ?thesis using 1 False by simp
  qed
qed

lemma ParseUint_dec: "n < 2 ^ bits \<Longrightarrow> ParseUint (dec n) bits = Inr n"
  by (simp add: ParseUint_def dec_digits digits_val_dec)

lemma ParseUint_bound: "ParseUint s bits = Inr n \<Longrightarrow> n < 2 ^ bits"
  by (auto simp: ParseUint_def split: if_splits)

section \<open>Fields\<close>

definition spaceless :: "string \<Rightarrow> bool" where
  "spaceless s \<longleftrightarrow> s \<noteq> [] \<and> \<not> list_ex is_space s"

lemma Fields_from_word: "\<not> list_ex is_space v \<Longrightarrow> Fields_from w (v @ s) = Fields_from (w @ v) s"
  by (induction v arbitrary: w) auto

lemma Fields_cons: "spaceless w \<Longrightarrow> Fields (w @ '' '' @ s) = w # Fields s"
  by (simp add: Fields_def Fields_from_word spaceless_def is_space_def)

lemma Fields_last: "spaceless w \<Longrightarrow> Fields w = [w]"
  using Fields_from_word [of w "[]" "[]"] by (simp add: Fields_def spaceless_def)

lemma digit_not_space: "is_digit c \<Longrightarrow> \<not> is_space c"
  by (auto simp: is_digit_def is_space_def)

lemma spaceless_dec: "spaceless (dec n)"
  using dec_digits [of n] digit_not_space by (auto simp: spaceless_def list_all_iff list_ex_iff)

lemma dec_not_DS: "\<not> EqualFold (dec n) ''DS''"
proof
  assume "EqualFold (dec n) ''DS''"
  moreover have "ToLower ''DS'' = ''ds''" by code_simp
  ultimately have l: "ToLower (dec n) = ''ds''" by (simp add: EqualFold_def)
  then obtain c cs where c: "dec n = c # cs" by (cases "dec n") (auto simp: ToLower_def)
  then have "is_digit c" "lower_char c = CHR ''d''"
    using dec_digits [of n] l by (simp_all add: ToLower_def)
  then show False by (auto simp: is_digit_def lower_char_def)
qed

text \<open>A DS record in presentation format is parsed to its key tag, algorithm, digest type and digest,
  whatever owner, class and TTL come before the word \<open>DS\<close>; numbers beyond their widths are refused,
  so every record parsed has a tag below 65536 and an algorithm and type below 256.\<close>

lemma dns_ds_roundtrip:
  assumes "tag < 2 ^ 16" "alg < 2 ^ 8" "dt < 2 ^ 8" "spaceless dg" "\<not> EqualFold dg ''DS''"
    and "list_all spaceless pre" "list_all (\<lambda>w. \<not> EqualFold w ''DS'') pre"
  shows "parseDSRecord (Join (pre @ [''DS'', dec tag, dec alg, dec dt, dg]) '' '') =
      Inr \<lparr>ds_key_tag = tag, ds_algorithm = alg, ds_digest_type = dt, ds_digest = ToUpper dg\<rparr> \<and>
    parseDSRecord (Join [dec tag, dec alg, dec dt, dg] '' '') =
      Inr \<lparr>ds_key_tag = tag, ds_algorithm = alg, ds_digest_type = dt, ds_digest = ToUpper dg\<rparr> \<and>
    (parseDSRecord s = Inr r \<longrightarrow> ds_key_tag r < 2 ^ 16 \<and> ds_algorithm r < 2 ^ 8 \<and> ds_digest_type r < 2 ^ 8)"
proof -
  have J: "Join (w # v # ws) '' '' = w @ '' '' @ Join (v # ws) '' ''" for w v ws by simp
  have sDS: "spaceless ''DS''" by code_simp
  let ?t = "[dec tag, dec alg, dec dt, dg]"
  have t: "Fields (Join ?t '' '') = ?t"
    using assms(4) by (simp add: J Fields_cons [simplified] spaceless_dec Fields_last)
  have p: "Fields (Join (pre @ ''DS'' # ?t) '' '') = pre @ ''DS'' # ?t"
    using assms(6)
  proof (induction pre)
    case Nil
    have "Join (''DS'' # ?t) '' '' = ''DS'' @ '' '' @ Join ?t '' ''" by (rule J)
    then show ?case using Fields_cons [OF sDS] t by (simp only: append_Nil)
  next
    case (Cons w pre)
    have "Join ((w # pre) @ ''DS'' # ?t) '' '' = w @ '' '' @ Join (pre @ ''DS'' # ?t) '' ''"
      by (cases pre) simp_all
    then show ?case using Cons Fields_cons [of w] by simp
  qed
  have a: "after_DS (pre @ ''DS'' # ?t) = Some ?t"
    using assms(7) by (induction pre) (simp_all add: EqualFold_def)
  have n: "after_DS ?t = None" using assms(5) dec_not_DS by simp
  note pu = ParseUint_dec [OF assms(1)] ParseUint_dec [OF assms(2)] ParseUint_dec [OF assms(3)]
  have "parseDSRecord s = Inr r \<Longrightarrow> ds_key_tag r < 2 ^ 16 \<and> ds_algorithm r < 2 ^ 8 \<and> ds_digest_type r < 2 ^ 8"
    using ParseUint_bound by (fastforce simp: parseDSRecord_def Let_def split: if_splits sum.splits)
  then show ?thesis
    by (simp only: parseDSRecord_def t p a n Let_def option.case) (simp add: pu)
qed

lemma dns_ds_roundtrip_example:
  "parseDSRecord ''e. 300 IN DS 12 13 2 ab'' =
     Inr \<lparr>ds_key_tag = 12, ds_algorithm = 13, ds_digest_type = 2, ds_digest = ''AB''\<rparr>"
proof -
  have d: "dec 12 = ''12''" "dec 13 = ''13''" "dec 2 = ''2''" "ToUpper ''ab'' = ''AB''" by code_simp+
  have h: "spaceless ''ab''" "\<not> EqualFold ''ab'' ''DS''" "list_all spaceless [''e.'', ''300'', ''IN'']"
    "list_all (\<lambda>w. \<not> EqualFold w ''DS'') [''e.'', ''300'', ''IN'']" by code_simp+
  from dns_ds_roundtrip [OF _ _ _ h, of 12 13 2] d show ?thesis by simp
qed

end
