(* ===== verification/DNS_Zone.thy ===== *)
theory DNS_Zone
  imports PowerDNS
begin

text \<open>
  \<^verbatim>\<open>internal/service/dns/dns_service_zone.go\<close> with the model of \<^verbatim>\<open>internal/db/dns_zone.go\<close>: the zones in the
  database and in PowerDNS.  The table is that of the SQLite migration: \<open>domain = ?\<close> compares bytes
  and the unique index on live rows ignores case.  Each database operation takes the error it may
  meet, each request the server's answer from the interface of \<^verbatim>\<open>PowerDNS\<close>.
\<close>

section \<open>The table of zones\<close>

record zone_row =
  zr_id :: nat
  zr_user :: nat
  zr_domain :: string
  zr_status :: string
  zr_pdns :: string
  zr_checked :: "nat option"
  zr_verified :: "nat option"
  zr_deleted :: bool

record zone_db =
  zd_rows :: "zone_row list"
  zd_next :: nat

definition pending_nameserver :: string where "pending_nameserver = ''pending_nameserver''"
definition zone_active :: string where "zone_active = ''active''"

definition zone_status_valid :: "string \<Rightarrow> bool" where
  "zone_status_valid st \<longleftrightarrow> st = pending_nameserver \<or> st = zone_active"

definition zone_BeforeSave :: "zone_row \<Rightarrow> gerr option" where
  "zone_BeforeSave z =
     (if zone_status_valid (zr_status z) then None
      else Some (Opaque (''invalid zone status: '' @ zr_status z)))"

definition find_zone :: "nat \<Rightarrow> zone_db \<Rightarrow> zone_row option" where
  "find_zone i db = find (\<lambda>z. zr_id z = i \<and> \<not> zr_deleted z) (zd_rows db)"

definition same_live :: "string \<Rightarrow> zone_row \<Rightarrow> bool" where
  "same_live d z \<longleftrightarrow> \<not> zr_deleted z \<and> EqualFold (zr_domain z) d"

abbreviation zone_taken :: gerr where
  "zone_taken \<equiv> Opaque ''UNIQUE constraint failed: index idx_ipfs_dns_zones_domain''"

definition zone_insert :: "gerr option \<Rightarrow> zone_row \<Rightarrow> zone_db \<Rightarrow> gerr + (zone_row \<times> zone_db)" where
  "zone_insert fault z db =
     (case fault of
        Some e \<Rightarrow> Inl e
      | None \<Rightarrow>
          (case zone_BeforeSave z of
             Some e \<Rightarrow> Inl e
           | None \<Rightarrow>
               if list_ex (same_live (zr_domain z)) (zd_rows db) then Inl zone_taken
               else let z' = z\<lparr>zr_id := zd_next db\<rparr> in
                 Inr (z', db\<lparr>zd_rows := zd_rows db @ [z'], zd_next := zd_next db + 1\<rparr>)))"

text \<open>\<open>Save\<close> of a row, and \<open>Updates\<close> of one found by its primary key.\<close>

definition zone_save :: "gerr option \<Rightarrow> zone_row \<Rightarrow> zone_db \<Rightarrow> gerr + zone_db" where
  "zone_save fault z db =
     (case fault of
        Some e \<Rightarrow> Inl e
      | None \<Rightarrow>
          (case zone_BeforeSave z of
             Some e \<Rightarrow> Inl e
           | None \<Rightarrow>
               if \<not> zr_deleted z \<and>
                  list_ex (\<lambda>x. zr_id x \<noteq> zr_id z \<and> same_live (zr_domain z) x) (zd_rows db)
               then Inl zone_taken
               else Inr (db\<lparr>zd_rows := map (\<lambda>x. if zr_id x = zr_id z then z else x) (zd_rows db)\<rparr>)))"

section \<open>Validation of a domain\<close>

definition label_char :: "char \<Rightarrow> bool" where
  "label_char c \<longleftrightarrow>
     (let n = of_char c :: nat in
      (97 \<le> n \<and> n \<le> 122) \<or> (65 \<le> n \<and> n \<le> 90) \<or> (48 \<le> n \<and> n \<le> 57) \<or> c = CHR ''-'')"

definition label_error :: "string \<Rightarrow> gerr option" where
  "label_error l =
     (if l = [] \<or> 63 < length l then Some (Opaque ''domain label must be 1-63 characters'')
      else if hd l = CHR ''-'' \<or> last l = CHR ''-''
      then Some (Opaque ''domain label cannot start or end with hyphen'')
      else if \<not> list_all label_char l then Some (Opaque ''domain label contains invalid character'')
      else None)"

fun first_error :: "('a \<Rightarrow> gerr option) \<Rightarrow> 'a list \<Rightarrow> gerr option" where
  "first_error f [] = None"
| "first_error f (x # xs) = (case f x of Some e \<Rightarrow> Some e | None \<Rightarrow> first_error f xs)"

definition validateDomain :: "string \<Rightarrow> gerr option" where
  "validateDomain d =
     (if d = [] then Some (Opaque ''domain cannot be empty'')
      else if 255 < length d then Some (Opaque ''domain too long (max 255 characters)'')
      else first_error label_error (Split (TrimSuffix d ''.'') CHR ''.''))"

definition isDuplicateKeyError :: "gerr \<Rightarrow> bool" where
  "isDuplicateKeyError e \<longleftrightarrow>
     Contains (gerr_text e) ''UNIQUE constraint failed'' \<or>
     Contains (gerr_text e) ''Duplicate entry'' \<or> Contains (gerr_text e) ''duplicate key value''"

section \<open>The service\<close>

record dns_config =
  dc_nameservers :: "string list"
  dc_gateway :: string
  dc_token_key :: string

record 'p dns =
  dn_db :: zone_db
  dn_pdns :: 'p

text \<open>\<open>GetZone\<close>: a missing row keeps its sentinel error.\<close>

definition GetZone :: "gerr option \<Rightarrow> nat \<Rightarrow> zone_db \<Rightarrow> gerr + zone_row" where
  "GetZone fault i db =
     (case (case fault of Some e \<Rightarrow> Inl e
            | None \<Rightarrow> (case find_zone i db of Some z \<Rightarrow> Inr z | None \<Rightarrow> Inl RecordNotFound)) of
        Inl e \<Rightarrow> Inl (if e = RecordNotFound then e else Wrapped ''failed to get zone'' e)
      | Inr z \<Rightarrow> Inr z)"

definition GetZoneByDomain :: "gerr option \<Rightarrow> string \<Rightarrow> zone_db \<Rightarrow> gerr + zone_row option" where
  "GetZoneByDomain fault d db =
     (case fault of
        Some e \<Rightarrow> if e = RecordNotFound then Inr None else Inl (Wrapped ''failed to get zone by domain'' e)
      | None \<Rightarrow> Inr (find (\<lambda>z. zr_domain z = d) (zd_rows db)))"

text \<open>\<open>Updates(updates)\<close> on the row that was read.\<close>

definition zone_restore :: "gerr option \<Rightarrow> zone_row \<Rightarrow> zone_db \<Rightarrow> gerr + zone_db" where
  "zone_restore fault z db =
     (case fault of
        Some e \<Rightarrow> Inl e
      | None \<Rightarrow>
          if list_ex (\<lambda>x. zr_id x \<noteq> zr_id z \<and> same_live (zr_domain z) x) (zd_rows db)
          then Inl zone_taken
          else Inr (db\<lparr>zd_rows := map (\<lambda>x. if zr_id x = zr_id z
              then x\<lparr>zr_deleted := False, zr_status := zr_status z, zr_pdns := zr_pdns z\<rparr> else x) (zd_rows db)\<rparr>))"

definition restoreSoftDeletedZone ::
    "'p pdns_api option \<Rightarrow> dns_config \<Rightarrow> gerr option \<Rightarrow> zone_row \<Rightarrow> string \<Rightarrow> 'p dns \<Rightarrow> (gerr + zone_row) \<times> 'p dns" where
  "restoreSoftDeletedZone api cfg fault z domain s =
     (let z1 = z\<lparr>zr_deleted := False, zr_status := pending_nameserver\<rparr> in
      case api of
        None \<Rightarrow>
          (case zone_restore fault z1 (dn_db s) of
             Inl e \<Rightarrow> (Inl (Wrapped ''failed to restore soft-deleted zone'' e), s)
           | Inr db \<Rightarrow> (Inr z1, s\<lparr>dn_db := db\<rparr>))
      | Some a \<Rightarrow>
          if dc_nameservers cfg = [] then (Inl (Opaque ''no approved nameservers configured''), s)
          else case pdns_CreateZone a domain (dc_nameservers cfg) (dn_pdns s) of
            (Inl e, p) \<Rightarrow> (Inl (Wrapped ''failed to recreate zone in PowerDNS'' e), s\<lparr>dn_pdns := p\<rparr>)
          | (Inr zid, p) \<Rightarrow>
              (let z2 = z1\<lparr>zr_pdns := zid\<rparr> in
               case zone_restore fault z2 (dn_db s) of
                 Inl e \<Rightarrow>
                   (Inl (Wrapped ''failed to restore soft-deleted zone'' e),
                    s\<lparr>dn_pdns := (if zid \<noteq> [] then snd (pdns_DeleteZone a zid p) else p)\<rparr>)
               | Inr db \<Rightarrow> (Inr (if zid \<noteq> [] then z2 else z1), s\<lparr>dn_db := db, dn_pdns := p\<rparr>)))"

text \<open>The errors the database operations of \<open>CreateZone\<close> may meet.\<close>

record create_faults =
  cf_get :: "gerr option"
  cf_insert :: "gerr option"
  cf_get2 :: "gerr option"
  cf_restore :: "gerr option"

text \<open>What happens with a zone that is found: the owner is checked and a deleted row is restored.\<close>

definition existing_zone ::
    "'p pdns_api option \<Rightarrow> dns_config \<Rightarrow> create_faults \<Rightarrow> nat \<Rightarrow> string \<Rightarrow> zone_row \<Rightarrow> 'p dns \<Rightarrow>
     (gerr + zone_row) \<times> 'p dns" where
  "existing_zone api cfg fl user domain z s =
     (if zr_user z \<noteq> user then (Inl (Opaque ''domain is already owned by another user''), s)
      else if zr_deleted z then restoreSoftDeletedZone api cfg (cf_restore fl) z domain s
      else (Inr z, s))"

text \<open>The error of restoring the row of a concurrent request says where it comes from.\<close>

definition concurrent_zone ::
    "nat \<Rightarrow> zone_row \<Rightarrow> (gerr + zone_row) \<times> 'p dns \<Rightarrow> (gerr + zone_row) \<times> 'p dns" where
  "concurrent_zone user z r =
     (case fst r of
        Inl e \<Rightarrow>
          (Inl (if zr_user z \<noteq> user then e
                else Wrapped ''concurrent zone creation detected but failed to restore soft-deleted zone'' e), snd r)
      | Inr _ \<Rightarrow> r)"

text \<open>The row of a zone that PowerDNS has created.\<close>

definition create_row ::
    "'p pdns_api option \<Rightarrow> dns_config \<Rightarrow> create_faults \<Rightarrow> string \<Rightarrow> nat \<Rightarrow> string \<Rightarrow> 'p dns \<Rightarrow>
     (gerr + zone_row) \<times> 'p dns" where
  "create_row api cfg fl domain user zid s =
     (case zone_insert (cf_insert fl)
         \<lparr>zr_id = 0, zr_user = user, zr_domain = domain, zr_status = pending_nameserver, zr_pdns = zid,
          zr_checked = None, zr_verified = None, zr_deleted = False\<rparr> (dn_db s) of
        Inr (z, db) \<Rightarrow> (Inr z, s\<lparr>dn_db := db\<rparr>)
      | Inl e \<Rightarrow>
          if \<not> isDuplicateKeyError e then (Inl (Wrapped ''failed to create zone in database'' e), s)
          else case GetZoneByDomain (cf_get2 fl) domain (dn_db s) of
            Inl e \<Rightarrow> (Inl (Wrapped ''concurrent zone creation detected but failed to fetch existing'' e), s)
          | Inr None \<Rightarrow> (Inl (Opaque ''concurrent zone creation detected but existing zone not found''), s)
          | Inr (Some z) \<Rightarrow> concurrent_zone user z (existing_zone api cfg fl user domain z s))"

text \<open>\<open>others\<close> is what other requests do to the table between the lookup and the insertion.\<close>

definition CreateZone ::
    "'p pdns_api option \<Rightarrow> dns_config \<Rightarrow> create_faults \<Rightarrow> (zone_db \<Rightarrow> zone_db) \<Rightarrow> string \<Rightarrow> nat \<Rightarrow> 'p dns \<Rightarrow>
     (gerr + zone_row) \<times> 'p dns" where
  "CreateZone api cfg fl others domain user s =
     (case validateDomain domain of
        Some e \<Rightarrow> (Inl (Wrapped ''invalid domain'' e), s)
      | None \<Rightarrow>
     (case GetZoneByDomain (cf_get fl) domain (dn_db s) of
        Inl e \<Rightarrow> (Inl (Wrapped ''failed to check existing domain'' e), s)
      | Inr (Some z) \<Rightarrow> existing_zone api cfg fl user domain z s
      | Inr None \<Rightarrow>
     (case api of
        None \<Rightarrow> (Inl (Opaque ''DNS hosting not enabled''), s)
      | Some a \<Rightarrow>
     (if dc_nameservers cfg = [] then (Inl (Opaque ''no approved nameservers configured''), s)
      else case pdns_CreateZone a domain (dc_nameservers cfg) (dn_pdns s) of
        (Inl e, p) \<Rightarrow> (Inl (Wrapped ''failed to create zone in PowerDNS'' e), s\<lparr>dn_pdns := p\<rparr>)
      | (Inr zid, p) \<Rightarrow>
     create_row api cfg fl domain user zid (s\<lparr>dn_pdns := p, dn_db := others (dn_db s)\<rparr>)))))"

definition UpdateZone :: "gerr option \<Rightarrow> nat \<Rightarrow> string \<Rightarrow> zone_db \<Rightarrow> gerr option \<times> zone_db" where
  "UpdateZone fault i st db =
     (case find_zone i db of
        None \<Rightarrow> (Some (Wrapped ''failed to update zone'' RecordNotFound), db)
      | Some z \<Rightarrow>
          (case zone_save fault (z\<lparr>zr_status := st\<rparr>) db of
             Inl e \<Rightarrow> (Some (Wrapped ''failed to update zone'' e), db)
           | Inr db' \<Rightarrow> (None, db')))"

definition DeleteZone ::
    "'p pdns_api option \<Rightarrow> gerr option \<Rightarrow> gerr option \<Rightarrow> nat \<Rightarrow> 'p dns \<Rightarrow> gerr option \<times> 'p dns" where
  "DeleteZone api get_fault fault i s =
     (case GetZone get_fault i (dn_db s) of
        Inl e \<Rightarrow> (Some e, s)
      | Inr z \<Rightarrow>
          let s1 = (case api of
                      Some a \<Rightarrow> s\<lparr>dn_pdns := snd (pdns_DeleteZone a (zr_pdns z) (dn_pdns s))\<rparr>
                    | None \<Rightarrow> s)
          in (case fault of
                Some e \<Rightarrow> (Some (Wrapped ''failed to delete zone'' e), s1)
              | None \<Rightarrow>
                  (None, s1\<lparr>dn_db := (dn_db s1)\<lparr>zd_rows := map (\<lambda>x. if zr_id x = i
                     then x\<lparr>zr_deleted := True\<rparr> else x) (zd_rows (dn_db s1))\<rparr>\<rparr>)))"

definition nameserver_matches :: "string list \<Rightarrow> string list \<Rightarrow> bool" where
  "nameserver_matches approved hosts \<longleftrightarrow>
     list_ex (\<lambda>a. list_ex (\<lambda>h. TrimSuffix h ''.'' = TrimSuffix a ''.'') hosts) approved"

text \<open>\<open>saved\<close> is the error the final write may meet; a write of the check time alone is best effort.\<close>

definition ValidateNameservers ::
    "dns_config \<Rightarrow> gerr option \<Rightarrow> (string \<Rightarrow> gerr + string list) \<Rightarrow> nat \<Rightarrow> gerr option \<Rightarrow> nat \<Rightarrow> zone_db \<Rightarrow>
     (gerr + bool) \<times> zone_db" where
  "ValidateNameservers cfg get_fault lookup now saved i db =
     (case GetZone get_fault i db of
        Inl e \<Rightarrow> (Inl e, db)
      | Inr z \<Rightarrow>
          if dc_nameservers cfg = [] then (Inl (Opaque ''no approved nameservers configured for validation''), db)
          else
            let checked = (case zone_save saved (z\<lparr>zr_checked := Some now\<rparr>) db of Inr db' \<Rightarrow> db' | Inl _ \<Rightarrow> db) in
            case lookup (zr_domain z) of
              Inl e \<Rightarrow> (Inl (Wrapped ''failed to lookup nameservers for domain'' e), checked)
            | Inr hosts \<Rightarrow>
                if \<not> nameserver_matches (dc_nameservers cfg) hosts
                then (Inl (Opaque ''no approved nameservers found in DNS for domain''), checked)
                else (case zone_save saved (z\<lparr>zr_verified := Some now, zr_status := zone_active\<rparr>) db of
                        Inl e \<Rightarrow> (Inl (Wrapped ''failed to update zone'' e), db)
                      | Inr db' \<Rightarrow> (Inr True, db')))"

section \<open>The invariant of the table\<close>

definition zones_wf :: "zone_db \<Rightarrow> bool" where
  "zones_wf db \<longleftrightarrow>
     distinct (map zr_id (zd_rows db)) \<and> (\<forall>z \<in> set (zd_rows db). zr_id z < zd_next db) \<and>
     (\<forall>z \<in> set (zd_rows db). zone_status_valid (zr_status z)) \<and>
     (\<forall>x \<in> set (zd_rows db). \<forall>y \<in> set (zd_rows db). \<not> zr_deleted x \<longrightarrow> same_live (zr_domain x) y \<longrightarrow> zr_id x = zr_id y)"

lemma zones_wfD:
  assumes "zones_wf db"
  shows "distinct (map zr_id (zd_rows db))" "\<forall>z \<in> set (zd_rows db). zr_id z < zd_next db"
    "\<forall>z \<in> set (zd_rows db). zone_status_valid (zr_status z)"
  using assms unfolding zones_wf_def by blast+

lemma zones_wf_unique: "zones_wf db \<Longrightarrow> x \<in> set (zd_rows db) \<Longrightarrow> y \<in> set (zd_rows db) \<Longrightarrow> \<not> zr_deleted x \<Longrightarrow>
    same_live (zr_domain x) y \<Longrightarrow> zr_id x = zr_id y"
  unfolding zones_wf_def by blast

lemma same_live_sym: "same_live d z \<Longrightarrow> \<not> zr_deleted x \<Longrightarrow> zr_domain x = d \<Longrightarrow> same_live (zr_domain z) x"
  by (simp add: same_live_def EqualFold_def)

lemma find_zone_SomeD: "find_zone i db = Some z \<Longrightarrow> z \<in> set (zd_rows db) \<and> zr_id z = i \<and> \<not> zr_deleted z"
  by (auto simp: find_zone_def find_Some_iff)

lemma zone_insert_wf:
  assumes "zones_wf db" and "zone_insert fault z db = Inr (z', db')"
  shows "zones_wf db' \<and> z' \<in> set (zd_rows db') \<and> z' = z\<lparr>zr_id := zd_next db\<rparr>"
proof -
  have ins: "zone_BeforeSave z = None" "\<not> list_ex (same_live (zr_domain z)) (zd_rows db)"
    "z' = z\<lparr>zr_id := zd_next db\<rparr>"
    "db' = db\<lparr>zd_rows := zd_rows db @ [z\<lparr>zr_id := zd_next db\<rparr>], zd_next := zd_next db + 1\<rparr>"
    using assms(2)
    by (cases fault; cases "zone_BeforeSave z"; cases "list_ex (same_live (zr_domain z)) (zd_rows db)";
        simp add: zone_insert_def Let_def)+
  have n: "\<forall>x \<in> set (zd_rows db). \<not> same_live (zr_domain z) x" "zone_status_valid (zr_status z)"
    using ins(1,2) by (auto simp: zone_BeforeSave_def list_ex_iff split: if_splits)
  have z': "z' = z\<lparr>zr_id := zd_next db\<rparr>" "zd_rows db' = zd_rows db @ [z']" "zd_next db' = zd_next db + 1"
    using ins(3,4) by simp_all
  have d: "zr_domain z' = zr_domain z" by (simp add: z'(1))
  have live: "\<not> same_live (zr_domain z') x \<and> (\<not> zr_deleted x \<longrightarrow> \<not> same_live (zr_domain x) z')"
    if "x \<in> set (zd_rows db)" for x
    using bspec [OF n(1) that] unfolding same_live_def EqualFold_def d by metis
  have "zones_wf db'"
    unfolding zones_wf_def z'(2,3)
  proof (intro conjI ballI impI)
    show "distinct (map zr_id (zd_rows db @ [z']))" using zones_wfD(1,2) [OF assms(1)] z'(1) by fastforce
  next
    fix y assume y: "y \<in> set (zd_rows db @ [z'])"
    then show "zr_id y < zd_next db + 1" using zones_wfD(2) [OF assms(1)] z'(1) by fastforce
    show "zone_status_valid (zr_status y)" using y zones_wfD(3) [OF assms(1)] z'(1) n(2) by auto
  next
    fix x y assume xy: "x \<in> set (zd_rows db @ [z'])" "y \<in> set (zd_rows db @ [z'])" "\<not> zr_deleted x"
      "same_live (zr_domain x) y"
    then consider "x \<in> set (zd_rows db)" "y \<in> set (zd_rows db)" | "x = y" using live by auto
    then show "zr_id x = zr_id y" using zones_wf_unique [OF assms(1) _ _ xy(3,4)] by cases auto
  qed
  then show ?thesis using z' by simp
qed

text \<open>A change of one row keeps the invariant when it keeps the id, gives a valid status, and the row, if it is live
  then, has no live namesake.\<close>

lemma zones_wf_update:
  assumes wf: "zones_wf db"
    and g: "\<And>x. x \<in> set (zd_rows db) \<Longrightarrow> zr_id x = i \<Longrightarrow> zr_id (g x) = i \<and> zone_status_valid (zr_status (g x))"
    and live: "\<And>x y. x \<in> set (zd_rows db) \<Longrightarrow> zr_id x = i \<Longrightarrow> \<not> zr_deleted (g x) \<Longrightarrow>
      y \<in> set (zd_rows db) \<Longrightarrow> zr_id y \<noteq> i \<Longrightarrow> \<not> same_live (zr_domain (g x)) y"
  shows "zones_wf (db\<lparr>zd_rows := map (\<lambda>x. if zr_id x = i then g x else x) (zd_rows db)\<rparr>)"
proof -
  define f where "f = (\<lambda>x. if zr_id x = i then g x else x)"
  have id: "zr_id (f x) = zr_id x" if "x \<in> set (zd_rows db)" for x using g that by (simp add: f_def)
  then have ids: "map zr_id (map f (zd_rows db)) = map zr_id (zd_rows db)" by simp
  have st: "zone_status_valid (zr_status (f x))" if "x \<in> set (zd_rows db)" for x
    using g that zones_wfD(3) [OF wf] by (simp add: f_def)
  have u: "zr_id x = zr_id y" if xy: "x \<in> set (zd_rows db)" "y \<in> set (zd_rows db)" "\<not> zr_deleted (f x)"
    "same_live (zr_domain (f x)) (f y)" for x y
  proof -
    have yx: "\<not> zr_deleted (f y)" "same_live (zr_domain (f y)) (f x)"
      using xy(3,4) by (auto simp: same_live_def EqualFold_def)
    consider "zr_id x = i" "zr_id y = i" | "zr_id x = i" "zr_id y \<noteq> i" | "zr_id x \<noteq> i" "zr_id y = i"
      | "zr_id x \<noteq> i" "zr_id y \<noteq> i" by blast
    then show ?thesis
    proof cases
      case 2
      then show ?thesis using live [OF xy(1) _ _ xy(2)] xy(3,4) by (simp add: f_def)
    next
      case 3
      then show ?thesis using live [OF xy(2) _ _ xy(1)] yx by (simp add: f_def)
    next
      case 4
      then have "\<not> zr_deleted x" "same_live (zr_domain x) y" using xy(3,4) by (simp_all add: f_def)
      then show ?thesis by (rule zones_wf_unique [OF wf xy(1,2)])
    qed simp
  qed
  have "zones_wf (db\<lparr>zd_rows := map f (zd_rows db)\<rparr>)"
    unfolding zones_wf_def
  proof (intro conjI ballI impI)
    have "distinct (map zr_id (map f (zd_rows db)))" unfolding ids by (rule zones_wfD(1) [OF wf])
    then show "distinct (map zr_id (zd_rows (db\<lparr>zd_rows := map f (zd_rows db)\<rparr>)))" by simp
  next
    fix z assume "z \<in> set (zd_rows (db\<lparr>zd_rows := map f (zd_rows db)\<rparr>))"
    then obtain x where x: "x \<in> set (zd_rows db)" "z = f x" by auto
    show "zr_id z < zd_next (db\<lparr>zd_rows := map f (zd_rows db)\<rparr>)" using zones_wfD(2) [OF wf] id x by simp
    show "zone_status_valid (zr_status z)" using st x by simp
  next
    fix x y assume "x \<in> set (zd_rows (db\<lparr>zd_rows := map f (zd_rows db)\<rparr>))"
      "y \<in> set (zd_rows (db\<lparr>zd_rows := map f (zd_rows db)\<rparr>))" "\<not> zr_deleted x" "same_live (zr_domain x) y"
    then show "zr_id x = zr_id y" using u id by auto
  qed
  then show ?thesis by (simp add: f_def)
qed

lemma zone_save_wf:
  assumes "zones_wf db" and "zone_save fault z db = Inr db'"
  shows "zones_wf db'"
  using assms by (auto simp: zone_save_def zone_BeforeSave_def list_ex_iff same_live_def
      split: option.splits if_splits intro!: zones_wf_update)

lemma zone_restore_wf:
  assumes "zones_wf db" and "zone_restore fault z db = Inr db'" and "zone_status_valid (zr_status z)"
    and "\<forall>x \<in> set (zd_rows db). zr_id x = zr_id z \<longrightarrow> zr_domain x = zr_domain z"
  shows "zones_wf db'"
  using assms by (auto simp: zone_restore_def list_ex_iff split: option.splits if_splits intro!: zones_wf_update)

lemma UpdateZone_wf: "zones_wf db \<Longrightarrow> zones_wf (snd (UpdateZone fault i st db))"
  using zone_save_wf by (auto simp: UpdateZone_def split: option.splits sum.splits)

lemma DeleteZone_wf: "zones_wf (dn_db s) \<Longrightarrow> zones_wf (dn_db (snd (DeleteZone api gf fault i s)))"
  by (auto simp: DeleteZone_def Let_def split: sum.splits option.splits intro!: zones_wf_update)
    (use zones_wfD in auto)

lemma ValidateNameservers_wf:
  "zones_wf db \<Longrightarrow> zones_wf (snd (ValidateNameservers cfg gf lookup now saved i db))"
  using zone_save_wf by (auto simp: ValidateNameservers_def Let_def split: sum.splits)

section \<open>Creation\<close>

definition owned_zone :: "nat \<Rightarrow> string \<Rightarrow> gerr + zone_row \<Rightarrow> zone_db \<Rightarrow> bool" where
  "owned_zone user d r db \<longleftrightarrow>
     (\<forall>z. r = Inr z \<longrightarrow> \<not> zr_deleted z \<and> zr_user z = user \<and> zr_domain z = d \<and>
        (\<exists>w \<in> set (zd_rows db). zr_id w = zr_id z \<and> \<not> zr_deleted w \<and> zr_user w = user \<and> zr_domain w = d))"

lemma owned_zone_Inl [simp]: "owned_zone user d (Inl e) db"
  by (simp add: owned_zone_def)

lemma owned_zoneI: "z \<in> set (zd_rows db) \<Longrightarrow> \<not> zr_deleted z \<Longrightarrow> zr_user z = user \<Longrightarrow> zr_domain z = d \<Longrightarrow>
    owned_zone user d (Inr z) db"
  by (auto simp: owned_zone_def)

lemma zone_restore_owned:
  assumes wf: "zones_wf db" and r: "zone_restore fault z1 db = Inr db'"
    and z: "z \<in> set (zd_rows db)" "zr_id z1 = zr_id z" "zr_domain z1 = zr_domain z" "zone_status_valid (zr_status z1)"
    and z2: "zr_id z2 = zr_id z" "zr_domain z2 = zr_domain z" "zr_user z2 = zr_user z" "\<not> zr_deleted z2"
  shows "zones_wf db' \<and> owned_zone (zr_user z) (zr_domain z) (Inr z2) db'"
proof -
  have "\<forall>x \<in> set (zd_rows db). zr_id x = zr_id z1 \<longrightarrow> zr_domain x = zr_domain z1"
    using zones_wfD(1) [OF wf] z by (auto simp: distinct_map dest: inj_onD)
  then have "zones_wf db'" using zone_restore_wf [OF wf r z(4)] by blast
  moreover have "zd_rows db' = map (\<lambda>x. if zr_id x = zr_id z1
      then x\<lparr>zr_deleted := False, zr_status := zr_status z1, zr_pdns := zr_pdns z1\<rparr> else x) (zd_rows db)"
    using r by (auto simp: zone_restore_def split: option.splits if_splits)
  then have "z\<lparr>zr_deleted := False, zr_status := zr_status z1, zr_pdns := zr_pdns z1\<rparr> \<in> set (zd_rows db')"
    using z(1,2) by force
  moreover have "\<exists>w \<in> set (zd_rows db'). zr_id w = zr_id z2 \<and> \<not> zr_deleted w \<and> zr_user w = zr_user z \<and>
      zr_domain w = zr_domain z"
    by (rule bexI [OF _ \<open>z\<lparr>zr_deleted := False, zr_status := zr_status z1, zr_pdns := zr_pdns z1\<rparr> \<in> set (zd_rows db')\<close>])
      (simp add: z2)
  ultimately show ?thesis using z2 unfolding owned_zone_def by blast
qed

lemma restore_owned:
  assumes wf: "zones_wf (dn_db s)" and z: "z \<in> set (zd_rows (dn_db s))"
    and r: "restoreSoftDeletedZone api cfg fault z d s = (res, s')"
  shows "zones_wf (dn_db s') \<and> owned_zone (zr_user z) (zr_domain z) res (dn_db s')"
proof (cases api)
  case None
  show ?thesis
  proof (cases "zone_restore fault (z\<lparr>zr_deleted := False, zr_status := pending_nameserver\<rparr>) (dn_db s)")
    case (Inr db)
    have "res = Inr (z\<lparr>zr_deleted := False, zr_status := pending_nameserver\<rparr>)" "s' = s\<lparr>dn_db := db\<rparr>"
      using r None Inr by (simp_all add: restoreSoftDeletedZone_def Let_def)
    then show ?thesis
      using zone_restore_owned [OF wf Inr z, of "z\<lparr>zr_deleted := False, zr_status := pending_nameserver\<rparr>"]
      by (simp add: zone_status_valid_def)
  qed (use r None wf in \<open>auto simp: restoreSoftDeletedZone_def Let_def\<close>)
next
  case (Some a)
  show ?thesis
  proof (cases "dc_nameservers cfg = []")
    case False
    obtain c p where c: "pdns_CreateZone a d (dc_nameservers cfg) (dn_pdns s) = (c, p)" by force
    show ?thesis
    proof (cases c)
      case (Inr zid)
      let ?z2 = "z\<lparr>zr_deleted := False, zr_status := pending_nameserver, zr_pdns := zid\<rparr>"
      show ?thesis
      proof (cases "zone_restore fault ?z2 (dn_db s)")
        case (Inl e)
        then show ?thesis using r Some False c Inr wf by (auto simp: restoreSoftDeletedZone_def Let_def)
      next
        case (Inr db)
        have "s' = s\<lparr>dn_db := db, dn_pdns := p\<rparr>"
          "res = Inr (if zid \<noteq> [] then ?z2 else z\<lparr>zr_deleted := False, zr_status := pending_nameserver\<rparr>)"
          using r Some False c \<open>c = Inr zid\<close> Inr by (simp_all add: restoreSoftDeletedZone_def Let_def)
        then show ?thesis
          using zone_restore_owned [OF wf Inr z, of ?z2]
            zone_restore_owned [OF wf Inr z, of "z\<lparr>zr_deleted := False, zr_status := pending_nameserver\<rparr>"]
          by (simp add: zone_status_valid_def)
      qed
    qed (use r Some False c wf in \<open>auto simp: restoreSoftDeletedZone_def Let_def\<close>)
  qed (use r Some wf in \<open>auto simp: restoreSoftDeletedZone_def Let_def\<close>)
qed

lemma existing_zone_owned:
  assumes wf: "zones_wf (dn_db s)" and z: "find (\<lambda>z. zr_domain z = d) (zd_rows (dn_db s)) = Some z"
    and r: "existing_zone api cfg fl user d z s = (res, s')"
  shows "zones_wf (dn_db s') \<and> owned_zone user d res (dn_db s')"
proof -
  have m: "z \<in> set (zd_rows (dn_db s))" "zr_domain z = d" using z by (auto simp: find_Some_iff)
  consider "zr_user z \<noteq> user" | "zr_user z = user" "zr_deleted z" | "zr_user z = user" "\<not> zr_deleted z" by blast
  then show ?thesis
  proof cases
    case 2
    then show ?thesis using restore_owned [OF wf m(1), of api cfg "cf_restore fl" d] r m(2) by (simp add: existing_zone_def)
  qed (use r wf m in \<open>auto simp: existing_zone_def owned_zone_def\<close>)
qed

lemma GetZoneByDomain_Some: "GetZoneByDomain fault d db = Inr (Some z) \<Longrightarrow>
    find (\<lambda>z. zr_domain z = d) (zd_rows db) = Some z"
  by (auto simp: GetZoneByDomain_def split: option.splits if_splits)

lemma concurrent_zone_owned:
  "owned_zone user d (fst (concurrent_zone user z r)) db = owned_zone user d (fst r) db"
  "snd (concurrent_zone user z r) = snd r"
  by (auto simp: concurrent_zone_def split: sum.splits)

lemma create_row_owned:
  assumes wf: "zones_wf (dn_db s)" and r: "create_row api cfg fl d user zid s = (res, s')"
  shows "zones_wf (dn_db s') \<and> owned_zone user d res (dn_db s')"
proof -
  define row where "row = \<lparr>zr_id = 0, zr_user = user, zr_domain = d, zr_status = pending_nameserver,
    zr_pdns = zid, zr_checked = None, zr_verified = None, zr_deleted = False\<rparr>"
  show ?thesis
  proof (cases "zone_insert (cf_insert fl) row (dn_db s)")
    case (Inr zdb)
    obtain z db where zdb: "zdb = (z, db)" by force
    have i: "zones_wf db" "z \<in> set (zd_rows db)" "z = row\<lparr>zr_id := zd_next (dn_db s)\<rparr>"
      using zone_insert_wf [OF wf, of "cf_insert fl" row z db] Inr zdb by blast+
    have "res = Inr z" "s' = s\<lparr>dn_db := db\<rparr>"
      using r Inr zdb by (simp_all add: create_row_def row_def)
    moreover have "owned_zone user d (Inr z) db" using i(2,3) by (intro owned_zoneI) (simp_all add: row_def)
    ultimately show ?thesis using i(1) by simp
  next
    case ins: (Inl e)
    show ?thesis
    proof (cases "\<exists>z. isDuplicateKeyError e \<and> GetZoneByDomain (cf_get2 fl) d (dn_db s) = Inr (Some z)")
      case True
      then obtain z where z: "isDuplicateKeyError e" "GetZoneByDomain (cf_get2 fl) d (dn_db s) = Inr (Some z)" by blast
      have "concurrent_zone user z (existing_zone api cfg fl user d z s) = (res, s')"
        using r ins z by (simp add: create_row_def row_def)
      then show ?thesis
        using existing_zone_owned [OF wf GetZoneByDomain_Some [OF z(2)], of api cfg fl user
            "fst (existing_zone api cfg fl user d z s)" "snd (existing_zone api cfg fl user d z s)"]
          concurrent_zone_owned(1) [of user d z "existing_zone api cfg fl user d z s"]
          concurrent_zone_owned(2) [of user z "existing_zone api cfg fl user d z s"]
        by simp
    next
      case False
      then show ?thesis
        using r ins wf by (auto simp: create_row_def row_def split: if_splits sum.splits option.splits)
    qed
  qed
qed

lemma CreateZone_owned:
  assumes wf: "zones_wf (dn_db s)" and others: "\<And>db. zones_wf db \<Longrightarrow> zones_wf (others db)"
    and r: "CreateZone api cfg fl others d user s = (res, s')"
  shows "zones_wf (dn_db s') \<and> owned_zone user d res (dn_db s')"
proof (cases "\<exists>z. validateDomain d = None \<and> GetZoneByDomain (cf_get fl) d (dn_db s) = Inr (Some z)")
  case True
  then obtain z where z: "validateDomain d = None" "GetZoneByDomain (cf_get fl) d (dn_db s) = Inr (Some z)" by blast
  then show ?thesis
    using existing_zone_owned [OF wf GetZoneByDomain_Some [OF z(2)]] r by (simp add: CreateZone_def)
next
  case nz: False
  have wf1: "zones_wf (dn_db (s\<lparr>dn_pdns := p, dn_db := others (dn_db s)\<rparr>))" for p using others wf by simp
  show ?thesis
    using r nz wf
    by (auto simp: CreateZone_def split: option.splits sum.splits if_splits prod.splits
        dest!: create_row_owned [OF wf1])
qed

section \<open>Properties\<close>

text \<open>C8. Every operation on zones keeps the table well-formed (ids are unique, statuses valid, and no two live zones
  have the same domain up to case), whatever other requests do while \<open>CreateZone\<close> waits for
  PowerDNS; and a zone \<open>CreateZone\<close> returns is live in the table, for that domain, and belongs to the
  user who asked.\<close>

theorem dns_zones_owned:
  assumes wf: "zones_wf (dn_db s)" and others: "\<And>db. zones_wf db \<Longrightarrow> zones_wf (others db)"
  shows "zones_wf (dn_db (snd (CreateZone api cfg fl others d user s))) \<and>
    owned_zone user d (fst (CreateZone api cfg fl others d user s)) (dn_db (snd (CreateZone api cfg fl others d user s))) \<and>
    zones_wf (snd (UpdateZone fault i st (dn_db s))) \<and> zones_wf (dn_db (snd (DeleteZone api gf fault i s))) \<and>
    zones_wf (snd (ValidateNameservers cfg gf lookup now saved i (dn_db s)))"
proof (intro conjI)
  note C = CreateZone_owned [OF wf _ surjective_pairing, of others api cfg fl d user]
  show "zones_wf (dn_db (snd (CreateZone api cfg fl others d user s)))" using C others by blast
  show "owned_zone user d (fst (CreateZone api cfg fl others d user s))
      (dn_db (snd (CreateZone api cfg fl others d user s)))" using C others by blast
qed (rule UpdateZone_wf [OF wf] DeleteZone_wf [OF wf] ValidateNameservers_wf [OF wf])+

text \<open>A server that knows one zone, and the table with that zone of user 1.\<close>

definition ex_zone :: zone_row where
  "ex_zone = \<lparr>zr_id = 0, zr_user = 1, zr_domain = ''a.com'', zr_status = zone_active, zr_pdns = ''a.com.'',
     zr_checked = None, zr_verified = None, zr_deleted = False\<rparr>"

definition ex_dns :: "unit dns" where
  "ex_dns = \<lparr>dn_db = \<lparr>zd_rows = [ex_zone], zd_next = 1\<rparr>, dn_pdns = ()\<rparr>"

definition ex_api :: "unit pdns_api" where
  "ex_api = \<lparr>pa_create = (\<lambda>_ _ p. (Inr \<lparr>h_status = 409, h_text = ''Conflict'', h_body = Inl EOF\<rparr>, p)),
     pa_get = (\<lambda>d _. Inr \<lparr>h_status = 200, h_text = [],
       h_body = Inr \<lparr>pz_id = Some d, pz_rrsets = None\<rparr>\<rparr>),
     pa_patch = (\<lambda>_ _ p. (Inr \<lparr>h_status = 422, h_text = [], h_body = Inr ()\<rparr>, p)),
     pa_delete = (\<lambda>_ p. (Inr \<lparr>h_status = 204, h_text = [], h_body = Inr ()\<rparr>, p))\<rparr>"

definition ex_cfg :: dns_config where
  "ex_cfg = \<lparr>dc_nameservers = [''ns1.p.net''], dc_gateway = ''gw.p.net'', dc_token_key = ''_verify''\<rparr>"

abbreviation no_faults :: create_faults where
  "no_faults \<equiv> \<lparr>cf_get = None, cf_insert = None, cf_get2 = None, cf_restore = None\<rparr>"

lemma ex_dns_wf: "zones_wf (dn_db ex_dns)"
  by (simp add: zones_wf_def ex_dns_def ex_zone_def zone_status_valid_def)

theorem dns_zones_owned_witness:
  "zones_wf (dn_db (snd (CreateZone (Some ex_api) ex_cfg no_faults id ''b.com'' 2 ex_dns)))"
  using dns_zones_owned [OF ex_dns_wf, of id "Some ex_api" ex_cfg no_faults "''b.com''" 2] by simp

text \<open>A domain with a final dot is not recognised as the one without it: when the zone of a domain exists, in the
  table of one user and in PowerDNS, another user who asks for the domain with a dot appended gets a
  zone of his own that stands for the same PowerDNS zone.\<close>

lemma dns_zone_takeover:
  assumes z: "z \<in> set (zd_rows (dn_db s))" "zr_domain z = d" "\<not> zr_deleted z" "zr_user z \<noteq> user"
    and dot: "validateDomain (d @ ''.'') = None" "dc_nameservers cfg \<noteq> []"
      "\<forall>x \<in> set (zd_rows (dn_db s)). \<not> EqualFold (zr_domain x) (d @ ''.'')"
    and srv: "pa_create a (d @ ''.'') (map canonical (dc_nameservers cfg)) (dn_pdns s) = (Inr r, p)"
      "h_status r = 409" "pdns_GetZone a (d @ ''.'') p = Inr \<lparr>pz_id = Some (zr_pdns z), pz_rrsets = rs\<rparr>"
  shows "\<exists>z' s'. CreateZone (Some a) cfg no_faults id (d @ ''.'') user s = (Inr z', s') \<and>
    zr_user z' = user \<and> zr_pdns z' = zr_pdns z \<and> z \<in> set (zd_rows (dn_db s'))"
proof -
  have c: "canonical (d @ ''.'') = d @ ''.''" by (simp add: canonical_def)
  have "handleResponse r = Inl (Opaque (''PowerDNS API returned status '' @ dec 409 @ '', body: '' @ h_text r))"
    using srv(2) by (simp add: handleResponse_def status_ok_def)
  moreover have "Contains (''PowerDNS API returned status '' @ dec 409 @ '', body: '' @ h_text r) ''status 409''"
  proof -
    have "''PowerDNS API returned status '' @ dec 409 = ''PowerDNS API returned '' @ ''status 409''" by code_simp
    then show ?thesis using Contains_infix [of "''PowerDNS API returned ''" "''status 409''"]
      by (metis append.assoc)
  qed
  ultimately have pd: "pdns_CreateZone a (d @ ''.'') (dc_nameservers cfg) (dn_pdns s) = (Inr (zr_pdns z), p)"
    using srv c by (simp add: pdns_CreateZone_def)
  have "GetZoneByDomain None (d @ ''.'') (dn_db s) = Inr None"
    using dot(3) by (auto simp: GetZoneByDomain_def find_None_iff EqualFold_def)
  moreover have "\<not> list_ex (same_live (d @ ''.'')) (zd_rows (dn_db s))"
    using dot(3) by (auto simp: list_ex_iff same_live_def)
  ultimately show ?thesis
    using dot(1,2) pd z(1)
    by (simp add: CreateZone_def create_row_def zone_insert_def zone_BeforeSave_def zone_status_valid_def Let_def)
qed

lemma dns_zone_takeover_example:
  "\<exists>z' s'. CreateZone (Some ex_api) ex_cfg no_faults id ''a.com.'' 2 ex_dns = (Inr z', s') \<and>
     zr_user z' = 2 \<and> zr_pdns z' = zr_pdns ex_zone"
proof -
  have h: "ex_zone \<in> set (zd_rows (dn_db ex_dns))" "zr_domain ex_zone = ''a.com''" "\<not> zr_deleted ex_zone"
    "zr_user ex_zone \<noteq> 2" "validateDomain (''a.com'' @ ''.'') = None" "dc_nameservers ex_cfg \<noteq> []"
    "\<forall>x \<in> set (zd_rows (dn_db ex_dns)). \<not> EqualFold (zr_domain x) (''a.com'' @ ''.'')"
    by code_simp+
  have c: "pa_create ex_api (''a.com'' @ ''.'') (map canonical (dc_nameservers ex_cfg)) (dn_pdns ex_dns) =
      (Inr \<lparr>h_status = 409, h_text = ''Conflict'', h_body = Inl EOF\<rparr>, ())"
    by (simp add: ex_api_def ex_dns_def)
  have g: "pdns_GetZone ex_api (''a.com'' @ ''.'') () = Inr \<lparr>pz_id = Some (zr_pdns ex_zone), pz_rrsets = None\<rparr>"
    by (simp add: pdns_GetZone_def ex_api_def handleResponse_def status_ok_def ex_zone_def)
  from dns_zone_takeover [OF h c _ g]
  have "\<exists>z' s'. CreateZone (Some ex_api) ex_cfg no_faults id (''a.com'' @ ''.'') 2 ex_dns = (Inr z', s') \<and>
      zr_user z' = 2 \<and> zr_pdns z' = zr_pdns ex_zone \<and> ex_zone \<in> set (zd_rows (dn_db s'))"
    by simp
  then show ?thesis by auto
qed

end
