(* ===== verification/DNS_Record.thy ===== *)
theory DNS_Record
  imports DNS_Zone
begin

text \<open>
  \<^verbatim>\<open>internal/service/dns/dns_service_record.go\<close> and \<^verbatim>\<open>dns_helpers.go\<close>: the records of a zone, which live in
  PowerDNS, and the import of a zone file.  The zone file parser, the sort of Go's library and the
  server are parameters.  Each operation takes the errors its lookups of the zone may meet.
\<close>

section \<open>Names and contents\<close>

definition buildFullName :: "string \<Rightarrow> string \<Rightarrow> string" where
  "buildFullName name domain =
     (let n = TrimSuffix name ''.''; d = TrimSuffix domain ''.'' in
      if n = d then d @ ''.''
      else if HasSuffix n (''.'' @ d) then n @ ''.''
      else n @ ''.'' @ d @ ''.'')"

definition stripDomain :: "string \<Rightarrow> string \<Rightarrow> string" where
  "stripDomain name domain =
     (if HasSuffix name (''.'' @ domain) then TrimSuffix name (''.'' @ domain) else name)"

definition getTTL :: "int option \<Rightarrow> int" where
  "getTTL t = (case t of Some t \<Rightarrow> t | None \<Rightarrow> 3600)"

definition getDisabled :: "bool option \<Rightarrow> bool" where
  "getDisabled d = (case d of Some d \<Rightarrow> d | None \<Rightarrow> False)"

definition IsManagedByPowerDNS :: "string \<Rightarrow> bool" where
  "IsManagedByPowerDNS t \<longleftrightarrow> t = ''SOA'' \<or> t = ''NS''"

definition FilterUserManageableRecords :: "rrset list \<Rightarrow> rrset list" where
  "FilterUserManageableRecords rs = filter (\<lambda>r. \<not> IsManagedByPowerDNS (rs_type r)) rs"

definition quote_char :: char where "quote_char = char_of (34 :: nat)"

definition quoted :: "string \<Rightarrow> bool" where
  "quoted c \<longleftrightarrow> 2 \<le> length c \<and> hd c = quote_char \<and> last c = quote_char"

definition formatTXTContent :: "string \<Rightarrow> string" where
  "formatTXTContent c = (if quoted c then c else [quote_char] @ c @ [quote_char])"

definition formatRecordContent :: "string \<Rightarrow> string \<Rightarrow> string" where
  "formatRecordContent t c = (if EqualFold t ''TXT'' then formatTXTContent c else c)"

definition stripTXTQuotes :: "string \<Rightarrow> string \<Rightarrow> string" where
  "stripTXTQuotes t c = (if EqualFold t ''TXT'' \<and> quoted c then butlast (tl c) else c)"

definition GetDefaultTTL :: "u64 \<Rightarrow> u64" where
  "GetDefaultTTL ttl = (if ttl = 0 then 3600 else ttl)"

definition buildRRSet :: "string \<Rightarrow> string \<Rightarrow> string \<Rightarrow> int option \<Rightarrow> rr list option \<Rightarrow> rrset" where
  "buildRRSet name t change ttl recs =
     \<lparr>rs_name = name, rs_type = t, rs_change = change, rs_ttl = ttl, rs_records = recs\<rparr>"

record dns_record =
  dr_zone :: nat
  dr_name :: string
  dr_type :: string
  dr_content :: string
  dr_ttl :: u64
  dr_disabled :: bool

definition recordToDTOWithZoneID :: "rrset \<Rightarrow> rr \<Rightarrow> string \<Rightarrow> nat \<Rightarrow> dns_record" where
  "recordToDTOWithZoneID rs r domain i =
     \<lparr>dr_zone = i, dr_name = stripDomain (rs_name rs) domain, dr_type = rs_type rs,
      dr_content = stripTXTQuotes (rs_type rs) (rr_content r), dr_ttl = word_of_int (getTTL (rs_ttl rs)),
      dr_disabled = getDisabled (rr_disabled r)\<rparr>"

section \<open>Reading\<close>

text \<open>A method called on the nil client dereferences it.\<close>

abbreviation nil_panic :: gerr where "nil_panic \<equiv> Opaque ''runtime error: nil pointer dereference''"

definition getZoneWithPowerDNS ::
    "'p pdns_api option \<Rightarrow> gerr option \<Rightarrow> nat \<Rightarrow> 'p dns \<Rightarrow> gerr + (zone_row \<times> pzone)" where
  "getZoneWithPowerDNS api fault i s =
     (case GetZone fault i (dn_db s) of
        Inl e \<Rightarrow> Inl (Wrapped ''failed to get zone'' e)
      | Inr z \<Rightarrow>
          if zr_pdns z = [] then Inl (Opaque ''zone not properly initialized in PowerDNS'')
          else case api of
            None \<Rightarrow> Inl nil_panic
          | Some a \<Rightarrow>
              (case pdns_GetZone a (zr_pdns z) (dn_pdns s) of
                 Inl e \<Rightarrow> Inl (Wrapped ''failed to get PowerDNS zone'' e)
               | Inr pz \<Rightarrow> Inr (z, pz)))"

definition the_rrsets :: "pzone \<Rightarrow> rrset list" where
  "the_rrsets pz = (case pz_rrsets pz of Some rs \<Rightarrow> rs | None \<Rightarrow> [])"

definition find_rrset :: "string \<Rightarrow> string \<Rightarrow> pzone \<Rightarrow> rrset option" where
  "find_rrset n t pz = find (\<lambda>r. rs_name r = n \<and> rs_type r = t) (the_rrsets pz)"

definition GetRRSet ::
    "'p pdns_api option \<Rightarrow> gerr option \<Rightarrow> nat \<Rightarrow> string \<Rightarrow> string \<Rightarrow> 'p dns \<Rightarrow> gerr + dns_record list" where
  "GetRRSet api fault i name t s =
     (case getZoneWithPowerDNS api fault i s of
        Inl e \<Rightarrow> Inl e
      | Inr (z, pz) \<Rightarrow>
          (case find_rrset (buildFullName name (zr_domain z)) t pz of
             None \<Rightarrow> Inl (Opaque ''RRSet not found'')
           | Some rs \<Rightarrow>
               (case rs_records rs of
                  None \<Rightarrow> Inl (Opaque ''RRSet not found'')
                | Some rrs \<Rightarrow> Inr (map (\<lambda>r. recordToDTOWithZoneID rs r (zr_domain z) i) rrs))))"

datatype filter_op = OpEq | OpContains | OpStartswith | OpEndswith | OpOther

text \<open>A filter's value that is no string is \<open>None\<close>.\<close>

record crud_filter =
  cf_field :: string
  cf_value :: "string option"
  cf_op :: filter_op

definition matchField :: "string \<Rightarrow> string option \<Rightarrow> filter_op \<Rightarrow> bool" where
  "matchField f v op =
     (case v of
        None \<Rightarrow> False
      | Some v \<Rightarrow>
          (case op of
             OpEq \<Rightarrow> f = v
           | OpContains \<Rightarrow> Contains (ToLower f) (ToLower v)
           | OpStartswith \<Rightarrow> HasPrefix (ToLower f) (ToLower v)
           | OpEndswith \<Rightarrow> HasSuffix (ToLower f) (ToLower v)
           | OpOther \<Rightarrow> f = v))"

definition record_passes :: "crud_filter list \<Rightarrow> dns_record \<Rightarrow> bool" where
  "record_passes fs r =
     list_all (\<lambda>f.
       (if cf_field f = ''type'' then matchField (dr_type r) (cf_value f) (cf_op f)
        else if cf_field f = ''name'' then matchField (dr_name r) (cf_value f) (cf_op f)
        else True)) fs"

text \<open>A sort: the field and whether it is descending; \<open>less_by\<close> is the comparison the library sorts with.\<close>

definition sort_field :: "string \<Rightarrow> dns_record \<Rightarrow> string option" where
  "sort_field f r =
     (if f = ''name'' then Some (dr_name r) else if f = ''type'' then Some (dr_type r)
      else if f = ''content'' then Some (dr_content r) else None)"

fun str_less :: "string \<Rightarrow> string \<Rightarrow> bool" where
  "str_less [] [] = False"
| "str_less [] (d # t) = True"
| "str_less (c # s) [] = False"
| "str_less (c # s) (d # t) =
     (if c = d then str_less s t else (of_char c :: nat) < of_char d)"

fun less_by :: "(string \<times> bool) list \<Rightarrow> dns_record \<Rightarrow> dns_record \<Rightarrow> bool" where
  "less_by [] a b = False"
| "less_by ((f, desc) # ss) a b =
     (case (sort_field f a, sort_field f b) of
        (Some x, Some y) \<Rightarrow>
          if x \<noteq> y then (if desc then str_less y x else str_less x y) else less_by ss a b
      | _ \<Rightarrow> less_by ss a b)"

definition applyInMemoryFilters ::
    "((dns_record \<Rightarrow> dns_record \<Rightarrow> bool) \<Rightarrow> dns_record list \<Rightarrow> dns_record list) \<Rightarrow> crud_filter list \<Rightarrow>
     (string \<times> bool) list \<Rightarrow> dns_record list \<Rightarrow> dns_record list" where
  "applyInMemoryFilters sort_slice fs ss rs =
     (if fs = [] \<and> ss = [] then rs
      else
        let res = filter (record_passes fs) rs in
        if ss \<noteq> [] then sort_slice (less_by ss) res else res)"

definition getPaginationRange :: "int \<Rightarrow> int \<Rightarrow> int \<Rightarrow> int \<times> int" where
  "getPaginationRange start stop tot =
     (if start = 0 \<and> stop = 0 then (0, tot) else (start, min stop tot))"

text \<open>\<open>lo.Slice\<close> bounds both ends by the slice.\<close>

definition lo_Slice :: "'a list \<Rightarrow> int \<Rightarrow> int \<Rightarrow> 'a list" where
  "lo_Slice xs i j = (let i = nat i; j = nat j in if j \<le> i then [] else take (j - i) (drop i xs))"

definition zone_records :: "zone_row \<Rightarrow> nat \<Rightarrow> pzone \<Rightarrow> dns_record list" where
  "zone_records z i pz =
     concat (map (\<lambda>rs.
       if IsManagedByPowerDNS (rs_type rs) then []
       else case rs_records rs of
         None \<Rightarrow> []
       | Some rrs \<Rightarrow> map (\<lambda>r. recordToDTOWithZoneID rs r (zr_domain z) i) rrs) (the_rrsets pz))"

definition GetZoneRecords ::
    "((dns_record \<Rightarrow> dns_record \<Rightarrow> bool) \<Rightarrow> dns_record list \<Rightarrow> dns_record list) \<Rightarrow> 'p pdns_api option \<Rightarrow>
     gerr option \<Rightarrow> nat \<Rightarrow> crud_filter list \<Rightarrow> (string \<times> bool) list \<Rightarrow> int \<times> int \<Rightarrow> 'p dns \<Rightarrow>
     gerr + (dns_record list \<times> nat)" where
  "GetZoneRecords sort_slice api fault i fs ss page s =
     (case getZoneWithPowerDNS api fault i s of
        Inl e \<Rightarrow> Inl e
      | Inr (z, pz) \<Rightarrow>
          let found = applyInMemoryFilters sort_slice fs ss (zone_records z i pz);
              (start, stop) = getPaginationRange (fst page) (snd page) (int (length found))
          in Inr (lo_Slice found start stop, length found))"

section \<open>Writing\<close>

definition patch_rrsets :: "'p pdns_api option \<Rightarrow> string \<Rightarrow> rrset list \<Rightarrow> 'p dns \<Rightarrow> gerr option \<times> 'p dns" where
  "patch_rrsets api zid rs s =
     (case api of
        None \<Rightarrow> (Some nil_panic, s)
      | Some a \<Rightarrow> (let (e, p) = pdns_UpdateZoneRRSets a zid rs (dn_pdns s) in (e, s\<lparr>dn_pdns := p\<rparr>)))"

definition replace_set :: "zone_row \<Rightarrow> string \<Rightarrow> string \<Rightarrow> string list \<Rightarrow> u64 \<Rightarrow> rrset" where
  "replace_set z name t contents ttl =
     buildRRSet (buildFullName name (zr_domain z)) t ''REPLACE'' (Some (sint ttl))
       (Some (map (\<lambda>c. \<lparr>rr_content = formatRecordContent t c, rr_disabled = None\<rparr>) contents))"

definition delete_set :: "zone_row \<Rightarrow> string \<Rightarrow> string \<Rightarrow> rrset" where
  "delete_set z name t = buildRRSet (buildFullName name (zr_domain z)) t ''DELETE'' None None"

definition CreateRecord ::
    "'p pdns_api option \<Rightarrow> gerr option \<Rightarrow> gerr option \<Rightarrow> nat \<Rightarrow> string \<Rightarrow> string \<Rightarrow> string \<Rightarrow> u64 \<Rightarrow> 'p dns \<Rightarrow>
     (gerr + dns_record) \<times> 'p dns" where
  "CreateRecord api f1 f2 i name t content ttl s =
     (case getZoneWithPowerDNS api f1 i s of
        Inl e \<Rightarrow> (Inl e, s)
      | Inr (z, _) \<Rightarrow>
          (case patch_rrsets api (zr_pdns z) [replace_set z name t [content] ttl] s of
             (Some e, s') \<Rightarrow> (Inl (Wrapped ''failed to create RRSet'' e), s')
           | (None, s') \<Rightarrow>
               (case GetRRSet api f2 i name t s' of
                  Inl e \<Rightarrow> (Inl (Wrapped ''failed to retrieve created record'' e), s')
                | Inr [] \<Rightarrow> (Inl (Opaque ''record not found after creation''), s')
                | Inr (r # _) \<Rightarrow> (Inr r, s'))))"

definition UpdateRecord ::
    "'p pdns_api option \<Rightarrow> gerr option \<Rightarrow> nat \<Rightarrow> string \<Rightarrow> string \<Rightarrow> string list \<Rightarrow> u64 \<Rightarrow> 'p dns \<Rightarrow>
     (gerr + dns_record list) \<times> 'p dns" where
  "UpdateRecord api f1 i name t contents ttl s =
     (case getZoneWithPowerDNS api f1 i s of
        Inl e \<Rightarrow> (Inl e, s)
      | Inr (z, _) \<Rightarrow>
          (case patch_rrsets api (zr_pdns z) [replace_set z name t contents ttl] s of
             (Some e, s') \<Rightarrow> (Inl (Wrapped ''failed to update RRSet'' e), s')
           | (None, s') \<Rightarrow>
               (Inr (map (\<lambda>c. \<lparr>dr_zone = 0, dr_name = name, dr_type = t, dr_content = c, dr_ttl = ttl,
                                dr_disabled = False\<rparr>) contents), s')))"

definition DeleteRecord ::
    "'p pdns_api option \<Rightarrow> gerr option \<Rightarrow> nat \<Rightarrow> string \<Rightarrow> string \<Rightarrow> 'p dns \<Rightarrow> gerr option \<times> 'p dns" where
  "DeleteRecord api f1 i name t s =
     (case getZoneWithPowerDNS api f1 i s of
        Inl e \<Rightarrow> (Some e, s)
      | Inr (z, _) \<Rightarrow>
          (case patch_rrsets api (zr_pdns z) [delete_set z name t] s of
             (Some e, s') \<Rightarrow> (Some (Wrapped ''failed to delete RRSet'' e), s')
           | (None, s') \<Rightarrow> (None, s')))"

text \<open>A result is the record's name, its type and the error text of a failed delete.\<close>

definition BulkDeleteRecords ::
    "'p pdns_api option \<Rightarrow> gerr option \<Rightarrow> nat \<Rightarrow> (string \<times> string) list \<Rightarrow> bool \<Rightarrow> 'p dns \<Rightarrow>
     (gerr + (string \<times> string \<times> string option) list) \<times> 'p dns" where
  "BulkDeleteRecords api f1 i recs dryRun s =
     (case getZoneWithPowerDNS api f1 i s of
        Inl e \<Rightarrow> (Inl e, s)
      | Inr (z, _) \<Rightarrow>
          if dryRun then (Inr (map (\<lambda>(n, t). (n, t, None)) recs), s)
          else
            let (e, s') = patch_rrsets api (zr_pdns z) (map (\<lambda>(n, t). delete_set z n t) recs) s
            in (Inr (map (\<lambda>(n, t). (n, t, map_option (\<lambda>e. ''bulk delete failed: '' @ gerr_text e) e)) recs), s'))"

section \<open>Import of a zone file\<close>

record zentry =
  ze_type :: string
  ze_domain :: string
  ze_values :: "string list list"
  ze_ttl :: "int option"

text \<open>An error of the parser may know its line.\<close>

definition ParseZoneFile :: "(string \<Rightarrow> (nat option \<times> gerr) + zentry list) \<Rightarrow> string \<Rightarrow> gerr + zentry list" where
  "ParseZoneFile load content =
     (if content = [] then Inl (Opaque ''zone file content is empty'')
      else case load content of
        Inl (Some n, e) \<Rightarrow> Inl (Wrapped (''parse error at line '' @ dec n) e)
      | Inl (None, e) \<Rightarrow> Inl (Wrapped ''failed to parse zone file'' e)
      | Inr es \<Rightarrow>
          let entries = filter (\<lambda>e. ze_type e \<noteq> [] \<and> \<not> HasPrefix (ze_domain e) ''$'') es in
          if entries = [] then Inl (Opaque ''no resource records found in zone file'') else Inr entries)"

datatype import_mode = ImportModeMerge | ImportModeReplace | ImportModeUpdate | ImportModeOther

record import_response =
  im_created :: "(string \<times> string \<times> string \<times> u64) list"
  im_errors :: "(string \<times> string \<times> string) list"
  im_skipped :: nat
  im_failed :: nat

definition no_import :: import_response where
  "no_import = \<lparr>im_created = [], im_errors = [], im_skipped = 0, im_failed = 0\<rparr>"

definition im_error :: "string \<Rightarrow> string \<Rightarrow> string \<Rightarrow> import_response \<Rightarrow> import_response" where
  "im_error n t msg r = r\<lparr>im_errors := im_errors r @ [(n, t, msg)], im_failed := im_failed r + 1\<rparr>"

definition im_create :: "string \<Rightarrow> string \<Rightarrow> string \<Rightarrow> u64 \<Rightarrow> import_response \<Rightarrow> import_response" where
  "im_create n t c ttl r = r\<lparr>im_created := im_created r @ [(n, t, c, ttl)]\<rparr>"

definition im_skip :: "import_response \<Rightarrow> import_response" where
  "im_skip r = r\<lparr>im_skipped := im_skipped r + 1\<rparr>"

definition rr_key :: "string \<Rightarrow> string \<Rightarrow> string" where
  "rr_key n t = n @ '':'' @ t"

text \<open>The write of one entry, unless it is a dry run.\<close>

definition import_write ::
    "bool \<Rightarrow> string \<Rightarrow> ('p dns \<Rightarrow> (gerr + 'r) \<times> 'p dns) \<Rightarrow> string \<Rightarrow> string \<Rightarrow> string \<Rightarrow> u64 \<Rightarrow>
     import_response \<times> 'p dns \<Rightarrow> import_response \<times> 'p dns" where
  "import_write dryRun what op n t c ttl rs =
     (if dryRun then (im_create n t c ttl (fst rs), snd rs)
      else case op (snd rs) of
        (Inl e, s') \<Rightarrow> (im_error n t (gerr_text (Wrapped what e)) (fst rs), s')
      | (Inr _, s') \<Rightarrow> (im_create n t c ttl (fst rs), s'))"

text \<open>\<open>fl\<close> are the errors the two lookups of the zone in this entry's write may meet.\<close>

definition import_entry ::
    "'p pdns_api option \<Rightarrow> nat \<Rightarrow> string \<Rightarrow> string set \<Rightarrow> import_mode \<Rightarrow> bool \<Rightarrow> gerr option \<times> gerr option \<Rightarrow>
     zentry \<Rightarrow> import_response \<times> 'p dns \<Rightarrow> import_response \<times> 'p dns" where
  "import_entry api i domain existing mode dryRun fl e rs =
     (let t = ze_type e; n = ze_domain e in
      if IsManagedByPowerDNS t then (im_skip (fst rs), snd rs)
      else if ze_values e = [] \<or> hd (ze_values e) = []
      then (im_error n t ''Record has no content'' (fst rs), snd rs)
      else
        let c = hd (hd (ze_values e));
            ttl = (case ze_ttl e of Some x \<Rightarrow> word_of_int x | None \<Rightarrow> 3600);
            known = (rr_key (buildFullName n domain) t \<in> existing);
            create = CreateRecord api (fst fl) (snd fl) i n t c ttl;
            update = UpdateRecord api (fst fl) i n t [c] ttl
        in case mode of
             ImportModeMerge \<Rightarrow>
               if known then (im_skip (fst rs), snd rs)
               else import_write dryRun ''failed to create record'' create n t c ttl rs
           | ImportModeReplace \<Rightarrow> import_write dryRun ''failed to create record'' create n t c ttl rs
           | ImportModeUpdate \<Rightarrow>
               if known then import_write dryRun ''failed to update record'' update n t c ttl rs
               else import_write dryRun ''failed to create record'' create n t c ttl rs
           | ImportModeOther \<Rightarrow> rs)"

fun import_entries ::
    "'p pdns_api option \<Rightarrow> nat \<Rightarrow> string \<Rightarrow> string set \<Rightarrow> import_mode \<Rightarrow> bool \<Rightarrow> (nat \<Rightarrow> gerr option \<times> gerr option) \<Rightarrow>
     nat \<Rightarrow> zentry list \<Rightarrow> import_response \<times> 'p dns \<Rightarrow> import_response \<times> 'p dns" where
  "import_entries api i domain existing mode dryRun fls k [] rs = rs"
| "import_entries api i domain existing mode dryRun fls k (e # es) rs =
     import_entries api i domain existing mode dryRun fls (Suc k) es
       (import_entry api i domain existing mode dryRun (fls k) e rs)"

definition ImportZoneFile ::
    "(string \<Rightarrow> (nat option \<times> gerr) + zentry list) \<Rightarrow> 'p pdns_api option \<Rightarrow> gerr option \<Rightarrow> gerr option \<Rightarrow>
     (nat \<Rightarrow> gerr option \<times> gerr option) \<Rightarrow> nat \<Rightarrow> string \<Rightarrow> import_mode \<Rightarrow> bool \<Rightarrow> 'p dns \<Rightarrow>
     gerr option \<times> import_response \<times> 'p dns" where
  "ImportZoneFile load api f1 bulk_fault fls i content mode dryRun s =
     (case getZoneWithPowerDNS api f1 i s of
        Inl e \<Rightarrow> (Some (Wrapped ''failed to get zone'' e), no_import, s)
      | Inr (z, pz) \<Rightarrow>
          (case ParseZoneFile load content of
             Inl e \<Rightarrow>
               (Some (Wrapped ''failed to parse zone file'' e),
                im_error [] [] (''Failed to parse zone file: '' @ gerr_text e) no_import, s)
           | Inr entries \<Rightarrow>
               let user = FilterUserManageableRecords (the_rrsets pz);
                   existing = set (map (\<lambda>r. rr_key (rs_name r) (rs_type r)) user);
                   s1 = (if mode = ImportModeReplace \<and> \<not> dryRun \<and> user \<noteq> []
                         then snd (BulkDeleteRecords api bulk_fault i
                                     (map (\<lambda>r. (stripDomain (rs_name r) (zr_domain z), rs_type r)) user) False s)
                         else s);
                   (resp, s2) = import_entries api i (zr_domain z) existing mode dryRun fls 0 entries (no_import, s1)
               in (None, resp, s2)))"

section \<open>Laws\<close>

lemma TrimSuffix_dot [simp]: "TrimSuffix (w @ ''.'') ''.'' = w"
  by simp

lemma buildFullName_cases:
  obtains w where "buildFullName n d = w @ ''.''"
    "w = TrimSuffix d ''.'' \<or> HasSuffix w (''.'' @ TrimSuffix d ''.'')"
proof (cases "TrimSuffix n ''.'' = TrimSuffix d ''.''")
  case True
  then show ?thesis using that by (simp add: buildFullName_def)
next
  case False
  show ?thesis
  proof (cases "HasSuffix (TrimSuffix n ''.'') (''.'' @ TrimSuffix d ''.'')")
    case True
    then show ?thesis using False that [of "TrimSuffix n ''.''"] by (simp add: buildFullName_def Let_def)
  next
    case F: False
    have "HasSuffix (TrimSuffix n ''.'' @ (''.'' @ TrimSuffix d ''.'')) (''.'' @ TrimSuffix d ''.'')"
      by (rule HasSuffix_append)
    then show ?thesis
      using False F that [of "TrimSuffix n ''.'' @ (''.'' @ TrimSuffix d ''.'')"]
      by (simp add: buildFullName_def Let_def)
  qed
qed

lemma buildFullName_idem: "buildFullName (buildFullName n d) d = buildFullName n d"
proof -
  obtain w where w: "buildFullName n d = w @ ''.''"
    and c: "w = TrimSuffix d ''.'' \<or> HasSuffix w (''.'' @ TrimSuffix d ''.'')"
    by (rule buildFullName_cases)
  show ?thesis unfolding w using c by (auto simp: buildFullName_def Let_def)
qed

text \<open>The name of a record set ends with a dot and the domain of a zone has none, so nothing is stripped.\<close>

lemma stripDomain_full:
  assumes "d \<noteq> []" "last d \<noteq> CHR ''.''"
  shows "stripDomain (buildFullName n d) d = buildFullName n d"
proof -
  obtain w where w: "buildFullName n d = w @ ''.''" by (rule buildFullName_cases)
  have "\<not> HasSuffix (w @ ''.'') (''.'' @ d)"
  proof
    assume "HasSuffix (w @ ''.'') (''.'' @ d)"
    then obtain r where "w @ ''.'' = r @ ''.'' @ d" by (auto simp: HasSuffix_iff)
    then have "last (w @ ''.'') = last d" using assms(1) by (metis append_is_Nil_conv last_append)
    then show False using assms(2) by simp
  qed
  then show ?thesis unfolding w by (simp add: stripDomain_def)
qed

lemma quoted_format: "quoted (quote_char # c @ [quote_char])"
  by (simp add: quoted_def)

lemma strip_format: "stripTXTQuotes t (formatRecordContent t c) = stripTXTQuotes t c"
proof (cases "EqualFold t ''TXT''")
  case T: True
  then show ?thesis
    by (cases "quoted c")
       (simp_all add: stripTXTQuotes_def formatRecordContent_def formatTXTContent_def quoted_format)
qed (simp add: stripTXTQuotes_def formatRecordContent_def)

lemma strip_plain: "\<not> quoted c \<Longrightarrow> stripTXTQuotes t c = c"
  by (simp add: stripTXTQuotes_def)

section \<open>What the server documents\<close>

text \<open>The record set the server answers for a name and a type.\<close>

definition srv_set :: "'p pdns_api \<Rightarrow> string \<Rightarrow> 'p \<Rightarrow> string \<Rightarrow> string \<Rightarrow> rrset option" where
  "srv_set a zid p n t = (case pdns_GetZone a zid p of Inl _ \<Rightarrow> None | Inr pz \<Rightarrow> find_rrset n t pz)"

definition rs_key :: "rrset \<Rightarrow> string \<times> string" where
  "rs_key x = (rs_name x, rs_type x)"

text \<open>A PATCH changes only the record sets it names, whether it is accepted or not.\<close>

definition patch_frame :: "'p pdns_api \<Rightarrow> string \<Rightarrow> bool" where
  "patch_frame a zid \<longleftrightarrow>
     (\<forall>rs p n t. (n, t) \<notin> rs_key ` set rs \<longrightarrow>
        srv_set a zid (snd (pa_patch a zid rs p)) n t = srv_set a zid p n t)"

definition rr_value :: "rr \<Rightarrow> string \<times> bool" where
  "rr_value r = (rr_content r, getDisabled (rr_disabled r))"

text \<open>An accepted REPLACE of one set by records, with a name in lower case, is what the server answers then.\<close>

definition patch_replaces :: "'p pdns_api \<Rightarrow> string \<Rightarrow> bool" where
  "patch_replaces a zid \<longleftrightarrow>
     (\<forall>x p r p' given. pa_patch a zid [x] p = (Inr r, p') \<longrightarrow> status_ok (h_status r) \<longrightarrow>
        rs_change x = ''REPLACE'' \<longrightarrow> ToLower (rs_name x) = rs_name x \<longrightarrow>
        rs_records x = Some given \<longrightarrow> given \<noteq> [] \<longrightarrow>
        (\<exists>y rrs. srv_set a zid p' (rs_name x) (rs_type x) = Some y \<and> rs_key y = rs_key x \<and>
           rs_ttl y = rs_ttl x \<and> rs_records y = Some rrs \<and> map rr_value rrs = map rr_value given))"

lemma patch_replacesD:
  assumes "patch_replaces a zid" "pa_patch a zid [x] p = (Inr r, p')" "status_ok (h_status r)"
    and "rs_change x = ''REPLACE''" "ToLower (rs_name x) = rs_name x" "rs_records x = Some given" "given \<noteq> []"
  obtains y rrs where "srv_set a zid p' (rs_name x) (rs_type x) = Some y" "rs_key y = rs_key x"
    "rs_ttl y = rs_ttl x" "rs_records y = Some rrs" "map rr_value rrs = map rr_value given"
  using assms unfolding patch_replaces_def by meson

lemma getZoneWithPowerDNS_ok:
  assumes "find_zone i (dn_db s) = Some z" "zr_pdns z \<noteq> []"
    and "pdns_GetZone a (zr_pdns z) (dn_pdns s) = Inr pz"
  shows "getZoneWithPowerDNS (Some a) None i s = Inr (z, pz)"
  using assms by (simp add: getZoneWithPowerDNS_def GetZone_def)

lemma getZoneWithPowerDNS_InrD:
  assumes "getZoneWithPowerDNS api f i s = Inr (z, pz)"
  shows "find_zone i (dn_db s) = Some z" "zr_pdns z \<noteq> []"
    "\<exists>a. api = Some a \<and> pdns_GetZone a (zr_pdns z) (dn_pdns s) = Inr pz"
  using assms
  by (auto simp: getZoneWithPowerDNS_def GetZone_def split: sum.splits option.splits if_splits)

lemma find_rrset_key: "find_rrset n t pz = Some y \<Longrightarrow> rs_key y = (n, t)"
  by (auto simp: find_rrset_def rs_key_def find_Some_iff)

lemma replace_set_simps [simp]:
  "rs_name (replace_set z n t cs ttl) = buildFullName n (zr_domain z)"
  "rs_type (replace_set z n t cs ttl) = t"
  "rs_change (replace_set z n t cs ttl) = ''REPLACE''"
  "rs_ttl (replace_set z n t cs ttl) = Some (sint ttl)"
  "rs_records (replace_set z n t cs ttl) =
     Some (map (\<lambda>c. \<lparr>rr_content = formatRecordContent t c, rr_disabled = None\<rparr>) cs)"
  by (simp_all add: replace_set_def buildRRSet_def)

lemma GetRRSet_replaced:
  assumes z: "find_zone i (dn_db s) = Some z" "zr_pdns z \<noteq> []" "zr_domain z \<noteq> []"
      "last (zr_domain z) \<noteq> CHR ''.''"
    and full: "buildFullName name (zr_domain z) = full"
    and y: "srv_set a (zr_pdns z) (dn_pdns s) full t = Some y" "rs_ttl y = Some (sint ttl)"
      "rs_records y = Some [r]" "rr_content r = formatRecordContent t content"
      "getDisabled (rr_disabled r) = False"
  shows "GetRRSet (Some a) None i name t s =
    Inr [\<lparr>dr_zone = i, dr_name = full, dr_type = t, dr_content = stripTXTQuotes t content,
          dr_ttl = ttl, dr_disabled = False\<rparr>]"
proof -
  obtain pz where pz: "pdns_GetZone a (zr_pdns z) (dn_pdns s) = Inr pz" "find_rrset full t pz = Some y"
    using y(1) by (auto simp: srv_set_def split: sum.splits)
  have k: "rs_name y = full" "rs_type y = t" using find_rrset_key [OF pz(2)] by (simp_all add: rs_key_def)
  have st: "stripDomain full (zr_domain z) = full" using stripDomain_full [OF z(3,4)] full by blast
  show ?thesis
    using getZoneWithPowerDNS_ok [OF z(1,2) pz(1)] pz(2) full y k st
    by (simp add: GetRRSet_def recordToDTOWithZoneID_def getTTL_def strip_format)
qed

text \<open>The database is unchanged and every set outside \<open>K\<close> is answered as before.\<close>

definition zone_upto ::
    "'p pdns_api \<Rightarrow> string \<Rightarrow> (string \<times> string) set \<Rightarrow> 'p dns \<Rightarrow> 'p dns \<Rightarrow> bool" where
  "zone_upto a zid K s s' \<longleftrightarrow>
     dn_db s' = dn_db s \<and>
     (\<forall>n u. (n, u) \<notin> K \<longrightarrow> srv_set a zid (dn_pdns s') n u = srv_set a zid (dn_pdns s) n u)"

lemma zone_upto_refl [simp, intro]: "zone_upto a zid K s s"
  by (simp add: zone_upto_def)

lemma zone_upto_trans: "zone_upto a zid K s s1 \<Longrightarrow> zone_upto a zid K s1 s2 \<Longrightarrow> zone_upto a zid K s s2"
  by (simp add: zone_upto_def)

lemma zone_upto_mono: "zone_upto a zid K s s' \<Longrightarrow> K \<subseteq> L \<Longrightarrow> zone_upto a zid L s s'"
  unfolding zone_upto_def by blast

lemma zone_upto_db: "zone_upto a zid K s s' \<Longrightarrow> dn_db s' = dn_db s"
  by (simp add: zone_upto_def)

lemma patch_upto:
  assumes "patch_frame a zid"
  shows "zone_upto a zid (rs_key ` set rs) s (snd (patch_rrsets (Some a) zid rs s))"
  using assms
  by (auto simp: zone_upto_def patch_rrsets_def pdns_UpdateZoneRRSets_def patch_frame_def Let_def
      split: prod.splits sum.splits)
     (metis snd_conv)+

lemma rs_key_sets [simp]:
  "rs_key (replace_set z n t cs ttl) = (buildFullName n (zr_domain z), t)"
  "rs_key (delete_set z n t) = (buildFullName n (zr_domain z), t)"
  by (simp_all add: rs_key_def delete_set_def buildRRSet_def)

lemma CreateRecord_state:
  "snd (CreateRecord api f1 f2 i n t c ttl s) =
     (case getZoneWithPowerDNS api f1 i s of
        Inl _ \<Rightarrow> s
      | Inr (z, _) \<Rightarrow> snd (patch_rrsets api (zr_pdns z) [replace_set z n t [c] ttl] s))"
  by (auto simp: CreateRecord_def split: sum.splits prod.splits option.splits list.splits)

lemma UpdateRecord_state:
  "snd (UpdateRecord api f1 i n t cs ttl s) =
     (case getZoneWithPowerDNS api f1 i s of
        Inl _ \<Rightarrow> s
      | Inr (z, _) \<Rightarrow> snd (patch_rrsets api (zr_pdns z) [replace_set z n t cs ttl] s))"
  by (auto simp: UpdateRecord_def split: sum.splits prod.splits option.splits)

lemma BulkDeleteRecords_state:
  "snd (BulkDeleteRecords api f1 i recs dry s) =
     (case getZoneWithPowerDNS api f1 i s of
        Inl _ \<Rightarrow> s
      | Inr (z, _) \<Rightarrow>
          if dry then s
          else snd (patch_rrsets api (zr_pdns z) (map (\<lambda>(n, t). delete_set z n t) recs) s))"
  by (auto simp: BulkDeleteRecords_def split: sum.splits prod.splits)

lemma writes_upto:
  assumes z: "find_zone i (dn_db s) = Some z" and f: "patch_frame a (zr_pdns z)"
  shows "zone_upto a (zr_pdns z) {(buildFullName n (zr_domain z), t)} s
           (snd (CreateRecord (Some a) f1 f2 i n t c ttl s))"
    and "zone_upto a (zr_pdns z) {(buildFullName n (zr_domain z), t)} s
           (snd (UpdateRecord (Some a) f1 i n t cs ttl s))"
    and "zone_upto a (zr_pdns z) ((\<lambda>(n, t). (buildFullName n (zr_domain z), t)) ` set recs) s
           (snd (BulkDeleteRecords (Some a) f1 i recs dry s))"
proof -
  have *: "y = z" if "getZoneWithPowerDNS (Some a) f1 i s = Inr (y, pz)" for y pz
    using getZoneWithPowerDNS_InrD(1) [OF that] z by simp
  have one: "zone_upto a (zr_pdns z) {(buildFullName n (zr_domain z), t)} s
      (snd (patch_rrsets (Some a) (zr_pdns z) [replace_set z n t cs ttl] s))" for cs
    using patch_upto [OF f, of "[replace_set z n t cs ttl]"] by simp
  have many: "zone_upto a (zr_pdns z) ((\<lambda>(n, t). (buildFullName n (zr_domain z), t)) ` set recs) s
      (snd (patch_rrsets (Some a) (zr_pdns z) (map (\<lambda>(n, t). delete_set z n t) recs) s))"
  proof -
    have "rs_key ` set (map (\<lambda>(n, t). delete_set z n t) recs) =
        (\<lambda>(n, t). (buildFullName n (zr_domain z), t)) ` set recs" by force
    then show ?thesis using patch_upto [OF f, of "map (\<lambda>(n, t). delete_set z n t) recs"] by simp
  qed
  show "zone_upto a (zr_pdns z) {(buildFullName n (zr_domain z), t)} s
      (snd (CreateRecord (Some a) f1 f2 i n t c ttl s))"
    unfolding CreateRecord_state using * one by (auto split: sum.splits dest!: *)
  show "zone_upto a (zr_pdns z) {(buildFullName n (zr_domain z), t)} s
      (snd (UpdateRecord (Some a) f1 i n t cs ttl s))"
    unfolding UpdateRecord_state using one by (auto split: sum.splits dest!: *)
  show "zone_upto a (zr_pdns z) ((\<lambda>(n, t). (buildFullName n (zr_domain z), t)) ` set recs) s
      (snd (BulkDeleteRecords (Some a) f1 i recs dry s))"
    unfolding BulkDeleteRecords_state using many by (auto split: sum.splits dest!: *)
qed

text \<open>The sets an import may write: no managed ones and, in merge mode, none that exist.\<close>

definition import_keys :: "string set \<Rightarrow> import_mode \<Rightarrow> (string \<times> string) set" where
  "import_keys existing mode =
     {(n, t). \<not> IsManagedByPowerDNS t \<and> (mode = ImportModeMerge \<longrightarrow> rr_key n t \<notin> existing)}"

lemma import_write_state:
  "snd (import_write dry w op n t c ttl rs) = (if dry then snd rs else snd (op (snd rs)))"
  by (auto simp: import_write_def split: prod.splits sum.splits)

lemma import_entry_upto:
  assumes z: "find_zone i (dn_db (snd rs)) = Some z" and f: "patch_frame a (zr_pdns z)"
  shows "zone_upto a (zr_pdns z) (import_keys existing mode) (snd rs)
     (snd (import_entry (Some a) i (zr_domain z) existing mode dry fl e rs))"
proof -
  let ?n = "ze_domain e" let ?t = "ze_type e"
  have key: "{(buildFullName ?n (zr_domain z), ?t)} \<subseteq> import_keys existing m"
    if "\<not> IsManagedByPowerDNS ?t"
       "m = ImportModeMerge \<longrightarrow> rr_key (buildFullName ?n (zr_domain z)) ?t \<notin> existing" for m
    using that by (simp add: import_keys_def)
  note w = zone_upto_mono [OF writes_upto(1) [OF z f] key] zone_upto_mono [OF writes_upto(2) [OF z f] key]
  show ?thesis
    by (cases mode) (auto simp: import_entry_def Let_def import_write_state intro!: w)
qed

lemma import_entries_upto:
  "find_zone i (dn_db (snd rs)) = Some z \<Longrightarrow> patch_frame a (zr_pdns z) \<Longrightarrow>
   zone_upto a (zr_pdns z) (import_keys existing mode) (snd rs)
     (snd (import_entries (Some a) i (zr_domain z) existing mode dry fls k es rs))"
proof (induction es arbitrary: k rs)
  case (Cons e es)
  have 1: "zone_upto a (zr_pdns z) (import_keys existing mode) (snd rs)
     (snd (import_entry (Some a) i (zr_domain z) existing mode dry (fls k) e rs))" (is "zone_upto _ _ _ _ (snd ?rs)")
    by (rule import_entry_upto [OF Cons.prems])
  have "find_zone i (dn_db (snd ?rs)) = Some z" using zone_upto_db [OF 1] Cons.prems(1) by simp
  then show ?case using zone_upto_trans [OF 1 Cons.IH [OF _ Cons.prems(2)]] by simp
qed simp

lemma import_dry: "snd (import_entries api i d ex mode True fls k es rs) = snd rs"
proof (induction es arbitrary: k rs)
  case (Cons e es)
  have "snd (import_entry api i d ex mode True (fls k) e rs) = snd rs"
    by (cases mode) (simp_all add: import_entry_def Let_def import_write_state)
  then show ?case using Cons by simp
qed simp

text \<open>How many entries a response accounts for.\<close>

definition im_count :: "import_response \<Rightarrow> nat" where
  "im_count r = length (im_created r) + im_skipped r + im_failed r"

definition im_ok :: "import_response \<Rightarrow> bool" where
  "im_ok r \<longleftrightarrow> im_failed r = length (im_errors r)"

lemma im_counts [simp]:
  "im_count (im_create n t c ttl r) = Suc (im_count r)"
  "im_count (im_error n t m r) = Suc (im_count r)"
  "im_count (im_skip r) = Suc (im_count r)"
  "im_count no_import = 0" "im_ok no_import"
  "im_ok (im_create n t c ttl r) = im_ok r" "im_ok (im_error n t m r) = im_ok r" "im_ok (im_skip r) = im_ok r"
  by (simp_all add: im_count_def im_ok_def im_create_def im_error_def im_skip_def no_import_def)

lemma import_write_counts:
  "im_count (fst (import_write dry w op n t c ttl rs)) = Suc (im_count (fst rs)) \<and>
   im_ok (fst (import_write dry w op n t c ttl rs)) = im_ok (fst rs)"
  by (auto simp: import_write_def split: prod.splits sum.splits)

lemma import_entry_counts:
  assumes "mode \<noteq> ImportModeOther"
  shows "im_count (fst (import_entry api i d ex mode dry fl e rs)) = Suc (im_count (fst rs)) \<and>
         im_ok (fst (import_entry api i d ex mode dry fl e rs)) = im_ok (fst rs)"
  using assms by (cases mode) (simp_all add: import_entry_def Let_def import_write_counts)

lemma import_entries_counts:
  "mode \<noteq> ImportModeOther \<Longrightarrow>
   im_count (fst (import_entries api i d ex mode dry fls k es rs)) = length es + im_count (fst rs) \<and>
   im_ok (fst (import_entries api i d ex mode dry fls k es rs)) = im_ok (fst rs)"
  by (induction es arbitrary: k rs) (simp_all add: import_entry_counts)

definition existing_keys :: "pzone \<Rightarrow> string set" where
  "existing_keys pz = set (map (\<lambda>r. rr_key (rs_name r) (rs_type r)) (FilterUserManageableRecords (the_rrsets pz)))"

definition user_ids :: "zone_row \<Rightarrow> pzone \<Rightarrow> (string \<times> string) list" where
  "user_ids z pz =
     map (\<lambda>r. (stripDomain (rs_name r) (zr_domain z), rs_type r)) (FilterUserManageableRecords (the_rrsets pz))"

lemma ImportZoneFile_cases:
  assumes "ImportZoneFile load api f1 fb fls i content mode dry s = (e, resp, s')"
  obtains (failed) "e \<noteq> None" "s' = s"
  | (ran) z pz es s1 where "e = None" "getZoneWithPowerDNS api f1 i s = Inr (z, pz)"
      "ParseZoneFile load content = Inr es"
      "s1 = s \<or> \<not> dry \<and> mode = ImportModeReplace \<and> s1 = snd (BulkDeleteRecords api fb i (user_ids z pz) False s)"
      "import_entries api i (zr_domain z) (existing_keys pz) mode dry fls 0 es (no_import, s1) = (resp, s')"
proof (cases "getZoneWithPowerDNS api f1 i s")
  case (Inl x)
  then show ?thesis using assms failed by (auto simp: ImportZoneFile_def)
next
  case (Inr zp)
  obtain z pz where zp: "zp = (z, pz)" by (cases zp)
  show ?thesis
  proof (cases "ParseZoneFile load content")
    case (Inl x)
    then show ?thesis using assms failed Inr zp by (auto simp: ImportZoneFile_def)
  next
    case es: (Inr es)
    show ?thesis
      using assms ran [OF _ Inr [unfolded zp] es] Inr zp es
      by (auto simp: ImportZoneFile_def Let_def existing_keys_def user_ids_def split: prod.splits if_splits)
  qed
qed

lemma user_ids_unmanaged: "(n, t) \<in> set (user_ids z pz) \<Longrightarrow> \<not> IsManagedByPowerDNS t"
  by (auto simp: user_ids_def FilterUserManageableRecords_def)

lemma existing_in_keys:
  "srv_set a zid p n t = Some y \<Longrightarrow> pdns_GetZone a zid p = Inr pz \<Longrightarrow> \<not> IsManagedByPowerDNS t \<Longrightarrow>
   rr_key n t \<in> existing_keys pz"
  by (auto simp: srv_set_def find_rrset_def existing_keys_def FilterUserManageableRecords_def find_Some_iff
      intro!: image_eqI)

section \<open>Properties\<close>


text \<open>A server that keeps one list of record sets, whatever the zone.\<close>

definition mem_set :: "rrset \<Rightarrow> rrset list \<Rightarrow> rrset list" where
  "mem_set x p =
     (let rest = filter (\<lambda>y. rs_key y \<noteq> rs_key x) p in if rs_change x = ''REPLACE'' then x # rest else rest)"

definition mem_api :: "rrset list pdns_api" where
  "mem_api = \<lparr>pa_create = (\<lambda>d ns p. (Inl Canceled, p)),
     pa_get = (\<lambda>z p. Inr \<lparr>h_status = 200, h_text = [], h_body = Inr \<lparr>pz_id = Some z, pz_rrsets = Some p\<rparr>\<rparr>),
     pa_patch = (\<lambda>z rs p. (Inr \<lparr>h_status = 204, h_text = [], h_body = Inr ()\<rparr>, fold mem_set rs p)),
     pa_delete = (\<lambda>z p. (Inl Canceled, p))\<rparr>"

lemma srv_set_mem: "srv_set mem_api z p n t = find (\<lambda>r. rs_key r = (n, t)) p"
  by (simp add: srv_set_def mem_api_def pdns_GetZone_def handleResponse_def status_ok_def find_rrset_def
      the_rrsets_def rs_key_def)

lemma find_other_key:
  "k \<noteq> j \<Longrightarrow> find (\<lambda>r. rs_key r = k) (filter (\<lambda>y. rs_key y \<noteq> j) p) = find (\<lambda>r. rs_key r = k) p"
  by (induction p) auto

lemma find_mem_set:
  "k \<noteq> rs_key x \<Longrightarrow> find (\<lambda>r. rs_key r = k) (mem_set x p) = find (\<lambda>r. rs_key r = k) p"
  by (simp add: mem_set_def Let_def find_other_key)

lemma find_mem_sets:
  "k \<notin> rs_key ` set rs \<Longrightarrow> find (\<lambda>r. rs_key r = k) (fold mem_set rs p) = find (\<lambda>r. rs_key r = k) p"
  by (induction rs arbitrary: p) (auto simp: find_mem_set)

lemma mem_frame: "patch_frame mem_api z"
  unfolding patch_frame_def srv_set_mem by (simp add: mem_api_def find_mem_sets)

lemma mem_replaces: "patch_replaces mem_api z"
  unfolding patch_replaces_def srv_set_mem
  by (auto simp: mem_api_def mem_set_def Let_def rs_key_def)

definition demo_zone :: zone_row where
  "demo_zone = \<lparr>zr_id = 1, zr_user = 7, zr_domain = ''ex.org'', zr_status = zone_active, zr_pdns = ''ex.org.'',
     zr_checked = None, zr_verified = None, zr_deleted = False\<rparr>"

definition demo_dns :: "rrset list dns" where
  "demo_dns = \<lparr>dn_db = \<lparr>zd_rows = [demo_zone], zd_next = 2\<rparr>,
     dn_pdns = [\<lparr>rs_name = ''ex.org.'', rs_type = ''SOA'', rs_change = [], rs_ttl = Some 60,
                 rs_records = Some [\<lparr>rr_content = ''s'', rr_disabled = None\<rparr>]\<rparr>]\<rparr>"


text \<open>An import of a zone file in a known mode accounts for every entry that the parser found: each is created,
  skipped or failed, with one error per failed entry.\<close>

lemma dns_import_accounts:
  assumes "ImportZoneFile load api f1 fb fls i content mode dry s = (None, resp, s')"
    and "mode \<noteq> ImportModeOther"
  shows "\<exists>entries. ParseZoneFile load content = Inr entries \<and>
    length (im_created resp) + im_skipped resp + im_failed resp = length entries \<and>
    im_failed resp = length (im_errors resp)"
  using assms(1)
proof (cases rule: ImportZoneFile_cases)
  case (ran z pz es s1)
  then show ?thesis
    using import_entries_counts [OF assms(2), of api i "zr_domain z" "existing_keys pz" dry fls 0 es "(no_import, s1)"]
    by (simp add: im_count_def im_ok_def no_import_def)
qed simp

definition demo_load :: "string \<Rightarrow> (nat option \<times> gerr) + zentry list" where
  "demo_load c = Inr [\<lparr>ze_type = ''SOA'', ze_domain = ''@'', ze_values = [[''s'']], ze_ttl = None\<rparr>,
     \<lparr>ze_type = ''A'', ze_domain = ''a'', ze_values = [[''1.2.3.4'']], ze_ttl = Some 60\<rparr>,
     \<lparr>ze_type = ''A'', ze_domain = ''b'', ze_values = [], ze_ttl = None\<rparr>]"

lemma ImportZoneFile_ok:
  "getZoneWithPowerDNS api f1 i s = Inr (z, pz) \<Longrightarrow> ParseZoneFile load content = Inr es \<Longrightarrow>
   fst (ImportZoneFile load api f1 fb fls i content mode dry s) = None"
  by (simp add: ImportZoneFile_def Let_def split: prod.splits)

lemma demo_import:
  obtains resp s' where "ImportZoneFile demo_load (Some mem_api) None None (\<lambda>_. (None, None)) 1 ''x'' mode dry demo_dns
     = (None, resp, s')"
proof -
  have 1: "getZoneWithPowerDNS (Some mem_api) None 1 demo_dns =
      Inr (demo_zone, \<lparr>pz_id = Some ''ex.org.'', pz_rrsets = Some (dn_pdns demo_dns)\<rparr>)"
    by (simp add: getZoneWithPowerDNS_def GetZone_def find_zone_def demo_dns_def demo_zone_def
        mem_api_def pdns_GetZone_def handleResponse_def status_ok_def)
  obtain es where 2: "ParseZoneFile demo_load ''x'' = Inr es"
    by (simp add: ParseZoneFile_def demo_load_def HasPrefix_def)
  show ?thesis
    using that ImportZoneFile_ok [OF 1 2, of None "\<lambda>_. (None, None)" mode dry] by (metis prod.collapse)
qed

lemma dns_import_accounts_example:
  "\<exists>(resp :: import_response) entries. ParseZoneFile demo_load ''x'' = Inr entries \<and>
     length (im_created resp) + im_skipped resp + im_failed resp = length entries"
proof -
  obtain resp s' where "ImportZoneFile demo_load (Some mem_api) None None (\<lambda>_. (None, None)) 1 ''x'' ImportModeMerge
      True demo_dns = (None, resp, s')" by (rule demo_import)
  from dns_import_accounts [OF this] show ?thesis by (metis import_mode.distinct(5))
qed

text \<open>An import leaves the database alone, and no SOA or NS set of the zone changes, in any mode and on any
  failure, as long as a PATCH changes only the sets it names.  In merge mode no set that exists changes, and a dry
  run changes nothing at all.\<close>

lemma dns_import_keeps:
  fixes s :: "'p dns"
  assumes run: "ImportZoneFile load (Some a) f1 fb fls i content mode dry s = (e, resp, s')"
    and z: "find_zone i (dn_db s) = Some z" and f: "patch_frame a (zr_pdns z)"
  shows "dn_db s' = dn_db s \<and> (dry \<longrightarrow> s' = s) \<and>
    (\<forall>n t. IsManagedByPowerDNS t \<or> mode = ImportModeMerge \<and> srv_set a (zr_pdns z) (dn_pdns s) n t \<noteq> None \<longrightarrow>
      srv_set a (zr_pdns z) (dn_pdns s') n t = srv_set a (zr_pdns z) (dn_pdns s) n t)"
  using run
proof (cases rule: ImportZoneFile_cases)
  case (ran y pz es s1)
  have y: "y = z" and pz: "pdns_GetZone a (zr_pdns z) (dn_pdns s) = Inr pz"
    using getZoneWithPowerDNS_InrD [OF ran(2)] z by simp_all
  let ?K = "import_keys (existing_keys pz) mode"
  have s1: "zone_upto a (zr_pdns z) ?K s s1"
  proof -
    have "(\<lambda>(n, t). (buildFullName n (zr_domain z), t)) ` set (user_ids z pz) \<subseteq> ?K" if "mode = ImportModeReplace"
      using that user_ids_unmanaged [of _ _ z pz] by (auto simp: import_keys_def)
    then show ?thesis using ran(4) zone_upto_mono [OF writes_upto(3) [OF z f]] unfolding y by blast
  qed
  then have "find_zone i (dn_db s1) = Some z" using z zone_upto_db by metis
  then have "zone_upto a (zr_pdns z) ?K s1 s'"
    using import_entries_upto [of i "(no_import, s1)" z a "existing_keys pz" mode dry fls 0 es] f ran(5) y by simp
  then have upto: "zone_upto a (zr_pdns z) ?K s s'" by (rule zone_upto_trans [OF s1])
  have "dry \<longrightarrow> s' = s"
    using ran(4,5) import_dry [of "Some a" i "zr_domain y" "existing_keys pz" mode fls 0 es "(no_import, s1)"] by auto
  moreover have "(n, t) \<notin> ?K" if "IsManagedByPowerDNS t \<or> mode = ImportModeMerge \<and>
      srv_set a (zr_pdns z) (dn_pdns s) n t \<noteq> None" for n t
    using that existing_in_keys [OF _ pz, of n t] by (auto simp: import_keys_def)
  ultimately show ?thesis using upto unfolding zone_upto_def by blast
qed simp

lemma dns_import_keeps_example:
  "\<exists>(resp :: import_response) (s' :: rrset list dns). ImportZoneFile demo_load (Some mem_api) None None (\<lambda>_. (None, None)) 1 ''x'' ImportModeReplace False
     demo_dns = (None, resp, s') \<and>
     srv_set mem_api ''ex.org.'' (dn_pdns s') ''ex.org.'' ''SOA'' =
     srv_set mem_api ''ex.org.'' (dn_pdns demo_dns) ''ex.org.'' ''SOA''"
proof -
  obtain resp s' where r: "ImportZoneFile demo_load (Some mem_api) None None (\<lambda>_. (None, None)) 1 ''x''
      ImportModeReplace False demo_dns = (None, resp, s')" by (rule demo_import)
  have z: "find_zone 1 (dn_db demo_dns) = Some demo_zone" "zr_pdns demo_zone = ''ex.org.''"
    by (simp_all add: demo_dns_def demo_zone_def find_zone_def)
  show ?thesis
    using dns_import_keeps [OF r z(1)] mem_frame r z(2) by (auto simp: IsManagedByPowerDNS_def)
qed

end
