(* ===== verification/DNS_Website.thy ===== *)
theory DNS_Website
  imports DNS_Record
begin

text \<open>
  The records of a website in its zone: \<open>CreateWebsiteDNSRecords\<close>, \<open>UpdateWebsiteDNSRecords\<close>,
  \<open>DeleteWebsiteDNSRecords\<close>, \<open>CreateHNSDNSRecords\<close> and \<open>EnsureZoneDNSSEC\<close> of
  \<^verbatim>\<open>internal/service/dns/dns_service_zone.go\<close>, and the paths of \<^verbatim>\<open>internal/db/website.go\<close>.
\<close>

section \<open>Paths\<close>

definition WebsiteTargetTypeIPFS :: string where "WebsiteTargetTypeIPFS = ''ipfs''"
definition WebsiteTargetTypeIPNS :: string where "WebsiteTargetTypeIPNS = ''ipns''"
definition IPFSPrefix :: string where "IPFSPrefix = ''/ipfs/''"
definition IPNSPrefix :: string where "IPNSPrefix = ''/ipns/''"

definition ToDNSLinkPath :: "string \<Rightarrow> string \<Rightarrow> string" where
  "ToDNSLinkPath t hash = (if t = WebsiteTargetTypeIPNS then IPNSPrefix @ hash else IPFSPrefix @ hash)"

definition trimPath :: "string \<Rightarrow> string" where
  "trimPath s = Trim s ''/''"

definition IPFSPath :: "string \<Rightarrow> string" where
  "IPFSPath c = IPFSPrefix @ trimPath c"

definition IPNSPath :: "string \<Rightarrow> string" where
  "IPNSPath p = IPNSPrefix @ trimPath p"

definition buildTargetPath :: "string \<Rightarrow> string \<Rightarrow> string" where
  "buildTargetPath hash t = ''dnslink='' @ ToDNSLinkPath t hash"

section \<open>Record sets\<close>

definition website_ttl :: int where "website_ttl = 300"

definition set_of :: "string \<Rightarrow> string \<Rightarrow> string \<Rightarrow> rrset" where
  "set_of name t content =
     \<lparr>rs_name = name, rs_type = t, rs_change = ''REPLACE'', rs_ttl = Some website_ttl,
      rs_records = Some [\<lparr>rr_content = content, rr_disabled = Some False\<rparr>]\<rparr>"

definition unset_of :: "string \<Rightarrow> string \<Rightarrow> rrset" where
  "unset_of name t = \<lparr>rs_name = name, rs_type = t, rs_change = ''DELETE'', rs_ttl = None, rs_records = None\<rparr>"

definition website_sets :: "dns_config \<Rightarrow> string \<Rightarrow> string \<Rightarrow> string \<Rightarrow> string \<Rightarrow> rrset list" where
  "website_sets cfg domain hash t token =
     [set_of (buildFullName ''_dnslink'' domain) ''TXT'' (formatTXTContent (buildTargetPath hash t)),
      set_of (buildFullName (dc_token_key cfg) domain) ''TXT'' (formatTXTContent token)]
     @ (if dc_gateway cfg \<noteq> []
        then [set_of (buildFullName domain domain) ''ALIAS'' (dc_gateway cfg @ ''.'')] else [])"

definition website_unsets :: "dns_config \<Rightarrow> string \<Rightarrow> rrset list" where
  "website_unsets cfg domain =
     [unset_of (buildFullName ''_dnslink'' domain) ''TXT'',
      unset_of (buildFullName (dc_token_key cfg) domain) ''TXT'']
     @ (if dc_gateway cfg \<noteq> [] then [unset_of (buildFullName domain domain) ''ALIAS''] else [])"

definition hns_zone_name :: "string \<Rightarrow> string" where
  "hns_zone_name d = TrimSuffix (TrimSuffix d ''/'') ''.'' @ ''.''"

definition hns_sets :: "dns_config \<Rightarrow> string \<Rightarrow> string \<Rightarrow> string \<Rightarrow> string \<Rightarrow> rrset list" where
  "hns_sets cfg domain hash t tlsa =
     (let zone = hns_zone_name domain in
      [set_of (buildFullName ''_dnslink'' zone) ''TXT'' (formatTXTContent (buildTargetPath hash t)),
       set_of (buildFullName ''_443._tcp'' zone) ''TLSA'' tlsa]
      @ (if dc_gateway cfg \<noteq> []
         then [set_of (buildFullName zone zone) ''ALIAS'' (TrimSuffix (dc_gateway cfg) ''.'' @ ''.'')] else []))"

definition hns_managed :: "dns_config \<Rightarrow> nat \<Rightarrow> string \<Rightarrow> string \<Rightarrow> string \<Rightarrow> string \<Rightarrow> dns_record list" where
  "hns_managed cfg i domain hash t tlsa =
     (let zone = hns_zone_name domain;
          rec = (\<lambda>n ty c. \<lparr>dr_zone = i, dr_name = n, dr_type = ty, dr_content = c, dr_ttl = 300,
                          dr_disabled = False\<rparr>) in
      [rec (buildFullName ''_dnslink'' zone) ''TXT'' (buildTargetPath hash t),
       rec (buildFullName ''_443._tcp'' zone) ''TLSA'' tlsa]
      @ (if dc_gateway cfg \<noteq> []
         then [rec (buildFullName zone zone) ''ALIAS'' (TrimSuffix (dc_gateway cfg) ''.'' @ ''.'')] else []))"

section \<open>Operations\<close>

text \<open>The zone, and the client when hosting is enabled.\<close>

definition hosted_zone ::
    "'p pdns_api option \<Rightarrow> gerr option \<Rightarrow> nat \<Rightarrow> zone_db \<Rightarrow> gerr + zone_row \<times> 'p pdns_api" where
  "hosted_zone api fault i db =
     (case GetZone fault i db of
        Inl e \<Rightarrow> Inl (Wrapped ''failed to get zone'' e)
      | Inr z \<Rightarrow>
          (case api of None \<Rightarrow> Inl (Opaque ''DNS hosting not enabled'') | Some a \<Rightarrow> Inr (z, a)))"

text \<open>The results of the DNSSEC requests are given in the order they are made.\<close>

definition EnsureZoneDNSSEC ::
    "gerr option \<Rightarrow> gerr + cryptokey list \<Rightarrow> gerr + cryptokey \<Rightarrow> gerr + cryptokey list \<Rightarrow> 'p pdns_api option \<Rightarrow>
     gerr option \<Rightarrow> nat \<Rightarrow> 'p dns \<Rightarrow> gerr + dnssec_record" where
  "EnsureZoneDNSSEC enabled keys created keys2 api fault i s =
     (case hosted_zone api fault i (dn_db s) of
        Inl e \<Rightarrow> Inl e
      | Inr (z, a) \<Rightarrow>
          if zr_pdns z = [] then Inl (Opaque ''zone not properly initialized in PowerDNS'')
          else case EnsureDNSSECAndGetDS enabled keys created keys2 of
            Inl e \<Rightarrow> Inl (Wrapped ''failed to ensure DNSSEC'' e)
          | Inr ds \<Rightarrow> Inr ds)"

definition CreateWebsiteDNSRecords ::
    "'p pdns_api option \<Rightarrow> dns_config \<Rightarrow> gerr option \<Rightarrow> nat \<Rightarrow> string \<Rightarrow> string \<Rightarrow> string \<Rightarrow> string \<Rightarrow> 'p dns \<Rightarrow>
     gerr option \<times> 'p dns" where
  "CreateWebsiteDNSRecords api cfg fault i domain hash t token s =
     (case hosted_zone api fault i (dn_db s) of
        Inl e \<Rightarrow> (Some e, s)
      | Inr (z, a) \<Rightarrow>
          (case patch_rrsets (Some a) (zr_pdns z) (website_sets cfg domain hash t token) s of
             (Some e, s') \<Rightarrow> (Some (Wrapped ''failed to create DNS records'' e), s')
           | (None, s') \<Rightarrow> (None, s')))"

definition UpdateWebsiteDNSRecords ::
    "'p pdns_api option \<Rightarrow> gerr option \<Rightarrow> nat \<Rightarrow> string \<Rightarrow> string \<Rightarrow> string \<Rightarrow> 'p dns \<Rightarrow> gerr option \<times> 'p dns" where
  "UpdateWebsiteDNSRecords api fault i domain hash t s =
     (case hosted_zone api fault i (dn_db s) of
        Inl e \<Rightarrow> (Some e, s)
      | Inr (z, a) \<Rightarrow>
          (case patch_rrsets (Some a) (zr_pdns z)
              [set_of (buildFullName ''_dnslink'' domain) ''TXT'' (formatTXTContent (buildTargetPath hash t))] s of
             (Some e, s') \<Rightarrow> (Some (Wrapped ''failed to update DNS records'' e), s')
           | (None, s') \<Rightarrow> (None, s')))"

text \<open>A failure of the request is logged only.\<close>

definition DeleteWebsiteDNSRecords ::
    "'p pdns_api option \<Rightarrow> dns_config \<Rightarrow> gerr option \<Rightarrow> nat \<Rightarrow> string \<Rightarrow> 'p dns \<Rightarrow> gerr option \<times> 'p dns" where
  "DeleteWebsiteDNSRecords api cfg fault i domain s =
     (case hosted_zone api fault i (dn_db s) of
        Inl e \<Rightarrow> (Some e, s)
      | Inr (z, a) \<Rightarrow> (None, snd (patch_rrsets (Some a) (zr_pdns z) (website_unsets cfg domain) s)))"

definition CreateHNSDNSRecords ::
    "'p pdns_api option \<Rightarrow> dns_config \<Rightarrow> gerr option \<Rightarrow> nat \<Rightarrow> string \<Rightarrow> string \<Rightarrow> string \<Rightarrow> string \<Rightarrow> 'p dns \<Rightarrow>
     (gerr + dns_record list) \<times> 'p dns" where
  "CreateHNSDNSRecords api cfg fault i domain hash t tlsa s =
     (case hosted_zone api fault i (dn_db s) of
        Inl e \<Rightarrow> (Inl e, s)
      | Inr (z, a) \<Rightarrow>
          (case patch_rrsets (Some a) (zr_pdns z) (hns_sets cfg domain hash t tlsa) s of
             (Some e, s') \<Rightarrow> (Inl (Wrapped ''failed to create HNS DNS records'' e), s')
           | (None, s') \<Rightarrow> (Inr (hns_managed cfg i domain hash t tlsa), s')))"

section \<open>Where the records lie\<close>

text \<open>The names at and below a domain, with the final dot.\<close>

definition below :: "string \<Rightarrow> string \<Rightarrow> bool" where
  "below d n \<longleftrightarrow> n = d @ ''.'' \<or> HasSuffix n (''.'' @ d @ ''.'')"

lemma buildFullName_below: "below (TrimSuffix d ''.'') (buildFullName n d)"
proof -
  obtain w where "buildFullName n d = w @ ''.''"
    "w = TrimSuffix d ''.'' \<or> HasSuffix w (''.'' @ TrimSuffix d ''.'')" by (rule buildFullName_cases)
  then show ?thesis by (auto simp: below_def HasSuffix_iff)
qed

definition within :: "string \<Rightarrow> (string \<times> string) set" where
  "within d = {(n, t). below (TrimSuffix d ''.'') n}"

lemma sets_within:
  "rs_key ` set (website_sets cfg d h t tok) \<subseteq> within d"
  "rs_key ` set (website_unsets cfg d) \<subseteq> within d"
  by (auto simp: website_sets_def website_unsets_def within_def rs_key_def set_of_def unset_of_def
      buildFullName_below)

lemma unsets_of_sets: "map rs_key (website_unsets cfg d) = map rs_key (website_sets cfg d h t tok)"
  by (simp add: website_sets_def website_unsets_def rs_key_def set_of_def unset_of_def)

lemma hosted_zone_InrD:
  "hosted_zone api fault i db = Inr (z, a) \<Longrightarrow> find_zone i db = Some z \<and> api = Some a"
  by (auto simp: hosted_zone_def GetZone_def split: sum.splits option.splits if_splits)

lemma website_writes_upto:
  assumes f: "patch_frame a (zr_pdns z)" and z: "find_zone i (dn_db s) = Some z"
  shows "zone_upto a (zr_pdns z) (within d) s (snd (CreateWebsiteDNSRecords (Some a) cfg fault i d h t tok s))"
    and "zone_upto a (zr_pdns z) (within d) s (snd (UpdateWebsiteDNSRecords (Some a) fault i d h t s))"
    and "zone_upto a (zr_pdns z) (within d) s (snd (DeleteWebsiteDNSRecords (Some a) cfg fault i d s))"
proof -
  have *: "y = z \<and> b = a" if "hosted_zone (Some a) fault i (dn_db s) = Inr (y, b)" for y b
    using hosted_zone_InrD [OF that] z by simp
  have w: "zone_upto a (zr_pdns z) (within d) s (snd (patch_rrsets (Some a) (zr_pdns z) rs s))"
    if "rs_key ` set rs \<subseteq> within d" for rs
    by (rule zone_upto_mono [OF patch_upto [OF f] that])
  have link: "rs_key ` set [set_of (buildFullName ''_dnslink'' d) ''TXT'' c] \<subseteq> within d" for c
    by (simp add: rs_key_def set_of_def within_def buildFullName_below)
  show "zone_upto a (zr_pdns z) (within d) s (snd (CreateWebsiteDNSRecords (Some a) cfg fault i d h t tok s))"
    using w [OF sets_within(1)]
    by (auto simp: CreateWebsiteDNSRecords_def split: sum.splits prod.splits option.splits dest!: *)
       (metis snd_conv)+
  show "zone_upto a (zr_pdns z) (within d) s (snd (UpdateWebsiteDNSRecords (Some a) fault i d h t s))"
    using w [OF link]
    by (auto simp: UpdateWebsiteDNSRecords_def split: sum.splits prod.splits option.splits dest!: *)
       (metis snd_conv)+
  show "zone_upto a (zr_pdns z) (within d) s (snd (DeleteWebsiteDNSRecords (Some a) cfg fault i d s))"
    using w [OF sets_within(2)] by (auto simp: DeleteWebsiteDNSRecords_def split: sum.splits dest!: *)
qed

section \<open>Properties\<close>

text \<open>C37. Whatever the DNS operations of a website write lies at or below the domain of the website: every other
  set of the zone, which may be shared with other websites, is answered as before, and the database is
  unchanged.  The sets that the deletion names are those that the creation wrote, one for one.\<close>

theorem dns_website_isolated:
  assumes "patch_frame a (zr_pdns z)" and "find_zone i (dn_db s) = Some z"
    and "\<not> below (TrimSuffix d ''.'') n"
  shows "srv_set a (zr_pdns z) (dn_pdns (snd (CreateWebsiteDNSRecords (Some a) cfg fault i d h t tok s))) n u
           = srv_set a (zr_pdns z) (dn_pdns s) n u \<and>
         srv_set a (zr_pdns z) (dn_pdns (snd (UpdateWebsiteDNSRecords (Some a) fault i d h t s))) n u
           = srv_set a (zr_pdns z) (dn_pdns s) n u \<and>
         srv_set a (zr_pdns z) (dn_pdns (snd (DeleteWebsiteDNSRecords (Some a) cfg fault i d s))) n u
           = srv_set a (zr_pdns z) (dn_pdns s) n u \<and>
         map rs_key (website_unsets cfg d) = map rs_key (website_sets cfg d h t tok)"
proof -
  have "(n, u) \<notin> within d" using assms(3) by (simp add: within_def)
  then show ?thesis
    using website_writes_upto(1) [OF assms(1,2), of d cfg fault h t tok]
      website_writes_upto(2) [OF assms(1,2), of d fault h t]
      website_writes_upto(3) [OF assms(1,2), of d cfg fault] unsets_of_sets [of cfg d h t tok]
    unfolding zone_upto_def by blast
qed

theorem dns_website_isolated_witness:
  "srv_set mem_api ''ex.org.''
     (dn_pdns (snd (CreateWebsiteDNSRecords (Some mem_api) \<lparr>dc_nameservers = [], dc_gateway = ''gw'', dc_token_key = ''v''\<rparr>
        None 1 ''docs.ex.org'' ''Qm'' ''ipfs'' ''v=1'' demo_dns))) ''ex.org.'' ''SOA''
   = srv_set mem_api ''ex.org.'' (dn_pdns demo_dns) ''ex.org.'' ''SOA''"
proof -
  have z: "find_zone 1 (dn_db demo_dns) = Some demo_zone" "zr_pdns demo_zone = ''ex.org.''"
    by (simp_all add: demo_dns_def demo_zone_def find_zone_def)
  have "\<not> below (TrimSuffix ''docs.ex.org'' ''.'') ''ex.org.''" by code_simp
  then show ?thesis using dns_website_isolated [OF mem_frame z(1)] z(2) by simp
qed

end
