(* ===== verification/HNS_Domain.thy ===== *)
theory HNS_Domain
  imports DNS_Website
begin

text \<open>
  Handshake names: the pure functions of \<^verbatim>\<open>internal/service/website/hns.go\<close> and the row of
  \<^verbatim>\<open>internal/db/hns_domain.go\<close>.  The URL parser, the PEM and certificate decoders, SHA-256 in hex and the
  connection to the gateway are parameters.  Spaces are those of ASCII.
\<close>

section \<open>Names\<close>

definition TrimSpace :: "string \<Rightarrow> string" where
  "TrimSpace s = rev (dropWhile is_space (rev (dropWhile is_space s)))"

record normalizedHNSDomain =
  nh_display :: string
  nh_zone :: string
  nh_gateway :: string

definition hns_char :: "char \<Rightarrow> bool" where
  "hns_char c \<longleftrightarrow>
     (let n = of_char c :: nat in (97 \<le> n \<and> n \<le> 122) \<or> (48 \<le> n \<and> n \<le> 57) \<or> c = CHR ''-'')"

text \<open>The checks of the bare name.\<close>

definition check_hns_name :: "string \<Rightarrow> gerr + normalizedHNSDomain" where
  "check_hns_name raw =
     (let name = ToLower (TrimSpace raw) in
      if name = [] then Inl (Opaque ''HNS domain cannot be empty'')
      else if list_ex (\<lambda>c. c = CHR ''/'' \<or> c = CHR '':'') name \<or> Contains name ''.''
      then Inl (Opaque ''HNS domain must be a single Handshake name'')
      else if 63 < length name then Inl (Opaque ''HNS name too long'')
      else if HasPrefix name ''-'' \<or> HasSuffix name ''-''
      then Inl (Opaque ''HNS name cannot start or end with hyphen'')
      else if \<not> list_all hns_char name then Inl (Opaque ''HNS name contains invalid character'')
      else Inr \<lparr>nh_display = name @ ''/'', nh_zone = name @ ''.'', nh_gateway = name\<rparr>)"

text \<open>\<open>url\<close> gives the path and the host name of a URL.\<close>

definition normalizeHNSDomain ::
    "(string \<Rightarrow> gerr + string \<times> string) \<Rightarrow> string \<Rightarrow> gerr + normalizedHNSDomain" where
  "normalizeHNSDomain url input =
     (let raw = TrimSpace input in
      if raw = [] then Inl (Opaque ''HNS domain cannot be empty'')
      else if HasPrefix (ToLower raw) ''http://'' \<or> HasPrefix (ToLower raw) ''https://'' then
        (case url raw of
           Inl e \<Rightarrow> Inl (Wrapped ''invalid HNS URL'' e)
         | Inr (path, host) \<Rightarrow>
             if path \<noteq> [] \<and> path \<noteq> ''/'' then Inl (Opaque ''HNS URL path is not supported'')
             else check_hns_name host)
      else check_hns_name (TrimSuffix (TrimSuffix raw ''/'') ''.''))"

section \<open>TLSA and DS records\<close>

definition tlsaRecordFromCertificate :: "('c \<Rightarrow> string) \<Rightarrow> 'c \<Rightarrow> string" where
  "tlsaRecordFromCertificate spki_hex cert = ''3 1 1 '' @ spki_hex cert"

definition tlsaRecordFromPEM ::
    "(string \<Rightarrow> bytes option) \<Rightarrow> (bytes \<Rightarrow> gerr + 'c) \<Rightarrow> ('c \<Rightarrow> string) \<Rightarrow> string \<Rightarrow> gerr + string" where
  "tlsaRecordFromPEM pem x509 spki_hex data =
     (case pem data of
        None \<Rightarrow> Inl (Opaque ''failed to decode certificate PEM'')
      | Some b \<Rightarrow>
          (case x509 b of
             Inl e \<Rightarrow> Inl e
           | Inr cert \<Rightarrow> Inr (tlsaRecordFromCertificate spki_hex cert)))"

definition hex_char :: "char \<Rightarrow> bool" where
  "hex_char c \<longleftrightarrow>
     (let n = of_char c :: nat in (48 \<le> n \<and> n \<le> 57) \<or> (97 \<le> n \<and> n \<le> 102) \<or> (65 \<le> n \<and> n \<le> 70))"

definition normalizeTLSARecord :: "string \<Rightarrow> gerr + string" where
  "normalizeTLSARecord record =
     (let fields = Fields record in
      if length fields \<noteq> 4 then Inl (Opaque ''TLSA record must have four fields'')
      else if fields ! 0 \<noteq> ''3'' \<or> fields ! 1 \<noteq> ''1'' \<or> fields ! 2 \<noteq> ''1''
      then Inl (Opaque ''only TLSA 3 1 1 records are supported'')
      else
        let digest = ToLower (fields ! 3) in
        if length digest \<noteq> 64 then Inl (Opaque ''TLSA digest must be a SHA-256 hex digest'')
        else if \<not> list_all hex_char digest then Inl (Opaque ''invalid TLSA digest'')
        else Inr (Join [''3'', ''1'', ''1'', digest] '' ''))"

record tlsa_config =
  tc_record :: string
  tc_pem :: string
  tc_endpoint :: string
  tc_gateway :: string

text \<open>\<open>fetch\<close> reads the certificate of an endpoint, under a server name, and makes its record.\<close>

definition hnsTLSARecord ::
    "tlsa_config option \<Rightarrow> (string \<Rightarrow> gerr + string) \<Rightarrow> (string \<Rightarrow> string \<Rightarrow> gerr + string) \<Rightarrow> string \<Rightarrow> gerr + string" where
  "hnsTLSARecord cfg from_pem fetch host =
     (case cfg of
        None \<Rightarrow> Inl (Opaque ''DNS service config not loaded'')
      | Some c \<Rightarrow>
          if tc_record c \<noteq> [] then normalizeTLSARecord (tc_record c)
          else if tc_pem c \<noteq> [] then from_pem (tc_pem c)
          else
            let endpoint = (if tc_endpoint c = [] \<and> tc_gateway c \<noteq> [] then tc_gateway c else tc_endpoint c) in
            if endpoint = []
            then Inl (Opaque ''dane_tlsa_record, dane_certificate_pem, or gateway_domain must be configured'')
            else fetch endpoint host)"

definition formatDSRecord :: "dnssec_record option \<Rightarrow> string" where
  "formatDSRecord ds =
     (case ds of
        None \<Rightarrow> []
      | Some d \<Rightarrow> Join [dec (ds_key_tag d), dec (ds_algorithm d), dec (ds_digest_type d), ToUpper (ds_digest d)] '' '')"

datatype wallet_record = WalletNS string | WalletDS dnssec_record

definition buildHNSWalletBundle :: "string list \<Rightarrow> dnssec_record option \<Rightarrow> wallet_record list" where
  "buildHNSWalletBundle nameservers ds =
     map (\<lambda>ns. WalletNS (TrimSuffix ns ''.'' @ ''.'')) (filter (\<lambda>ns. ns \<noteq> []) (map TrimSpace nameservers))
     @ (case ds of None \<Rightarrow> [] | Some d \<Rightarrow> [WalletDS (d\<lparr>ds_digest := ToUpper (ds_digest d)\<rparr>)])"

definition managedRecordsFromDTO :: "dns_record option list \<Rightarrow> (string \<times> string \<times> string) list" where
  "managedRecordsFromDTO rs =
     concat (map (\<lambda>r. case r of None \<Rightarrow> [] | Some r \<Rightarrow> [(dr_name r, dr_type r, dr_content r)]) rs)"

definition gatewayRoute :: "string \<Rightarrow> string \<Rightarrow> string \<Rightarrow> string \<times> string" where
  "gatewayRoute host t hash = (host, t @ ''://'' @ hash)"

section \<open>The table\<close>

record hns_row =
  hr_id :: nat
  hr_user :: nat
  hr_site :: nat
  hr_domain :: string
  hr_type :: string
  hr_mode :: string
  hr_zone_name :: string
  hr_gateway :: string
  hr_zone :: "nat option"
  hr_cid :: string
  hr_status :: string
  hr_wallet :: "wallet_record list"
  hr_managed :: "(string \<times> string \<times> string) list"
  hr_ds :: string
  hr_tlsa :: string
  hr_route :: "string \<times> string"
  hr_route_status :: string
  hr_deleted :: bool

record hns_db =
  hd_rows :: "hns_row list"
  hd_next :: nat

definition hns_records_generated :: string where "hns_records_generated = ''records_generated''"

definition hns_statuses :: "string list" where
  "hns_statuses = [''draft'', hns_records_generated, ''waiting_for_parent_delegation'', ''active'', ''error'']"

text \<open>The hook fills in defaults before it checks.\<close>

definition hns_BeforeSave :: "hns_row \<Rightarrow> gerr + hns_row" where
  "hns_BeforeSave r =
     (let r1 = (if hr_type r = [] then r\<lparr>hr_type := ''hns''\<rparr> else r) in
      if hr_type r1 \<noteq> ''hns'' then Inl (Opaque (''invalid domain type: '' @ hr_type r1))
      else let r2 = (if hr_mode r1 = [] then r1\<lparr>hr_mode := ''dane''\<rparr> else r1) in
        if hr_mode r2 \<noteq> ''dane'' then Inl (Opaque (''invalid HNS mode: '' @ hr_mode r2))
        else let r3 = (if hr_status r2 = [] then r2\<lparr>hr_status := ''draft''\<rparr> else r2) in
          if hr_status r3 \<notin> set hns_statuses
          then Inl (Opaque (''INVALID_WEBSITE_STATUS: '' @ hr_status r3)) else Inr r3)"

definition hns_insert :: "gerr option \<Rightarrow> hns_row \<Rightarrow> hns_db \<Rightarrow> gerr + hns_row \<times> hns_db" where
  "hns_insert fault r db =
     (case fault of
        Some e \<Rightarrow> Inl e
      | None \<Rightarrow>
          (case hns_BeforeSave r of
             Inl e \<Rightarrow> Inl e
           | Inr r \<Rightarrow>
               if list_ex (\<lambda>x. \<not> hr_deleted x \<and>
                    (EqualFold (hr_domain x) (hr_domain r) \<or> EqualFold (hr_gateway x) (hr_gateway r))) (hd_rows db)
               then Inl (Opaque ''UNIQUE constraint failed: ipfs_hns_domains'')
               else let r' = r\<lparr>hr_id := hd_next db\<rparr> in
                 Inr (r', db\<lparr>hd_rows := hd_rows db @ [r'], hd_next := hd_next db + 1\<rparr>)))"

section \<open>Laws\<close>

lemma dropWhile_none: "list_all (\<lambda>c. \<not> P c) s \<Longrightarrow> dropWhile P s = s"
  by (cases s) auto

lemma TrimSpace_none: "list_all (\<lambda>c. \<not> is_space c) s \<Longrightarrow> TrimSpace s = s"
  by (simp add: TrimSpace_def dropWhile_none list_all_rev)

lemma hns_char_not: "hns_char c \<Longrightarrow> c \<noteq> CHR '':'' \<and> c \<noteq> CHR ''/'' \<and> c \<noteq> CHR ''.'' \<and> \<not> is_space c \<and> lower_char c = c"
  by (auto simp: hns_char_def is_space_def lower_char_def Let_def)

lemma hns_name_lower: "list_all hns_char n \<Longrightarrow> ToLower n = n"
  by (induction n) (auto simp: ToLower_def hns_char_not)

lemma not_http:
  assumes "CHR '':'' \<notin> set s"
  shows "\<not> HasPrefix s ''http://''" "\<not> HasPrefix s ''https://''"
  using assms by (auto simp: HasPrefix_iff)

lemma check_hns_name_InrD:
  assumes "check_hns_name raw = Inr r"
  obtains n where "r = \<lparr>nh_display = n @ ''/'', nh_zone = n @ ''.'', nh_gateway = n\<rparr>"
    "list_all hns_char n" "check_hns_name n = Inr r" "n \<noteq> []"
proof -
  let ?n = "ToLower (TrimSpace raw)"
  have all: "list_all hns_char ?n" and ne: "?n \<noteq> []"
    and r: "r = \<lparr>nh_display = ?n @ ''/'', nh_zone = ?n @ ''.'', nh_gateway = ?n\<rparr>"
    using assms by (auto simp: check_hns_name_def Let_def split: if_splits)
  have "TrimSpace ?n = ?n"
    by (rule TrimSpace_none) (use all hns_char_not in \<open>auto simp: list_all_iff\<close>)
  then have "check_hns_name ?n = check_hns_name raw"
    using hns_name_lower [OF all] by (simp add: check_hns_name_def)
  then show ?thesis using that [OF r all _ ne] assms by simp
qed

lemma normalize_spelling:
  assumes n: "list_all hns_char n" "n \<noteq> []" and c: "check_hns_name n = Inr r"
    and t: "list_all (\<lambda>c. c \<noteq> CHR '':'' \<and> \<not> is_space c \<and> lower_char c = c) s" "s \<noteq> []"
    and s: "TrimSuffix (TrimSuffix s ''/'') ''.'' = n"
  shows "normalizeHNSDomain url s = Inr r"
proof -
  have "TrimSpace s = s" by (rule TrimSpace_none) (use t in \<open>auto simp: list_all_iff\<close>)
  moreover have "ToLower s = s" using t(1) by (induction s) (auto simp: ToLower_def)
  moreover have "CHR '':'' \<notin> set s" using t(1) by (auto simp: list_all_iff)
  ultimately show ?thesis using t(2) s c not_http [of s] by (simp add: normalizeHNSDomain_def Let_def)
qed

lemma hns_no_suffix:
  assumes "list_all hns_char n"
  shows "TrimSuffix n ''/'' = n" "TrimSuffix n ''.'' = n"
  using assms hns_char_not [of "CHR ''/''"] hns_char_not [of "CHR ''.''"]
  by (auto intro!: TrimSuffix_not simp: HasSuffix_iff)

section \<open>Properties\<close>

text \<open>Every spelling of a Handshake name that is stored (the name with a slash, with a dot, and bare) normalises to
  the same three spellings, whatever was typed to get them, a URL included; so a lookup by any of them finds
  the row.\<close>

lemma hns_normalize_stable:
  assumes "normalizeHNSDomain url input = Inr r"
  shows "normalizeHNSDomain url' (nh_display r) = Inr r \<and> normalizeHNSDomain url' (nh_zone r) = Inr r \<and>
         normalizeHNSDomain url' (nh_gateway r) = Inr r"
proof -
  obtain raw where "check_hns_name raw = Inr r"
    using assms by (auto simp: normalizeHNSDomain_def Let_def split: if_splits sum.splits prod.splits)
  then obtain n where r: "r = \<lparr>nh_display = n @ ''/'', nh_zone = n @ ''.'', nh_gateway = n\<rparr>"
    and n: "list_all hns_char n" "check_hns_name n = Inr r" "n \<noteq> []" by (rule check_hns_name_InrD)
  have plain: "list_all (\<lambda>c. c \<noteq> CHR '':'' \<and> \<not> is_space c \<and> lower_char c = c) n"
    using n(1) hns_char_not by (auto simp: list_all_iff)
  have ends: "list_all (\<lambda>c. c \<noteq> CHR '':'' \<and> \<not> is_space c \<and> lower_char c = c) ''/.''" by code_simp
  note * = normalize_spelling [OF n(1,3,2)] hns_no_suffix [OF n(1)]
  have "TrimSuffix (n @ ''.'') ''/'' = n @ ''.''" by (rule TrimSuffix_not) (simp add: HasSuffix_iff)
  then show ?thesis unfolding r normalizedHNSDomain.simps using plain ends n(3) * by (auto simp: r)
qed

lemma hns_normalize_stable_example:
  "normalizeHNSDomain (\<lambda>_. Inl EOF) ''foo/'' = Inr \<lparr>nh_display = ''foo/'', nh_zone = ''foo.'', nh_gateway = ''foo''\<rparr>"
proof -
  have "normalizeHNSDomain (\<lambda>_. Inr ([], ''foo'')) '' HTTP://foo '' =
      Inr \<lparr>nh_display = ''foo/'', nh_zone = ''foo.'', nh_gateway = ''foo''\<rparr>" by code_simp
  from hns_normalize_stable [OF this] show ?thesis by simp
qed

end
