(* ===== verification/Ipns_Key.thy ===== *)
theory Ipns_Key
  imports Cid_Context Go_Strings
begin

text \<open>
  IPNS keys: \<^verbatim>\<open>internal/service/ipns_key/ipns_key.go\<close>, \<^verbatim>\<open>db_keystore.go\<close> and \<^verbatim>\<open>republisher.go\<close>, the row
  of \<^verbatim>\<open>internal/db/ipfs_ipns_key.go\<close> and the wrapper \<^verbatim>\<open>internal/protocol/ipfs/safe_keystore.go\<close>.  Keys of
  libp2p, the cipher, base64, the textual forms of peer ids and CIDs, the publisher and boxo's keystore are
  parameters.
\<close>

section \<open>The cipher around a key\<close>

text \<open>
  What is called of libp2p's \<open>crypto\<close>, \<open>hkdf\<close>, AES-GCM and base64.  \<open>cr_seed\<close> is the derived seed of the
  portal, \<open>cr_peer\<close> the multihash of the peer id of a key.
\<close>

record 'k crypto =
  cr_marshal :: "'k \<Rightarrow> gerr + bytes"
  cr_unmarshal :: "bytes \<Rightarrow> gerr + 'k"
  cr_peer :: "'k \<Rightarrow> gerr + bytes"
  cr_seed :: "gerr + bytes"
  cr_seal :: "bytes \<Rightarrow> bytes \<Rightarrow> bytes \<Rightarrow> bytes"
  cr_open :: "bytes \<Rightarrow> bytes \<Rightarrow> bytes \<Rightarrow> gerr + bytes"
  cr_b64 :: "bytes \<Rightarrow> string"
  cr_unb64 :: "string \<Rightarrow> gerr + bytes"

definition NonceSize :: nat where "NonceSize = 12"

definition encryptPrivateKey :: "'k crypto \<Rightarrow> gerr + bytes \<Rightarrow> 'k \<Rightarrow> gerr + bytes" where
  "encryptPrivateKey cr nonce k =
     (case cr_marshal cr k of
        Inl e \<Rightarrow> Inl e
      | Inr kb \<Rightarrow>
          (case cr_seed cr of
             Inl e \<Rightarrow> Inl (Wrapped ''failed to derive encryption seed'' e)
           | Inr seed \<Rightarrow>
               (case nonce of Inl e \<Rightarrow> Inl e | Inr n \<Rightarrow> Inr (n @ cr_seal cr seed n kb))))"

definition decryptPrivateKey :: "'k crypto \<Rightarrow> bytes \<Rightarrow> gerr + 'k" where
  "decryptPrivateKey cr enc =
     (case cr_seed cr of
        Inl e \<Rightarrow> Inl (Wrapped ''failed to derive decryption seed'' e)
      | Inr seed \<Rightarrow>
          if length enc < NonceSize then Inl (Opaque ''ciphertext too short'')
          else case cr_open cr seed (take NonceSize enc) (drop NonceSize enc) of
            Inl e \<Rightarrow> Inl e
          | Inr kb \<Rightarrow> cr_unmarshal cr kb)"

text \<open>Opening what was sealed gives it back, and so do the two pairs of encoders.\<close>

definition crypto_ok :: "'k crypto \<Rightarrow> bool" where
  "crypto_ok cr \<longleftrightarrow>
     (\<forall>s n m. cr_open cr s n (cr_seal cr s n m) = Inr m) \<and>
     (\<forall>k b. cr_marshal cr k = Inr b \<longrightarrow> cr_unmarshal cr b = Inr k) \<and>
     (\<forall>b. cr_unb64 cr (cr_b64 cr b) = Inr b)"

lemma decrypt_encrypt:
  assumes "crypto_ok cr" "length n = NonceSize" "encryptPrivateKey cr (Inr n) k = Inr enc"
  shows "decryptPrivateKey cr enc = Inr k"
  using assms by (auto simp: crypto_ok_def encryptPrivateKey_def decryptPrivateKey_def split: sum.splits)

section \<open>The table of keys\<close>

record key_row =
  kr_id :: nat
  kr_user :: nat
  kr_name :: string
  kr_peer :: bytes
  kr_enc :: bytes
  kr_cid :: string
  kr_at :: "nat option"
  kr_deleted :: bool

record key_db =
  kd_rows :: "key_row list"
  kd_next :: nat

definition key_BeforeSave :: "key_row \<Rightarrow> gerr option" where
  "key_BeforeSave r = (if kr_peer r = [] then Some (Opaque ''peer_id_multihash cannot be empty'') else None)"

text \<open>The unique index of the migration is on the user and the peer id of every row, deleted or not.\<close>

definition key_taken :: "nat \<Rightarrow> bytes \<Rightarrow> key_db \<Rightarrow> bool" where
  "key_taken u p db \<longleftrightarrow> list_ex (\<lambda>r. kr_user r = u \<and> kr_peer r = p) (kd_rows db)"

definition key_insert :: "gerr option \<Rightarrow> key_row \<Rightarrow> key_db \<Rightarrow> gerr + (key_row \<times> key_db)" where
  "key_insert fault r db =
     (case fault of
        Some e \<Rightarrow> Inl e
      | None \<Rightarrow>
          (case key_BeforeSave r of
             Some e \<Rightarrow> Inl e
           | None \<Rightarrow>
               if key_taken (kr_user r) (kr_peer r) db
               then Inl (Opaque ''UNIQUE constraint failed: ipfs_ipns_keys.user_id, ipfs_ipns_keys.peer_id_multihash'')
               else let r' = r\<lparr>kr_id := kd_next db\<rparr> in
                 Inr (r', db\<lparr>kd_rows := kd_rows db @ [r'], kd_next := kd_next db + 1\<rparr>)))"

definition find_key :: "(key_row \<Rightarrow> bool) \<Rightarrow> key_db \<Rightarrow> key_row option" where
  "find_key P db = find (\<lambda>r. \<not> kr_deleted r \<and> P r) (kd_rows db)"

text \<open>A query for the first row: the error of the database, or that there is none.\<close>

definition first_key :: "gerr option \<Rightarrow> (key_row \<Rightarrow> bool) \<Rightarrow> key_db \<Rightarrow> gerr + key_row" where
  "first_key fault P db =
     (case fault of
        Some e \<Rightarrow> Inl e
      | None \<Rightarrow> (case find_key P db of Some r \<Rightarrow> Inr r | None \<Rightarrow> Inl RecordNotFound))"

definition soft_delete_keys :: "(key_row \<Rightarrow> bool) \<Rightarrow> key_db \<Rightarrow> key_db" where
  "soft_delete_keys P db =
     db\<lparr>kd_rows := map (\<lambda>r. if \<not> kr_deleted r \<and> P r then r\<lparr>kr_deleted := True\<rparr> else r) (kd_rows db)\<rparr>"

section \<open>Keystores\<close>

text \<open>boxo's keystore as the service calls it: \<open>has\<close>, \<open>put\<close> and \<open>delete\<close> over its state.\<close>

record ('ks, 'k) boxo =
  bx_has :: "string \<Rightarrow> 'ks \<Rightarrow> gerr + bool"
  bx_put :: "string \<Rightarrow> 'k \<Rightarrow> 'ks \<Rightarrow> gerr option \<times> 'ks"
  bx_del :: "string \<Rightarrow> 'ks \<Rightarrow> gerr option \<times> 'ks"

text \<open>
  \<open>syncKeyToBoxoKeystore\<close>.  The node may have no keystore; a nil private key is \<open>None\<close>.
\<close>

definition syncKeyToBoxoKeystore ::
    "('ks, 'k) boxo option \<Rightarrow> string \<Rightarrow> 'k option \<Rightarrow> 'ks \<Rightarrow> gerr option \<times> 'ks" where
  "syncKeyToBoxoKeystore bx name k ks =
     (case bx of
        None \<Rightarrow> (Some (Opaque ''boxo keystore not found''), ks)
      | Some b \<Rightarrow>
          (case bx_has b name ks of
             Inl e \<Rightarrow> (Some (Wrapped ''failed to check if key exists in keystore'' e), ks)
           | Inr True \<Rightarrow> (None, ks)
           | Inr False \<Rightarrow>
               (case k of
                  None \<Rightarrow> (Some (Opaque ''private key is nil''), ks)
                | Some k \<Rightarrow>
                    (case bx_put b name k ks of
                       (Some e, ks') \<Rightarrow> (Some (Wrapped ''failed to import key into boxo keystore'' e), ks')
                     | (None, ks') \<Rightarrow> (None, ks')))))"

text \<open>\<open>DBKeystore\<close>, whose names are peer ids: \<open>dcd\<close> is \<open>peer.Decode\<close>, \<open>str\<close> its inverse.\<close>

abbreviation NoSuchKey :: gerr where "NoSuchKey \<equiv> Opaque ''no key by the given name was found''"

definition peerIDToMultihash :: "(string \<Rightarrow> gerr + bytes) \<Rightarrow> string \<Rightarrow> gerr + bytes" where
  "peerIDToMultihash dcd n = (case dcd n of Inl _ \<Rightarrow> Inl NoSuchKey | Inr p \<Rightarrow> Inr p)"

definition db_Has :: "(string \<Rightarrow> gerr + bytes) \<Rightarrow> gerr option \<Rightarrow> string \<Rightarrow> key_db \<Rightarrow> gerr + bool" where
  "db_Has dcd fault n db =
     (case peerIDToMultihash dcd n of
        Inl _ \<Rightarrow> Inr False
      | Inr p \<Rightarrow>
          (case fault of
             Some e \<Rightarrow> Inl e
           | None \<Rightarrow> Inr (0 < length (filter (\<lambda>r. kr_peer r = p \<and> \<not> kr_deleted r) (kd_rows db)))))"

definition db_Put :: "string \<Rightarrow> 'k \<Rightarrow> gerr option" where
  "db_Put n k = Some (Opaque ''DBKeystore does not support Put'')"

text \<open>\<open>decrypt\<close> gives a nil key as \<open>None\<close>.\<close>

definition db_Get ::
    "(string \<Rightarrow> gerr + bytes) \<Rightarrow> (bytes \<Rightarrow> gerr + 'k option) \<Rightarrow> gerr option \<Rightarrow> string \<Rightarrow> key_db \<Rightarrow> gerr + 'k option" where
  "db_Get dcd decrypt fault n db =
     (case peerIDToMultihash dcd n of
        Inl e \<Rightarrow> Inl e
      | Inr p \<Rightarrow>
          (case first_key fault (\<lambda>r. kr_peer r = p) db of
             Inl e \<Rightarrow> Inl (if errors_is e RecordNotFound then NoSuchKey else e)
           | Inr r \<Rightarrow>
               (case decrypt (kr_enc r) of
                  Inl e \<Rightarrow> Inl e
                | Inr None \<Rightarrow> Inl NoSuchKey
                | Inr (Some k) \<Rightarrow> Inr (Some k))))"

definition db_Delete ::
    "(string \<Rightarrow> gerr + bytes) \<Rightarrow> gerr option \<Rightarrow> string \<Rightarrow> key_db \<Rightarrow> gerr option \<times> key_db" where
  "db_Delete dcd fault n db =
     (case peerIDToMultihash dcd n of
        Inl e \<Rightarrow> (Some e, db)
      | Inr p \<Rightarrow>
          (case fault of Some e \<Rightarrow> (Some e, db) | None \<Rightarrow> (None, soft_delete_keys (\<lambda>r. kr_peer r = p) db)))"

definition db_List :: "(bytes \<Rightarrow> string) \<Rightarrow> gerr option \<Rightarrow> key_db \<Rightarrow> (gerr + string list) \<times> key_db" where
  "db_List str fault db =
     (case fault of
        Some e \<Rightarrow> (Inl e, db)
      | None \<Rightarrow> (Inr (map (\<lambda>r. str (kr_peer r)) (filter (\<lambda>r. \<not> kr_deleted r) (kd_rows db))), db))"

definition ListKeysWithCID :: "gerr option \<Rightarrow> key_db \<Rightarrow> gerr + key_row list" where
  "ListKeysWithCID fault db =
     (case fault of
        Some e \<Rightarrow> Inl e
      | None \<Rightarrow> Inr (filter (\<lambda>r. kr_cid r \<noteq> [] \<and> \<not> kr_deleted r) (kd_rows db)))"

text \<open>\<open>SafeKeystore\<close> around a keystore: a nil key is refused, not returned, and removed from lists.\<close>

definition sk_Put ::
    "(string \<Rightarrow> 'k option \<Rightarrow> 's \<Rightarrow> gerr option \<times> 's) \<Rightarrow> string \<Rightarrow> 'k option \<Rightarrow> 's \<Rightarrow> gerr option \<times> 's" where
  "sk_Put put n k s =
     (if k = None then (Some (Opaque ''cannot put nil key into keystore''), s) else put n k s)"

definition sk_Get :: "(string \<Rightarrow> 's \<Rightarrow> gerr + 'k option) \<Rightarrow> string \<Rightarrow> 's \<Rightarrow> gerr + 'k option" where
  "sk_Get get n s =
     (case get n s of
        Inl e \<Rightarrow> Inl e
      | Inr None \<Rightarrow> Inl (Opaque (''key '' @ n @ '' exists but is nil in keystore''))
      | Inr (Some k) \<Rightarrow> Inr (Some k))"

fun ValidateKeyList ::
    "(string \<Rightarrow> 's \<Rightarrow> gerr + 'k option) \<Rightarrow> (string \<Rightarrow> 's \<Rightarrow> gerr option \<times> 's) \<Rightarrow> string list \<Rightarrow> 's \<Rightarrow>
     string list \<times> 's" where
  "ValidateKeyList get del [] s = ([], s)"
| "ValidateKeyList get del (n # ns) s =
     (case get n s of
        Inl e \<Rightarrow> ValidateKeyList get del ns s
      | Inr None \<Rightarrow> ValidateKeyList get del ns (snd (del n s))
      | Inr (Some k) \<Rightarrow> (let (ms, s') = ValidateKeyList get del ns s in (n # ms, s')))"

definition sk_List ::
    "(string \<Rightarrow> 's \<Rightarrow> gerr + 'k option) \<Rightarrow> (string \<Rightarrow> 's \<Rightarrow> gerr option \<times> 's) \<Rightarrow>
     ('s \<Rightarrow> (gerr + string list) \<times> 's) \<Rightarrow> 's \<Rightarrow> (gerr + string list) \<times> 's" where
  "sk_List get del lst s =
     (case lst s of
        (Inl e, s') \<Rightarrow> (Inl e, s')
      | (Inr ns, s') \<Rightarrow> (let (ms, t) = ValidateKeyList (sk_Get get) del ns s' in (Inr ms, t)))"

section \<open>The contract of a keystore\<close>

text \<open>
  What a caller of boxo's interface relies on: a key that is returned is there, a deleted one is not, deleting
  adds nothing, and a listing names, in canonical form, only what is there.  Names may be different spellings of
  one peer id.
\<close>

locale keystore =
  fixes has :: "string \<Rightarrow> 's \<Rightarrow> gerr + bool"
    and get :: "string \<Rightarrow> 's \<Rightarrow> gerr + 'k option"
    and del :: "string \<Rightarrow> 's \<Rightarrow> gerr option \<times> 's"
    and lst :: "'s \<Rightarrow> (gerr + string list) \<times> 's"
    and canonical :: "string \<Rightarrow> bool"
  assumes get_has: "get n s = Inr k \<Longrightarrow> has n s = Inr True"
    and del_has: "del n s = (None, s') \<Longrightarrow> has n s' \<noteq> Inr True"
    and del_mono: "has m (snd (del n s)) = Inr True \<Longrightarrow> has m s = Inr True"
    and lst_pure: "snd (lst s) = s"
    and lst_has: "fst (lst s) = Inr ns \<Longrightarrow> n \<in> set ns \<Longrightarrow> canonical n \<Longrightarrow> has n s \<noteq> Inr False"

text \<open>What the wrapper promises on top: no nil key comes out, and everything listed can be read.\<close>

locale safe_keystore =
  fixes get :: "string \<Rightarrow> 's \<Rightarrow> gerr + 'k option"
    and lst :: "'s \<Rightarrow> (gerr + string list) \<times> 's"
  assumes get_some: "get n s \<noteq> Inr None"
    and lst_pure: "snd (lst s) = s"
    and lst_get: "fst (lst s) = Inr ns \<Longrightarrow> n \<in> set ns \<Longrightarrow> \<exists>k. get n s = Inr (Some k)"
begin

text \<open>A walk over the list reads a key at every name.\<close>

lemma read_all:
  "fst (lst s) = Inr ns \<Longrightarrow> \<exists>ks. map (\<lambda>n. get n s) ns = map (\<lambda>k. Inr (Some k)) ks"
proof -
  assume l: "fst (lst s) = Inr ns"
  have "\<exists>ks. map (\<lambda>n. get n s) ms = map (\<lambda>k. Inr (Some k)) ks" if "set ms \<subseteq> set ns" for ms
    using that
  proof (induction ms)
    case (Cons m ms)
    obtain k where "get m s = Inr (Some k)" using lst_get [OF l, of m] Cons.prems by auto
    moreover obtain ks where "map (\<lambda>n. get n s) ms = map (\<lambda>k. Inr (Some k)) ks" using Cons by auto
    ultimately have "map (\<lambda>n. get n s) (m # ms) = map (\<lambda>k. Inr (Some k)) (k # ks)" by simp
    then show ?case by blast
  qed simp
  then show ?thesis by blast
qed

end

lemma sk_Get_some [simp]: "sk_Get get n s \<noteq> Inr None"
  by (auto simp: sk_Get_def split: sum.splits option.splits)

text \<open>The deletion of nil keys is never reached from the wrapper: its own \<open>Get\<close> has turned them into errors.\<close>

lemma ValidateKeyList_sk:
  "ValidateKeyList (sk_Get get) del ns s = (filter (\<lambda>n. \<exists>k. sk_Get get n s = Inr (Some k)) ns, s)"
proof (induction ns)
  case (Cons n ns)
  then show ?case by (cases "sk_Get get n s") (auto split: option.splits)
qed simp

context keystore
begin

lemma sk_List_eq:
  "sk_List get del lst s =
     (case fst (lst s) of
        Inl e \<Rightarrow> (Inl e, s)
      | Inr ns \<Rightarrow> (Inr (filter (\<lambda>n. \<exists>k. sk_Get get n s = Inr (Some k)) ns), s))"
  using lst_pure [of s]
  by (cases "lst s") (auto simp: sk_List_def ValidateKeyList_sk split: sum.splits)

lemma sk_List_has: "fst (sk_List get del lst s) = Inr ns \<Longrightarrow> n \<in> set ns \<Longrightarrow> has n s = Inr True"
proof -
  assume "fst (sk_List get del lst s) = Inr ns" "n \<in> set ns"
  then obtain k where "sk_Get get n s = Inr (Some k)" by (auto simp: sk_List_eq split: sum.splits)
  then have "get n s = Inr (Some k)" by (auto simp: sk_Get_def split: sum.splits option.splits)
  then show ?thesis by (rule get_has)
qed

end

sublocale keystore \<subseteq> safe: safe_keystore "sk_Get get" "sk_List get del lst"
  by unfold_locales (auto simp: sk_List_eq split: sum.splits)

text \<open>The keys in the database are a keystore, for any decoder of names and any error of the database.\<close>

lemma find_key_None: "find_key P db = None \<longleftrightarrow> (\<forall>r \<in> set (kd_rows db). kr_deleted r \<or> \<not> P r)"
  by (auto simp: find_key_def find_None_iff)

lemma find_key_Some: "find_key P db = Some r \<Longrightarrow> r \<in> set (kd_rows db) \<and> \<not> kr_deleted r \<and> P r"
  by (auto simp: find_key_def find_Some_iff)

lemma db_Has_True:
  "db_Has dcd fault n db = Inr True \<longleftrightarrow>
     fault = None \<and> (\<exists>p r. dcd n = Inr p \<and> r \<in> set (kd_rows db) \<and> \<not> kr_deleted r \<and> kr_peer r = p)"
  by (auto simp: db_Has_def peerIDToMultihash_def filter_empty_conv split: sum.splits option.splits)

lemma soft_delete_live:
  "r \<in> set (kd_rows (soft_delete_keys P db)) \<Longrightarrow> \<not> kr_deleted r \<Longrightarrow> r \<in> set (kd_rows db) \<and> \<not> P r"
  by (auto simp: soft_delete_keys_def split: if_splits)

lemma db_Delete_live:
  "r \<in> set (kd_rows (snd (db_Delete dcd fault n db))) \<Longrightarrow> \<not> kr_deleted r \<Longrightarrow> r \<in> set (kd_rows db)"
  by (auto simp: db_Delete_def dest: soft_delete_live split: sum.splits option.splits)

definition canonical_peer :: "(string \<Rightarrow> gerr + bytes) \<Rightarrow> (bytes \<Rightarrow> string) \<Rightarrow> string \<Rightarrow> bool" where
  "canonical_peer dcd str n \<longleftrightarrow> (\<forall>p. n = str p \<longrightarrow> dcd n = Inr p)"

interpretation dbks: keystore "db_Has dcd fault" "db_Get dcd decrypt fault" "db_Delete dcd fault"
    "db_List str fault" "canonical_peer dcd str"
  for dcd decrypt fault str
proof
  fix n s k
  assume "db_Get dcd decrypt fault n s = Inr k"
  then show "db_Has dcd fault n s = Inr True"
    unfolding db_Has_True
    by (auto simp: db_Get_def peerIDToMultihash_def first_key_def split: sum.splits option.splits
        dest!: find_key_Some)
next
  fix n s s'
  assume "db_Delete dcd fault n s = (None, s')"
  then obtain p where "dcd n = Inr p" "s' = soft_delete_keys (\<lambda>r. kr_peer r = p) s"
    by (auto simp: db_Delete_def peerIDToMultihash_def split: sum.splits option.splits)
  then show "db_Has dcd fault n s' \<noteq> Inr True"
    unfolding db_Has_True using soft_delete_live by fastforce
next
  fix m n s
  assume "db_Has dcd fault m (snd (db_Delete dcd fault n s)) = Inr True"
  then obtain p r where "fault = None" "dcd m = Inr p" "kr_peer r = p" "\<not> kr_deleted r"
      "r \<in> set (kd_rows (snd (db_Delete dcd fault n s)))"
    unfolding db_Has_True by (elim conjE exE)
  with db_Delete_live [OF this(5,4)] show "db_Has dcd fault m s = Inr True"
    unfolding db_Has_True by (intro conjI exI)
next
  fix s
  show "snd (db_List str fault s) = s" by (simp add: db_List_def split: option.splits)
next
  fix s ns n
  assume a: "fst (db_List str fault s) = Inr ns" "n \<in> set ns" "canonical_peer dcd str n"
  then obtain r where "r \<in> set (kd_rows s)" "\<not> kr_deleted r" "n = str (kr_peer r)" "fault = None"
    by (auto simp: db_List_def split: option.splits)
  with a(3) have "db_Has dcd fault n s = Inr True" unfolding db_Has_True canonical_peer_def by blast
  then show "db_Has dcd fault n s \<noteq> Inr False" by simp
qed

section \<open>The service\<close>

record 'ks ipns =
  ik_db :: key_db
  ik_ks :: 'ks

definition new_key_row :: "nat \<Rightarrow> string \<Rightarrow> bytes \<Rightarrow> bytes \<Rightarrow> key_row" where
  "new_key_row user name p enc =
     \<lparr>kr_id = 0, kr_user = user, kr_name = name, kr_peer = p, kr_enc = enc, kr_cid = [], kr_at = None,
      kr_deleted = False\<rparr>"

text \<open>The row is stored, then the key goes to boxo's keystore, where a failure is logged only.\<close>

definition store_key ::
    "string \<Rightarrow> ('ks, 'k) boxo option \<Rightarrow> (bytes \<Rightarrow> string) \<Rightarrow> gerr option \<Rightarrow> key_row \<Rightarrow> 'k \<Rightarrow> 'ks ipns \<Rightarrow>
     (gerr + key_row) \<times> 'ks ipns" where
  "store_key what bx str fault row k s =
     (case key_insert fault row (ik_db s) of
        Inl e \<Rightarrow> (Inl (Wrapped what e), s)
      | Inr (r, db) \<Rightarrow>
          (Inr r, s\<lparr>ik_db := db,
                    ik_ks := snd (syncKeyToBoxoKeystore bx (str (kr_peer r)) (Some k) (ik_ks s))\<rparr>))"

text \<open>\<open>gen\<close> is the key pair that libp2p generates.\<close>

definition CreateKey ::
    "'k crypto \<Rightarrow> gerr + 'k \<Rightarrow> gerr + bytes \<Rightarrow> ('ks, 'k) boxo option \<Rightarrow> (bytes \<Rightarrow> string) \<Rightarrow> gerr option \<Rightarrow> nat \<Rightarrow>
     string \<Rightarrow> 'ks ipns \<Rightarrow> (gerr + key_row) \<times> 'ks ipns" where
  "CreateKey cr gen nonce bx str fault user name s =
     (case gen of
        Inl e \<Rightarrow> (Inl (Wrapped ''failed to generate key pair'' e), s)
      | Inr k \<Rightarrow>
          (case cr_peer cr k of
             Inl e \<Rightarrow> (Inl (Wrapped ''failed to derive peer ID'' e), s)
           | Inr p \<Rightarrow>
               (case encryptPrivateKey cr nonce k of
                  Inl e \<Rightarrow> (Inl (Wrapped ''failed to encrypt private key'' e), s)
                | Inr enc \<Rightarrow>
                    store_key ''failed to create IPNS key'' bx str fault (new_key_row user name p enc) k s)))"

definition ImportKey ::
    "'k crypto \<Rightarrow> gerr + bytes \<Rightarrow> ('ks, 'k) boxo option \<Rightarrow> (bytes \<Rightarrow> string) \<Rightarrow> gerr option \<Rightarrow> gerr option \<Rightarrow> nat \<Rightarrow>
     string \<Rightarrow> string \<Rightarrow> 'ks ipns \<Rightarrow> (gerr + key_row) \<times> 'ks ipns" where
  "ImportKey cr nonce bx str qfault fault user name text s =
     (case cr_unb64 cr text of
        Inl e \<Rightarrow> (Inl (Wrapped ''failed to decode base64 key'' e), s)
      | Inr kb \<Rightarrow>
     (case cr_unmarshal cr kb of
        Inl e \<Rightarrow> (Inl (Wrapped ''failed to unmarshal private key'' e), s)
      | Inr k \<Rightarrow>
     (case cr_peer cr k of
        Inl e \<Rightarrow> (Inl (Wrapped ''failed to derive peer ID'' e), s)
      | Inr p \<Rightarrow>
     (case first_key qfault (\<lambda>r. kr_user r = user \<and> kr_peer r = p) (ik_db s) of
        Inr _ \<Rightarrow> (Inl (Opaque (''IPNS key with peer ID '' @ str p @ '' already exists for this user'')), s)
      | Inl e \<Rightarrow>
          if \<not> errors_is e RecordNotFound then (Inl (Wrapped ''failed to check existing key'' e), s)
          else case encryptPrivateKey cr nonce k of
            Inl e \<Rightarrow> (Inl (Wrapped ''failed to encrypt private key'' e), s)
          | Inr enc \<Rightarrow>
              store_key ''failed to import IPNS key'' bx str fault (new_key_row user name p enc) k s))))"

definition GetKeyByName :: "gerr option \<Rightarrow> nat \<Rightarrow> string \<Rightarrow> key_db \<Rightarrow> gerr + key_row option" where
  "GetKeyByName fault user name db =
     (case first_key fault (\<lambda>r. kr_user r = user \<and> kr_name r = name) db of
        Inl e \<Rightarrow> if errors_is e RecordNotFound then Inr None
                 else Inl (Wrapped ''failed to get IPNS key by name'' e)
      | Inr r \<Rightarrow> Inr (Some r))"

definition GetKeyByID :: "gerr option \<Rightarrow> nat \<Rightarrow> nat \<Rightarrow> key_db \<Rightarrow> gerr + key_row" where
  "GetKeyByID fault user i db =
     (case first_key fault (\<lambda>r. kr_id r = i \<and> kr_user r = user) db of
        Inl e \<Rightarrow> Inl (if errors_is e RecordNotFound then Opaque ''IPNS key not found''
                      else Wrapped ''failed to get IPNS key'' e)
      | Inr r \<Rightarrow> Inr r)"

definition ExportKey :: "'k crypto \<Rightarrow> gerr option \<Rightarrow> nat \<Rightarrow> nat \<Rightarrow> key_db \<Rightarrow> gerr + string" where
  "ExportKey cr fault user i db =
     (case GetKeyByID fault user i db of
        Inl e \<Rightarrow> Inl e
      | Inr r \<Rightarrow>
          (case decryptPrivateKey cr (kr_enc r) of
             Inl e \<Rightarrow> Inl (Wrapped ''failed to decrypt private key'' e)
           | Inr k \<Rightarrow>
               (case cr_marshal cr k of
                  Inl e \<Rightarrow> Inl (Wrapped ''failed to marshal private key'' e)
                | Inr kb \<Rightarrow> Inr (cr_b64 cr kb))))"

text \<open>The filters, sorts and pages of the query library are functions on the rows.\<close>

definition ListKeysWithFilters ::
    "gerr option \<Rightarrow> (key_row \<Rightarrow> bool) \<Rightarrow> (key_row list \<Rightarrow> key_row list) \<Rightarrow> (key_row list \<Rightarrow> key_row list) \<Rightarrow> nat \<Rightarrow>
     key_db \<Rightarrow> gerr + key_row list \<times> nat" where
  "ListKeysWithFilters fault flt srt page user db =
     (case fault of
        Some e \<Rightarrow> Inl (Wrapped ''failed to list IPNS keys'' e)
      | None \<Rightarrow>
          let rows = srt (filter (\<lambda>r. \<not> kr_deleted r \<and> kr_user r = user \<and> flt r) (kd_rows db))
          in Inr (page rows, length rows))"

definition ListKeys ::
    "gerr option \<Rightarrow> (key_row list \<Rightarrow> key_row list) \<Rightarrow> nat \<Rightarrow> key_db \<Rightarrow> gerr + key_row list" where
  "ListKeys fault page user db =
     (case ListKeysWithFilters fault (\<lambda>_. True) id page user db of Inl e \<Rightarrow> Inl e | Inr (rs, n) \<Rightarrow> Inr rs)"

text \<open>\<open>refs\<close>: how many active websites name the key, or the error of that query.\<close>

definition DeleteKey ::
    "('ks, 'k) boxo option \<Rightarrow> (bytes \<Rightarrow> string) \<Rightarrow> gerr option \<Rightarrow> gerr + nat \<Rightarrow> gerr option \<Rightarrow> nat \<Rightarrow> nat \<Rightarrow> 'ks ipns \<Rightarrow>
     gerr option \<times> 'ks ipns" where
  "DeleteKey bx str qfault refs fault user i s =
     (case first_key qfault (\<lambda>r. kr_id r = i \<and> kr_user r = user) (ik_db s) of
        Inl e \<Rightarrow> (Some (if errors_is e RecordNotFound then Opaque ''IPNS key not found''
                        else Wrapped ''failed to get IPNS key'' e), s)
      | Inr r \<Rightarrow>
     (case refs of
        Inl e \<Rightarrow> (Some (Wrapped ''failed to check website references'' e), s)
      | Inr n \<Rightarrow>
          if 0 < n then (Some (Opaque ''cannot delete IPNS key: referenced by active website(s)''), s)
          else case fault of
            Some e \<Rightarrow> (Some (Wrapped ''failed to delete IPNS key'' e), s)
          | None \<Rightarrow>
              (None, s\<lparr>ik_db := soft_delete_keys (\<lambda>x. kr_id x = kr_id r) (ik_db s),
                       ik_ks := (case bx of
                          None \<Rightarrow> ik_ks s
                        | Some b \<Rightarrow>
                            (case bx_has b (str (kr_peer r)) (ik_ks s) of
                               Inr True \<Rightarrow> snd (bx_del b (str (kr_peer r)) (ik_ks s))
                             | _ \<Rightarrow> ik_ks s))\<rparr>)))"

definition GetPrivateKeyByPeerID ::
    "'k crypto \<Rightarrow> (string \<Rightarrow> gerr + bytes) \<Rightarrow> gerr option \<Rightarrow> string \<Rightarrow> key_db \<Rightarrow> gerr + 'k \<times> nat" where
  "GetPrivateKeyByPeerID cr dcd fault name db =
     (case dcd name of
        Inl e \<Rightarrow> Inl (Wrapped ''invalid peer ID'' e)
      | Inr p \<Rightarrow>
          (case first_key fault (\<lambda>r. kr_peer r = p) db of
             Inl e \<Rightarrow> Inl (if errors_is e RecordNotFound then Opaque ''IPNS key not found''
                           else Wrapped ''failed to get IPNS key'' e)
           | Inr r \<Rightarrow>
               (case decryptPrivateKey cr (kr_enc r) of
                  Inl e \<Rightarrow> Inl (Wrapped ''failed to decrypt private key'' e)
                | Inr k \<Rightarrow> Inr (k, kr_user r))))"

definition GetPrivateKey :: "'k crypto \<Rightarrow> gerr option \<Rightarrow> nat \<Rightarrow> nat \<Rightarrow> key_db \<Rightarrow> gerr + 'k" where
  "GetPrivateKey cr fault user i db =
     (case GetKeyByID fault user i db of Inl e \<Rightarrow> Inl e | Inr r \<Rightarrow> decryptPrivateKey cr (kr_enc r))"

section \<open>Publishing\<close>

text \<open>
  The publisher's answer to a key, a CID and an optional lifetime is \<open>pub\<close>.  The row of the published peer is
  updated afterwards; when that fails, it is only logged.
\<close>

definition mark_published :: "bytes \<Rightarrow> string \<Rightarrow> nat \<Rightarrow> key_db \<Rightarrow> key_db" where
  "mark_published p c now db =
     (case find_key (\<lambda>r. kr_peer r = p) db of
        None \<Rightarrow> db
      | Some k \<Rightarrow>
          db\<lparr>kd_rows := map (\<lambda>r. if kr_id r = kr_id k then r\<lparr>kr_cid := c, kr_at := Some now\<rparr> else r) (kd_rows db)\<rparr>)"

definition PublishWithKey ::
    "'k crypto \<Rightarrow> (string \<Rightarrow> gerr + cid) \<Rightarrow> (cid \<Rightarrow> string) \<Rightarrow> ('k \<Rightarrow> cid \<Rightarrow> int option \<Rightarrow> gerr option) \<Rightarrow> gerr option \<Rightarrow>
     nat \<Rightarrow> 'k \<Rightarrow> string \<Rightarrow> int \<Rightarrow> key_db \<Rightarrow> gerr option \<times> key_db" where
  "PublishWithKey cr cdec cstr pub fault now k text ttl db =
     (case cdec text of
        Inl e \<Rightarrow> (Some (Wrapped (''invalid CID '' @ text) e), db)
      | Inr c \<Rightarrow>
          (case pub k (NormalizeCid c) (if 0 < ttl then Some ttl else None) of
             Some e \<Rightarrow> (Some (Wrapped ''failed to publish IPNS record'' e), db)
           | None \<Rightarrow>
               (None,
                case fault of
                  Some _ \<Rightarrow> db
                | None \<Rightarrow> mark_published (case cr_peer cr k of Inr p \<Rightarrow> p | Inl _ \<Rightarrow> []) (cstr (NormalizeCid c)) now db)))"

definition PublishCID ::
    "'k crypto \<Rightarrow> (string \<Rightarrow> gerr + bytes) \<Rightarrow> (string \<Rightarrow> gerr + cid) \<Rightarrow> (cid \<Rightarrow> string) \<Rightarrow>
     ('k \<Rightarrow> cid \<Rightarrow> int option \<Rightarrow> gerr option) \<Rightarrow> gerr option \<Rightarrow> gerr option \<Rightarrow> nat \<Rightarrow> string \<Rightarrow> string \<Rightarrow> int \<Rightarrow> key_db \<Rightarrow>
     gerr option \<times> key_db" where
  "PublishCID cr dcd cdec cstr pub qfault fault now name text ttl db =
     (case GetPrivateKeyByPeerID cr dcd qfault name db of
        Inl e \<Rightarrow> (Some (Wrapped ''failed to get private key'' e), db)
      | Inr (k, _) \<Rightarrow> PublishWithKey cr cdec cstr pub fault now k text ttl db)"

text \<open>The republisher, with durations in nanoseconds.\<close>

definition republish_minute :: int where "republish_minute = 60 * 10 ^ 9"
definition initialRepublishDelay :: int where "initialRepublishDelay = republish_minute"
definition failureRetryInterval :: int where "failureRetryInterval = 5 * republish_minute"

definition republishKey ::
    "'k crypto \<Rightarrow> (string \<Rightarrow> gerr + cid) \<Rightarrow> ('k \<Rightarrow> cid \<Rightarrow> int option \<Rightarrow> gerr option) \<Rightarrow> int \<Rightarrow> key_row \<Rightarrow> gerr option" where
  "republishKey cr cdec pub eol r =
     (case decryptPrivateKey cr (kr_enc r) of
        Inl e \<Rightarrow> Some (Wrapped ''decrypt private key'' e)
      | Inr k \<Rightarrow>
          (case cdec (kr_cid r) of
             Inl e \<Rightarrow> Some (Wrapped (''parse CID '' @ kr_cid r) e)
           | Inr c \<Rightarrow>
               (case pub k (NormalizeCid c) (Some eol) of
                  Some e \<Rightarrow> Some (Wrapped ''publish'' e)
                | None \<Rightarrow> None)))"

text \<open>The rows with the outcome of each; only the query can make the cycle fail.\<close>

definition republishAll ::
    "'k crypto \<Rightarrow> (string \<Rightarrow> gerr + cid) \<Rightarrow> ('k \<Rightarrow> cid \<Rightarrow> int option \<Rightarrow> gerr option) \<Rightarrow> int \<Rightarrow> gerr option \<Rightarrow> key_db \<Rightarrow>
     gerr + (key_row \<times> gerr option) list" where
  "republishAll cr cdec pub eol fault db =
     (case ListKeysWithCID fault db of
        Inl e \<Rightarrow> Inl (Wrapped ''list keys'' e)
      | Inr rs \<Rightarrow> Inr (map (\<lambda>r. (r, republishKey cr cdec pub eol r)) rs))"

text \<open>The timer of \<open>run\<close>: the first delay, and the one after a cycle.\<close>

definition first_delay :: "int \<Rightarrow> int" where
  "first_delay interval = (if interval < initialRepublishDelay then interval else initialRepublishDelay)"

definition next_delay :: "int \<Rightarrow> bool \<Rightarrow> int" where
  "next_delay interval failed =
     (if failed \<and> failureRetryInterval < interval then failureRetryInterval else interval)"

section \<open>Well-formed tables\<close>

definition keys_wf :: "key_db \<Rightarrow> bool" where
  "keys_wf db \<longleftrightarrow>
     distinct (map kr_id (kd_rows db)) \<and> (\<forall>r \<in> set (kd_rows db). kr_id r < kd_next db) \<and>
     distinct (map (\<lambda>r. (kr_user r, kr_peer r)) (kd_rows db)) \<and> (\<forall>r \<in> set (kd_rows db). kr_peer r \<noteq> [])"

text \<open>The rows of one user.\<close>

definition rows_of :: "nat \<Rightarrow> key_db \<Rightarrow> key_row list" where
  "rows_of u db = filter (\<lambda>r. kr_user r = u) (kd_rows db)"

lemma key_insert_InrD:
  assumes "key_insert fault row db = Inr (r, db')"
  shows "r = row\<lparr>kr_id := kd_next db\<rparr>" "kd_rows db' = kd_rows db @ [r]" "kd_next db' = kd_next db + 1"
    "\<not> key_taken (kr_user row) (kr_peer row) db" "kr_peer row \<noteq> []"
  using assms
  by (auto simp: key_insert_def key_BeforeSave_def Let_def split: option.splits if_splits)

lemma key_insert_wf:
  assumes "keys_wf db" "key_insert fault row db = Inr (r, db')"
  shows "keys_wf db'"
  using assms(1) key_insert_InrD [OF assms(2)]
  by (force simp: keys_wf_def key_taken_def list_ex_iff)

lemma keys_wf_map:
  assumes "keys_wf db" "\<And>r. kr_id (f r) = kr_id r \<and> kr_user (f r) = kr_user r \<and> kr_peer (f r) = kr_peer r"
  shows "keys_wf (db\<lparr>kd_rows := map f (kd_rows db)\<rparr>)"
proof -
  have "map kr_id (map f (kd_rows db)) = map kr_id (kd_rows db)"
    "map (\<lambda>r. (kr_user r, kr_peer r)) (map f (kd_rows db)) = map (\<lambda>r. (kr_user r, kr_peer r)) (kd_rows db)"
    using assms(2) by simp_all
  then show ?thesis using assms unfolding keys_wf_def by (auto simp: comp_def)
qed

lemma soft_delete_wf: "keys_wf db \<Longrightarrow> keys_wf (soft_delete_keys P db)"
  unfolding soft_delete_keys_def by (rule keys_wf_map) simp_all

lemma mark_published_wf: "keys_wf db \<Longrightarrow> keys_wf (mark_published p c now db)"
  unfolding mark_published_def by (auto split: option.splits intro: keys_wf_map)

lemma store_key_cases:
  obtains (err) e where "fst (store_key what bx str fault row k s) = Inl (Wrapped what e)"
      "snd (store_key what bx str fault row k s) = s" "key_insert fault row (ik_db s) = Inl e"
  | (ok) r db where "fst (store_key what bx str fault row k s) = Inr r"
      "ik_db (snd (store_key what bx str fault row k s)) = db" "key_insert fault row (ik_db s) = Inr (r, db)"
  by (cases "key_insert fault row (ik_db s)") (auto simp: store_key_def split: prod.splits)

lemma store_key_wf: "keys_wf (ik_db s) \<Longrightarrow> keys_wf (ik_db (snd (store_key what bx str fault row k s)))"
  by (rule store_key_cases [of what bx str fault row k s]) (auto dest: key_insert_wf)

lemma store_key_rows_of:
  "u \<noteq> kr_user row \<Longrightarrow> rows_of u (ik_db (snd (store_key what bx str fault row k s))) = rows_of u (ik_db s)"
proof (rule store_key_cases [of what bx str fault row k s])
  fix r db
  assume "u \<noteq> kr_user row" "ik_db (snd (store_key what bx str fault row k s)) = db"
    "key_insert fault row (ik_db s) = Inr (r, db)"
  then show ?thesis using key_insert_InrD(1,2) [of fault row "ik_db s" r db] by (simp add: rows_of_def)
qed simp

lemma CreateKey_state:
  "snd (CreateKey cr gen nonce bx str fault user name s) = s \<or>
   (\<exists>p enc k. snd (CreateKey cr gen nonce bx str fault user name s) =
      snd (store_key ''failed to create IPNS key'' bx str fault (new_key_row user name p enc) k s))"
  by (auto simp: CreateKey_def split: sum.splits)

lemma ImportKey_state:
  "snd (ImportKey cr nonce bx str qfault fault user name text s) = s \<or>
   (\<exists>p enc k. snd (ImportKey cr nonce bx str qfault fault user name text s) =
      snd (store_key ''failed to import IPNS key'' bx str fault (new_key_row user name p enc) k s))"
  by (auto simp: ImportKey_def split: sum.splits)

lemma DeleteKey_state:
  "ik_db (snd (DeleteKey bx str qfault refs fault user i s)) = ik_db s \<or>
   (\<exists>r. find_key (\<lambda>r. kr_id r = i \<and> kr_user r = user) (ik_db s) = Some r \<and>
        ik_db (snd (DeleteKey bx str qfault refs fault user i s)) = soft_delete_keys (\<lambda>x. kr_id x = kr_id r) (ik_db s))"
  by (auto simp: DeleteKey_def first_key_def split: sum.splits option.splits)

lemma PublishCID_state:
  "snd (PublishCID cr dcd cdec cstr pub qf fault now name text ttl db) = db \<or>
   (\<exists>p c. snd (PublishCID cr dcd cdec cstr pub qf fault now name text ttl db) = mark_published p c now db)"
  by (auto simp: PublishCID_def PublishWithKey_def split: sum.splits option.splits prod.splits)

lemma keys_wf_id: "keys_wf db \<Longrightarrow> r \<in> set (kd_rows db) \<Longrightarrow> x \<in> set (kd_rows db) \<Longrightarrow> kr_id x = kr_id r \<Longrightarrow> x = r"
  by (auto simp: keys_wf_def distinct_map dest: inj_onD)

lemma soft_delete_rows_of:
  assumes "keys_wf db" "r \<in> set (kd_rows db)" "kr_user r \<noteq> u"
  shows "rows_of u (soft_delete_keys (\<lambda>x. kr_id x = kr_id r) db) = rows_of u db"
proof -
  have "filter (\<lambda>x. kr_user x = u) (map (\<lambda>x. if \<not> kr_deleted x \<and> kr_id x = kr_id r then x\<lparr>kr_deleted := True\<rparr> else x) xs)
      = filter (\<lambda>x. kr_user x = u) xs" if "set xs \<subseteq> set (kd_rows db)" for xs
    using that
  proof (induction xs)
    case (Cons x xs)
    then have "kr_id x = kr_id r \<Longrightarrow> x = r" using keys_wf_id [OF assms(1,2)] by simp
    then show ?case using Cons assms(3) by auto
  qed simp
  then show ?thesis by (simp add: rows_of_def soft_delete_keys_def)
qed

lemma DeleteKey_rows_of:
  assumes "keys_wf (ik_db s)" "u \<noteq> user"
  shows "rows_of u (ik_db (snd (DeleteKey bx str qfault refs fault user i s))) = rows_of u (ik_db s)"
  using DeleteKey_state [of bx str qfault refs fault user i s]
proof (elim disjE exE conjE)
  fix r
  assume r: "find_key (\<lambda>r. kr_id r = i \<and> kr_user r = user) (ik_db s) = Some r"
    and e: "ik_db (snd (DeleteKey bx str qfault refs fault user i s)) = soft_delete_keys (\<lambda>x. kr_id x = kr_id r) (ik_db s)"
  have "r \<in> set (kd_rows (ik_db s))" "kr_user r \<noteq> u" using find_key_Some [OF r] assms(2) by simp_all
  then show ?thesis unfolding e by (rule soft_delete_rows_of [OF assms(1)])
qed simp

lemma find_append_None: "find P xs = None \<Longrightarrow> find P (xs @ ys) = find P ys"
  by (induction xs) (auto split: if_splits)

text \<open>Deleting frees no pair of user and peer id.\<close>

lemma key_taken_soft_delete: "key_taken u p (soft_delete_keys P db) = key_taken u p db"
proof -
  have "list_ex (\<lambda>r. kr_user r = u \<and> kr_peer r = p)
      (map (\<lambda>r. if \<not> kr_deleted r \<and> P r then r\<lparr>kr_deleted := True\<rparr> else r) xs) =
    list_ex (\<lambda>r. kr_user r = u \<and> kr_peer r = p) xs" for xs
    by (induction xs) auto
  then show ?thesis by (simp add: key_taken_def soft_delete_keys_def)
qed

section \<open>Properties\<close>

text \<open>C39. Every operation on IPNS keys keeps the table well-formed: ids are unique and below the next one, no user has
  two rows of one peer id, deleted rows included, and no peer id is empty.  Creating, importing and deleting
  touch no row of another user.\<close>

theorem ipns_keys_wf:
  assumes "keys_wf (ik_db s)"
  shows "keys_wf (ik_db (snd (CreateKey cr gen nonce bx str fault user name s))) \<and>
    keys_wf (ik_db (snd (ImportKey cr nonce bx str qfault fault user name text s))) \<and>
    keys_wf (ik_db (snd (DeleteKey bx str qfault refs fault user i s))) \<and>
    keys_wf (snd (PublishCID cr dcd cdec cstr pub qfault fault now peer text ttl (ik_db s))) \<and>
    keys_wf (snd (db_Delete dcd fault peer (ik_db s))) \<and>
    (\<forall>u. u \<noteq> user \<longrightarrow>
       rows_of u (ik_db (snd (CreateKey cr gen nonce bx str fault user name s))) = rows_of u (ik_db s) \<and>
       rows_of u (ik_db (snd (ImportKey cr nonce bx str qfault fault user name text s))) = rows_of u (ik_db s) \<and>
       rows_of u (ik_db (snd (DeleteKey bx str qfault refs fault user i s))) = rows_of u (ik_db s))"
proof (intro conjI allI impI)
  show "keys_wf (ik_db (snd (CreateKey cr gen nonce bx str fault user name s)))"
    using CreateKey_state [of cr gen nonce bx str fault user name s] assms store_key_wf by metis
  show "keys_wf (ik_db (snd (ImportKey cr nonce bx str qfault fault user name text s)))"
    using ImportKey_state [of cr nonce bx str qfault fault user name "text" s] assms store_key_wf by metis
  show "keys_wf (ik_db (snd (DeleteKey bx str qfault refs fault user i s)))"
    using DeleteKey_state [of bx str qfault refs fault user i s] assms soft_delete_wf by metis
  show "keys_wf (snd (PublishCID cr dcd cdec cstr pub qfault fault now peer text ttl (ik_db s)))"
    using PublishCID_state [of cr dcd cdec cstr pub qfault fault now peer "text" ttl "ik_db s"] assms mark_published_wf
    by metis
  show "keys_wf (snd (db_Delete dcd fault peer (ik_db s)))"
    using assms soft_delete_wf by (auto simp: db_Delete_def split: sum.splits option.splits)
  fix u
  assume u: "u \<noteq> user"
  have row: "kr_user (new_key_row user name p enc) = user" for p enc by (simp add: new_key_row_def)
  show "rows_of u (ik_db (snd (CreateKey cr gen nonce bx str fault user name s))) = rows_of u (ik_db s)"
    using CreateKey_state [of cr gen nonce bx str fault user name s] store_key_rows_of u row by metis
  show "rows_of u (ik_db (snd (ImportKey cr nonce bx str qfault fault user name text s))) = rows_of u (ik_db s)"
    using ImportKey_state [of cr nonce bx str qfault fault user name "text" s] store_key_rows_of u row by metis
  show "rows_of u (ik_db (snd (DeleteKey bx str qfault refs fault user i s))) = rows_of u (ik_db s)"
    by (rule DeleteKey_rows_of [OF assms u])
qed

text \<open>A key is a string here, its peer id the string itself, and sealing puts a mark in front.\<close>

definition demo_crypto :: "string crypto" where
  "demo_crypto = \<lparr>cr_marshal = Inr, cr_unmarshal = Inr, cr_peer = Inr, cr_seed = Inr ''seed'',
     cr_seal = (\<lambda>s n m. CHR ''*'' # m), cr_open = (\<lambda>s n m. Inr (tl m)), cr_b64 = id, cr_unb64 = Inr\<rparr>"

definition demo_ipns :: "unit ipns" where
  "demo_ipns = \<lparr>ik_db = \<lparr>kd_rows = [], kd_next = 1\<rparr>, ik_ks = ()\<rparr>"

lemma demo_crypto_ok: "crypto_ok demo_crypto"
  by (simp add: crypto_ok_def demo_crypto_def)

theorem ipns_keys_wf_witness:
  "keys_wf (ik_db (snd (CreateKey demo_crypto (Inr ''k'') (Inr ''123456789012'') None id None 7 ''n'' demo_ipns)))"
proof -
  have "keys_wf (ik_db demo_ipns)" by (simp add: keys_wf_def demo_ipns_def)
  from ipns_keys_wf [OF this] show ?thesis by blast
qed



text \<open>A key that its owner has deleted can never be imported again by that user: the check sees live rows only, the
  unique index every row, so the insertion fails and the table stays as it is.\<close>

lemma ipns_reimport_fails:
  assumes del: "DeleteKey bx str qf (Inr 0) None user i s = (None, s')"
    and r: "find_key (\<lambda>r. kr_id r = i \<and> kr_user r = user) (ik_db s) = Some r"
    and key: "cr_unb64 cr b64 = Inr kb" "cr_unmarshal cr kb = Inr k" "cr_peer cr k = Inr (kr_peer r)"
  shows "\<exists>e. fst (ImportKey cr nonce bx str None None user name b64 s') = Inl e \<and>
    ik_db (snd (ImportKey cr nonce bx str None None user name b64 s')) = ik_db s'"
proof -
  have "ik_db s' = soft_delete_keys (\<lambda>x. kr_id x = kr_id r) (ik_db s)"
    using del r by (auto simp: DeleteKey_def first_key_def split: option.splits)
  moreover have m: "r \<in> set (kd_rows (ik_db s))" "kr_user r = user" using find_key_Some [OF r] by simp_all
  ultimately have t: "key_taken user (kr_peer r) (ik_db s')"
    by (auto simp: key_taken_soft_delete) (auto simp: key_taken_def list_ex_iff)
  have "\<exists>e. key_insert None (new_key_row user name (kr_peer r) enc) (ik_db s') = Inl e" for enc
    using t by (auto simp: key_insert_def new_key_row_def split: option.splits)
  then show ?thesis
    using key by (auto simp: ImportKey_def store_key_def split: sum.splits) (metis sum.distinct(1))+
qed

definition demo_key :: key_row where
  "demo_key = new_key_row 7 ''n'' ''k'' ''123456789012*k''\<lparr>kr_id := 1, kr_cid := ''c''\<rparr>"

definition demo_keys :: "unit ipns" where
  "demo_keys = \<lparr>ik_db = \<lparr>kd_rows = [demo_key], kd_next = 2\<rparr>, ik_ks = ()\<rparr>"

lemma ipns_reimport_fails_example:
  "\<exists>s' e. fst (DeleteKey (None :: (unit, string) boxo option) id None (Inr 0) None 7 1 demo_keys) = None \<and>
     fst (ImportKey demo_crypto (Inr ''123456789012'') (None :: (unit, string) boxo option) id None None 7 ''m'' ''k'' s')
       = Inl e"
proof -
  obtain s' where d: "DeleteKey (None :: (unit, string) boxo option) id None (Inr 0) None 7 1 demo_keys = (None, s')"
    by (simp add: DeleteKey_def first_key_def find_key_def demo_keys_def demo_key_def new_key_row_def)
  have "find_key (\<lambda>r. kr_id r = 1 \<and> kr_user r = 7) (ik_db demo_keys) = Some demo_key"
    by (simp add: find_key_def demo_keys_def demo_key_def new_key_row_def)
  from ipns_reimport_fails [OF d this, of demo_crypto "''k''" "''k''" "''k''" "Inr ''123456789012''" "''m''"] show ?thesis
    using d by (auto simp: demo_crypto_def demo_key_def new_key_row_def)
qed

text \<open>A republish cycle tries every live key with a published CID exactly once, in the order of the table and
  whatever happens to the others; a key whose row holds an encryption of it and a CID that parses is sent to the
  publisher in version 1 with the end of its life.  The next cycle comes after the interval, or after the retry
  interval when that is shorter and the cycle failed.\<close>

lemma ipns_republish_all:
  assumes cr: "crypto_ok cr" "length n = NonceSize" "encryptPrivateKey cr (Inr n) k = Inr (kr_enc r)"
    and r: "r \<in> set (kd_rows db)" "\<not> kr_deleted r" "kr_cid r \<noteq> []" "cdec (kr_cid r) = Inr c"
  shows "\<exists>out. republishAll cr cdec pub eol None db = Inr out \<and>
      map fst out = filter (\<lambda>r. kr_cid r \<noteq> [] \<and> \<not> kr_deleted r) (kd_rows db) \<and>
      (r, map_option (Wrapped ''publish'') (pub k (NormalizeCid c) (Some eol))) \<in> set out \<and>
      next_delay i failed \<le> i \<and> (failed \<longrightarrow> next_delay i failed \<le> failureRetryInterval)"
proof -
  let ?rs = "filter (\<lambda>r. kr_cid r \<noteq> [] \<and> \<not> kr_deleted r) (kd_rows db)"
  have out: "republishAll cr cdec pub eol None db = Inr (map (\<lambda>r. (r, republishKey cr cdec pub eol r)) ?rs)"
    by (simp add: republishAll_def ListKeysWithCID_def)
  have "republishKey cr cdec pub eol r = map_option (Wrapped ''publish'') (pub k (NormalizeCid c) (Some eol))"
    using decrypt_encrypt [OF cr] r(4) by (simp add: republishKey_def split: option.splits)
  then have "(r, map_option (Wrapped ''publish'') (pub k (NormalizeCid c) (Some eol)))
      \<in> set (map (\<lambda>r. (r, republishKey cr cdec pub eol r)) ?rs)"
    using r by force
  then show ?thesis using out by (auto simp: comp_def next_delay_def)
qed

lemma ipns_republish_all_example:
  "\<exists>out. republishAll demo_crypto (\<lambda>_. Inr (Cid 0 DagProtobuf ''h'')) (\<lambda>k c eol. None) 9 None (ik_db demo_keys) = Inr out \<and>
     (demo_key, None) \<in> set out"
  using ipns_republish_all [OF demo_crypto_ok, of "''123456789012''" "''k''" demo_key "ik_db demo_keys"
      "\<lambda>_. Inr (Cid 0 DagProtobuf ''h'')" "Cid 0 DagProtobuf ''h''" "\<lambda>k c eol. None" 9 1 False]
  by (auto simp: demo_crypto_def demo_keys_def demo_key_def new_key_row_def NonceSize_def encryptPrivateKey_def)

end
