(* ===== verification/Website_Row.thy ===== *)
theory Website_Row
  imports HNS_Domain Ipns_Key
begin

text \<open>
  The row of a website (\<^verbatim>\<open>internal/db/website.go\<close>), the targets of IPNS (\<^verbatim>\<open>internal/db/ipns_target.go\<close>) and the
  queries of gorm on the table.  The textual forms of CIDs and peer ids are parameters.
\<close>

section \<open>Rows\<close>

definition WebsiteStatusPendingValidation :: string where "WebsiteStatusPendingValidation = ''pending_validation''"
definition WebsiteStatusActive :: string where "WebsiteStatusActive = ''active''"
definition WebsiteStatusBroken :: string where "WebsiteStatusBroken = ''broken''"
definition WebsiteStatusBlocked :: string where "WebsiteStatusBlocked = ''blocked''"

definition SSLStatusPending :: string where "SSLStatusPending = ''pending''"
definition SSLStatusIssuing :: string where "SSLStatusIssuing = ''issuing''"
definition SSLStatusReady :: string where "SSLStatusReady = ''ready''"
definition SSLStatusFailed :: string where "SSLStatusFailed = ''failed''"

definition validWebsiteStatuses :: "string list" where
  "validWebsiteStatuses =
     [WebsiteStatusPendingValidation, WebsiteStatusActive, WebsiteStatusBroken, WebsiteStatusBlocked]"

definition validTargetTypes :: "string list" where
  "validTargetTypes = [WebsiteTargetTypeIPFS, WebsiteTargetTypeIPNS]"

definition validSSLStatuses :: "string list" where
  "validSSLStatuses = [SSLStatusPending, SSLStatusIssuing, SSLStatusReady, SSLStatusFailed]"

lemmas website_consts =
  WebsiteStatusPendingValidation_def WebsiteStatusActive_def WebsiteStatusBroken_def WebsiteStatusBlocked_def
  SSLStatusPending_def SSLStatusIssuing_def SSLStatusReady_def SSLStatusFailed_def
  WebsiteTargetTypeIPFS_def WebsiteTargetTypeIPNS_def

record site =
  ws_id :: nat
  ws_user :: nat
  ws_domain :: string
  ws_ttype :: string
  ws_mh :: bytes
  ws_cidv :: "nat option"
  ws_cidt :: "nat option"
  ws_status :: string
  ws_token :: string
  ws_expires :: "nat option"
  ws_checked :: "nat option"
  ws_zone :: "nat option"
  ws_key :: "nat option"
  ws_enabled :: bool
  ws_ssl :: string
  ws_ssl_error :: string
  ws_ssl_issued :: "nat option"
  ws_ssl_updated :: "nat option"
  ws_deleted :: "nat option"

text \<open>The hook gives an empty certificate status its default.\<close>

definition site_BeforeSave :: "site \<Rightarrow> gerr + site" where
  "site_BeforeSave w =
     (if ws_ttype w \<notin> set validTargetTypes then Inl (Opaque (''INVALID_TARGET_TYPE: '' @ ws_ttype w))
      else if ws_status w \<notin> set validWebsiteStatuses
      then Inl (Opaque (''INVALID_WEBSITE_STATUS: '' @ ws_status w))
      else let w = (if ws_ssl w = [] then w\<lparr>ws_ssl := SSLStatusPending\<rparr> else w) in
        if ws_ssl w \<notin> set validSSLStatuses then Inl (Opaque (''INVALID_SSL_STATUS: '' @ ws_ssl w))
        else if ws_mh w = [] then Inl (Opaque ''target_multihash cannot be empty'')
        else if ws_ttype w = WebsiteTargetTypeIPFS \<and> ws_cidv w = None
        then Inl (Opaque ''cid_version must be set for IPFS targets'')
        else if ws_ttype w = WebsiteTargetTypeIPNS \<and> ws_cidv w \<noteq> None
        then Inl (Opaque ''cid_version must be NULL for IPNS targets'')
        else Inr w)"

definition IsExpired :: "nat \<Rightarrow> site \<Rightarrow> bool" where
  "IsExpired now w = (case ws_expires w of None \<Rightarrow> False | Some t \<Rightarrow> t < now)"

definition ShouldCheck :: "nat \<Rightarrow> int \<Rightarrow> site \<Rightarrow> bool" where
  "ShouldCheck now interval w =
     (case ws_checked w of None \<Rightarrow> True | Some t \<Rightarrow> interval \<le> int now - int t)"

text \<open>\<open>TargetHash\<close>, with \<open>cstr\<close> and \<open>pstr\<close> the strings of a CID and of a peer id.\<close>

definition TargetHash :: "(cid \<Rightarrow> string) \<Rightarrow> (bytes \<Rightarrow> string) \<Rightarrow> site \<Rightarrow> string" where
  "TargetHash cstr pstr w =
     (if ws_ttype w = WebsiteTargetTypeIPFS then
        if ws_cidv w = Some 0 then cstr (Cid 0 DagProtobuf (ws_mh w))
        else (case ws_cidt w of
                Some ct \<Rightarrow> cstr (Cid 1 ct (ws_mh w))
              | None \<Rightarrow> cstr (Cid 1 Raw (ws_mh w)))
      else pstr (ws_mh w))"

section \<open>IPNS targets\<close>

definition Libp2pKey :: nat where "Libp2pKey = 114"

definition NewIPNSTargetFromPeerID :: "bytes option \<Rightarrow> gerr + bytes" where
  "NewIPNSTargetFromPeerID p = (case p of None \<Rightarrow> Inl (Opaque ''invalid peer ID'') | Some m \<Rightarrow> Inr m)"

text \<open>A CID is looked for first: a CIDv0 also decodes as a peer id.\<close>

definition NewIPNSTargetFromString :: "(string \<Rightarrow> gerr + cid) \<Rightarrow> (string \<Rightarrow> gerr + bytes) \<Rightarrow> string \<Rightarrow> gerr + bytes" where
  "NewIPNSTargetFromString cdec pdec s =
     (case cdec s of
        Inr c \<Rightarrow>
          if cid_version c = 1 \<and> cid_type c = Libp2pKey then Inr (cid_hash c)
          else Inl (Opaque ''not a peer ID: CID must be libp2p-key codec for IPNS target'')
      | Inl _ \<Rightarrow>
          (case pdec s of Inr p \<Rightarrow> Inr p | Inl e \<Rightarrow> Inl (Wrapped ''invalid IPNS target'' e)))"

definition NewIPNSTargetFromMultihash :: "bytes option \<Rightarrow> gerr + bytes" where
  "NewIPNSTargetFromMultihash m =
     (case m of None \<Rightarrow> Inl (Opaque ''multihash cannot be nil'') | Some m \<Rightarrow> Inr m)"

definition IPNSName :: "(cid \<Rightarrow> string) \<Rightarrow> bytes \<Rightarrow> string" where
  "IPNSName cstr t = cstr (Cid 1 Libp2pKey t)"

definition ipns_IsValid :: "(bytes \<Rightarrow> bool) \<Rightarrow> bytes \<Rightarrow> bool" where
  "ipns_IsValid mh_ok t \<longleftrightarrow> t \<noteq> [] \<and> mh_ok t"

definition isValidIPNSTarget :: "(string \<Rightarrow> gerr + cid) \<Rightarrow> (string \<Rightarrow> gerr + bytes) \<Rightarrow> string \<Rightarrow> bool" where
  "isValidIPNSTarget cdec pdec s \<longleftrightarrow>
     (case cdec s of
        Inr c \<Rightarrow> cid_version c = 1 \<and> cid_type c = Libp2pKey
      | Inl _ \<Rightarrow> \<not> isl (pdec s))"

definition isIPFSCid :: "(string \<Rightarrow> gerr + cid) \<Rightarrow> string \<Rightarrow> bool" where
  "isIPFSCid cdec s \<longleftrightarrow> \<not> isl (cdec s)"

lemma isValidIPNSTarget_iff:
  "isValidIPNSTarget cdec pdec s \<longleftrightarrow> (\<exists>t. NewIPNSTargetFromString cdec pdec s = Inr t)"
  by (auto simp: isValidIPNSTarget_def NewIPNSTargetFromString_def isl_def split: sum.splits)

section \<open>Domains\<close>

definition extractParentDomain :: "string \<Rightarrow> string" where
  "extractParentDomain d =
     (let parts = Split d CHR ''.'' in if length parts \<le> 2 then [] else Join (tl parts) ''.'')"

definition alnum :: "char \<Rightarrow> bool" where
  "alnum c \<longleftrightarrow> label_char c \<and> c \<noteq> CHR ''-''"

text \<open>
  The sentinel errors of the service.  \<open>fmt.Errorf("%w: %v", Err, e)\<close> wraps the sentinel and prints the
  other error behind it; \<open>caused\<close> keeps both.
\<close>

abbreviation ErrInvalidCID :: gerr where "ErrInvalidCID \<equiv> Opaque ''invalid CID''"
abbreviation ErrInvalidIPNS :: gerr where "ErrInvalidIPNS \<equiv> Opaque ''invalid IPNS name''"
abbreviation ErrInvalidTarget :: gerr where "ErrInvalidTarget \<equiv> Opaque ''invalid target''"
abbreviation ErrInvalidDomain :: gerr where "ErrInvalidDomain \<equiv> Opaque ''invalid domain''"
abbreviation ErrCIDNotPinned :: gerr where "ErrCIDNotPinned \<equiv> Opaque ''CID is not pinned''"
abbreviation ErrIPNSKeyNotFound :: gerr where "ErrIPNSKeyNotFound \<equiv> Opaque ''IPNS key not found''"

definition caused :: "gerr \<Rightarrow> gerr \<Rightarrow> gerr" where
  "caused sentinel e = Wrapped (gerr_text e) sentinel"

lemma caused_is [simp]: "errors_is (caused sentinel e) sentinel"
  by (simp add: caused_def)

text \<open>
  The regular expression, label by label: the labels before the last are those of \<open>label_error\<close>, the last one has
  two characters at least and ends in a letter.
\<close>

definition top_label :: "string \<Rightarrow> bool" where
  "top_label l \<longleftrightarrow> 2 \<le> length l \<and> length l \<le> 63 \<and> alnum (hd l) \<and> list_all label_char l \<and>
     alnum (last l) \<and> \<not> is_digit (last l)"

definition inner_label :: "string \<Rightarrow> bool" where
  "inner_label l \<longleftrightarrow> 1 \<le> length l \<and> length l \<le> 63 \<and> alnum (hd l) \<and> list_all label_char l \<and> alnum (last l)"

definition domainRegex :: "string \<Rightarrow> bool" where
  "domainRegex d \<longleftrightarrow>
     (let ls = Split d CHR ''.'' in 2 \<le> length ls \<and> list_all inner_label (butlast ls) \<and> top_label (last ls))"

definition website_validateDomain :: "(string \<Rightarrow> gerr + string) \<Rightarrow> string \<Rightarrow> gerr option" where
  "website_validateDomain to_ascii d =
     (if d = [] then Some (Opaque ''domain cannot be empty'')
      else if 255 < length d then Some (Opaque ''domain too long (max 255 characters)'')
      else case to_ascii d of
        Inl e \<Rightarrow> Some (caused ErrInvalidDomain e)
      | Inr a \<Rightarrow> if domainRegex a then None else Some (Opaque ''invalid domain format''))"

section \<open>The table\<close>

record site_db =
  sd_rows :: "site list"
  sd_next :: nat

text \<open>\<open>First\<close> on the live rows, in the order of their ids.\<close>

definition find_site :: "(site \<Rightarrow> bool) \<Rightarrow> site_db \<Rightarrow> site option" where
  "find_site P db = find (\<lambda>w. ws_deleted w = None \<and> P w) (sd_rows db)"

definition first_site :: "gerr option \<Rightarrow> (site \<Rightarrow> bool) \<Rightarrow> site_db \<Rightarrow> gerr + site" where
  "first_site fault P db =
     (case fault of
        Some e \<Rightarrow> Inl e
      | None \<Rightarrow> (case find_site P db of Some w \<Rightarrow> Inr w | None \<Rightarrow> Inl RecordNotFound))"

text \<open>The deleted row with a ready certificate that was deleted last.\<close>

fun latest_ready :: "string \<Rightarrow> site list \<Rightarrow> site option" where
  "latest_ready d [] = None"
| "latest_ready d (w # ws) =
     (case latest_ready d ws of
        None \<Rightarrow> if ws_domain w = d \<and> ws_deleted w \<noteq> None \<and> ws_ssl w = SSLStatusReady then Some w else None
      | Some v \<Rightarrow>
          if ws_domain w = d \<and> ws_deleted w \<noteq> None \<and> ws_ssl w = SSLStatusReady \<and> the (ws_deleted v) \<le> the (ws_deleted w)
          then Some w else Some v)"

definition site_insert :: "gerr option \<Rightarrow> site \<Rightarrow> site_db \<Rightarrow> gerr + site \<times> site_db" where
  "site_insert fault w db =
     (case fault of
        Some e \<Rightarrow> Inl e
      | None \<Rightarrow>
          (case site_BeforeSave w of
             Inl e \<Rightarrow> Inl e
           | Inr w \<Rightarrow>
               let w' = w\<lparr>ws_id := sd_next db\<rparr> in
               Inr (w', db\<lparr>sd_rows := sd_rows db @ [w'], sd_next := sd_next db + 1\<rparr>)))"

text \<open>
  \<open>Save\<close> writes every column of the row that was read; when the row has been deleted since, gorm inserts it
  with an update of all columns on the conflict of the id, so the same columns are written.
\<close>

definition set_site :: "site \<Rightarrow> site_db \<Rightarrow> site_db" where
  "set_site w db = db\<lparr>sd_rows := map (\<lambda>x. if ws_id x = ws_id w then w else x) (sd_rows db)\<rparr>"

definition site_save :: "gerr option \<Rightarrow> site \<Rightarrow> site_db \<Rightarrow> gerr + site \<times> site_db" where
  "site_save fault w db =
     (case fault of
        Some e \<Rightarrow> Inl e
      | None \<Rightarrow> (case site_BeforeSave w of Inl e \<Rightarrow> Inl e | Inr w \<Rightarrow> Inr (w, set_site w db)))"

text \<open>\<open>Model(w).Updates(map)\<close>: the hook sees the row as it was, and only live rows are written.\<close>

definition site_updates :: "gerr option \<Rightarrow> site \<Rightarrow> (site \<Rightarrow> site) \<Rightarrow> site_db \<Rightarrow> gerr + site_db" where
  "site_updates fault w f db =
     (case fault of
        Some e \<Rightarrow> Inl e
      | None \<Rightarrow>
          (case site_BeforeSave w of
             Inl e \<Rightarrow> Inl e
           | Inr _ \<Rightarrow>
               Inr (db\<lparr>sd_rows := map (\<lambda>x. if ws_id x = ws_id w \<and> ws_deleted x = None then f x else x)
                     (sd_rows db)\<rparr>)))"

definition site_delete :: "nat \<Rightarrow> nat \<Rightarrow> site_db \<Rightarrow> site_db" where
  "site_delete now i db =
     db\<lparr>sd_rows := map (\<lambda>x. if ws_id x = i \<and> ws_deleted x = None then x\<lparr>ws_deleted := Some now\<rparr> else x) (sd_rows db)\<rparr>"

end
