(* ===== verification/Website.thy ===== *)
theory Website
  imports Website_Row
begin

text \<open>
  The website service: \<^verbatim>\<open>internal/service/website/website.go\<close> and the operations of \<^verbatim>\<open>hns.go\<close>.  Its state is the
  tables of websites and Handshake names, the DNS service, the IPNS keys and the publications it has started.
  Metrics, logging and mails (which change nothing) are left out.
\<close>

section \<open>State and environment\<close>

record ('p, 'ks) web =
  wb_sites :: site_db
  wb_hns :: hns_db
  wb_dns :: "'p dns"
  wb_ipns :: "'ks ipns"
  wb_pubs :: "(string \<times> string) list"

text \<open>The queries, each of which may meet an error of the database.\<close>

datatype web_query =
    QDomain | QHnsDomain | QHnsSite | QDeleted | QCreate | QSaveTarget | QSaveZone | QGet | QExists | QUpdates
  | QReload | QCount | QDelete | QDeleteHns | QSave | QListKeys | QCreateKey | QGetKey | QPeer | QZone | QZoneDelete
  | QRecords | QHnsList | QHnsInsert | QHnsUpdate | QPins | QZones

text \<open>
  What the service is given: \<open>we_dns\<close> is the configuration of the DNS service, if there is one, and \<open>we_dnscfg\<close> the
  one the website service itself has loaded; \<open>we_rand\<close> are random bytes, \<open>we_pin\<close> the status of the pin of a CID by
  a user, \<open>we_ascii\<close> the IDNA conversion, \<open>we_url\<close> the parser of URLs, \<open>we_tlsa\<close>, \<open>we_pem\<close> and
  \<open>we_fetch\<close> the sources of certificates, \<open>we_dnssec\<close> the answers of PowerDNS to the requests for keys.
\<close>

record ('p, 'ks, 'k) web_env =
  we_cdec :: "string \<Rightarrow> gerr + cid"
  we_cstr :: "cid \<Rightarrow> string"
  we_pdec :: "string \<Rightarrow> gerr + bytes"
  we_pstr :: "bytes \<Rightarrow> string"
  we_crypto :: "'k crypto"
  we_gen :: "gerr + 'k"
  we_nonce :: "gerr + bytes"
  we_boxo :: "('ks, 'k) boxo option"
  we_page :: "key_row list \<Rightarrow> key_row list"
  we_pin :: "cid \<Rightarrow> nat \<Rightarrow> gerr + string option"
  we_dns :: "dns_config option"
  we_dnscfg :: "dns_config option"
  we_api :: "'p pdns_api option"
  we_zone_faults :: create_faults
  we_others :: "zone_db \<Rightarrow> zone_db"
  we_ascii :: "string \<Rightarrow> gerr + string"
  we_url :: "string \<Rightarrow> gerr + string \<times> string"
  we_tlsa :: "tlsa_config option"
  we_pem :: "string \<Rightarrow> gerr + string"
  we_fetch :: "string \<Rightarrow> string \<Rightarrow> gerr + string"
  we_dnssec :: "gerr option \<times> (gerr + cryptokey list) \<times> (gerr + cryptokey) \<times> (gerr + cryptokey list)"
  we_rand :: "gerr + bytes"
  we_ttl :: nat
  we_now :: nat
  we_fault :: "web_query \<Rightarrow> gerr option"

abbreviation hash_of :: "('p, 'ks, 'k) web_env \<Rightarrow> site \<Rightarrow> string" where
  "hash_of env \<equiv> TargetHash (we_cstr env) (we_pstr env)"

definition verificationTokenKey :: "('p, 'ks, 'k) web_env \<Rightarrow> string" where
  "verificationTokenKey env =
     (case we_dnscfg env of
        Some c \<Rightarrow> if dc_token_key c \<noteq> [] then dc_token_key c else ''lumeweb-verify''
      | None \<Rightarrow> ''lumeweb-verify'')"

definition hex_digit :: "nat \<Rightarrow> char" where
  "hex_digit n = ''0123456789abcdef'' ! n"

definition hex_encode :: "bytes \<Rightarrow> string" where
  "hex_encode bs = concat (map (\<lambda>b. [hex_digit (of_char b div 16), hex_digit (of_char b mod 16)]) bs)"

definition generateValidationToken :: "('p, 'ks, 'k) web_env \<Rightarrow> gerr + string" where
  "generateValidationToken env = (case we_rand env of Inl e \<Rightarrow> Inl e | Inr b \<Rightarrow> Inr (hex_encode b))"

definition token_record :: "('p, 'ks, 'k) web_env \<Rightarrow> string \<Rightarrow> string" where
  "token_record env tok = verificationTokenKey env @ ''='' @ tok"

section \<open>Targets\<close>

definition validateTarget :: "('p, 'ks, 'k) web_env \<Rightarrow> string \<Rightarrow> string \<Rightarrow> gerr option" where
  "validateTarget env t hash =
     (if t = WebsiteTargetTypeIPFS then
        (case we_cdec env hash of Inl e \<Rightarrow> Some (caused ErrInvalidCID e) | Inr _ \<Rightarrow> None)
      else if t = WebsiteTargetTypeIPNS then
        if isValidIPNSTarget (we_cdec env) (we_pdec env) hash then None
        else Some (caused ErrInvalidIPNS (Opaque ''invalid IPNS target''))
      else Some (caused ErrInvalidTarget (Opaque (''invalid type '' @ t))))"

abbreviation PinningStatusPinned :: string where "PinningStatusPinned \<equiv> ''pinned''"

definition validateIPFSTarget :: "('p, 'ks, 'k) web_env \<Rightarrow> nat \<Rightarrow> string \<Rightarrow> gerr option" where
  "validateIPFSTarget env user hash =
     (case we_cdec env hash of
        Inl e \<Rightarrow> Some (caused ErrInvalidCID e)
      | Inr c \<Rightarrow>
          (case we_pin env (NormalizeCid c) user of
             Inr (Some st) \<Rightarrow> if st = PinningStatusPinned then None else Some ErrCIDNotPinned
           | _ \<Rightarrow> Some ErrCIDNotPinned))"

definition validateIPNSKeyResolution ::
    "('p, 'ks, 'k) web_env \<Rightarrow> nat \<Rightarrow> string \<Rightarrow> ('p, 'ks) web \<Rightarrow> gerr option" where
  "validateIPNSKeyResolution env user peer s =
     (case GetPrivateKeyByPeerID (we_crypto env) (we_pdec env) (we_fault env QPeer) peer (ik_db (wb_ipns s)) of
        Inl e \<Rightarrow> Some (caused ErrIPNSKeyNotFound e)
      | Inr (_, owner) \<Rightarrow>
          if owner \<noteq> user
          then Some (caused ErrIPNSKeyNotFound
                 (Opaque (''key belongs to user '' @ dec owner @ '', not '' @ dec user)))
          else None)"

text \<open>The goroutine is started here; \<open>publish_one\<close> below is its body.\<close>

definition publishCIDAsync :: "string \<Rightarrow> string \<Rightarrow> ('p, 'ks) web \<Rightarrow> ('p, 'ks) web" where
  "publishCIDAsync peer c s = s\<lparr>wb_pubs := wb_pubs s @ [(peer, c)]\<rparr>"

definition publish_day :: int where "publish_day = 24 * 60 * republish_minute"

definition publish_one ::
    "('p, 'ks, 'k) web_env \<Rightarrow> ('k \<Rightarrow> cid \<Rightarrow> int option \<Rightarrow> gerr option) \<Rightarrow> gerr option \<Rightarrow> nat \<Rightarrow> ('p, 'ks) web \<Rightarrow>
     gerr option \<times> ('p, 'ks) web" where
  "publish_one env pub fault i s =
     (case wb_pubs s ! i of
        (peer, c) \<Rightarrow>
          let (r, db) = PublishCID (we_crypto env) (we_pdec env) (we_cdec env) (we_cstr env) pub
                (we_fault env QPeer) fault (we_now env) peer c publish_day (ik_db (wb_ipns s))
          in (r, s\<lparr>wb_ipns := (wb_ipns s)\<lparr>ik_db := db\<rparr>,
                   wb_pubs := take i (wb_pubs s) @ drop (i + 1) (wb_pubs s)\<rparr>))"

definition ensureIPNSKey ::
    "('p, 'ks, 'k) web_env \<Rightarrow> nat \<Rightarrow> string \<Rightarrow> string \<Rightarrow> ('p, 'ks) web \<Rightarrow> (gerr + key_row) \<times> ('p, 'ks) web" where
  "ensureIPNSKey env user domain publish s =
     (let started = (\<lambda>k s. (Inr k, if publish \<noteq> [] then publishCIDAsync (we_pstr env (kr_peer k)) publish s else s)) in
      case ListKeys (we_fault env QListKeys) (we_page env) user (ik_db (wb_ipns s)) of
        Inl e \<Rightarrow> (Inl (Wrapped ''failed to list existing IPNS keys'' e), s)
      | Inr keys \<Rightarrow>
          (case find (\<lambda>k. kr_name k = domain @ ''-auto'') keys of
             Some k \<Rightarrow> started k s
           | None \<Rightarrow>
               (case CreateKey (we_crypto env) (we_gen env) (we_nonce env) (we_boxo env) (we_pstr env)
                   (we_fault env QCreateKey) user (domain @ ''-auto'') (wb_ipns s) of
                  (Inl e, i) \<Rightarrow> (Inl (Wrapped ''failed to create IPNS key'' e), s\<lparr>wb_ipns := i\<rparr>)
                | (Inr k, i) \<Rightarrow> started k (s\<lparr>wb_ipns := i\<rparr>))))"

definition to_ipns :: "key_row \<Rightarrow> site \<Rightarrow> site" where
  "to_ipns k w = w\<lparr>ws_ttype := WebsiteTargetTypeIPNS, ws_mh := kr_peer k, ws_cidv := None, ws_cidt := None,
                   ws_key := Some (kr_id k)\<rparr>"

section \<open>Lookups\<close>

definition GetHNSDomainByDomain ::
    "('p, 'ks, 'k) web_env \<Rightarrow> string \<Rightarrow> ('p, 'ks) web \<Rightarrow> gerr + hns_row option" where
  "GetHNSDomainByDomain env domain s =
     (case normalizeHNSDomain (we_url env) domain of
        Inl _ \<Rightarrow> Inr None
      | Inr n \<Rightarrow>
          (case we_fault env QHnsDomain of
             Some e \<Rightarrow> if e = RecordNotFound then Inr None else Inl (Wrapped ''failed to get HNS domain'' e)
           | None \<Rightarrow>
               Inr (find (\<lambda>r. \<not> hr_deleted r \<and> (hr_gateway r = nh_gateway n \<or> hr_domain r = nh_display n \<or>
                      hr_zone_name r = nh_zone n)) (hd_rows (wb_hns s)))))"

definition getWebsiteByHNSDomain ::
    "('p, 'ks, 'k) web_env \<Rightarrow> string \<Rightarrow> ('p, 'ks) web \<Rightarrow> gerr + site option" where
  "getWebsiteByHNSDomain env domain s =
     (case GetHNSDomainByDomain env domain s of
        Inl e \<Rightarrow> Inl e
      | Inr None \<Rightarrow> Inr None
      | Inr (Some h) \<Rightarrow>
          if hr_status h \<notin> {hns_records_generated, ''waiting_for_parent_delegation'', ''active''} then Inr None
          else case first_site (we_fault env QHnsSite) (\<lambda>w. ws_id w = hr_site h) (wb_sites s) of
            Inr w \<Rightarrow> Inr (Some w)
          | Inl e \<Rightarrow> if e = RecordNotFound then Inr None else Inl (Wrapped ''failed to get HNS website'' e))"

definition GetWebsite ::
    "('p, 'ks, 'k) web_env \<Rightarrow> nat \<Rightarrow> nat \<Rightarrow> ('p, 'ks) web \<Rightarrow> gerr + site option" where
  "GetWebsite env user i s =
     (case first_site (we_fault env QGet) (\<lambda>w. ws_user w = user \<and> ws_id w = i) (wb_sites s) of
        Inr w \<Rightarrow> Inr (Some w)
      | Inl e \<Rightarrow> if e = RecordNotFound then Inr None else Inl (Wrapped ''failed to get website'' e))"

definition GetWebsiteByDomain ::
    "('p, 'ks, 'k) web_env \<Rightarrow> string \<Rightarrow> ('p, 'ks) web \<Rightarrow> gerr + site option" where
  "GetWebsiteByDomain env domain s =
     (case first_site (we_fault env QDomain) (\<lambda>w. ws_domain w = domain) (wb_sites s) of
        Inr w \<Rightarrow> Inr (Some w)
      | Inl e \<Rightarrow>
          if e = RecordNotFound then getWebsiteByHNSDomain env domain s
          else Inl (Wrapped ''failed to get website by domain'' e))"

text \<open>\<open>cnt\<close> is the count of the query the page has been applied to.\<close>

definition ListWebsites ::
    "gerr option \<Rightarrow> (site \<Rightarrow> bool) \<Rightarrow> (site list \<Rightarrow> site list) \<Rightarrow> (site list \<Rightarrow> site list) \<Rightarrow> (site list \<Rightarrow> nat) \<Rightarrow> nat \<Rightarrow> ('p, 'ks) web \<Rightarrow>
     gerr + site list \<times> nat" where
  "ListWebsites fault flt srt page cnt user s =
     (case fault of
        Some e \<Rightarrow> Inl (Wrapped ''failed to list websites'' e)
      | None \<Rightarrow>
          let rows = srt (filter (\<lambda>w. ws_deleted w = None \<and> ws_user w = user \<and> flt w) (sd_rows (wb_sites s)))
          in Inr (page rows, cnt rows))"

section \<open>Zones of websites\<close>

text \<open>A zone of the parent domain is used when the owner of the website has one.\<close>

definition parent_zone :: "('p, 'ks, 'k) web_env \<Rightarrow> site \<Rightarrow> ('p, 'ks) web \<Rightarrow> zone_row option" where
  "parent_zone env w s =
     (let parent = extractParentDomain (ws_domain w) in
      if parent = [] then None
      else case GetZoneByDomain (we_fault env QZone) parent (dn_db (wb_dns s)) of
        Inr (Some z) \<Rightarrow> if zr_user z = ws_user w then Some z else None
      | _ \<Rightarrow> None)"

definition website_zone ::
    "('p, 'ks, 'k) web_env \<Rightarrow> dns_config \<Rightarrow> site \<Rightarrow> ('p, 'ks) web \<Rightarrow> (gerr + zone_row) \<times> ('p, 'ks) web" where
  "website_zone env cfg w s =
     (case parent_zone env w s of
        Some z \<Rightarrow> (Inr z, s)
      | None \<Rightarrow>
          let (r, d) = CreateZone (we_api env) cfg (we_zone_faults env) (we_others env) (ws_domain w) (ws_user w) (wb_dns s)
          in (r, s\<lparr>wb_dns := d\<rparr>))"

text \<open>When the zone cannot be stored in the website's row, it is removed, unless it is a parent zone.\<close>

definition cleanup_zone ::
    "('p, 'ks, 'k) web_env \<Rightarrow> site \<Rightarrow> zone_row \<Rightarrow> ('p, 'ks) web \<Rightarrow> gerr option \<times> ('p, 'ks) web" where
  "cleanup_zone env w z s =
     (if zr_domain z = ws_domain w then
        let (r, d) = DeleteZone (we_api env) (we_fault env QZone) (we_fault env QZoneDelete) (zr_id z) (wb_dns s)
        in (r, s\<lparr>wb_dns := d\<rparr>)
      else (None, s))"

definition site_records ::
    "('p, 'ks, 'k) web_env \<Rightarrow> dns_config \<Rightarrow> site \<Rightarrow> nat \<Rightarrow> string \<Rightarrow> ('p, 'ks) web \<Rightarrow> gerr option \<times> ('p, 'ks) web" where
  "site_records env cfg w i tok s =
     (let (r, d) = CreateWebsiteDNSRecords (we_api env) cfg (we_fault env QRecords) i (ws_domain w) (hash_of env w)
            (ws_ttype w) (token_record env tok) (wb_dns s)
      in (r, s\<lparr>wb_dns := d\<rparr>))"

section \<open>Creation\<close>

text \<open>An IPNS website given by a CID gets a key of its own; any other target is checked.\<close>

definition create_target ::
    "('p, 'ks, 'k) web_env \<Rightarrow> site \<Rightarrow> ('p, 'ks) web \<Rightarrow> (gerr + site) \<times> ('p, 'ks) web" where
  "create_target env w s =
     (if ws_ttype w = WebsiteTargetTypeIPNS \<and> ws_cidv w \<noteq> None then
        (case ensureIPNSKey env (ws_user w) (ws_domain w) (hash_of env w) s of
           (Inl e, s') \<Rightarrow> (Inl e, s')
         | (Inr k, s') \<Rightarrow> (Inr (to_ipns k w), s'))
      else (case validateTarget env (ws_ttype w) (hash_of env w) of
              Some e \<Rightarrow> (Inl (Wrapped ''invalid target'' e), s)
            | None \<Rightarrow> (Inr w, s)))"

text \<open>90 days, in nanoseconds.\<close>

definition sslCertValidity :: nat where "sslCertValidity = 90 * 24 * 3600 * 10 ^ 9"

definition inherit_ssl :: "('p, 'ks, 'k) web_env \<Rightarrow> ('p, 'ks) web \<Rightarrow> site \<Rightarrow> site" where
  "inherit_ssl env s w =
     (case (we_fault env QDeleted, latest_ready (ws_domain w) (sd_rows (wb_sites s))) of
        (None, Some v) \<Rightarrow>
          (case ws_ssl_issued v of
             Some t \<Rightarrow>
               if int (we_now env) - int t < int sslCertValidity
               then w\<lparr>ws_ssl := SSLStatusReady, ws_ssl_issued := Some t, ws_ssl_updated := ws_ssl_updated v\<rparr> else w
           | None \<Rightarrow> w)
      | _ \<Rightarrow> w)"

text \<open>A stored IPFS website with managed DNS is converted to IPNS.\<close>

definition create_auto_ipns ::
    "('p, 'ks, 'k) web_env \<Rightarrow> site \<Rightarrow> ('p, 'ks) web \<Rightarrow> (gerr + site) \<times> ('p, 'ks) web" where
  "create_auto_ipns env w s =
     (if ws_enabled w \<and> ws_ttype w = WebsiteTargetTypeIPFS then
        (case ensureIPNSKey env (ws_user w) (ws_domain w) (hash_of env w) s of
           (Inl e, s') \<Rightarrow> (Inl e, s')
         | (Inr k, s') \<Rightarrow>
             (case site_save (we_fault env QSaveTarget) (to_ipns k w) (wb_sites s') of
                Inl e \<Rightarrow> (Inl (Wrapped ''failed to update website with IPNS target'' e), s')
              | Inr (w', db) \<Rightarrow> (Inr w', s'\<lparr>wb_sites := db\<rparr>)))
      else (Inr w, s))"

text \<open>A website without a zone, or whose records could not be written, is created all the same.\<close>

definition create_zone ::
    "('p, 'ks, 'k) web_env \<Rightarrow> site \<Rightarrow> ('p, 'ks) web \<Rightarrow> (gerr + site) \<times> ('p, 'ks) web" where
  "create_zone env w s =
     (case we_dns env of
        None \<Rightarrow> (Inr w, s)
      | Some cfg \<Rightarrow>
          if \<not> ws_enabled w then (Inr w, s)
          else case website_zone env cfg w s of
            (Inl _, s1) \<Rightarrow> (Inr w, s1)
          | (Inr z, s1) \<Rightarrow>
              (case site_save (we_fault env QSaveZone) (w\<lparr>ws_zone := Some (zr_id z)\<rparr>) (wb_sites s1) of
                 Inl e \<Rightarrow>
                   (case cleanup_zone env w z s1 of
                      (Some e', s2) \<Rightarrow>
                        (Inl (caused (Wrapped ''failed to associate DNS zone with website (and cleanup failed)'' e') e), s2)
                    | (None, s2) \<Rightarrow> (Inl (Wrapped ''failed to associate DNS zone with website'' e), s2))
               | Inr (w', db) \<Rightarrow>
                   (Inr w', snd (site_records env cfg w' (zr_id z) (ws_token w') (s1\<lparr>wb_sites := db\<rparr>)))))"

text \<open>The row, with its token, stored as pending; then what managed DNS needs.\<close>

definition create_stored ::
    "('p, 'ks, 'k) web_env \<Rightarrow> site \<Rightarrow> ('p, 'ks) web \<Rightarrow> (gerr + site) \<times> ('p, 'ks) web" where
  "create_stored env w s =
     (case generateValidationToken env of
        Inl e \<Rightarrow> (Inl (Wrapped ''failed to generate validation token'' e), s)
      | Inr tok \<Rightarrow>
          (case site_insert (we_fault env QCreate)
              ((inherit_ssl env s w)\<lparr>ws_token := tok, ws_expires := Some (we_now env + we_ttl env),
                                     ws_status := WebsiteStatusPendingValidation\<rparr>) (wb_sites s) of
             Inl e \<Rightarrow> (Inl (Wrapped ''failed to create website'' e), s)
           | Inr (w', db) \<Rightarrow>
               (case create_auto_ipns env w' (s\<lparr>wb_sites := db\<rparr>) of
                  (Inl e, s') \<Rightarrow> (Inl e, s')
                | (Inr w'', s') \<Rightarrow> create_zone env w'' s')))"

definition CreateWebsite ::
    "('p, 'ks, 'k) web_env \<Rightarrow> site \<Rightarrow> ('p, 'ks) web \<Rightarrow> (gerr + site) \<times> ('p, 'ks) web" where
  "CreateWebsite env w s =
     (case website_validateDomain (we_ascii env) (ws_domain w) of
        Some e \<Rightarrow> (Inl (Wrapped ''invalid domain'' e), s)
      | None \<Rightarrow>
          (case create_target env w s of
             (Inl e, s') \<Rightarrow> (Inl e, s')
           | (Inr w', s') \<Rightarrow>
               (case GetWebsiteByDomain env (ws_domain w') s' of
                  Inl e \<Rightarrow> (Inl (Wrapped ''failed to check existing domain'' e), s')
                | Inr (Some _) \<Rightarrow> (Inl (Opaque (''domain already exists: '' @ ws_domain w')), s')
                | Inr None \<Rightarrow> create_stored env w' s')))"

end
