(* ===== verification/Website_Update.thy ===== *)
theory Website_Update
  imports Website
begin

text \<open>
  The operations of the website service that change a website's target, hosting or names: \<open>UpdateWebsite\<close>,
  \<open>DeleteWebsite\<close> and the transitions of managed DNS of \<^verbatim>\<open>internal/service/website/website.go\<close>, and the Handshake
  names of \<^verbatim>\<open>hns.go\<close>.
\<close>

section \<open>Handshake names\<close>

definition CreateHNSDomain ::
    "('p, 'ks, 'k) web_env \<Rightarrow> nat \<Rightarrow> nat \<Rightarrow> string \<Rightarrow> string \<Rightarrow> ('p, 'ks) web \<Rightarrow> (gerr + hns_row) \<times> ('p, 'ks) web" where
  "CreateHNSDomain env user i domain mode0 s =
     (let mode = (if mode0 = [] then ''dane'' else mode0) in
      if mode \<noteq> ''dane'' then (Inl (Opaque (''unsupported HNS mode: '' @ mode)), s)
      else case we_dns env of
        None \<Rightarrow> (Inl (Opaque ''DNS service is required for HNS/DANE domains''), s)
      | Some cfg \<Rightarrow>
     (case we_dnscfg env of
        None \<Rightarrow> (Inl (Opaque ''DNS nameservers must be configured for HNS/DANE domains''), s)
      | Some dc \<Rightarrow>
     (if dc_nameservers dc = [] then (Inl (Opaque ''DNS nameservers must be configured for HNS/DANE domains''), s)
      else case normalizeHNSDomain (we_url env) domain of
        Inl e \<Rightarrow> (Inl e, s)
      | Inr n \<Rightarrow>
     (case GetWebsite env user i s of
        Inl e \<Rightarrow> (Inl e, s)
      | Inr None \<Rightarrow> (Inl (Opaque ''website not found''), s)
      | Inr (Some w) \<Rightarrow>
     (case GetHNSDomainByDomain env (nh_gateway n) s of
        Inl e \<Rightarrow> (Inl e, s)
      | Inr (Some _) \<Rightarrow> (Inl (Opaque (''HNS domain already exists: '' @ nh_display n)), s)
      | Inr None \<Rightarrow>
     (case CreateZone (we_api env) cfg (we_zone_faults env) (we_others env) (nh_zone n) user (wb_dns s) of
        (Inl e, d) \<Rightarrow> (Inl (Wrapped ''failed to create HNS DNS zone'' e), s\<lparr>wb_dns := d\<rparr>)
      | (Inr z, d) \<Rightarrow>
     (case (case we_dnssec env of (en, ks, c, ks2) \<Rightarrow>
              EnsureZoneDNSSEC en ks c ks2 (we_api env) (we_fault env QZone) (zr_id z) d) of
        Inl e \<Rightarrow> (Inl e, s\<lparr>wb_dns := d\<rparr>)
      | Inr ds \<Rightarrow>
     (case hnsTLSARecord (we_tlsa env) (we_pem env) (we_fetch env) (nh_gateway n) of
        Inl e \<Rightarrow> (Inl e, s\<lparr>wb_dns := d\<rparr>)
      | Inr tlsa \<Rightarrow>
     (case CreateHNSDNSRecords (we_api env) cfg (we_fault env QRecords) (zr_id z) (nh_zone n) (hash_of env w)
         (ws_ttype w) tlsa d of
        (Inl e, d') \<Rightarrow> (Inl e, s\<lparr>wb_dns := d'\<rparr>)
      | (Inr managed, d') \<Rightarrow>
     (case hns_insert (we_fault env QHnsInsert)
         \<lparr>hr_id = 0, hr_user = user, hr_site = ws_id w, hr_domain = nh_display n, hr_type = ''hns'', hr_mode = mode,
          hr_zone_name = nh_zone n, hr_gateway = nh_gateway n, hr_zone = Some (zr_id z), hr_cid = hash_of env w,
          hr_status = hns_records_generated, hr_wallet = buildHNSWalletBundle (dc_nameservers dc) (Some ds),
          hr_managed = managedRecordsFromDTO (map Some managed), hr_ds = formatDSRecord (Some ds), hr_tlsa = tlsa,
          hr_route = gatewayRoute (nh_gateway n) (ws_ttype w) (hash_of env w), hr_route_status = ''ready'',
          hr_deleted = False\<rparr> (wb_hns s) of
        Inl e \<Rightarrow> (Inl (Wrapped ''failed to create HNS domain'' e), s\<lparr>wb_dns := d'\<rparr>)
      | Inr (h, db) \<Rightarrow> (Inr h, s\<lparr>wb_dns := d', wb_hns := db\<rparr>)))))))))))"

definition ListHNSDomains ::
    "('p, 'ks, 'k) web_env \<Rightarrow> nat \<Rightarrow> nat \<Rightarrow> ('p, 'ks) web \<Rightarrow> gerr + hns_row list" where
  "ListHNSDomains env user i s =
     (case we_fault env QHnsList of
        Some e \<Rightarrow> Inl (Wrapped ''failed to list HNS domains'' e)
      | None \<Rightarrow> Inr (filter (\<lambda>r. \<not> hr_deleted r \<and> hr_user r = user \<and> hr_site r = i) (hd_rows (wb_hns s))))"

text \<open>The records of one name are written again, then its row; a failure of either is not reported.\<close>

definition refresh_one ::
    "('p, 'ks, 'k) web_env \<Rightarrow> dns_config \<Rightarrow> site \<Rightarrow> hns_row \<Rightarrow> ('p, 'ks) web \<Rightarrow> ('p, 'ks) web" where
  "refresh_one env cfg w h s =
     (case hr_zone h of
        None \<Rightarrow> s
      | Some i \<Rightarrow>
          (case CreateHNSDNSRecords (we_api env) cfg (we_fault env QRecords) i (hr_zone_name h) (hash_of env w)
              (ws_ttype w) (hr_tlsa h) (wb_dns s) of
             (Inl _, d) \<Rightarrow> s\<lparr>wb_dns := d\<rparr>
           | (Inr managed, d) \<Rightarrow>
               s\<lparr>wb_dns := d,
                 wb_hns := (case (we_fault env QHnsUpdate, hns_BeforeSave h) of
                   (None, Inr _) \<Rightarrow>
                     (wb_hns s)\<lparr>hd_rows := map (\<lambda>x. if hr_id x = hr_id h \<and> \<not> hr_deleted x
                        then x\<lparr>hr_cid := hash_of env w, hr_managed := managedRecordsFromDTO (map Some managed),
                               hr_route := gatewayRoute (hr_gateway h) (ws_ttype w) (hash_of env w)\<rparr>
                        else x) (hd_rows (wb_hns s))\<rparr>
                 | _ \<Rightarrow> wb_hns s)\<rparr>))"

definition refreshHNSDomains :: "('p, 'ks, 'k) web_env \<Rightarrow> site \<Rightarrow> ('p, 'ks) web \<Rightarrow> ('p, 'ks) web" where
  "refreshHNSDomains env w s =
     (case we_dns env of
        None \<Rightarrow> s
      | Some cfg \<Rightarrow>
          (case ListHNSDomains env (ws_user w) (ws_id w) s of
             Inl _ \<Rightarrow> s
           | Inr hs \<Rightarrow> fold (refresh_one env cfg w) hs s))"

section \<open>Transitions of managed DNS\<close>

text \<open>
  The website that is returned is the one in memory, which the updates also change; the errors are logged by the
  caller.
\<close>

definition enable_zone ::
    "('p, 'ks, 'k) web_env \<Rightarrow> dns_config \<Rightarrow> site \<Rightarrow> ('p, 'ks) web \<Rightarrow> (gerr + site) \<times> ('p, 'ks) web" where
  "enable_zone env cfg w s =
     (case ws_zone w of
        Some _ \<Rightarrow> (Inr w, s)
      | None \<Rightarrow>
          (case website_zone env cfg w s of
             (Inl e, s1) \<Rightarrow> (Inl (Wrapped ''failed to create DNS zone'' e), s1)
           | (Inr z, s1) \<Rightarrow>
               (case site_updates (we_fault env QSaveZone) w (\<lambda>x. x\<lparr>ws_zone := Some (zr_id z)\<rparr>) (wb_sites s1) of
                  Inl e \<Rightarrow> (Inl (Wrapped ''failed to associate DNS zone with website'' e), snd (cleanup_zone env w z s1))
                | Inr db \<Rightarrow> (Inr (w\<lparr>ws_zone := Some (zr_id z)\<rparr>), s1\<lparr>wb_sites := db\<rparr>))))"

definition enable_records ::
    "('p, 'ks, 'k) web_env \<Rightarrow> dns_config \<Rightarrow> site \<Rightarrow> ('p, 'ks) web \<Rightarrow> gerr option \<times> site \<times> ('p, 'ks) web" where
  "enable_records env cfg w s =
     (case ws_zone w of
        None \<Rightarrow> (None, w, s)
      | Some i \<Rightarrow>
          (case (if IsExpired (we_now env) w \<or> ws_token w = [] then generateValidationToken env else Inr (ws_token w)) of
             Inl e \<Rightarrow> (Some (Wrapped ''failed to generate validation token'' e), w, s)
           | Inr tok \<Rightarrow>
               (case site_records env cfg w i tok s of
                  (Some e, s1) \<Rightarrow> (Some (Wrapped ''failed to create DNS records'' e), w, s1)
                | (None, s1) \<Rightarrow>
                    let f = (\<lambda>x. x\<lparr>ws_token := tok, ws_expires := Some (we_now env + we_ttl env),
                                   ws_status := WebsiteStatusPendingValidation\<rparr>) in
                    case site_updates (we_fault env QSave) w f (wb_sites s1) of
                      Inl e \<Rightarrow> (Some (Wrapped ''failed to update website validation'' e), w, s1)
                    | Inr db \<Rightarrow> (None, f w, s1\<lparr>wb_sites := db\<rparr>))))"

definition handleDNSEnabledTransition ::
    "('p, 'ks, 'k) web_env \<Rightarrow> site \<Rightarrow> ('p, 'ks) web \<Rightarrow> gerr option \<times> site \<times> ('p, 'ks) web" where
  "handleDNSEnabledTransition env w s =
     (case we_dns env of
        None \<Rightarrow> (None, w, s)
      | Some cfg \<Rightarrow>
          (case enable_zone env cfg w s of
             (Inl e, s1) \<Rightarrow> (Some e, w, s1)
           | (Inr w1, s1) \<Rightarrow> enable_records env cfg w1 s1))"

text \<open>Other live websites in the zone.\<close>

definition zone_shared :: "nat \<Rightarrow> site \<Rightarrow> site_db \<Rightarrow> nat" where
  "zone_shared i w db =
     length (filter (\<lambda>x. ws_zone x = Some i \<and> ws_id x \<noteq> ws_id w \<and> ws_deleted x = None) (sd_rows db))"

text \<open>The records and, when no other website uses it, the zone are removed; whether the zone is gone.\<close>

definition disable_zone ::
    "('p, 'ks, 'k) web_env \<Rightarrow> site \<Rightarrow> ('p, 'ks) web \<Rightarrow> bool \<times> ('p, 'ks) web" where
  "disable_zone env w s =
     (case (ws_zone w, we_dns env) of
        (Some i, Some cfg) \<Rightarrow>
          (case DeleteWebsiteDNSRecords (we_api env) cfg (we_fault env QRecords) i (ws_domain w) (wb_dns s) of
             (Some _, d) \<Rightarrow> (False, s\<lparr>wb_dns := d\<rparr>)
           | (None, d) \<Rightarrow>
               if we_fault env QCount = None \<and> zone_shared i w (wb_sites s) = 0 then
                 (case DeleteZone (we_api env) (we_fault env QZone) (we_fault env QZoneDelete) i d of
                    (r, d') \<Rightarrow> (r = None, s\<lparr>wb_dns := d'\<rparr>))
               else (False, s\<lparr>wb_dns := d\<rparr>))
      | _ \<Rightarrow> (False, s))"

definition handleDNSDisabledTransition ::
    "('p, 'ks, 'k) web_env \<Rightarrow> site \<Rightarrow> ('p, 'ks) web \<Rightarrow> gerr option \<times> site \<times> ('p, 'ks) web" where
  "handleDNSDisabledTransition env w s =
     (case disable_zone env w s of
        (gone, s1) \<Rightarrow>
          let f = (\<lambda>x. x\<lparr>ws_status := WebsiteStatusPendingValidation,
                         ws_zone := (if gone then None else ws_zone x)\<rparr>) in
          case site_updates (we_fault env QSave) w f (wb_sites s1) of
            Inl e \<Rightarrow> (Some (Wrapped ''failed to update website'' e), w, s1)
          | Inr db \<Rightarrow> (None, f w, s1\<lparr>wb_sites := db\<rparr>))"

section \<open>Updates\<close>

text \<open>
  The map of updates: \<open>up_dns\<close> is \<open>Some None\<close> when the value is not a boolean.
\<close>

record site_update =
  up_domain :: "string option"
  up_type :: "string option"
  up_hash :: "string option"
  up_dns :: "bool option option"

text \<open>What the new target changes: the columns, the new hash when it differs, and whether a key was made for it.\<close>

record target_plan =
  tp_cols :: "site \<Rightarrow> site"
  tp_hash :: "string option"
  tp_auto :: bool

definition keep_target :: target_plan where
  "keep_target = \<lparr>tp_cols = id, tp_hash = None, tp_auto = False\<rparr>"

definition changed_hash :: "string \<Rightarrow> string \<Rightarrow> string option" where
  "changed_hash old new = (if new \<noteq> old then Some new else None)"

text \<open>A pinned CID is put behind an IPNS key of the website.\<close>

definition target_behind_key ::
    "('p, 'ks, 'k) web_env \<Rightarrow> nat \<Rightarrow> site \<Rightarrow> string \<Rightarrow> ('p, 'ks) web \<Rightarrow> (gerr + target_plan) \<times> ('p, 'ks) web" where
  "target_behind_key env user w c s =
     (case validateIPFSTarget env user c of
        Some e \<Rightarrow> (Inl (Wrapped ''CID validation failed'' e), s)
      | None \<Rightarrow>
          (case ensureIPNSKey env (ws_user w) (ws_domain w) c s of
             (Inl e, s') \<Rightarrow> (Inl e, s')
           | (Inr k, s') \<Rightarrow>
               (Inr \<lparr>tp_cols = to_ipns k, tp_hash = changed_hash (hash_of env w) (we_pstr env (kr_peer k)),
                     tp_auto = True\<rparr>, s')))"

text \<open>The columns of a CID: its version and codec are cut to eight bits.\<close>

definition cid_cols :: "cid \<Rightarrow> site \<Rightarrow> site" where
  "cid_cols c w = w\<lparr>ws_ttype := WebsiteTargetTypeIPFS, ws_mh := cid_hash c, ws_cidv := Some (cid_version c mod 256),
                    ws_cidt := Some (cid_type c mod 256)\<rparr>"

definition target_direct ::
    "('p, 'ks, 'k) web_env \<Rightarrow> nat \<Rightarrow> site \<Rightarrow> string \<Rightarrow> string \<Rightarrow> ('p, 'ks) web \<Rightarrow> gerr + target_plan" where
  "target_direct env user w t0 h s =
     (let t = (if t0 = WebsiteTargetTypeIPFS \<and> isValidIPNSTarget (we_cdec env) (we_pdec env) h
               then WebsiteTargetTypeIPNS else t0);
          plan = (\<lambda>f. \<lparr>tp_cols = f, tp_hash = changed_hash (hash_of env w) h, tp_auto = False\<rparr>) in
      case validateTarget env t h of
        Some e \<Rightarrow> Inl (Wrapped ''invalid target'' e)
      | None \<Rightarrow>
          if t = WebsiteTargetTypeIPNS then
            (case validateIPNSKeyResolution env user h s of
               Some e \<Rightarrow> Inl (Wrapped ''IPNS key validation failed'' e)
             | None \<Rightarrow>
                 (case NewIPNSTargetFromString (we_cdec env) (we_pdec env) h of
                    Inl e \<Rightarrow> Inl (Wrapped ''failed to parse IPNS target'' e)
                  | Inr m \<Rightarrow>
                      Inr (plan (\<lambda>x. x\<lparr>ws_ttype := t, ws_mh := m, ws_cidv := None, ws_cidt := None\<rparr>))))
          else
            (case we_cdec env h of
               Inl e \<Rightarrow> Inl (Wrapped ''failed to decode CID'' e)
             | Inr c \<Rightarrow>
                 (case validateIPFSTarget env user h of
                    Some e \<Rightarrow> Inl (Wrapped ''CID validation failed'' e)
                  | None \<Rightarrow> Inr (plan (cid_cols (NormalizeCid c))))))"

text \<open>A type without a hash converts an IPFS website to IPNS; a type that is neither is stored as it is.\<close>

definition target_convert ::
    "('p, 'ks, 'k) web_env \<Rightarrow> nat \<Rightarrow> site \<Rightarrow> string \<Rightarrow> ('p, 'ks) web \<Rightarrow> (gerr + target_plan) \<times> ('p, 'ks) web" where
  "target_convert env user w t s =
     (if t = WebsiteTargetTypeIPNS \<and> ws_ttype w = WebsiteTargetTypeIPFS
      then target_behind_key env user w (hash_of env w) s
      else if t = WebsiteTargetTypeIPFS \<and> ws_ttype w = WebsiteTargetTypeIPNS
      then (Inl (Opaque ''cannot convert from IPNS to IPFS without specifying a target CID''), s)
      else (Inr (keep_target\<lparr>tp_cols := \<lambda>x. x\<lparr>ws_ttype := t\<rparr>\<rparr>), s))"

definition plan_target ::
    "('p, 'ks, 'k) web_env \<Rightarrow> nat \<Rightarrow> site \<Rightarrow> site_update \<Rightarrow> ('p, 'ks) web \<Rightarrow> (gerr + target_plan) \<times> ('p, 'ks) web" where
  "plan_target env user w u s =
     (case up_hash u of
        Some h \<Rightarrow>
          let t = (case up_type u of Some t \<Rightarrow> t | None \<Rightarrow> ws_ttype w) in
          if t = WebsiteTargetTypeIPNS \<and> isIPFSCid (we_cdec env) h \<and> \<not> isValidIPNSTarget (we_cdec env) (we_pdec env) h
          then target_behind_key env user w h s
          else (target_direct env user w t h s, s)
      | None \<Rightarrow> (case up_type u of None \<Rightarrow> (Inr keep_target, s) | Some t \<Rightarrow> target_convert env user w t s))"

text \<open>A domain that is valid and, as far as the query tells, free.\<close>

definition check_new_domain ::
    "('p, 'ks, 'k) web_env \<Rightarrow> nat \<Rightarrow> string \<Rightarrow> ('p, 'ks) web \<Rightarrow> gerr option" where
  "check_new_domain env i d s =
     (case website_validateDomain (we_ascii env) d of
        Some e \<Rightarrow> Some (Wrapped ''invalid domain'' e)
      | None \<Rightarrow>
          (case first_site (we_fault env QExists) (\<lambda>x. ws_domain x = d \<and> ws_id x \<noteq> i) (wb_sites s) of
             Inr _ \<Rightarrow> Some (Opaque (''domain already exists: '' @ d))
           | Inl _ \<Rightarrow> None))"

text \<open>After the columns are written: the key publishes the new target and the dnslink is renewed.\<close>

definition republish_target ::
    "('p, 'ks, 'k) web_env \<Rightarrow> target_plan \<Rightarrow> site \<Rightarrow> ('p, 'ks) web \<Rightarrow> ('p, 'ks) web" where
  "republish_target env pl w s =
     (case (tp_hash pl, ws_key w) of
        (Some h, Some k) \<Rightarrow>
          if tp_auto pl then s
          else (case GetKeyByID (we_fault env QGetKey) (ws_user w) k (ik_db (wb_ipns s)) of
                  Inl _ \<Rightarrow> s
                | Inr r \<Rightarrow> publishCIDAsync (we_pstr env (kr_peer r)) (if h = [] then hash_of env w else h) s)
      | _ \<Rightarrow> s)"

definition renew_records ::
    "('p, 'ks, 'k) web_env \<Rightarrow> string \<Rightarrow> target_plan \<Rightarrow> site \<Rightarrow> ('p, 'ks) web \<Rightarrow> ('p, 'ks) web" where
  "renew_records env old_type pl w s =
     (case (tp_hash pl, ws_zone w, we_dns env) of
        (Some _, Some i, Some cfg) \<Rightarrow>
          if ws_enabled w \<and> (old_type \<noteq> WebsiteTargetTypeIPNS \<or> ws_ttype w \<noteq> WebsiteTargetTypeIPNS)
          then s\<lparr>wb_dns := snd (UpdateWebsiteDNSRecords (we_api env) (we_fault env QRecords) i (ws_domain w)
                                  (hash_of env w) (ws_ttype w) (wb_dns s))\<rparr>
          else s
      | _ \<Rightarrow> s)"

definition apply_update :: "site_update \<Rightarrow> target_plan \<Rightarrow> site \<Rightarrow> site" where
  "apply_update u pl x =
     (let y = tp_cols pl x;
          y = (case up_domain u of Some d \<Rightarrow> y\<lparr>ws_domain := d\<rparr> | None \<Rightarrow> y) in
      case up_dns u of Some (Some b) \<Rightarrow> y\<lparr>ws_enabled := b\<rparr> | _ \<Rightarrow> y)"

text \<open>The transaction: the website before and after, and whether its hash has changed.\<close>

definition update_tx ::
    "('p, 'ks, 'k) web_env \<Rightarrow> nat \<Rightarrow> nat \<Rightarrow> site_update \<Rightarrow> ('p, 'ks) web \<Rightarrow>
     (gerr + site \<times> site \<times> bool) \<times> ('p, 'ks) web" where
  "update_tx env user i u s =
     (case first_site (we_fault env QGet) (\<lambda>w. ws_user w = user \<and> ws_id w = i) (wb_sites s) of
        Inl e \<Rightarrow> (Inl (if e = RecordNotFound then Opaque ''website not found''
                       else Wrapped ''failed to get website'' e), s)
      | Inr w \<Rightarrow>
     (case (case up_domain u of None \<Rightarrow> None | Some d \<Rightarrow> check_new_domain env i d s) of
        Some e \<Rightarrow> (Inl e, s)
      | None \<Rightarrow>
     (case plan_target env user w u s of
        (Inl e, s1) \<Rightarrow> (Inl e, s1)
      | (Inr pl, s1) \<Rightarrow>
     (if up_dns u = Some None then (Inl (Opaque ''dns_enabled must be a boolean''), s1)
      else case site_updates (we_fault env QUpdates) w (apply_update u pl) (wb_sites s1) of
        Inl e \<Rightarrow> (Inl (Wrapped ''failed to update website'' e), s1)
      | Inr db \<Rightarrow>
     (case first_site (we_fault env QReload) (\<lambda>w. ws_user w = user \<and> ws_id w = i) db of
        Inl e \<Rightarrow> (Inl (Wrapped ''failed to reload updated website'' e), s1)
      | Inr w' \<Rightarrow>
          (Inr (w, w', tp_hash pl \<noteq> None),
           renew_records env (ws_ttype w) pl w' (republish_target env pl w' (s1\<lparr>wb_sites := db\<rparr>))))))))"

definition UpdateWebsite ::
    "('p, 'ks, 'k) web_env \<Rightarrow> nat \<Rightarrow> nat \<Rightarrow> site_update \<Rightarrow> ('p, 'ks) web \<Rightarrow> (gerr + site) \<times> ('p, 'ks) web" where
  "UpdateWebsite env user i u s =
     (case update_tx env user i u s of
        (Inl e, s1) \<Rightarrow> (Inl e, s1)
      | (Inr (old, w, changed), s1) \<Rightarrow>
          let s2 = (if changed then refreshHNSDomains env w s1 else s1) in
          case (if up_dns u \<noteq> None \<and> ws_enabled w \<and> \<not> ws_enabled old then handleDNSEnabledTransition env w s2
                else if up_dns u \<noteq> None \<and> \<not> ws_enabled w \<and> ws_enabled old then handleDNSDisabledTransition env w s2
                else (None, w, s2)) of
            (_, w', s3) \<Rightarrow> (Inr w', s3))"

section \<open>Deletion\<close>

definition DeleteWebsite ::
    "('p, 'ks, 'k) web_env \<Rightarrow> nat \<Rightarrow> nat \<Rightarrow> ('p, 'ks) web \<Rightarrow> gerr option \<times> ('p, 'ks) web" where
  "DeleteWebsite env user i s =
     (case first_site (we_fault env QGet) (\<lambda>w. ws_user w = user \<and> ws_id w = i) (wb_sites s) of
        Inl e \<Rightarrow> (Some (if e = RecordNotFound then Opaque ''website not found''
                        else Wrapped ''failed to get website'' e), s)
      | Inr w \<Rightarrow>
     (if ws_status w = WebsiteStatusBlocked then (Some (Opaque ''cannot delete blocked website''), s)
      else case we_fault env QDelete of
        Some e \<Rightarrow> (Some (Wrapped ''failed to delete website'' e), s)
      | None \<Rightarrow>
     (case we_fault env QDeleteHns of
        Some e \<Rightarrow> (Some (Wrapped ''failed to delete HNS domains'' e), s)
      | None \<Rightarrow>
          let s1 = s\<lparr>wb_sites := site_delete (we_now env) (ws_id w) (wb_sites s),
                     wb_hns := (wb_hns s)\<lparr>hd_rows := map (\<lambda>h. if hr_site h = i \<and> \<not> hr_deleted h
                        then h\<lparr>hr_deleted := True\<rparr> else h) (hd_rows (wb_hns s))\<rparr>\<rparr> in
          (None,
           case (ws_zone w, we_dns env) of
             (Some z, Some cfg) \<Rightarrow>
               s1\<lparr>wb_dns := snd (DeleteWebsiteDNSRecords (we_api env) cfg (we_fault env QRecords) z (ws_domain w)
                                   (wb_dns s1))\<rparr>
           | _ \<Rightarrow> s1))))"

end
