(* ===== verification/Website_Check.thy ===== *)
theory Website_Check
  imports Website_Update
begin

text \<open>
  The operations that decide the status of a website: blocking, validation of its DNS, its certificate
  (\<^verbatim>\<open>internal/service/website/website.go\<close>) and the janitor (\<^verbatim>\<open>janitor.go\<close>).
\<close>

section \<open>Blocking\<close>

definition BlockWebsite :: "('p, 'ks, 'k) web_env \<Rightarrow> nat \<Rightarrow> ('p, 'ks) web \<Rightarrow> gerr option \<times> ('p, 'ks) web" where
  "BlockWebsite env i s =
     (case first_site (we_fault env QGet) (\<lambda>w. ws_id w = i) (wb_sites s) of
        Inl e \<Rightarrow> (Some (if e = RecordNotFound then Opaque ''website not found''
                        else Wrapped ''failed to get website'' e), s)
      | Inr w \<Rightarrow>
          (case site_save (we_fault env QSave) (w\<lparr>ws_status := WebsiteStatusBlocked\<rparr>) (wb_sites s) of
             Inl e \<Rightarrow> (Some (Wrapped ''failed to block website'' e), s)
           | Inr (_, db) \<Rightarrow> (None, s\<lparr>wb_sites := db\<rparr>)))"

definition UnblockWebsite :: "('p, 'ks, 'k) web_env \<Rightarrow> nat \<Rightarrow> ('p, 'ks) web \<Rightarrow> gerr option \<times> ('p, 'ks) web" where
  "UnblockWebsite env i s =
     (case first_site (we_fault env QGet) (\<lambda>w. ws_id w = i \<and> ws_status w = WebsiteStatusBlocked) (wb_sites s) of
        Inl e \<Rightarrow> (Some (if e = RecordNotFound then Opaque ''website not found or not blocked''
                        else Wrapped ''failed to get website'' e), s)
      | Inr w \<Rightarrow>
          (case site_save (we_fault env QSave) (w\<lparr>ws_status := WebsiteStatusActive\<rparr>) (wb_sites s) of
             Inl e \<Rightarrow> (Some (Wrapped ''failed to unblock website'' e), s)
           | Inr (_, db) \<Rightarrow> (None, s\<lparr>wb_sites := db\<rparr>)))"

section \<open>Validation of DNS\<close>

datatype ValidationReason =
    ValidationReasonValidated | ValidationReasonTokenExpired | ValidationReasonDNSMissing
  | ValidationReasonDNSMismatch | ValidationReasonTokenMissing

record ValidateDNSResult =
  vr_valid :: bool
  vr_message :: string
  vr_reason :: ValidationReason

text \<open>
  What the DNS is asked for: the dnslinks of a domain, as the identifiers under \<open>ipfs\<close> and \<open>ipns\<close>, or an error with
  whether it is NXDOMAIN; and the TXT records of a name.
\<close>

record dns_resolver =
  dv_link :: "string \<Rightarrow> bool \<times> gerr + string list \<times> string list"
  dv_txt :: "string \<Rightarrow> gerr + string list"

text \<open>The last link that is looked at, and whether one is the expected path.\<close>

definition found_link :: "string list \<times> string list \<Rightarrow> string" where
  "found_link ls =
     (if snd ls \<noteq> [] then IPNSPath (hd (snd ls)) else if fst ls \<noteq> [] then IPFSPath (hd (fst ls)) else [])"

definition has_link :: "string \<Rightarrow> string list \<times> string list \<Rightarrow> bool" where
  "has_link expected ls \<longleftrightarrow>
     (fst ls \<noteq> [] \<and> IPFSPath (hd (fst ls)) = expected) \<or> (snd ls \<noteq> [] \<and> IPNSPath (hd (snd ls)) = expected)"

text \<open>The records with the new token, when the website has a zone; a failure is only logged.\<close>

definition token_zone ::
    "('p, 'ks, 'k) web_env \<Rightarrow> site \<Rightarrow> string \<Rightarrow> ('p, 'ks) web \<Rightarrow> ('p, 'ks) web" where
  "token_zone env w tok s =
     (case (ws_zone w, we_dns env) of
        (Some i, Some cfg) \<Rightarrow> snd (site_records env cfg w i tok s)
      | _ \<Rightarrow> s)"

definition regenerateExpiredToken ::
    "('p, 'ks, 'k) web_env \<Rightarrow> site \<Rightarrow> ('p, 'ks) web \<Rightarrow> gerr option \<times> ('p, 'ks) web" where
  "regenerateExpiredToken env w s =
     (case generateValidationToken env of
        Inl e \<Rightarrow> (Some (Wrapped ''failed to regenerate expired validation token'' e), s)
      | Inr tok \<Rightarrow>
          let s1 = token_zone env w tok s in
          case site_save (we_fault env QSave)
              (w\<lparr>ws_token := tok, ws_expires := Some (we_now env + we_ttl env)\<rparr>) (wb_sites s1) of
            Inl e \<Rightarrow> (Some (Wrapped ''failed to save regenerated validation token'' e), s1)
          | Inr (_, db) \<Rightarrow> (None, s1\<lparr>wb_sites := db\<rparr>))"

definition activateValidatedWebsite ::
    "('p, 'ks, 'k) web_env \<Rightarrow> site \<Rightarrow> ('p, 'ks) web \<Rightarrow> gerr option \<times> ('p, 'ks) web" where
  "activateValidatedWebsite env w s =
     (case site_save (we_fault env QSave)
         (w\<lparr>ws_status := WebsiteStatusActive, ws_expires := Some (we_now env + we_ttl env)\<rparr>) (wb_sites s) of
        Inl e \<Rightarrow> (Some e, s)
      | Inr (_, db) \<Rightarrow> (None, s\<lparr>wb_sites := db\<rparr>))"

text \<open>What the DNS says about a website: a failed lookup, the reason it is not valid, or that it is.\<close>

definition dns_verdict :: "('p, 'ks, 'k) web_env \<Rightarrow> dns_resolver \<Rightarrow> site \<Rightarrow> gerr + ValidateDNSResult" where
  "dns_verdict env dv w =
     (let key = verificationTokenKey env;
          expected = ToDNSLinkPath (ws_ttype w) (hash_of env w) in
      case dv_link dv (ws_domain w) of
        Inl (True, _) \<Rightarrow>
          Inr \<lparr>vr_valid = False,
               vr_message = ''No DNS records found for '' @ ws_domain w @
                 ''. Please add the required TXT records to your DNS configuration'',
               vr_reason = ValidationReasonDNSMissing\<rparr>
      | Inl (False, e) \<Rightarrow> Inl (Wrapped (''DNS lookup failed for '' @ ws_domain w) e)
      | Inr links \<Rightarrow>
          if \<not> has_link expected links then
            Inr \<lparr>vr_valid = False,
                 vr_message = ''DNS validation failed: missing or incorrect dnslink record (expected: '' @ expected @
                   '', found: '' @ found_link links @ '')'',
                 vr_reason = ValidationReasonDNSMismatch\<rparr>
          else
            let valid = Inr \<lparr>vr_valid = True, vr_message = ''DNS validation successful for '' @ ws_domain w,
                             vr_reason = ValidationReasonValidated\<rparr> in
            if ws_status w \<noteq> WebsiteStatusPendingValidation then valid
            else case dv_txt dv (key @ ''.'' @ ws_domain w) of
              Inl e \<Rightarrow> Inl (Wrapped (''DNS TXT lookup failed for '' @ key @ ''.'' @ ws_domain w) e)
            | Inr txts \<Rightarrow>
                if list_ex (\<lambda>t. Contains t (token_record env (ws_token w))) txts then valid
                else Inr \<lparr>vr_valid = False,
                          vr_message = ''DNS validation failed: missing validation token at '' @ key @ ''.'' @
                            ws_domain w @ '' for '' @ ws_domain w,
                          vr_reason = ValidationReasonTokenMissing\<rparr>)"

text \<open>\<open>others\<close> is what other requests do while the DNS is asked; the row that was read before is then saved.\<close>

definition ValidateDNS ::
    "('p, 'ks, 'k) web_env \<Rightarrow> dns_resolver \<Rightarrow> (('p, 'ks) web \<Rightarrow> ('p, 'ks) web) \<Rightarrow> nat \<Rightarrow> nat \<Rightarrow> ('p, 'ks) web \<Rightarrow>
     (gerr + ValidateDNSResult) \<times> ('p, 'ks) web" where
  "ValidateDNS env dv others user i s =
     (case first_site (we_fault env QGet) (\<lambda>w. ws_user w = user \<and> ws_id w = i) (wb_sites s) of
        Inl e \<Rightarrow> (Inl (if errors_is e RecordNotFound then Opaque ''website not found''
                       else Wrapped ''failed to get website'' e), s)
      | Inr w \<Rightarrow>
          if ws_status w = WebsiteStatusPendingValidation \<and> IsExpired (we_now env) w then
            (case regenerateExpiredToken env w s of
               (Some e, s') \<Rightarrow> (Inl e, s')
             | (None, s') \<Rightarrow>
                 (Inr \<lparr>vr_valid = False,
                       vr_message = ''Validation token expired for '' @ ws_domain w @
                         '' '' @ [CHR 0xE2, CHR 0x80, CHR 0x94] @ '' a new token has been generated. Please add the updated TXT record at '' @
                         verificationTokenKey env @ ''.'' @ ws_domain w @ '' to your DNS configuration'',
                       vr_reason = ValidationReasonTokenExpired\<rparr>, s'))
          else let s1 = others s in
            case dns_verdict env dv w of
              Inl e \<Rightarrow> (Inl e, s1)
            | Inr r \<Rightarrow>
                if \<not> vr_valid r then (Inr r, s1)
                else (case activateValidatedWebsite env w s1 of
                        (Some e, s2) \<Rightarrow> (Inl e, s2)
                      | (None, s2) \<Rightarrow> (Inr r, s2)))"

text \<open>Only the answer: nothing is stored.\<close>

definition CheckStatus :: "('p, 'ks, 'k) web_env \<Rightarrow> site \<Rightarrow> ('p, 'ks) web \<Rightarrow> string \<times> gerr option" where
  "CheckStatus env w s =
     (if ws_ttype w = WebsiteTargetTypeIPFS then
        (case validateIPFSTarget env (ws_user w) (hash_of env w) of
           Some e \<Rightarrow> (WebsiteStatusBroken, Some (Wrapped ''failed to validate IPFS target'' e))
         | None \<Rightarrow> (WebsiteStatusActive, None))
      else if ws_ttype w = WebsiteTargetTypeIPNS then
        (case validateIPNSKeyResolution env (ws_user w) (hash_of env w) s of
           Some e \<Rightarrow> (WebsiteStatusBroken, Some (Wrapped ''failed to validate IPNS target'' e))
         | None \<Rightarrow> (WebsiteStatusActive, None))
      else (WebsiteStatusBroken, Some (Opaque (''unknown target type: '' @ ws_ttype w))))"

section \<open>Certificates\<close>

definition ssl_cols :: "nat \<Rightarrow> string \<Rightarrow> string \<Rightarrow> site \<Rightarrow> site \<Rightarrow> site" where
  "ssl_cols at st err w x =
     (let y = x\<lparr>ws_ssl := st, ws_ssl_updated := Some at,
                ws_ssl_error := (if st = SSLStatusFailed then err else [])\<rparr> in
      if st = SSLStatusReady \<and> ws_ssl w \<noteq> SSLStatusReady then y\<lparr>ws_ssl_issued := Some at\<rparr>
      else if st \<noteq> SSLStatusReady \<and> ws_ssl w = SSLStatusReady then y\<lparr>ws_ssl_issued := None\<rparr>
      else y)"

definition UpdateSSLStatus ::
    "('p, 'ks, 'k) web_env \<Rightarrow> string \<Rightarrow> string \<Rightarrow> string \<Rightarrow> nat option \<Rightarrow> ('p, 'ks) web \<Rightarrow>
     (gerr + site) \<times> ('p, 'ks) web" where
  "UpdateSSLStatus env domain st err at s =
     (let failed = (\<lambda>e. (Inl (Wrapped ''failed to update SSL status'' e), s)) in
      case first_site (we_fault env QGet) (\<lambda>w. ws_domain w = domain) (wb_sites s) of
        Inl e \<Rightarrow> failed (if e = RecordNotFound then Opaque ''website not found''
                         else Wrapped ''failed to get website'' e)
      | Inr w \<Rightarrow>
          (case site_updates (we_fault env QUpdates) w
              (ssl_cols (case at of Some t \<Rightarrow> t | None \<Rightarrow> we_now env) st err w) (wb_sites s) of
             Inl e \<Rightarrow> failed (Wrapped ''failed to update SSL status'' e)
           | Inr db \<Rightarrow>
               (case first_site (we_fault env QReload) (\<lambda>x. ws_id x = ws_id w) db of
                  Inl e \<Rightarrow> failed (Wrapped ''failed to reload website after update'' e)
                | Inr w' \<Rightarrow> (Inr w', s\<lparr>wb_sites := db\<rparr>))))"

section \<open>The janitor\<close>

text \<open>\<open>pinned\<close> tells whether some user has the normalised CID pinned, or the error of the query.\<close>

definition validateCIDTarget ::
    "(string \<Rightarrow> gerr + cid) \<Rightarrow> (cid \<Rightarrow> gerr + bool) \<Rightarrow> string \<Rightarrow> gerr + bool" where
  "validateCIDTarget cdec pinned h =
     (case cdec h of
        Inl e \<Rightarrow> Inl (Wrapped ''invalid CID'' e)
      | Inr c \<Rightarrow>
          (case pinned (NormalizeCid c) of
             Inl e \<Rightarrow> Inl (Wrapped ''failed to query pins'' e)
           | Inr b \<Rightarrow> Inr b))"

text \<open>The status that the check of an IPNS website gives it.\<close>

definition validateIPNSTarget ::
    "('p, 'ks, 'k) web_env \<Rightarrow> (cid \<Rightarrow> gerr + bool) \<Rightarrow> site \<Rightarrow> ('p, 'ks) web \<Rightarrow> string" where
  "validateIPNSTarget env pinned w s =
     (case GetPrivateKeyByPeerID (we_crypto env) (we_pdec env) (we_fault env QPeer) (hash_of env w) (ik_db (wb_ipns s)) of
        Inl _ \<Rightarrow> WebsiteStatusBroken
      | Inr (_, owner) \<Rightarrow>
          if ws_user w \<noteq> owner then WebsiteStatusBroken
          else case first_key (we_fault env QGetKey) (\<lambda>r. kr_user r = owner \<and> kr_peer r = ws_mh w) (ik_db (wb_ipns s)) of
            Inl _ \<Rightarrow> WebsiteStatusBroken
          | Inr k \<Rightarrow>
              if kr_cid k = [] then WebsiteStatusBroken
              else (case validateCIDTarget (we_cdec env) pinned (kr_cid k) of
                      Inr True \<Rightarrow> WebsiteStatusActive
                    | _ \<Rightarrow> WebsiteStatusBroken))"

definition janitor_status ::
    "('p, 'ks, 'k) web_env \<Rightarrow> (cid \<Rightarrow> gerr + bool) \<Rightarrow> site \<Rightarrow> ('p, 'ks) web \<Rightarrow> string" where
  "janitor_status env pinned w s =
     (if ws_ttype w = WebsiteTargetTypeIPFS then
        (case validateCIDTarget (we_cdec env) pinned (hash_of env w) of
           Inr True \<Rightarrow> WebsiteStatusActive
         | _ \<Rightarrow> WebsiteStatusBroken)
      else if ws_ttype w = WebsiteTargetTypeIPNS then validateIPNSTarget env pinned w s
      else WebsiteStatusBroken)"

definition validateWebsite ::
    "('p, 'ks, 'k) web_env \<Rightarrow> (cid \<Rightarrow> gerr + bool) \<Rightarrow> site \<Rightarrow> ('p, 'ks) web \<Rightarrow> gerr option \<times> ('p, 'ks) web" where
  "validateWebsite env pinned w s =
     (case site_save (we_fault env QSave)
         (w\<lparr>ws_status := janitor_status env pinned w s, ws_checked := Some (we_now env)\<rparr>) (wb_sites s) of
        Inl e \<Rightarrow> (Some (Wrapped ''failed to update website'' e), s)
      | Inr (_, db) \<Rightarrow> (None, s\<lparr>wb_sites := db\<rparr>))"

text \<open>One zone, as it was read: the check of its name servers, then a write of two of its columns.\<close>

definition write_zone :: "gerr option \<Rightarrow> zone_row \<Rightarrow> (zone_row \<Rightarrow> zone_row) \<Rightarrow> zone_db \<Rightarrow> zone_db" where
  "write_zone fault z f db =
     (case (fault, zone_BeforeSave (f z)) of
        (None, None) \<Rightarrow> db\<lparr>zd_rows := map (\<lambda>x. if zr_id x = zr_id z \<and> \<not> zr_deleted x then f x else x) (zd_rows db)\<rparr>
      | _ \<Rightarrow> db)"

definition check_zone ::
    "dns_config \<Rightarrow> (string \<Rightarrow> gerr + string list) \<Rightarrow> gerr option \<Rightarrow> nat \<Rightarrow> zone_row \<Rightarrow> zone_db \<Rightarrow> zone_db" where
  "check_zone cfg lookup fault now z db =
     (case ValidateNameservers cfg fault lookup now fault (zr_id z) db of
        (Inr True, db') \<Rightarrow> write_zone fault z (\<lambda>x. x\<lparr>zr_checked := Some now, zr_status := zone_active\<rparr>) db'
      | (_, db') \<Rightarrow> write_zone fault z (\<lambda>x. x\<lparr>zr_checked := Some now\<rparr>) db')"

text \<open>Five minutes, in nanoseconds.\<close>

definition zone_check_interval :: int where "zone_check_interval = 5 * republish_minute"

definition zone_due :: "nat \<Rightarrow> zone_row \<Rightarrow> bool" where
  "zone_due now z \<longleftrightarrow> \<not> zr_deleted z \<and> zr_status z = pending_nameserver \<and>
     (case zr_checked z of None \<Rightarrow> True | Some t \<Rightarrow> int t < int now - zone_check_interval)"

definition validateDNSZones ::
    "gerr option \<Rightarrow> dns_config option \<Rightarrow> (string \<Rightarrow> gerr + string list) \<Rightarrow> gerr option \<Rightarrow> nat \<Rightarrow> zone_db \<Rightarrow>
     gerr option \<times> zone_db" where
  "validateDNSZones qfault dns lookup fault now db =
     (case dns of
        None \<Rightarrow> (None, db)
      | Some cfg \<Rightarrow>
          (case qfault of
             Some e \<Rightarrow> (Some (Wrapped ''failed to query DNS zones'' e), db)
           | None \<Rightarrow> (None, fold (check_zone cfg lookup fault now) (filter (zone_due now) (zd_rows db)) db)))"

text \<open>The websites due for a check, and the order in which the workers come to them.\<close>

definition site_due :: "nat \<Rightarrow> int \<Rightarrow> site \<Rightarrow> bool" where
  "site_due now interval w \<longleftrightarrow> ws_deleted w = None \<and>
     (case ws_checked w of None \<Rightarrow> True | Some t \<Rightarrow> int t < int now - interval)"

definition due_sites :: "('p, 'ks, 'k) web_env \<Rightarrow> int \<Rightarrow> ('p, 'ks) web \<Rightarrow> site list" where
  "due_sites env interval s = filter (site_due (we_now env) interval) (sd_rows (wb_sites s))"

record janitor_config =
  jc_enabled :: bool
  jc_interval :: int

definition janitor_Run ::
    "('p, 'ks, 'k) web_env \<Rightarrow> janitor_config option \<Rightarrow> (cid \<Rightarrow> gerr + bool) \<Rightarrow> (string \<Rightarrow> gerr + string list) \<Rightarrow>
     (site list \<Rightarrow> site list) \<Rightarrow> ('p, 'ks) web \<Rightarrow> gerr option \<times> ('p, 'ks) web" where
  "janitor_Run env jc pinned lookup order s =
     (case jc of
        None \<Rightarrow> (None, s)
      | Some c \<Rightarrow>
          if \<not> jc_enabled c then (None, s)
          else case we_fault env QGet of
            Some e \<Rightarrow> (Some (Wrapped ''failed to query websites'' e), s)
          | None \<Rightarrow>
              if due_sites env (jc_interval c) s = [] then (None, s)
              else
                let ws = order (due_sites env (jc_interval c) s);
                    db = snd (validateDNSZones (we_fault env QZones) (we_dns env) lookup (we_fault env QZone)
                           (we_now env) (dn_db (wb_dns s)))
                in (None, fold (\<lambda>w s. snd (validateWebsite env pinned w s)) ws
                            (s\<lparr>wb_dns := (wb_dns s)\<lparr>dn_db := db\<rparr>\<rparr>)))"

end
