(* ===== verification/Website_Safety.thy ===== *)
theory Website_Safety
  imports Website_Check
begin

text \<open>
  What the operations on websites keep: the well-formedness of the table, the rows of other users, and which
  operations can make a website active.
\<close>

section \<open>Changes of the table\<close>

definition sites_wf :: "site_db \<Rightarrow> bool" where
  "sites_wf db \<longleftrightarrow>
     distinct (map ws_id (sd_rows db)) \<and> (\<forall>w \<in> set (sd_rows db). ws_id w < sd_next db) \<and>
     (\<forall>w \<in> set (sd_rows db). ws_status w \<in> set validWebsiteStatuses) \<and>
     (\<forall>x \<in> set (sd_rows db). \<forall>y \<in> set (sd_rows db).
        ws_deleted x = None \<longrightarrow> ws_deleted y = None \<longrightarrow> ws_domain x = ws_domain y \<longrightarrow> ws_id x = ws_id y)"

lemma sites_wfD:
  assumes "sites_wf db"
  shows "distinct (map ws_id (sd_rows db))" "w \<in> set (sd_rows db) \<Longrightarrow> ws_id w < sd_next db"
    "w \<in> set (sd_rows db) \<Longrightarrow> ws_status w \<in> set validWebsiteStatuses"
    "x \<in> set (sd_rows db) \<Longrightarrow> y \<in> set (sd_rows db) \<Longrightarrow> ws_deleted x = None \<Longrightarrow> ws_deleted y = None \<Longrightarrow>
       ws_domain x = ws_domain y \<Longrightarrow> ws_id x = ws_id y"
  using assms unfolding sites_wf_def by blast+

lemma sites_wf_id: "sites_wf db \<Longrightarrow> x \<in> set (sd_rows db) \<Longrightarrow> y \<in> set (sd_rows db) \<Longrightarrow> ws_id x = ws_id y \<Longrightarrow> x = y"
  using sites_wfD(1) [of db] by (auto simp: distinct_map dest: inj_onD)

text \<open>A row that stays the same website, and one that only its owner \<open>u\<close> has changed, without activating it.\<close>

definition row_keep :: "site \<Rightarrow> site \<Rightarrow> bool" where
  "row_keep x y \<longleftrightarrow> ws_id y = ws_id x \<and> ws_domain y = ws_domain x \<and> (ws_deleted y = None \<longrightarrow> ws_deleted x = None) \<and>
     (ws_status x \<in> set validWebsiteStatuses \<longrightarrow> ws_status y \<in> set validWebsiteStatuses)"

definition row_own :: "nat \<Rightarrow> site \<Rightarrow> site \<Rightarrow> bool" where
  "row_own u x y \<longleftrightarrow> ws_id y = ws_id x \<and> ws_user y = ws_user x \<and> (ws_user x \<noteq> u \<longrightarrow> y = x) \<and>
     (ws_status y = WebsiteStatusActive \<longrightarrow> ws_status x = WebsiteStatusActive)"

lemma row_keep_refl [simp]: "row_keep x x" and row_own_refl [simp]: "row_own u x x"
  by (simp_all add: row_keep_def row_own_def)

lemma row_keep_trans: "row_keep x y \<Longrightarrow> row_keep y z \<Longrightarrow> row_keep x z"
  by (auto simp: row_keep_def)

lemma row_own_trans: "row_own u x y \<Longrightarrow> row_own u y z \<Longrightarrow> row_own u x z"
  by (auto simp: row_own_def)

definition rows_rel :: "(site \<Rightarrow> site \<Rightarrow> bool) \<Rightarrow> site_db \<Rightarrow> site_db \<Rightarrow> bool" where
  "rows_rel R db db' \<longleftrightarrow> list_all2 R (sd_rows db) (sd_rows db') \<and> sd_next db' = sd_next db"

lemma rows_rel_refl: "(\<And>x. R x x) \<Longrightarrow> rows_rel R db db"
  by (simp add: rows_rel_def list_all2_refl)

lemma rows_rel_trans:
  assumes R: "\<And>x y z. R x y \<Longrightarrow> R y z \<Longrightarrow> R x z" and ab: "rows_rel R a b" and bc: "rows_rel R b c"
  shows "rows_rel R a c"
proof -
  have 1: "list_all2 R (sd_rows a) (sd_rows b)" and 2: "list_all2 R (sd_rows b) (sd_rows c)"
    using ab bc by (simp_all add: rows_rel_def)
  have "list_all2 R (sd_rows a) (sd_rows c)" by (rule list_all2_trans [OF _ 1 2]) (rule R)
  then show ?thesis using ab bc by (simp add: rows_rel_def)
qed

lemma rows_rel_map: "(\<And>x. x \<in> set (sd_rows db) \<Longrightarrow> R x (f x)) \<Longrightarrow> rows_rel R db (db\<lparr>sd_rows := map f (sd_rows db)\<rparr>)"
  by (simp add: rows_rel_def list.rel_map list.rel_refl_strong)

text \<open>The two together.\<close>

definition kept :: "nat \<Rightarrow> site_db \<Rightarrow> site_db \<Rightarrow> bool" where
  "kept u = rows_rel (\<lambda>x y. row_keep x y \<and> row_own u x y)"

lemma kept_refl [simp]: "kept u db db"
  unfolding kept_def by (rule rows_rel_refl) simp

lemma kept_trans: "kept u a b \<Longrightarrow> kept u b c \<Longrightarrow> kept u a c"
  unfolding kept_def by (rule rows_rel_trans) (auto intro: row_keep_trans row_own_trans)

lemma list_all2_nth_mem: "list_all2 R xs ys \<Longrightarrow> y \<in> set ys \<Longrightarrow> \<exists>x \<in> set xs. R x y"
  by (metis in_set_conv_nth list_all2_conv_all_nth)

lemma list_all2_nth_mem': "list_all2 R xs ys \<Longrightarrow> x \<in> set xs \<Longrightarrow> \<exists>y \<in> set ys. R x y"
  by (metis in_set_conv_nth list_all2_conv_all_nth)

lemma rows_keep_wf:
  assumes "sites_wf db" "rows_rel row_keep db db'"
  shows "sites_wf db'"
proof -
  have l: "list_all2 row_keep (sd_rows db) (sd_rows db')" "sd_next db' = sd_next db"
    using assms(2) by (simp_all add: rows_rel_def)
  have "map ws_id (sd_rows db') = map ws_id (sd_rows db)"
    using l(1) by (induction rule: list_all2_induct) (auto simp: row_keep_def)
  then have d: "distinct (map ws_id (sd_rows db'))" using sites_wfD(1) [OF assms(1)] by simp
  have p: "\<exists>x \<in> set (sd_rows db). row_keep x y" if "y \<in> set (sd_rows db')" for y
    using list_all2_nth_mem [OF l(1) that] .
  have s: "ws_id y < sd_next db' \<and> ws_status y \<in> set validWebsiteStatuses" if y: "y \<in> set (sd_rows db')" for y
  proof -
    obtain x where "x \<in> set (sd_rows db)" "row_keep x y" using p [OF y] by blast
    then show ?thesis using sites_wfD(2,3) [OF assms(1)] l(2) by (simp add: row_keep_def)
  qed
  have u: "ws_id y = ws_id z"
    if yz: "y \<in> set (sd_rows db')" "z \<in> set (sd_rows db')" "ws_deleted y = None" "ws_deleted z = None"
      "ws_domain y = ws_domain z" for y z
  proof -
    obtain x w where "x \<in> set (sd_rows db)" "row_keep x y" "w \<in> set (sd_rows db)" "row_keep w z"
      using p [OF yz(1)] p [OF yz(2)] by blast
    then show ?thesis using sites_wfD(4) [OF assms(1), of x w] yz(3-5) by (simp add: row_keep_def)
  qed
  show ?thesis unfolding sites_wf_def using d s u by blast
qed

lemma kept_wf: "sites_wf db \<Longrightarrow> kept u db db' \<Longrightarrow> sites_wf db'"
  by (rule rows_keep_wf) (auto simp: kept_def rows_rel_def elim: list_all2_mono)

text \<open>The two writes.\<close>

lemma BeforeSave_InrD:
  assumes "site_BeforeSave w = Inr v"
  shows "v = w \<or> v = w\<lparr>ws_ssl := SSLStatusPending\<rparr>" "ws_status w \<in> set validWebsiteStatuses"
  using assms by (auto simp: site_BeforeSave_def Let_def split: if_splits)

lemma site_save_InrD:
  assumes "site_save fault w db = Inr (v, db')"
  shows "db' = set_site v db" "v = w \<or> v = w\<lparr>ws_ssl := SSLStatusPending\<rparr>" "ws_status w \<in> set validWebsiteStatuses"
  using assms BeforeSave_InrD [of w v] by (auto simp: site_save_def split: option.splits sum.splits)

lemma set_site_mem: "x \<in> set (sd_rows db) \<Longrightarrow> ws_id x = ws_id w \<Longrightarrow> w \<in> set (sd_rows (set_site w db))"
  by (force simp: set_site_def)

lemma set_site_rel:
  assumes "sites_wf db" "x \<in> set (sd_rows db)" "ws_id v = ws_id x" "R x v" "\<And>y. R y y"
  shows "rows_rel R db (set_site v db)"
  unfolding set_site_def
proof (rule rows_rel_map)
  fix y assume y: "y \<in> set (sd_rows db)"
  show "R y (if ws_id y = ws_id v then v else y)"
    using sites_wf_id [OF assms(1) y assms(2)] assms(3-5) by auto
qed

lemma site_updates_InrD:
  assumes "site_updates fault w f db = Inr db'"
  shows "db' = db\<lparr>sd_rows := map (\<lambda>x. if ws_id x = ws_id w \<and> ws_deleted x = None then f x else x) (sd_rows db)\<rparr>"
  using assms by (auto simp: site_updates_def split: option.splits sum.splits)

lemma site_updates_rel:
  assumes "sites_wf db" "x \<in> set (sd_rows db)" "ws_id w = ws_id x" "ws_deleted x = None \<Longrightarrow> R x (f x)" "\<And>y. R y y"
    and "site_updates fault w f db = Inr db'"
  shows "rows_rel R db db'"
  unfolding site_updates_InrD [OF assms(6)]
proof (rule rows_rel_map)
  fix y assume y: "y \<in> set (sd_rows db)"
  show "R y (if ws_id y = ws_id w \<and> ws_deleted y = None then f y else y)"
    using sites_wf_id [OF assms(1) y assms(2)] assms(3-5) by auto
qed

lemma find_site_SomeD: "find_site P db = Some w \<Longrightarrow> w \<in> set (sd_rows db) \<and> ws_deleted w = None \<and> P w"
  by (auto simp: find_site_def find_Some_iff)

lemma first_site_InrD: "first_site fault P db = Inr w \<Longrightarrow> w \<in> set (sd_rows db) \<and> ws_deleted w = None \<and> P w"
  by (auto simp: first_site_def dest: find_site_SomeD split: option.splits)

section \<open>The parts of the operations\<close>

lemma publishCIDAsync_sites [simp]: "wb_sites (publishCIDAsync p c s) = wb_sites s"
  by (simp add: publishCIDAsync_def)

lemma ensureIPNSKey_sites [simp]: "wb_sites (snd (ensureIPNSKey env u d c s)) = wb_sites s"
  by (auto simp: ensureIPNSKey_def Let_def split: sum.splits option.splits prod.splits)

lemma ensureIPNSKey_D: "ensureIPNSKey env u d c s = (r, s') \<Longrightarrow> wb_sites s' = wb_sites s"
  by (metis ensureIPNSKey_sites snd_conv)

lemma website_zone_sites [simp]: "wb_sites (snd (website_zone env cfg w s)) = wb_sites s"
  by (auto simp: website_zone_def Let_def split: option.splits prod.splits)

lemma cleanup_zone_sites [simp]: "wb_sites (snd (cleanup_zone env w z s)) = wb_sites s"
  by (auto simp: cleanup_zone_def Let_def split: prod.splits)

lemma cleanup_zone_D: "cleanup_zone env w z s = (r, s') \<Longrightarrow> wb_sites s' = wb_sites s"
  by (metis cleanup_zone_sites snd_conv)

lemma site_records_sites [simp]: "wb_sites (snd (site_records env cfg w i tok s)) = wb_sites s"
  by (auto simp: site_records_def Let_def split: prod.splits)

lemma refresh_one_sites [simp]: "wb_sites (refresh_one env cfg w h s) = wb_sites s"
  by (auto simp: refresh_one_def split: option.splits prod.splits sum.splits)

lemma refreshHNSDomains_sites [simp]: "wb_sites (refreshHNSDomains env w s) = wb_sites s"
proof -
  have "wb_sites (fold (refresh_one env cfg w) hs s) = wb_sites s" for cfg hs
    by (induction hs arbitrary: s) simp_all
  then show ?thesis by (simp add: refreshHNSDomains_def split: option.splits sum.splits)
qed

lemma republish_target_sites [simp]: "wb_sites (republish_target env pl w s) = wb_sites s"
  by (simp add: republish_target_def split: option.splits sum.splits)

lemma renew_records_sites [simp]: "wb_sites (renew_records env t pl w s) = wb_sites s"
  by (simp add: renew_records_def split: option.splits)

lemma create_target_sites [simp]: "wb_sites (snd (create_target env w s)) = wb_sites s"
  by (auto simp: create_target_def dest: ensureIPNSKey_D split: prod.splits sum.splits option.splits)

lemma target_behind_key_sites [simp]: "wb_sites (snd (target_behind_key env u w c s)) = wb_sites s"
  by (auto simp: target_behind_key_def dest: ensureIPNSKey_D split: prod.splits sum.splits option.splits)

lemma plan_target_sites [simp]: "wb_sites (snd (plan_target env u w up s)) = wb_sites s"
  by (auto simp: plan_target_def target_convert_def Let_def split: option.splits)

lemma disable_zone_sites [simp]: "wb_sites (snd (disable_zone env w s)) = wb_sites s"
  by (auto simp: disable_zone_def split: option.splits prod.splits)

lemmas part_sites = ensureIPNSKey_sites website_zone_sites cleanup_zone_sites site_records_sites
  create_target_sites plan_target_sites disable_zone_sites

lemma sites_eq: "f x = (r, s') \<Longrightarrow> wb_sites (snd (f x)) = db \<Longrightarrow> wb_sites s' = db"
  by simp

text \<open>A save of a changed copy of a stored row of the owner.\<close>

lemma save_kept:
  assumes wf: "sites_wf db" and x: "x \<in> set (sd_rows db)" "ws_user x = u"
    and w: "ws_id w = ws_id x" "ws_user w = u" "ws_domain w = ws_domain x" "ws_deleted w = ws_deleted x"
      "ws_status w = WebsiteStatusActive \<Longrightarrow> ws_status x = WebsiteStatusActive"
    and s: "site_save fault w db = Inr (v, db')"
  shows "kept u db db' \<and> v \<in> set (sd_rows db') \<and> ws_id v = ws_id x \<and> ws_user v = u \<and> ws_domain v = ws_domain x \<and>
         ws_deleted v = ws_deleted x \<and> ws_status v = ws_status w"
proof -
  note d = site_save_InrD [OF s]
  have v: "ws_id v = ws_id x" "ws_user v = u" "ws_domain v = ws_domain x" "ws_deleted v = ws_deleted x"
    "ws_status v = ws_status w" using d(2) w by auto
  have "row_keep x v \<and> row_own u x v"
    using v w(5) x(2) d(3) by (auto simp: row_keep_def row_own_def)
  then have "kept u db db'"
    unfolding kept_def d(1) by (intro set_site_rel [OF wf x(1) v(1)]) simp_all
  then show ?thesis using set_site_mem [OF x(1), of v] v d(1) by simp
qed

lemma updates_kept:
  assumes wf: "sites_wf db" and x: "x \<in> set (sd_rows db)" "ws_user x = u" "ws_id w = ws_id x"
    and f: "\<And>y. ws_id (f y) = ws_id y \<and> ws_user (f y) = ws_user y \<and> ws_domain (f y) = ws_domain y \<and>
        ws_deleted (f y) = ws_deleted y \<and> (ws_status (f y) = ws_status y \<or> ws_status (f y) = WebsiteStatusPendingValidation)"
    and s: "site_updates fault w f db = Inr db'"
  shows "kept u db db' \<and> (\<exists>y \<in> set (sd_rows db'). ws_user y = u \<and> ws_id y = ws_id w)"
proof -
  have "row_keep x (f x) \<and> row_own u x (f x)"
    using f [of x] x(2) by (auto simp: row_keep_def row_own_def website_consts validWebsiteStatuses_def)
  then have k: "kept u db db'"
    unfolding kept_def by (intro site_updates_rel [OF wf x(1,3) _ _ s]) simp_all
  then have "list_all2 (\<lambda>x y. row_keep x y \<and> row_own u x y) (sd_rows db) (sd_rows db')"
    by (simp add: kept_def rows_rel_def)
  from list_all2_nth_mem' [OF this x(1)] show ?thesis using k x(2,3) by (auto simp: row_own_def)
qed

section \<open>Creation\<close>

text \<open>A stored row of the owner, and the outcome of a step that may change it.\<close>

definition own_row :: "nat \<Rightarrow> site \<Rightarrow> site_db \<Rightarrow> bool" where
  "own_row u w db \<longleftrightarrow> w \<in> set (sd_rows db) \<and> ws_user w = u"

definition step_kept :: "nat \<Rightarrow> site_db \<Rightarrow> gerr + site \<Rightarrow> site_db \<Rightarrow> bool" where
  "step_kept u db r db' \<longleftrightarrow> kept u db db' \<and> (\<forall>w. r = Inr w \<longrightarrow> own_row u w db')"

lemma step_kept_Inl [simp]: "step_kept u db (Inl e) db' \<longleftrightarrow> kept u db db'"
  by (simp add: step_kept_def)

lemma step_kept_same: "own_row u w db \<Longrightarrow> step_kept u db (Inr w) db"
  by (simp add: step_kept_def)

lemma create_auto_ipns_kept:
  assumes wf: "sites_wf (wb_sites s)" and w: "own_row u w (wb_sites s)"
    and r: "create_auto_ipns env w s = (r, s')"
  shows "step_kept u (wb_sites s) r (wb_sites s')"
proof (cases "ws_enabled w \<and> ws_ttype w = WebsiteTargetTypeIPFS")
  case True
  obtain rk s1 where k: "ensureIPNSKey env (ws_user w) (ws_domain w) (hash_of env w) s = (rk, s1)" by force
  note s1 = ensureIPNSKey_D [OF k]
  show ?thesis
  proof (cases rk)
    case (Inr key)
    show ?thesis
    proof (cases "site_save (we_fault env QSaveTarget) (to_ipns key w) (wb_sites s1)")
      case save: (Inr vd)
      obtain v db where vd: "vd = (v, db)" by force
      have "kept u (wb_sites s) db \<and> v \<in> set (sd_rows db) \<and> ws_user v = u"
        using save_kept [OF wf, of w u "to_ipns key w" "we_fault env QSaveTarget" v db] w save vd s1
        by (simp add: to_ipns_def own_row_def)
      then show ?thesis using r True k Inr save vd
        by (auto simp: create_auto_ipns_def step_kept_def own_row_def)
    qed (use r True k Inr s1 in \<open>auto simp: create_auto_ipns_def\<close>)
  qed (use r True k s1 in \<open>auto simp: create_auto_ipns_def\<close>)
qed (use r w in \<open>auto simp: create_auto_ipns_def intro: step_kept_same\<close>)

lemma create_zone_kept:
  assumes wf: "sites_wf (wb_sites s)" and w: "own_row u w (wb_sites s)"
    and r: "create_zone env w s = (r, s')"
  shows "step_kept u (wb_sites s) r (wb_sites s')"
proof (cases "we_dns env")
  case (Some cfg)
  show ?thesis
  proof (cases "ws_enabled w")
    case True
    obtain rz s1 where z: "website_zone env cfg w s = (rz, s1)" by force
    have s1: "wb_sites s1 = wb_sites s" using website_zone_sites [of env cfg w s] by (simp add: z)
    show ?thesis
    proof (cases rz)
      case (Inr zr)
      show ?thesis
      proof (cases "site_save (we_fault env QSaveZone) (w\<lparr>ws_zone := Some (zr_id zr)\<rparr>) (wb_sites s1)")
        case (Inl e)
        obtain rc s2 where c: "cleanup_zone env w zr s1 = (rc, s2)" by force
        have "s' = s2 \<and> (\<exists>e. r = Inl e)"
          using r Some True z \<open>rz = Inr zr\<close> Inl c by (cases rc) (simp_all add: create_zone_def, blast+)
        then show ?thesis using s1 cleanup_zone_D [OF c] by auto
      next
        case save: (Inr vd)
        obtain v db where vd: "vd = (v, db)" by force
        have k: "kept u (wb_sites s) db \<and> v \<in> set (sd_rows db) \<and> ws_user v = u"
          using save_kept [OF wf, of w u "w\<lparr>ws_zone := Some (zr_id zr)\<rparr>" "we_fault env QSaveZone" v db] w save vd s1
          by (simp add: own_row_def)
        have "r = Inr v" "s' = snd (site_records env cfg v (zr_id zr) (ws_token v) (s1\<lparr>wb_sites := db\<rparr>))"
          using r Some True z \<open>rz = Inr zr\<close> save vd by (simp_all add: create_zone_def)
        then show ?thesis using k by (simp add: step_kept_def own_row_def)
      qed
    qed (use r Some True z s1 w in \<open>auto simp: create_zone_def intro: step_kept_same\<close>)
  qed (use r Some w in \<open>auto simp: create_zone_def intro: step_kept_same\<close>)
qed (use r w in \<open>auto simp: create_zone_def intro: step_kept_same\<close>)

lemma site_insert_InrD:
  assumes "site_insert fault w db = Inr (v, db')"
  shows "sd_rows db' = sd_rows db @ [v]" "sd_next db' = sd_next db + 1" "ws_id v = sd_next db"
    "ws_user v = ws_user w" "ws_domain v = ws_domain w" "ws_status v = ws_status w" "ws_mh v = ws_mh w"
    "ws_ttype v = ws_ttype w" "ws_status w \<in> set validWebsiteStatuses"
  using assms BeforeSave_InrD [of w] by (auto simp: site_insert_def Let_def split: option.splits sum.splits)

definition domain_free :: "string \<Rightarrow> site_db \<Rightarrow> bool" where
  "domain_free d db \<longleftrightarrow> (\<forall>x \<in> set (sd_rows db). ws_deleted x = None \<longrightarrow> ws_domain x \<noteq> d)"

lemma site_insert_wf:
  assumes "sites_wf db" "domain_free (ws_domain w) db" "site_insert fault w db = Inr (v, db')"
  shows "sites_wf db'"
proof -
  note i = site_insert_InrD [OF assms(3)]
  have old: "x \<in> set (sd_rows db) \<Longrightarrow> ws_id x < ws_id v" for x using sites_wfD(2) [OF assms(1)] i(3) by simp
  have "distinct (map ws_id (sd_rows db'))"
    unfolding i(1) using sites_wfD(1) [OF assms(1)] old by fastforce
  moreover have "ws_id x < sd_next db' \<and> ws_status x \<in> set validWebsiteStatuses" if "x \<in> set (sd_rows db')" for x
    using that sites_wfD(2,3) [OF assms(1), of x] i(3,6,9) unfolding i(1,2) by auto
  moreover have "ws_id x = ws_id y"
    if xy: "x \<in> set (sd_rows db')" "y \<in> set (sd_rows db')" "ws_deleted x = None" "ws_deleted y = None"
      "ws_domain x = ws_domain y" for x y
  proof -
    have new: "ws_domain z \<noteq> ws_domain v" if "z \<in> set (sd_rows db)" "ws_deleted z = None" for z
      using that assms(2) i(5) by (simp add: domain_free_def)
    consider "x \<in> set (sd_rows db)" "y \<in> set (sd_rows db)" | "x = v" "y = v"
      | "x \<in> set (sd_rows db)" "y = v" | "x = v" "y \<in> set (sd_rows db)" using xy(1,2) unfolding i(1) by auto
    then show ?thesis using sites_wfD(4) [OF assms(1) _ _ xy(3-5)] new [of x] new [of y] xy(3-5) by cases auto
  qed
  ultimately show ?thesis unfolding sites_wf_def by blast
qed

text \<open>What a creation does to the table: nothing, or a new pending row which is then kept.\<close>

definition grown :: "nat \<Rightarrow> site_db \<Rightarrow> site_db \<Rightarrow> bool" where
  "grown u db db' \<longleftrightarrow> kept u db db' \<or>
     (\<exists>v db1. sd_rows db1 = sd_rows db @ [v] \<and> sd_next db1 = sd_next db + 1 \<and> ws_user v = u \<and>
        ws_status v = WebsiteStatusPendingValidation \<and> sites_wf db1 \<and> kept u db1 db')"

lemma inherit_ssl_simps [simp]:
  "ws_user (inherit_ssl env s w) = ws_user w" "ws_domain (inherit_ssl env s w) = ws_domain w"
  by (simp_all add: inherit_ssl_def split: option.splits)

lemma create_stored_grown:
  assumes wf: "sites_wf (wb_sites s)" and f: "domain_free (ws_domain w) (wb_sites s)"
    and r: "create_stored env w s = (r, s')"
  shows "grown (ws_user w) (wb_sites s) (wb_sites s')"
proof (cases "generateValidationToken env")
  case (Inr tok)
  let ?w = "(inherit_ssl env s w)\<lparr>ws_token := tok, ws_expires := Some (we_now env + we_ttl env),
      ws_status := WebsiteStatusPendingValidation\<rparr>"
  show ?thesis
  proof (cases "site_insert (we_fault env QCreate) ?w (wb_sites s)")
    case ins: (Inr vd)
    obtain v db where vd: "vd = (v, db)" by force
    note i = site_insert_InrD [OF ins [unfolded vd]]
    have wf1: "sites_wf db" using site_insert_wf [OF wf _ ins [unfolded vd]] f by simp
    have own: "own_row (ws_user w) v db" using i(1,4) by (simp add: own_row_def)
    obtain ra s1 where a: "create_auto_ipns env v (s\<lparr>wb_sites := db\<rparr>) = (ra, s1)" by force
    have k1: "step_kept (ws_user w) db ra (wb_sites s1)"
      using create_auto_ipns_kept [OF _ _ a] wf1 own by simp
    have "kept (ws_user w) db (wb_sites s')"
    proof (cases ra)
      case (Inl e)
      then show ?thesis using r Inr ins vd a k1 by (auto simp: create_stored_def step_kept_def)
    next
      case v2: (Inr v2)
      have "create_zone env v2 s1 = (r, s')" using r Inr ins vd a v2 by (simp add: create_stored_def)
      then have "step_kept (ws_user w) (wb_sites s1) r (wb_sites s')"
        using create_zone_kept [of s1 "ws_user w" v2 env r s'] k1 v2 kept_wf [OF wf1, of "ws_user w" "wb_sites s1"]
        by (simp add: step_kept_def)
      then show ?thesis using k1 kept_trans by (auto simp: step_kept_def)
    qed
    then show ?thesis using i wf1 unfolding grown_def by auto
  qed (use r Inr in \<open>auto simp: create_stored_def grown_def\<close>)
qed (use r in \<open>auto simp: create_stored_def grown_def\<close>)

text \<open>The errors of the database are not taken for a missing row.\<close>

definition real_faults :: "('p, 'ks, 'k) web_env \<Rightarrow> bool" where
  "real_faults env \<longleftrightarrow> (\<forall>q. we_fault env q \<noteq> Some RecordNotFound)"

lemma GetWebsiteByDomain_None:
  assumes "real_faults env" "GetWebsiteByDomain env d s = Inr None"
  shows "domain_free d (wb_sites s)"
proof -
  have "first_site (we_fault env QDomain) (\<lambda>w. ws_domain w = d) (wb_sites s) = Inl RecordNotFound"
    using assms(2) by (auto simp: GetWebsiteByDomain_def split: sum.splits if_splits)
  moreover have "we_fault env QDomain \<noteq> Some RecordNotFound" using assms(1) by (simp add: real_faults_def)
  ultimately show ?thesis
    by (auto simp: first_site_def find_site_def find_None_iff domain_free_def split: option.splits)
qed

lemma create_target_D:
  assumes "create_target env w s = (r, s')"
  shows "wb_sites s' = wb_sites s" "r = Inr v \<Longrightarrow> ws_user v = ws_user w \<and> ws_domain v = ws_domain w"
proof -
  show "wb_sites s' = wb_sites s" using create_target_sites [of env w s] by (simp add: assms)
  show "r = Inr v \<Longrightarrow> ws_user v = ws_user w \<and> ws_domain v = ws_domain w"
    using assms by (auto simp: create_target_def to_ipns_def split: if_splits prod.splits sum.splits option.splits)
qed

lemma CreateWebsite_grown:
  assumes wf: "sites_wf (wb_sites s)" and f: "real_faults env"
  shows "grown (ws_user w) (wb_sites s) (wb_sites (snd (CreateWebsite env w s)))"
proof (cases "website_validateDomain (we_ascii env) (ws_domain w)")
  case None
  obtain r s1 where t: "create_target env w s = (r, s1)" by force
  note d = create_target_D [OF t]
  show ?thesis
  proof (cases r)
    case (Inr v)
    show ?thesis
    proof (cases "GetWebsiteByDomain env (ws_domain v) s1")
      case (Inl e)
      then show ?thesis using None t \<open>r = Inr v\<close> d by (simp add: CreateWebsite_def grown_def)
    next
      case g: (Inr ex)
      show ?thesis
      proof (cases ex)
        case None
        obtain r' s' where c: "create_stored env v s1 = (r', s')" by force
        have "domain_free (ws_domain v) (wb_sites s1)" using GetWebsiteByDomain_None [OF f] g None by simp
        then have "grown (ws_user v) (wb_sites s1) (wb_sites s')"
          using create_stored_grown [OF _ _ c] wf d(1) by simp
        then show ?thesis using \<open>website_validateDomain (we_ascii env) (ws_domain w) = None\<close> t Inr g None c d
          by (simp add: CreateWebsite_def)
      qed (use None t Inr g d in \<open>simp add: CreateWebsite_def grown_def\<close>)
    qed
  qed (use None t d in \<open>simp add: CreateWebsite_def grown_def\<close>)
qed (simp add: CreateWebsite_def grown_def)

section \<open>Updates\<close>

definition owned_id :: "nat \<Rightarrow> site \<Rightarrow> site_db \<Rightarrow> bool" where
  "owned_id u w db \<longleftrightarrow> (\<exists>x \<in> set (sd_rows db). ws_id w = ws_id x \<and> ws_user x = u)"

lemma updates_kept':
  assumes "sites_wf db" "owned_id u w db" "site_updates fault w f db = Inr db'"
    and "\<And>y. ws_id (f y) = ws_id y \<and> ws_user (f y) = ws_user y \<and> ws_domain (f y) = ws_domain y \<and>
        ws_deleted (f y) = ws_deleted y \<and> (ws_status (f y) = ws_status y \<or> ws_status (f y) = WebsiteStatusPendingValidation)"
  shows "kept u db db'" "owned_id u w db'"
proof -
  obtain x where x: "x \<in> set (sd_rows db)" "ws_user x = u" "ws_id w = ws_id x"
    using assms(2) by (auto simp: owned_id_def)
  from updates_kept [OF assms(1) x assms(4,3)] show "kept u db db'" "owned_id u w db'"
    unfolding owned_id_def by metis+
qed

lemma owned_id_cong: "ws_id v = ws_id w \<Longrightarrow> owned_id u w db \<Longrightarrow> owned_id u v db"
  by (simp add: owned_id_def)

lemma enable_zone_kept:
  assumes wf: "sites_wf (wb_sites s)" and w: "owned_id u w (wb_sites s)" and r: "enable_zone env cfg w s = (r, s')"
  shows "kept u (wb_sites s) (wb_sites s') \<and> (\<forall>v. r = Inr v \<longrightarrow> owned_id u v (wb_sites s'))"
proof (cases "ws_zone w")
  case None
  obtain rz s1 where z: "website_zone env cfg w s = (rz, s1)" by force
  have s1: "wb_sites s1 = wb_sites s" using website_zone_sites [of env cfg w s] by (simp add: z)
  show ?thesis
  proof (cases rz)
    case (Inr zr)
    show ?thesis
    proof (cases "site_updates (we_fault env QSaveZone) w (\<lambda>x. x\<lparr>ws_zone := Some (zr_id zr)\<rparr>) (wb_sites s1)")
      case (Inl e)
      then have "s' = snd (cleanup_zone env w zr s1) \<and> (\<exists>e. r = Inl e)"
        using r None z \<open>rz = Inr zr\<close> by (simp add: enable_zone_def, blast)
      then show ?thesis using s1 by auto
    next
      case (Inr db)
      have "r = Inr (w\<lparr>ws_zone := Some (zr_id zr)\<rparr>)" "wb_sites s' = db"
        using r None z \<open>rz = Inr zr\<close> Inr by (auto simp: enable_zone_def)
      moreover have "kept u (wb_sites s) db" "owned_id u w db"
        using updates_kept' [OF _ _ Inr] wf w s1 by simp_all
      ultimately show ?thesis using owned_id_cong [of "w\<lparr>ws_zone := Some (zr_id zr)\<rparr>" w] by simp
    qed
  qed (use r None z s1 in \<open>auto simp: enable_zone_def\<close>)
qed (use r w in \<open>auto simp: enable_zone_def\<close>)

lemma enable_records_kept:
  assumes wf: "sites_wf (wb_sites s)" and w: "owned_id u w (wb_sites s)"
    and r: "enable_records env cfg w s = (r, v, s')"
  shows "kept u (wb_sites s) (wb_sites s')"
proof (cases "ws_zone w")
  case (Some i)
  show ?thesis
  proof (cases "if IsExpired (we_now env) w \<or> ws_token w = [] then generateValidationToken env else Inr (ws_token w)")
    case (Inl e)
    then show ?thesis using r Some by (simp add: enable_records_def)
  next
    case (Inr tok)
    obtain rr s1 where rr: "site_records env cfg w i tok s = (rr, s1)" by force
    have s1: "wb_sites s1 = wb_sites s" using site_records_sites [of env cfg w i tok s] by (simp add: rr)
    show ?thesis
    proof (cases rr)
      case None
      let ?f = "\<lambda>x. x\<lparr>ws_token := tok, ws_expires := Some (we_now env + we_ttl env),
        ws_status := WebsiteStatusPendingValidation\<rparr>"
      show ?thesis
      proof (cases "site_updates (we_fault env QSave) w ?f (wb_sites s1)")
        case (Inl e)
        then show ?thesis using r Some \<open>_ = Inr tok\<close> rr None s1 by (simp add: enable_records_def Let_def)
      next
        case db: (Inr db)
        have "wb_sites s' = db" using r Some \<open>_ = Inr tok\<close> rr None db by (auto simp: enable_records_def Let_def)
        then show ?thesis using updates_kept'(1) [OF _ _ db] wf w s1 by simp
      qed
    qed (use r Some Inr rr s1 in \<open>simp add: enable_records_def\<close>)
  qed
qed (use r in \<open>simp add: enable_records_def\<close>)

lemma handleDNSEnabledTransition_kept:
  assumes wf: "sites_wf (wb_sites s)" and w: "owned_id u w (wb_sites s)"
    and r: "handleDNSEnabledTransition env w s = (r, v, s')"
  shows "kept u (wb_sites s) (wb_sites s')"
proof (cases "we_dns env")
  case (Some cfg)
  obtain rz s1 where z: "enable_zone env cfg w s = (rz, s1)" by force
  note k = enable_zone_kept [OF wf w z]
  show ?thesis
  proof (cases rz)
    case (Inr w1)
    then have "enable_records env cfg w1 s1 = (r, v, s')" using r Some z by (simp add: handleDNSEnabledTransition_def)
    from enable_records_kept [OF _ _ this, of u] show ?thesis using k Inr kept_wf [OF wf] kept_trans by blast
  qed (use r Some z k in \<open>simp add: handleDNSEnabledTransition_def\<close>)
qed (use r in \<open>simp add: handleDNSEnabledTransition_def\<close>)

lemma handleDNSDisabledTransition_kept:
  assumes wf: "sites_wf (wb_sites s)" and w: "owned_id u w (wb_sites s)"
    and r: "handleDNSDisabledTransition env w s = (r, v, s')"
  shows "kept u (wb_sites s) (wb_sites s')"
proof -
  obtain gone s1 where z: "disable_zone env w s = (gone, s1)" by force
  have s1: "wb_sites s1 = wb_sites s" using disable_zone_sites [of env w s] by (simp add: z)
  let ?f = "\<lambda>x. x\<lparr>ws_status := WebsiteStatusPendingValidation, ws_zone := (if gone then None else ws_zone x)\<rparr>"
  show ?thesis
  proof (cases "site_updates (we_fault env QSave) w ?f (wb_sites s1)")
    case (Inl e)
    then show ?thesis using r z s1 by (simp add: handleDNSDisabledTransition_def Let_def)
  next
    case (Inr db)
    have "wb_sites s' = db" using r z Inr by (auto simp: handleDNSDisabledTransition_def Let_def)
    then show ?thesis using updates_kept'(1) [OF _ _ Inr] wf w s1 by simp
  qed
qed

text \<open>The columns of a new target are not those that say whose website it is, where, and in which state.\<close>

definition target_cols :: "(site \<Rightarrow> site) \<Rightarrow> bool" where
  "target_cols f \<longleftrightarrow> (\<forall>x. ws_id (f x) = ws_id x \<and> ws_user (f x) = ws_user x \<and> ws_domain (f x) = ws_domain x \<and>
     ws_status (f x) = ws_status x \<and> ws_deleted (f x) = ws_deleted x)"

lemma target_behind_key_cols: "target_behind_key env u w c s = (Inr pl, s') \<Longrightarrow> target_cols (tp_cols pl)"
  by (auto simp: target_behind_key_def target_cols_def to_ipns_def split: option.splits prod.splits sum.splits)

lemma target_direct_cols: "target_direct env u w t h s = Inr pl \<Longrightarrow> target_cols (tp_cols pl)"
  by (auto simp: target_direct_def Let_def target_cols_def cid_cols_def split: option.splits sum.splits if_splits)

lemma plan_target_cols: "plan_target env u w up s = (Inr pl, s') \<Longrightarrow> target_cols (tp_cols pl)"
  unfolding plan_target_def target_convert_def Let_def
  by (auto dest: target_behind_key_cols target_direct_cols simp: keep_target_def target_cols_def
      split: option.splits if_splits)

lemma apply_update_simps:
  assumes "target_cols (tp_cols pl)"
  shows "ws_id (apply_update up pl x) = ws_id x" "ws_user (apply_update up pl x) = ws_user x"
    "ws_status (apply_update up pl x) = ws_status x" "ws_deleted (apply_update up pl x) = ws_deleted x"
    "ws_domain (apply_update up pl x) = (case up_domain up of Some d \<Rightarrow> d | None \<Rightarrow> ws_domain x)"
  using assms by (simp_all add: apply_update_def Let_def target_cols_def split: option.splits)

text \<open>A written update, when the new domain is free.\<close>

lemma update_written:
  assumes wf: "sites_wf db" and x: "x \<in> set (sd_rows db)" "ws_user x = u" "ws_id w = ws_id x"
    and c: "target_cols (tp_cols pl)"
    and d: "\<And>d y. up_domain up = Some d \<Longrightarrow> y \<in> set (sd_rows db) \<Longrightarrow> ws_deleted y = None \<Longrightarrow> ws_domain y = d \<Longrightarrow>
        ws_id y = ws_id w"
    and s: "site_updates fault w (apply_update up pl) db = Inr db'"
  shows "rows_rel (row_own u) db db' \<and> sites_wf db'"
proof -
  let ?g = "\<lambda>x. if ws_id x = ws_id w \<and> ws_deleted x = None then apply_update up pl x else x"
  note a = apply_update_simps [OF c, of up]
  have db': "db' = db\<lparr>sd_rows := map ?g (sd_rows db)\<rparr>" by (rule site_updates_InrD [OF s])
  have r: "rows_rel (row_own u) db db'"
    by (rule site_updates_rel [OF wf x(1,3) _ _ s]) (use a x(2) in \<open>simp_all add: row_own_def\<close>)
  have g: "ws_id (?g y) = ws_id y" "ws_deleted (?g y) = ws_deleted y" "ws_status (?g y) = ws_status y" for y
    using a by simp_all
  have rows: "sd_rows db' = map ?g (sd_rows db)" "sd_next db' = sd_next db" by (simp_all add: db')
  have ids: "map ws_id (map ?g (sd_rows db)) = map ws_id (sd_rows db)" using g(1) by simp
  have u: "ws_id y = ws_id z"
    if yz: "y \<in> set (sd_rows db)" "z \<in> set (sd_rows db)" "ws_deleted y = None" "ws_deleted z = None"
      "ws_domain (?g y) = ws_domain (?g z)" for y z
  proof (cases "up_domain up")
    case None
    then have "ws_domain (?g v) = ws_domain v" for v using a(5) by simp
    then show ?thesis using sites_wfD(4) [OF wf yz(1-4)] yz(5) by simp
  next
    case (Some e)
    then have "ws_domain (?g v) = (if ws_id v = ws_id w \<and> ws_deleted v = None then e else ws_domain v)" for v
      using a(5) by simp
    then show ?thesis using sites_wfD(4) [OF wf yz(1-4)] yz(5) d [OF Some yz(1,3)] d [OF Some yz(2,4)] yz(3,4)
      by (metis (full_types))
  qed
  have "sites_wf db'"
    unfolding sites_wf_def rows
  proof (intro conjI ballI impI)
    show "distinct (map ws_id (map ?g (sd_rows db)))" unfolding ids by (rule sites_wfD(1) [OF wf])
  next
    fix y assume "y \<in> set (map ?g (sd_rows db))"
    then obtain x where x: "x \<in> set (sd_rows db)" and y: "y = ?g x" unfolding set_map by blast
    show "ws_id y < sd_next db" using sites_wfD(2) [OF wf x] unfolding y g(1) .
    show "ws_status y \<in> set validWebsiteStatuses" using sites_wfD(3) [OF wf x] unfolding y g(3) .
  next
    fix y z assume yz: "y \<in> set (map ?g (sd_rows db))" "z \<in> set (map ?g (sd_rows db))"
      "ws_deleted y = None" "ws_deleted z = None" "ws_domain y = ws_domain z"
    then obtain x v where xv: "x \<in> set (sd_rows db)" "v \<in> set (sd_rows db)" and e: "y = ?g x" "z = ?g v"
      unfolding set_map by blast
    show "ws_id y = ws_id z" using u [OF xv] yz(3-5) unfolding e g(1,2) by blast
  qed
  then show ?thesis using r by blast
qed

lemma check_new_domain_None:
  assumes "check_new_domain env i d s = None" "we_fault env QExists = None"
    "y \<in> set (sd_rows (wb_sites s))" "ws_deleted y = None" "ws_domain y = d"
  shows "ws_id y = i"
  using assms by (auto simp: check_new_domain_def first_site_def find_site_def find_None_iff split: option.splits)

lemma update_tx_own:
  assumes wf: "sites_wf (wb_sites s)" and f: "up_domain up \<noteq> None \<longrightarrow> we_fault env QExists = None"
    and r: "update_tx env user i up s = (r, s')"
  shows "rows_rel (row_own user) (wb_sites s) (wb_sites s') \<and> sites_wf (wb_sites s') \<and>
         (\<forall>old w ch. r = Inr (old, w, ch) \<longrightarrow> owned_id user w (wb_sites s'))"
proof (cases "first_site (we_fault env QGet) (\<lambda>w. ws_user w = user \<and> ws_id w = i) (wb_sites s)")
  case (Inl e)
  then show ?thesis using r wf by (auto simp: update_tx_def rows_rel_refl)
next
  case (Inr w)
  note g = Inr and w = first_site_InrD [OF Inr]
  show ?thesis
  proof (cases "case up_domain up of None \<Rightarrow> None | Some d \<Rightarrow> check_new_domain env i d s")
    case (Some e)
    then show ?thesis using r wf g by (auto simp: update_tx_def rows_rel_refl)
  next
    case None
    note dom = None
    obtain rp s1 where p: "plan_target env user w up s = (rp, s1)" by force
    have s1: "wb_sites s1 = wb_sites s" using plan_target_sites [of env user w up s] by (simp add: p)
    show ?thesis
    proof (cases rp)
      case (Inl e)
      then show ?thesis using r wf g dom p s1 by (auto simp: update_tx_def rows_rel_refl)
    next
      case (Inr pl)
      note pl = Inr
      show ?thesis
      proof (cases "up_dns up = Some None")
        case True
        then show ?thesis using r wf g dom p pl s1 by (auto simp: update_tx_def rows_rel_refl)
      next
        case False
        note dns = False
        show ?thesis
        proof (cases "site_updates (we_fault env QUpdates) w (apply_update up pl) (wb_sites s1)")
          case (Inl e)
          then show ?thesis using r wf g dom p pl s1 dns by (auto simp: update_tx_def rows_rel_refl)
        next
          case (Inr db)
          note db = Inr
          have d: "ws_id y = ws_id w"
            if "up_domain up = Some d" "y \<in> set (sd_rows (wb_sites s1))" "ws_deleted y = None" "ws_domain y = d" for d y
            using check_new_domain_None [of env i d s y] that dom f s1 w by simp
          have res: "rows_rel (row_own user) (wb_sites s) db \<and> sites_wf db"
            using update_written [of "wb_sites s1" w user w pl up "we_fault env QUpdates" db]
              wf w plan_target_cols [OF p [unfolded pl]] d db s1 by simp
          show ?thesis
          proof (cases "first_site (we_fault env QReload) (\<lambda>w. ws_user w = user \<and> ws_id w = i) db")
            case (Inl e)
            then show ?thesis using r wf g dom p pl s1 dns db by (auto simp: update_tx_def rows_rel_refl)
          next
            case (Inr w')
            then have "wb_sites s' = db" "r = Inr (w, w', tp_hash pl \<noteq> None)"
              using r g dom p pl dns db by (auto simp: update_tx_def)
            then show ?thesis using res first_site_InrD [OF Inr] by (auto simp: owned_id_def)
          qed
        qed
      qed
    qed
  qed
qed

lemma kept_own: "kept u a b \<Longrightarrow> rows_rel (row_own u) a b"
  by (auto simp: kept_def rows_rel_def elim: list_all2_mono)

lemma UpdateWebsite_own:
  assumes wf: "sites_wf (wb_sites s)" and f: "up_domain up \<noteq> None \<longrightarrow> we_fault env QExists = None"
  shows "rows_rel (row_own user) (wb_sites s) (wb_sites (snd (UpdateWebsite env user i up s))) \<and>
         sites_wf (wb_sites (snd (UpdateWebsite env user i up s)))"
proof -
  obtain r s1 where t: "update_tx env user i up s = (r, s1)" by force
  note k = update_tx_own [OF wf f t]
  show ?thesis
  proof (cases r)
    case (Inl e)
    then show ?thesis using t k by (simp add: UpdateWebsite_def)
  next
    case (Inr p)
    obtain old w ch where p: "p = (old, w, ch)" by (metis prod_cases3)
    let ?s2 = "if ch then refreshHNSDomains env w s1 else s1"
    have s2: "wb_sites ?s2 = wb_sites s1" by simp
    have own: "owned_id user w (wb_sites ?s2)" "sites_wf (wb_sites ?s2)" using k Inr p s2 by auto
    let ?t = "if up_dns up \<noteq> None \<and> ws_enabled w \<and> \<not> ws_enabled old then handleDNSEnabledTransition env w ?s2
              else if up_dns up \<noteq> None \<and> \<not> ws_enabled w \<and> ws_enabled old then handleDNSDisabledTransition env w ?s2
              else (None, w, ?s2)"
    obtain x v s3 where e: "?t = (x, v, s3)" by (metis prod_cases3)
    have "kept user (wb_sites ?s2) (wb_sites s3)"
      using e handleDNSEnabledTransition_kept [OF own(2,1)] handleDNSDisabledTransition_kept [OF own(2,1)]
      by (auto split: if_splits)
    then have "rows_rel (row_own user) (wb_sites s) (wb_sites s3)" "sites_wf (wb_sites s3)"
      using k s2 kept_own [of user "wb_sites ?s2" "wb_sites s3"] kept_wf [OF own(2)]
        rows_rel_trans [of "row_own user" "wb_sites s" "wb_sites s1" "wb_sites s3"] row_own_trans by metis+
    moreover have "snd (UpdateWebsite env user i up s) = s3"
      using t Inr p e by (simp add: UpdateWebsite_def Let_def)
    ultimately show ?thesis by simp
  qed
qed

lemma site_delete_kept:
  assumes wf: "sites_wf db" and w: "own_row u w db"
  shows "kept u db (site_delete now (ws_id w) db)"
  unfolding kept_def site_delete_def
proof (rule rows_rel_map)
  fix x assume x: "x \<in> set (sd_rows db)"
  have "ws_id x = ws_id w \<Longrightarrow> x = w" using sites_wf_id [OF wf x] w by (simp add: own_row_def)
  then show "row_keep x (if ws_id x = ws_id w \<and> ws_deleted x = None then x\<lparr>ws_deleted := Some now\<rparr> else x) \<and>
    row_own u x (if ws_id x = ws_id w \<and> ws_deleted x = None then x\<lparr>ws_deleted := Some now\<rparr> else x)"
    using w by (auto simp: row_keep_def row_own_def own_row_def)
qed

lemma DeleteWebsite_kept:
  assumes wf: "sites_wf (wb_sites s)"
  shows "kept user (wb_sites s) (wb_sites (snd (DeleteWebsite env user i s)))"
proof (cases "first_site (we_fault env QGet) (\<lambda>w. ws_user w = user \<and> ws_id w = i) (wb_sites s)")
  case (Inr w)
  have "kept user (wb_sites s) (site_delete (we_now env) (ws_id w) (wb_sites s))"
    using first_site_InrD [OF Inr] by (intro site_delete_kept [OF wf]) (simp add: own_row_def)
  then show ?thesis using Inr by (simp add: DeleteWebsite_def Let_def split: option.splits)
qed (simp add: DeleteWebsite_def)

lemma BlockWebsite_kept:
  assumes wf: "sites_wf (wb_sites s)"
  shows "\<exists>u. kept u (wb_sites s) (wb_sites (snd (BlockWebsite env i s)))"
proof (cases "first_site (we_fault env QGet) (\<lambda>w. ws_id w = i) (wb_sites s)")
  case (Inr w)
  note w = first_site_InrD [OF Inr]
  show ?thesis
  proof (cases "site_save (we_fault env QSave) (w\<lparr>ws_status := WebsiteStatusBlocked\<rparr>) (wb_sites s)")
    case s: (Inr vd)
    obtain v db where vd: "vd = (v, db)" by force
    have "kept (ws_user w) (wb_sites s) db"
      using save_kept [OF wf, of w "ws_user w" "w\<lparr>ws_status := WebsiteStatusBlocked\<rparr>" "we_fault env QSave" v db] w s vd
      by (simp add: website_consts)
    then show ?thesis using Inr s vd by (auto simp: BlockWebsite_def)
  qed (use Inr kept_refl in \<open>simp add: BlockWebsite_def\<close>)
qed (use kept_refl in \<open>simp add: BlockWebsite_def\<close>)

section \<open>Status\<close>

text \<open>The same website, whatever its status.\<close>

definition row_same :: "site \<Rightarrow> site \<Rightarrow> bool" where
  "row_same x y \<longleftrightarrow> ws_id y = ws_id x \<and> ws_user y = ws_user x \<and> ws_domain y = ws_domain x \<and>
     ws_deleted y = ws_deleted x \<and> ws_mh y = ws_mh x \<and> ws_ttype y = ws_ttype x \<and>
     (ws_status x \<in> set validWebsiteStatuses \<longrightarrow> ws_status y \<in> set validWebsiteStatuses)"

lemma row_same_refl [simp]: "row_same x x" by (simp add: row_same_def)

lemma row_same_trans: "row_same x y \<Longrightarrow> row_same y z \<Longrightarrow> row_same x z" by (auto simp: row_same_def)

lemma row_same_keep: "row_same x y \<Longrightarrow> row_keep x y" by (simp add: row_same_def row_keep_def)

lemma rows_same_wf: "sites_wf db \<Longrightarrow> rows_rel row_same db db' \<Longrightarrow> sites_wf db'"
  by (rule rows_keep_wf) (auto simp: rows_rel_def row_same_keep elim: list_all2_mono)

lemma save_same:
  assumes wf: "sites_wf db" and x: "x \<in> set (sd_rows db)" "row_same x w"
    and s: "site_save fault w db = Inr (v, db')"
  shows "rows_rel row_same db db'" "v \<in> set (sd_rows db')" "ws_status v = ws_status w" "ws_id v = ws_id x"
    "ws_deleted v = ws_deleted w"
proof -
  note d = site_save_InrD [OF s]
  show i: "ws_id v = ws_id x" using d(2) x(2) by (auto simp: row_same_def)
  have "row_same x v" using d(2) x(2) by (auto simp: row_same_def)
  then show "rows_rel row_same db db'" unfolding d(1) by (intro set_site_rel [OF wf x(1) i]) simp_all
  show "v \<in> set (sd_rows db')" unfolding d(1) using set_site_mem [OF x(1)] i by simp
  show "ws_status v = ws_status w" "ws_deleted v = ws_deleted w" using d(2) by auto
qed

lemma statuses_valid [simp]:
  "WebsiteStatusPendingValidation \<in> set validWebsiteStatuses" "WebsiteStatusActive \<in> set validWebsiteStatuses"
  "WebsiteStatusBroken \<in> set validWebsiteStatuses" "WebsiteStatusBlocked \<in> set validWebsiteStatuses"
  by (simp_all add: validWebsiteStatuses_def)

lemma UnblockWebsite_same:
  assumes wf: "sites_wf (wb_sites s)"
  shows "rows_rel row_same (wb_sites s) (wb_sites (snd (UnblockWebsite env i s)))"
proof (cases "first_site (we_fault env QGet) (\<lambda>w. ws_id w = i \<and> ws_status w = WebsiteStatusBlocked) (wb_sites s)")
  case (Inr w)
  note w = first_site_InrD [OF Inr]
  show ?thesis
  proof (cases "site_save (we_fault env QSave) (w\<lparr>ws_status := WebsiteStatusActive\<rparr>) (wb_sites s)")
    case s: (Inr vd)
    obtain v db where vd: "vd = (v, db)" by force
    have "rows_rel row_same (wb_sites s) db"
      by (rule save_same(1) [OF wf, of w]) (use w s vd in \<open>auto simp: row_same_def\<close>)
    then show ?thesis using Inr s vd by (simp add: UnblockWebsite_def)
  qed (use Inr in \<open>simp add: UnblockWebsite_def rows_rel_refl\<close>)
qed (simp add: UnblockWebsite_def rows_rel_refl)

lemma token_zone_sites [simp]: "wb_sites (token_zone env w tok s) = wb_sites s"
  by (simp add: token_zone_def split: option.splits)

lemma regenerate_same:
  assumes wf: "sites_wf (wb_sites s)" and w: "w \<in> set (sd_rows (wb_sites s))"
    and r: "regenerateExpiredToken env w s = (r, s')"
  shows "rows_rel row_same (wb_sites s) (wb_sites s')"
proof (cases "generateValidationToken env")
  case (Inr tok)
  let ?w = "w\<lparr>ws_token := tok, ws_expires := Some (we_now env + we_ttl env)\<rparr>"
  show ?thesis
  proof (cases "site_save (we_fault env QSave) ?w (wb_sites s)")
    case (Inl e)
    then show ?thesis using r \<open>generateValidationToken env = Inr tok\<close>
      by (auto simp: regenerateExpiredToken_def Let_def rows_rel_refl)
  next
    case s: (Inr vd)
    obtain v db where vd: "vd = (v, db)" by force
    have "wb_sites s' = db" using r Inr s vd by (auto simp: regenerateExpiredToken_def Let_def)
    moreover have "rows_rel row_same (wb_sites s) db"
      by (rule save_same(1) [OF wf w]) (use s vd in \<open>auto simp: row_same_def\<close>)
    ultimately show ?thesis by simp
  qed
qed (use r in \<open>simp add: regenerateExpiredToken_def rows_rel_refl\<close>)

lemma activate_same:
  assumes wf: "sites_wf (wb_sites s)" and w: "w \<in> set (sd_rows (wb_sites s))"
    and r: "activateValidatedWebsite env w s = (r, s')"
  shows "rows_rel row_same (wb_sites s) (wb_sites s')"
    "r = None \<Longrightarrow> \<exists>v \<in> set (sd_rows (wb_sites s')). ws_id v = ws_id w \<and> ws_status v = WebsiteStatusActive \<and>
       ws_deleted v = ws_deleted w"
proof -
  let ?w = "w\<lparr>ws_status := WebsiteStatusActive, ws_expires := Some (we_now env + we_ttl env)\<rparr>"
  have same: "row_same w ?w" by (simp add: row_same_def)
  show "rows_rel row_same (wb_sites s) (wb_sites s')"
    using r save_same(1) [OF wf w same]
    by (auto simp: activateValidatedWebsite_def rows_rel_refl split: sum.splits prod.splits)
  assume "r = None"
  then obtain v db where s: "site_save (we_fault env QSave) ?w (wb_sites s) = Inr (v, db)" "wb_sites s' = db"
    using r by (auto simp: activateValidatedWebsite_def split: sum.splits prod.splits)
  show "\<exists>v \<in> set (sd_rows (wb_sites s')). ws_id v = ws_id w \<and> ws_status v = WebsiteStatusActive \<and>
       ws_deleted v = ws_deleted w"
    using save_same(2-5) [OF wf w same s(1)] s(2) by auto
qed

lemma ValidateDNS_same:
  assumes wf: "sites_wf (wb_sites s)"
  shows "rows_rel row_same (wb_sites s) (wb_sites (snd (ValidateDNS env dv id user i s)))"
proof (cases "first_site (we_fault env QGet) (\<lambda>w. ws_user w = user \<and> ws_id w = i) (wb_sites s)")
  case (Inr w)
  note w = first_site_InrD [OF Inr]
  show ?thesis
  proof (cases "ws_status w = WebsiteStatusPendingValidation \<and> IsExpired (we_now env) w")
    case True
    obtain r s' where "regenerateExpiredToken env w s = (r, s')" by force
    then show ?thesis using Inr True regenerate_same [OF wf, of w env r s'] w
      by (auto simp: ValidateDNS_def split: option.splits)
  next
    case False
    obtain r s' where "activateValidatedWebsite env w s = (r, s')" by force
    then show ?thesis using Inr False activate_same(1) [OF wf, of w env r s'] w
      by (auto simp: ValidateDNS_def Let_def rows_rel_refl split: option.splits sum.splits)
  qed
qed (simp add: ValidateDNS_def rows_rel_refl)

lemma UpdateSSLStatus_same:
  assumes wf: "sites_wf (wb_sites s)"
  shows "rows_rel row_same (wb_sites s) (wb_sites (snd (UpdateSSLStatus env d st err at s)))"
proof (cases "first_site (we_fault env QGet) (\<lambda>w. ws_domain w = d) (wb_sites s)")
  case (Inr w)
  note w = first_site_InrD [OF Inr]
  let ?f = "ssl_cols (case at of Some t \<Rightarrow> t | None \<Rightarrow> we_now env) st err w"
  have f: "row_same x (?f x)" for x by (simp add: ssl_cols_def Let_def row_same_def)
  show ?thesis
  proof (cases "site_updates (we_fault env QUpdates) w ?f (wb_sites s)")
    case u: (Inr db)
    have "rows_rel row_same (wb_sites s) db"
      by (rule site_updates_rel [OF wf, of w w]) (use w f u in simp_all)
    then show ?thesis using Inr u by (auto simp: UpdateSSLStatus_def Let_def rows_rel_refl split: sum.splits)
  qed (use Inr in \<open>simp add: UpdateSSLStatus_def Let_def rows_rel_refl\<close>)
qed (simp add: UpdateSSLStatus_def Let_def rows_rel_refl)

text \<open>A copy of a stored row, as the janitor holds one.\<close>

definition copy_of :: "site \<Rightarrow> site_db \<Rightarrow> bool" where
  "copy_of w db \<longleftrightarrow> (\<exists>x \<in> set (sd_rows db). row_same x w \<and> row_same w x)"

lemma copy_of_mem: "w \<in> set (sd_rows db) \<Longrightarrow> copy_of w db"
  unfolding copy_of_def by (rule bexI [of _ w]) simp_all

lemma validateWebsite_same:
  assumes wf: "sites_wf (wb_sites s)" and w: "copy_of w (wb_sites s)"
  shows "rows_rel row_same (wb_sites s) (wb_sites (snd (validateWebsite env pinned w s)))"
proof -
  obtain x where x: "x \<in> set (sd_rows (wb_sites s))" "row_same x w" using w by (auto simp: copy_of_def)
  let ?w = "w\<lparr>ws_status := janitor_status env pinned w s, ws_checked := Some (we_now env)\<rparr>"
  show ?thesis
  proof (cases "site_save (we_fault env QSave) ?w (wb_sites s)")
    case s: (Inr vd)
    obtain v db where vd: "vd = (v, db)" by force
    have "row_same x ?w" using x(2) site_save_InrD(3) [OF s [unfolded vd]] by (simp add: row_same_def)
    then have "rows_rel row_same (wb_sites s) db" using save_same(1) [OF wf x(1) _ s [unfolded vd]] by simp
    then show ?thesis using s vd by (simp add: validateWebsite_def)
  qed (simp add: validateWebsite_def rows_rel_refl)
qed

lemma row_same_sym: "row_same x y \<Longrightarrow> ws_status x \<in> set validWebsiteStatuses \<Longrightarrow> row_same y x"
  by (simp add: row_same_def)

lemma copy_of_same:
  assumes "sites_wf db" "copy_of w db" "rows_rel row_same db db'"
  shows "copy_of w db'"
proof -
  obtain x where x: "x \<in> set (sd_rows db)" "row_same x w" "row_same w x" using assms(2) by (auto simp: copy_of_def)
  obtain y where y: "y \<in> set (sd_rows db')" "row_same x y"
    using list_all2_nth_mem' [OF _ x(1)] assms(3) unfolding rows_rel_def by blast
  have "row_same y x" by (rule row_same_sym [OF y(2) sites_wfD(3) [OF assms(1) x(1)]])
  then show ?thesis using x y row_same_trans unfolding copy_of_def by blast
qed

lemma validateWebsites_same:
  assumes "sites_wf (wb_sites s)" "\<forall>w \<in> set ws. copy_of w (wb_sites s)"
  shows "rows_rel row_same (wb_sites s) (wb_sites (fold (\<lambda>w s. snd (validateWebsite env pinned w s)) ws s))"
  using assms
proof (induction ws arbitrary: s)
  case (Cons w ws)
  let ?s = "snd (validateWebsite env pinned w s)"
  have 1: "rows_rel row_same (wb_sites s) (wb_sites ?s)" 
    using validateWebsite_same [OF Cons.prems(1), of w env pinned] Cons.prems(2) by simp
  have "\<forall>v \<in> set ws. copy_of v (wb_sites ?s)" using copy_of_same [OF Cons.prems(1) _ 1] Cons.prems(2) by simp
  note 2 = Cons.IH [OF rows_same_wf [OF Cons.prems(1) 1] this]
  have "rows_rel row_same (wb_sites s) (wb_sites (fold (\<lambda>w s. snd (validateWebsite env pinned w s)) ws ?s))"
    by (rule rows_rel_trans [OF row_same_trans 1 2])
  then show ?case by simp
qed (simp add: rows_rel_refl)

lemma janitor_Run_same:
  assumes wf: "sites_wf (wb_sites s)" and o: "\<And>ws. set (order ws) \<subseteq> set ws"
  shows "rows_rel row_same (wb_sites s) (wb_sites (snd (janitor_Run env jc pinned lookup order s)))"
proof -
  have "\<forall>w \<in> set (order (due_sites env iv s)). copy_of w (wb_sites s)" for iv
    using o [of "due_sites env iv s"] by (auto simp: due_sites_def intro: copy_of_mem)
  then have "rows_rel row_same (wb_sites s) (wb_sites (fold (\<lambda>w s. snd (validateWebsite env pinned w s))
      (order (due_sites env iv s)) (s\<lparr>wb_dns := d\<rparr>)))" for iv d
    using validateWebsites_same [of "s\<lparr>wb_dns := d\<rparr>" "order (due_sites env iv s)" env pinned] wf by simp
  then show ?thesis by (simp add: janitor_Run_def Let_def rows_rel_refl split: option.splits)
qed

end
