(* ===== verification/Website_Props.thy ===== *)
theory Website_Props
  imports Website_Safety
begin

text \<open>
  The properties of the website service and its janitor.  The demonstration environment has one user with a website
  and a DNS server in memory.
\<close>

section \<open>A small deployment\<close>

definition demo_crypto :: "string crypto" where
  "demo_crypto = \<lparr>cr_marshal = Inr, cr_unmarshal = Inr, cr_peer = (\<lambda>k. Inr (''p'' @ k)), cr_seed = Inr ''s'',
     cr_seal = (\<lambda>_ _ m. m), cr_open = (\<lambda>_ _ m. Inr m), cr_b64 = id, cr_unb64 = Inr\<rparr>"

definition demo_cids :: "(string \<times> cid) list" where
  "demo_cids = [(''bafy'', Cid 1 112 ''m1''), (''bafk'', Cid 1 85 ''m1''), (''bagu'', Cid 1 297 ''m1''),
                (''Qm'', Cid 0 112 ''m1'')]"

definition demo_cdec :: "string \<Rightarrow> gerr + cid" where
  "demo_cdec t = (case map_of demo_cids t of Some c \<Rightarrow> Inr c | None \<Rightarrow> Inl EOF)"

definition demo_cstr :: "cid \<Rightarrow> string" where
  "demo_cstr c = (case map_of (map (\<lambda>(t, c). (c, t)) demo_cids) c of Some t \<Rightarrow> t | None \<Rightarrow> ''?'')"

definition demo_env :: "(rrset list, unit, string) web_env" where
  "demo_env = \<lparr>we_cdec = demo_cdec, we_cstr = demo_cstr,
     we_pdec = (\<lambda>t. if t = ''k1'' then Inr ''p1'' else Inl EOF), we_pstr = (\<lambda>p. if p = ''m1'' then ''Qm'' else ''k1''),
     we_crypto = demo_crypto, we_gen = Inr ''1'', we_nonce = Inr ''123456789012'', we_boxo = None, we_page = id,
     we_pin = (\<lambda>_ _. Inr (Some ''pinned'')), we_dns = None, we_dnscfg = None, we_api = None,
     we_zone_faults = \<lparr>cf_get = None, cf_insert = None, cf_get2 = None, cf_restore = None\<rparr>, we_others = id,
     we_ascii = Inr, we_url = (\<lambda>_. Inl EOF), we_tlsa = None, we_pem = (\<lambda>_. Inl EOF), we_fetch = (\<lambda>_ _. Inl EOF),
     we_dnssec = (None, Inl EOF, Inl EOF, Inl EOF), we_rand = Inr ''ab'', we_ttl = 100, we_now = 50,
     we_fault = (\<lambda>_. None)\<rparr>"

definition demo_site :: site where
  "demo_site = \<lparr>ws_id = 1, ws_user = 7, ws_domain = ''ex.org'', ws_ttype = ''ipfs'', ws_mh = ''m1'', ws_cidv = Some 1,
     ws_cidt = Some 112, ws_status = ''blocked'', ws_token = ''6162'', ws_expires = Some 100, ws_checked = None,
     ws_zone = None, ws_key = None, ws_enabled = False, ws_ssl = ''pending'', ws_ssl_error = [], ws_ssl_issued = None,
     ws_ssl_updated = None, ws_deleted = None\<rparr>"

definition demo_web :: "(rrset list, unit) web" where
  "demo_web = \<lparr>wb_sites = \<lparr>sd_rows = [demo_site], sd_next = 2\<rparr>, wb_hns = \<lparr>hd_rows = [], hd_next = 1\<rparr>,
     wb_dns = demo_dns, wb_ipns = \<lparr>ik_db = \<lparr>kd_rows = [], kd_next = 1\<rparr>, ik_ks = ()\<rparr>, wb_pubs = []\<rparr>"

definition demo_resolver :: dns_resolver where
  "demo_resolver = \<lparr>dv_link = (\<lambda>_. Inr ([''bafy''], [])), dv_txt = (\<lambda>_. Inr [''lumeweb-verify=6162''])\<rparr>"

lemma demo_wf: "sites_wf (wb_sites demo_web)"
  by (simp add: sites_wf_def demo_web_def demo_site_def validWebsiteStatuses_def website_consts)

lemma demo_real: "real_faults demo_env" "we_fault demo_env q = None"
  by (simp_all add: real_faults_def demo_env_def)

section \<open>The table\<close>



text \<open>What one user's operations leave of the rows, and that none of them activates a website.\<close>

definition owner_only :: "nat \<Rightarrow> site_db \<Rightarrow> site_db \<Rightarrow> bool" where
  "owner_only u db db' \<longleftrightarrow>
     (\<forall>x. ws_user x \<noteq> u \<longrightarrow> x \<in> set (sd_rows db') \<longleftrightarrow> x \<in> set (sd_rows db)) \<and>
     (\<forall>y \<in> set (sd_rows db'). ws_status y = WebsiteStatusActive \<longrightarrow>
        (\<exists>x \<in> set (sd_rows db). ws_id x = ws_id y \<and> ws_user x = ws_user y \<and> ws_status x = WebsiteStatusActive))"

lemma own_owner_only: "rows_rel (row_own u) db db' \<Longrightarrow> owner_only u db db'"
proof -
  assume "rows_rel (row_own u) db db'"
  then have l: "list_all2 (row_own u) (sd_rows db) (sd_rows db')" by (simp add: rows_rel_def)
  have "x \<in> set (sd_rows db') \<longleftrightarrow> x \<in> set (sd_rows db)" if "ws_user x \<noteq> u" for x
    using list_all2_nth_mem [OF l, of x] list_all2_nth_mem' [OF l, of x] that by (auto simp: row_own_def)
  moreover have "\<exists>x \<in> set (sd_rows db). ws_id x = ws_id y \<and> ws_user x = ws_user y \<and> ws_status x = WebsiteStatusActive"
    if "y \<in> set (sd_rows db')" "ws_status y = WebsiteStatusActive" for y
    using list_all2_nth_mem [OF l that(1)] that(2) by (auto simp: row_own_def)
  ultimately show ?thesis unfolding owner_only_def by blast
qed

lemma grown_owner_only:
  assumes "grown u db db'"
  shows "owner_only u db db'"
proof -
  consider "kept u db db'" | v db1 where "sd_rows db1 = sd_rows db @ [v]" "ws_user v = u"
    "ws_status v = WebsiteStatusPendingValidation" "kept u db1 db'" using assms unfolding grown_def by blast
  then show ?thesis
  proof cases
    case 2
    then have o: "owner_only u db1 db'" using own_owner_only kept_own by blast
    have "WebsiteStatusPendingValidation \<noteq> WebsiteStatusActive" by (simp add: website_consts)
    then show ?thesis using o 2(1-3) unfolding owner_only_def by auto
  qed (use own_owner_only kept_own in blast)
qed

text \<open>C10. Creating, updating and deleting websites touches no row of another user, and none of the three makes a website
  active: each active row was active before.\<close>

theorem website_owner_only:
  assumes "sites_wf (wb_sites s)" and "real_faults env" and "we_fault env QExists = None" and "ws_user w = user"
  shows "owner_only user (wb_sites s) (wb_sites (snd (CreateWebsite env w s))) \<and>
         owner_only user (wb_sites s) (wb_sites (snd (UpdateWebsite env user i up s))) \<and>
         owner_only user (wb_sites s) (wb_sites (snd (DeleteWebsite env user i s)))"
  using grown_owner_only [OF CreateWebsite_grown [OF assms(1,2)], of w]
    own_owner_only UpdateWebsite_own [OF assms(1), of up env user i]
    own_owner_only [OF kept_own [OF DeleteWebsite_kept [OF assms(1)]], of user env i] assms(3,4) by blast

theorem website_owner_only_witness:
  "owner_only 8 (wb_sites demo_web) (wb_sites (snd (CreateWebsite demo_env
     (demo_site\<lparr>ws_user := 8, ws_domain := ''a.io''\<rparr>) demo_web))) \<and>
   demo_site \<in> set (sd_rows (wb_sites (snd (CreateWebsite demo_env (demo_site\<lparr>ws_user := 8, ws_domain := ''a.io''\<rparr>) demo_web))))"
proof -
  have o: "owner_only 8 (wb_sites demo_web) (wb_sites (snd (CreateWebsite demo_env
     (demo_site\<lparr>ws_user := 8, ws_domain := ''a.io''\<rparr>) demo_web)))"
    using website_owner_only [OF demo_wf demo_real, of "demo_site\<lparr>ws_user := 8, ws_domain := ''a.io''\<rparr>" 8] by simp
  have "ws_user demo_site \<noteq> 8" "demo_site \<in> set (sd_rows (wb_sites demo_web))"
    by (simp_all add: demo_site_def demo_web_def)
  then show ?thesis using o unfolding owner_only_def by blast
qed

section \<open>Validation\<close>

text \<open>What the owner of a website must have published.\<close>

definition dns_published :: "('p, 'ks, 'k) web_env \<Rightarrow> dns_resolver \<Rightarrow> site \<Rightarrow> bool" where
  "dns_published env dv w \<longleftrightarrow>
     (\<exists>ls. dv_link dv (ws_domain w) = Inr ls \<and> has_link (ToDNSLinkPath (ws_ttype w) (hash_of env w)) ls) \<and>
     (ws_status w = WebsiteStatusPendingValidation \<longrightarrow>
        (\<exists>txts. dv_txt dv (verificationTokenKey env @ ''.'' @ ws_domain w) = Inr txts \<and>
           list_ex (\<lambda>t. Contains t (token_record env (ws_token w))) txts))"

lemma dns_verdict_valid: "(\<exists>r. dns_verdict env dv w = Inr r \<and> vr_valid r) \<longleftrightarrow> dns_published env dv w"
proof (cases "dv_link dv (ws_domain w)")
  case (Inl e)
  obtain nx err where "e = (nx, err)" by force
  then show ?thesis using Inl by (cases nx) (simp_all add: dns_verdict_def dns_published_def Let_def)
next
  case (Inr ls)
  show ?thesis
  proof (cases "has_link (ToDNSLinkPath (ws_ttype w) (hash_of env w)) ls \<and> ws_status w = WebsiteStatusPendingValidation")
    case True
    then show ?thesis using Inr
      by (cases "dv_txt dv (verificationTokenKey env @ ''.'' @ ws_domain w)")
         (simp_all add: dns_verdict_def dns_published_def Let_def)
  qed (use Inr in \<open>auto simp: dns_verdict_def dns_published_def Let_def\<close>)
qed

lemma activate_None:
  assumes "we_fault env QSave = None" "site_BeforeSave w = Inr v"
  shows "fst (activateValidatedWebsite env w s) = None"
proof -
  let ?w = "w\<lparr>ws_status := WebsiteStatusActive, ws_expires := Some (we_now env + we_ttl env)\<rparr>"
  have "\<exists>v. site_BeforeSave ?w = Inr v" using assms(2) by (auto simp: site_BeforeSave_def Let_def split: if_splits)
  then show ?thesis using assms(1) by (auto simp: activateValidatedWebsite_def site_save_def)
qed


lemma demo_find: "find_site (\<lambda>w. ws_user w = 7 \<and> ws_id w = 1) (wb_sites demo_web) = Some demo_site"
  by (simp add: find_site_def demo_web_def demo_site_def)

lemma demo_saves: "site_BeforeSave demo_site = Inr demo_site" by code_simp

lemma demo_published: "dns_published demo_env demo_resolver demo_site"
proof -
  have "has_link (ToDNSLinkPath (ws_ttype demo_site) (hash_of demo_env demo_site)) ([''bafy''], [])" by code_simp
  then show ?thesis by (simp add: dns_published_def demo_resolver_def demo_site_def website_consts)
qed


text \<open>A block does not hold: the owner of a blocked website whose dnslink is right makes it active again by
  asking for its validation, and so does the janitor when it comes to it and finds its CID pinned.\<close>

lemma website_block_lifted:
  assumes "sites_wf (wb_sites s)" and "we_fault env QGet = None" and "we_fault env QSave = None"
    and "find_site (\<lambda>w. ws_user w = user \<and> ws_id w = i) (wb_sites s) = Some w" and "site_BeforeSave w = Inr v"
    and "ws_status w = WebsiteStatusBlocked" and "ws_ttype w = WebsiteTargetTypeIPFS"
    and "dv_link dv (ws_domain w) = Inr ls" and "has_link (ToDNSLinkPath (ws_ttype w) (hash_of env w)) ls"
    and "we_cdec env (hash_of env w) = Inr c" and "pinned (NormalizeCid c) = Inr True"
  shows "(\<exists>x \<in> set (sd_rows (wb_sites (snd (ValidateDNS env dv id user i s)))).
            ws_id x = i \<and> ws_status x = WebsiteStatusActive \<and> ws_deleted x = None) \<and>
         (\<exists>x \<in> set (sd_rows (wb_sites (snd (validateWebsite env pinned w s)))).
            ws_id x = i \<and> ws_status x = WebsiteStatusActive \<and> ws_deleted x = None)"
proof
  have g: "first_site (we_fault env QGet) (\<lambda>w. ws_user w = user \<and> ws_id w = i) (wb_sites s) = Inr w"
    using assms(2,4) by (simp add: first_site_def)
  note w = first_site_InrD [OF g]
  have np: "ws_status w \<noteq> WebsiteStatusPendingValidation" using assms(6) by (simp add: website_consts)
  obtain a s' where a: "activateValidatedWebsite env w s = (a, s')" by force
  have a': "activateValidatedWebsite env w s = (None, s')" using activate_None [OF assms(3,5), of s] a by simp
  have "dns_published env dv w" using assms(8,9) np by (auto simp: dns_published_def)
  then obtain r where r: "dns_verdict env dv w = Inr r" "vr_valid r" using dns_verdict_valid by blast
  have "snd (ValidateDNS env dv id user i s) = s'" using g np a' r by (simp add: ValidateDNS_def)
  then show "\<exists>x \<in> set (sd_rows (wb_sites (snd (ValidateDNS env dv id user i s)))).
      ws_id x = i \<and> ws_status x = WebsiteStatusActive \<and> ws_deleted x = None"
    using activate_same(2) [OF assms(1) _ a'] w by simp
  let ?w = "w\<lparr>ws_status := janitor_status env pinned w s, ws_checked := Some (we_now env)\<rparr>"
  have st: "janitor_status env pinned w s = WebsiteStatusActive"
    using assms(7,10,11) by (simp add: janitor_status_def validateCIDTarget_def)
  have "\<exists>v. site_BeforeSave ?w = Inr v"
    using assms(5) unfolding st by (auto simp: site_BeforeSave_def Let_def split: if_splits)
  then obtain v where sv: "site_save (we_fault env QSave) ?w (wb_sites s) = Inr (v, set_site v (wb_sites s))"
    using assms(3) by (auto simp: site_save_def)
  have "row_same w ?w" unfolding st by (simp add: row_same_def)
  from save_same [OF assms(1) _ this sv] w st
  show "\<exists>x \<in> set (sd_rows (wb_sites (snd (validateWebsite env pinned w s)))).
      ws_id x = i \<and> ws_status x = WebsiteStatusActive \<and> ws_deleted x = None"
    using sv by (auto simp: validateWebsite_def)
qed

lemma website_block_lifted_example:
  "ws_status demo_site = WebsiteStatusBlocked \<and>
   (\<exists>x \<in> set (sd_rows (wb_sites (snd (ValidateDNS demo_env demo_resolver id 7 1 demo_web)))).
      ws_id x = 1 \<and> ws_status x = WebsiteStatusActive)"
proof -
  have h: "ws_status demo_site = WebsiteStatusBlocked" "ws_ttype demo_site = WebsiteTargetTypeIPFS"
    "dv_link demo_resolver (ws_domain demo_site) = Inr ([''bafy''], [])"
    by (simp_all add: demo_site_def demo_resolver_def website_consts)
  have l: "has_link (ToDNSLinkPath (ws_ttype demo_site) (hash_of demo_env demo_site)) ([''bafy''], [])"
    "we_cdec demo_env (hash_of demo_env demo_site) = Inr (Cid 1 112 ''m1'')" by code_simp+
  show ?thesis
    using website_block_lifted [OF demo_wf demo_real(2,2) demo_find demo_saves h l, of "\<lambda>_. Inr True"] h(1) by blast
qed

section \<open>Targets\<close>

lemma update_tx_row:
  assumes "sites_wf (wb_sites s)" and "update_tx env user i up s = (Inr (old, w, ch), s')"
  shows "\<exists>pl s1 x. plan_target env user old up s = (Inr pl, s1) \<and> w = apply_update up pl x \<and> ws_id x = i"
proof -
  obtain pl s1 db where p: "plan_target env user old up s = (Inr pl, s1)"
    and old: "first_site (we_fault env QGet) (\<lambda>w. ws_user w = user \<and> ws_id w = i) (wb_sites s) = Inr old"
    and db: "site_updates (we_fault env QUpdates) old (apply_update up pl) (wb_sites s1) = Inr db"
    and w: "first_site (we_fault env QReload) (\<lambda>w. ws_user w = user \<and> ws_id w = i) db = Inr w"
    using assms(2) by (auto simp: update_tx_def split: sum.splits option.splits prod.splits if_splits)
  note o = first_site_InrD [OF old] and w = first_site_InrD [OF w]
  note a = apply_update_simps [OF plan_target_cols [OF p], of up]
  obtain x where x: "x \<in> set (sd_rows (wb_sites s1))"
      "w = (if ws_id x = ws_id old \<and> ws_deleted x = None then apply_update up pl x else x)"
    using w unfolding site_updates_InrD [OF db] by auto
  have "ws_id x = i \<and> ws_deleted x = None" using x(2) w a(1,4) by (auto split: if_splits)
  then have "w = apply_update up pl x \<and> ws_id x = i" using x(2) o by simp
  then show ?thesis using p by blast
qed

lemma apply_update_hash:
  "TargetHash cstr pstr (apply_update up pl x) = TargetHash cstr pstr (tp_cols pl x)"
  by (simp add: apply_update_def Let_def TargetHash_def split: option.splits)

lemma cid_cols_hash:
  assumes "cid_defined c" "cid_wf c" "\<And>d. cstr d = cstr (NormalizeCid c) \<Longrightarrow> d = NormalizeCid c"
  shows "TargetHash cstr pstr (cid_cols (NormalizeCid c) x) = cstr (NormalizeCid c) \<longleftrightarrow> cid_type c < 256"
proof (cases c)
  case (Cid v t m)
  have n: "NormalizeCid c = Cid 1 t m" using assms(2) Cid by auto
  have 1: "TargetHash cstr pstr (cid_cols (NormalizeCid c) x) = cstr (Cid 1 (t mod 256) m)"
    by (simp add: n TargetHash_def cid_cols_def)
  have 2: "cstr (Cid 1 (t mod 256) m) = cstr (Cid 1 t m) \<longleftrightarrow> t mod 256 = t"
  proof
    assume "cstr (Cid 1 (t mod 256) m) = cstr (Cid 1 t m)"
    then have "Cid 1 (t mod 256) m = Cid 1 t m" by (rule assms(3) [unfolded n])
    then show "t mod 256 = t" by (rule cid.inject [THEN iffD1, THEN conjunct2, THEN conjunct1])
  next
    assume "t mod 256 = t"
    then show "cstr (Cid 1 (t mod 256) m) = cstr (Cid 1 t m)" by (simp only:)
  qed
  have 3: "t mod 256 = t \<longleftrightarrow> t < 256" by (metis mod_less mod_less_divisor zero_less_numeral)
  have "cid_type c = t" using Cid by simp
  with 3 show ?thesis unfolding 1 unfolding n 2 by (simp only:)
qed (use assms(1) in \<open>simp add: cid_defined_def\<close>)

text \<open>C29. The row of a website keeps eight bits of the codec of its CID: after an update to a CID the website names
  that CID exactly when its codec is below 256, so a CID of dag-json (297) or of a later codec is silently
  replaced by one of another codec.\<close>

theorem website_codec_bounds:
  assumes "sites_wf (wb_sites s)" and "fst (UpdateWebsite env user i up s) = Inr w"
    and "up_hash up = Some h" and "up_type up = Some WebsiteTargetTypeIPFS" and "up_dns up = None"
    and "we_cdec env h = Inr c" and "cid_defined c" and "cid_wf c"
    and "\<not> isValidIPNSTarget (we_cdec env) (we_pdec env) h"
    and "\<And>d. we_cstr env d = we_cstr env (NormalizeCid c) \<Longrightarrow> d = NormalizeCid c"
  shows "hash_of env w = we_cstr env (NormalizeCid c) \<longleftrightarrow> cid_type c < 256"
proof -
  obtain old w' ch s' where t: "update_tx env user i up s = (Inr (old, w', ch), s')" and "w = w'"
    using assms(2,5) by (auto simp: UpdateWebsite_def Let_def split: sum.splits prod.splits)
  obtain pl s1 x where p: "plan_target env user old up s = (Inr pl, s1)" and w: "w = apply_update up pl x"
    using update_tx_row [OF assms(1) t] \<open>w = w'\<close> by blast
  have "target_direct env user old WebsiteTargetTypeIPFS h s = Inr pl"
    using p assms(3,4) by (auto simp: plan_target_def website_consts split: if_splits)
  then have "tp_cols pl = cid_cols (NormalizeCid c)"
    using assms(6,9) by (auto simp: target_direct_def Let_def website_consts split: option.splits if_splits sum.splits)
  then show ?thesis unfolding w apply_update_hash using cid_cols_hash [OF assms(7,8,10)] by simp
qed

definition demo_update :: site_update where
  "demo_update = \<lparr>up_domain = None, up_type = Some ''ipfs'', up_hash = Some ''bagu'', up_dns = None\<rparr>"

theorem website_codec_bounds_witness:
  "\<exists>w. fst (UpdateWebsite demo_env 7 1 demo_update demo_web) = Inr w \<and> ws_cidt w = Some 41 \<and>
       hash_of demo_env w \<noteq> we_cstr demo_env (NormalizeCid (Cid 1 297 ''m1''))"
proof -
  have u: "fst (UpdateWebsite demo_env 7 1 demo_update demo_web) = Inr (demo_site\<lparr>ws_cidt := Some 41\<rparr>)" by code_simp
  have c: "we_cdec demo_env ''bagu'' = Inr (Cid 1 297 ''m1'')"
    "\<not> isValidIPNSTarget (we_cdec demo_env) (we_pdec demo_env) ''bagu''" by code_simp+
  have d: "up_hash demo_update = Some ''bagu''" "up_type demo_update = Some WebsiteTargetTypeIPFS"
    "up_dns demo_update = None" by (simp_all add: demo_update_def website_consts)
  have i: "d = NormalizeCid (Cid 1 297 ''m1'')"
    if "we_cstr demo_env d = we_cstr demo_env (NormalizeCid (Cid 1 297 ''m1''))" for d
    using that by (auto simp: demo_env_def demo_cstr_def demo_cids_def split: if_splits)
  have "hash_of demo_env (demo_site\<lparr>ws_cidt := Some 41\<rparr>) = we_cstr demo_env (NormalizeCid (Cid 1 297 ''m1'')) \<longleftrightarrow>
      cid_type (Cid 1 297 ''m1'') < 256"
    by (rule website_codec_bounds [OF demo_wf u d c(1) _ _ c(2) i]) (simp_all add: cid_defined_def)
  then show ?thesis using u by auto
qed

text \<open>Neither the table of keys nor the zones are looked at again once the row is stored.\<close>

lemma create_zone_pubs: "wb_pubs (snd (create_zone env w s)) = wb_pubs s"
proof -
  have "website_zone env cfg w s = (r, s1) \<Longrightarrow> wb_pubs s1 = wb_pubs s" for cfg r s1
    by (auto simp: website_zone_def Let_def split: option.splits prod.splits)
  moreover have "cleanup_zone env w z s1 = (r, s2) \<Longrightarrow> wb_pubs s2 = wb_pubs s1" for z s1 r s2
    by (auto simp: cleanup_zone_def Let_def split: prod.splits if_splits)
  moreover have "wb_pubs (snd (site_records env cfg v i tok s1)) = wb_pubs s1" for cfg v i tok s1
    by (auto simp: site_records_def Let_def split: prod.splits)
  ultimately show ?thesis
    by (auto simp: create_zone_def split: option.splits prod.splits sum.splits)
qed

lemma ensureIPNSKey_pubs:
  assumes "ensureIPNSKey env u d c s = (Inr k, s')" "c \<noteq> []"
  shows "wb_pubs s' = wb_pubs s @ [(we_pstr env (kr_peer k), c)]"
  using assms by (auto simp: ensureIPNSKey_def publishCIDAsync_def Let_def
      split: sum.splits option.splits prod.splits)

lemma create_stored_ipns:
  assumes "create_stored env w s = (Inr w', s')" "ws_ttype w = WebsiteTargetTypeIPNS"
  shows "wb_pubs s' = wb_pubs s \<and> ws_mh w' = ws_mh w"
proof -
  obtain tok where tok: "generateValidationToken env = Inr tok"
    using assms(1) by (auto simp: create_stored_def split: sum.splits)
  let ?w = "(inherit_ssl env s w)\<lparr>ws_token := tok, ws_expires := Some (we_now env + we_ttl env),
      ws_status := WebsiteStatusPendingValidation\<rparr>"
  obtain v db where i: "site_insert (we_fault env QCreate) ?w (wb_sites s) = Inr (v, db)"
    using assms(1) tok by (auto simp: create_stored_def split: sum.splits)
  have t: "ws_ttype (inherit_ssl env s w) = ws_ttype w" "ws_mh (inherit_ssl env s w) = ws_mh w"
    by (simp_all add: inherit_ssl_def split: option.splits)
  have v: "ws_ttype v = WebsiteTargetTypeIPNS" "ws_mh v = ws_mh w"
    using site_insert_InrD(7,8) [OF i] t assms(2) by simp_all
  have "WebsiteTargetTypeIPNS \<noteq> WebsiteTargetTypeIPFS" by (simp add: website_consts)
  then have a: "create_auto_ipns env v (s\<lparr>wb_sites := db\<rparr>) = (Inr v, s\<lparr>wb_sites := db\<rparr>)"
    using v(1) by (simp add: create_auto_ipns_def)
  have z: "create_zone env v (s\<lparr>wb_sites := db\<rparr>) = (Inr w', s')"
    using assms(1) tok i a by (simp add: create_stored_def)
  have "ws_mh w' = ws_mh v"
    using z by (auto simp: create_zone_def dest!: site_save_InrD(2) split: option.splits if_splits prod.splits sum.splits)
  then show ?thesis using create_zone_pubs [of env v "s\<lparr>wb_sites := db\<rparr>"] z v(2) by simp
qed

text \<open>A website that is created as IPNS from a CID publishes the multihash of the CID printed as a peer id, which
  reads as a CIDv0: whatever the codec of the CID was, what its key publishes is the dag-pb CID of that
  multihash, so a raw leaf is published under a codec it does not have.\<close>

lemma website_ipns_by_cid:
  assumes "CreateWebsite env w s = (Inr w', s')" and "ws_ttype w = WebsiteTargetTypeIPNS" and "ws_cidv w = Some n"
    and "we_pstr env (ws_mh w) \<noteq> []" and "we_cdec env (we_pstr env (ws_mh w)) = Inr (Cid 0 DagProtobuf (ws_mh w))"
  shows "wb_pubs s' = wb_pubs s @ [(we_pstr env (ws_mh w'), we_pstr env (ws_mh w))] \<and>
         map_sum id NormalizeCid (we_cdec env (we_pstr env (ws_mh w))) = Inr (Cid 1 DagProtobuf (ws_mh w))"
proof -
  have "hash_of env w = we_pstr env (ws_mh w)" using assms(2) by (simp add: TargetHash_def website_consts)
  then obtain k s1 where k: "ensureIPNSKey env (ws_user w) (ws_domain w) (we_pstr env (ws_mh w)) s = (Inr k, s1)"
    and c: "create_stored env (to_ipns k w) s1 = (Inr w', s')"
    using assms(1-3)
    by (auto simp: CreateWebsite_def create_target_def split: option.splits prod.splits sum.splits)
  have "ws_ttype (to_ipns k w) = WebsiteTargetTypeIPNS" "ws_mh (to_ipns k w) = kr_peer k" by (simp_all add: to_ipns_def)
  then show ?thesis using create_stored_ipns [OF c] ensureIPNSKey_pubs [OF k assms(4)] assms(5) by simp
qed

lemma website_ipns_by_cid_example:
  "\<exists>w' s'. CreateWebsite demo_env (demo_site\<lparr>ws_domain := ''a.io'', ws_ttype := ''ipns'', ws_cidt := Some Raw\<rparr>) demo_web
      = (Inr w', s') \<and> wb_pubs s' = [(''k1'', ''Qm'')] \<and> we_cdec demo_env ''Qm'' = Inr (Cid 0 112 ''m1'')"
proof -
  let ?w = "demo_site\<lparr>ws_domain := ''a.io'', ws_ttype := ''ipns'', ws_cidt := Some Raw\<rparr>"
  have f: "\<not> isl (fst (CreateWebsite demo_env ?w demo_web))" by code_simp
  then obtain w' s' where c: "CreateWebsite demo_env ?w demo_web = (Inr w', s')"
    by (cases "CreateWebsite demo_env ?w demo_web") (auto simp: isl_def split: sum.splits, metis sum.exhaust)
  have w: "ws_ttype ?w = WebsiteTargetTypeIPNS" "ws_cidv ?w = Some 1" "ws_mh ?w = ''m1''"
    by (simp_all add: demo_site_def website_consts)
  have e: "we_pstr demo_env ''m1'' = ''Qm''" "we_cdec demo_env ''Qm'' = Inr (Cid 0 112 ''m1'')" by code_simp+
  have "fst (CreateWebsite demo_env ?w demo_web) = Inr w'" using c by simp
  moreover have "map_sum id ws_mh (fst (CreateWebsite demo_env ?w demo_web)) = Inr ''p1''" by code_simp
  ultimately have "we_pstr demo_env (ws_mh w') = ''k1''" by (simp add: demo_env_def)
  then show ?thesis
    using website_ipns_by_cid [OF c w(1,2)] w(3) e c by (simp add: demo_web_def DagProtobuf_def)
qed

end
