(* ===== verification/Pin_Row.thy ===== *)
theory Pin_Row
  imports Cid_Context
begin

text \<open>
  The table of pin requests: \<^verbatim>\<open>internal/db/ipfs_pin.go\<close> with the index of the migrations.  A row keeps the bytes
  of its CID; \<open>cid.Cast\<close>, \<open>Bytes()\<close> and the UUIDs are parameters.  A deleted row stays in the table.
\<close>

section \<open>Rows\<close>

abbreviation PinningStatusQueued :: string where "PinningStatusQueued \<equiv> ''queued''"
abbreviation PinningStatusPinning :: string where "PinningStatusPinning \<equiv> ''pinning''"
abbreviation PinningStatusPinned :: string where "PinningStatusPinned \<equiv> ''pinned''"
abbreviation PinningStatusFailed :: string where "PinningStatusFailed \<equiv> ''failed''"

definition validStatuses :: "string list" where
  "validStatuses = [PinningStatusQueued, PinningStatusPinning, PinningStatusPinned, PinningStatusFailed]"

record pin_row =
  pn_id :: nat
  pn_req :: bytes
  pn_user :: nat
  pn_status :: string
  pn_cid :: bytes
  pn_name :: string
  pn_origins :: bytes
  pn_meta :: bytes
  pn_delegates :: bytes
  pn_info :: bytes
  pn_deleted :: bool

record pin_db =
  pd_rows :: "pin_row list"
  pd_next :: nat

text \<open>
  What the hooks call: \<open>pe_empty\<close> is \<open>RequestID.Empty()\<close>, \<open>pe_uuid\<close> the next new UUID, \<open>pe_cast\<close> is \<open>cid.Cast\<close>, which
  \<open>cid.Parse\<close> is on bytes, and \<open>pe_bytes\<close> is \<open>Bytes()\<close>.
\<close>

record pin_env =
  pe_empty :: "bytes \<Rightarrow> bool"
  pe_uuid :: bytes
  pe_cast :: "bytes \<Rightarrow> gerr + cid"
  pe_bytes :: "cid \<Rightarrow> bytes"

definition pin_BeforeCreate :: "pin_env \<Rightarrow> pin_row \<Rightarrow> pin_row" where
  "pin_BeforeCreate env p = (if pe_empty env (pn_req p) then p\<lparr>pn_req := pe_uuid env\<rparr> else p)"

definition pin_BeforeSave :: "pin_env \<Rightarrow> pin_row \<Rightarrow> gerr + pin_row" where
  "pin_BeforeSave env p =
     (let p = (if pn_status p = [] then p\<lparr>pn_status := PinningStatusQueued\<rparr> else p)
      in if pn_status p \<notin> set validStatuses then Inl (Opaque (''invalid status: '' @ pn_status p))
         else if pn_cid p = [] then Inr p
         else (case pe_cast env (pn_cid p) of
                 Inl e \<Rightarrow> Inl (Wrapped ''failed to parse CID'' e)
               | Inr c \<Rightarrow> Inr (p\<lparr>pn_cid := pe_bytes env (NormalizeCid c)\<rparr>)))"

section \<open>The table\<close>

text \<open>
  The unique index on the request id covers deleted rows.  Callers insert new rows, with no id and no time of
  deletion.
\<close>

definition req_taken :: "bytes \<Rightarrow> pin_db \<Rightarrow> bool" where
  "req_taken q db \<longleftrightarrow> list_ex (\<lambda>r. pn_req r = q) (pd_rows db)"

definition pin_insert :: "pin_env \<Rightarrow> gerr option \<Rightarrow> pin_row \<Rightarrow> pin_db \<Rightarrow> gerr + (pin_row \<times> pin_db)" where
  "pin_insert env fault p db =
     (case fault of
        Some e \<Rightarrow> Inl e
      | None \<Rightarrow>
          (case pin_BeforeSave env p of
             Inl e \<Rightarrow> Inl e
           | Inr p1 \<Rightarrow>
               let p2 = pin_BeforeCreate env p1 in
               if req_taken (pn_req p2) db
               then Inl (Opaque ''UNIQUE constraint failed: ipfs_pins.request_id'')
               else let r = p2\<lparr>pn_id := pd_next db, pn_deleted := False\<rparr> in
                 Inr (r, db\<lparr>pd_rows := pd_rows db @ [r], pd_next := pd_next db + 1\<rparr>)))"

definition live_pins :: "(pin_row \<Rightarrow> bool) \<Rightarrow> pin_db \<Rightarrow> pin_row list" where
  "live_pins P db = filter (\<lambda>r. \<not> pn_deleted r \<and> P r) (pd_rows db)"

text \<open>\<open>First\<close>: the live row with the least id, or that there is none.\<close>

definition first_pin :: "gerr option \<Rightarrow> (pin_row \<Rightarrow> bool) \<Rightarrow> pin_db \<Rightarrow> gerr + pin_row" where
  "first_pin fault P db =
     (case fault of
        Some e \<Rightarrow> Inl e
      | None \<Rightarrow> (case live_pins P db of [] \<Rightarrow> Inl RecordNotFound | r # rs \<Rightarrow> Inr r))"

definition map_pins :: "(pin_row \<Rightarrow> pin_row) \<Rightarrow> pin_db \<Rightarrow> pin_db" where
  "map_pins f db = db\<lparr>pd_rows := map f (pd_rows db)\<rparr>"

definition soft_delete_pins :: "(pin_row \<Rightarrow> bool) \<Rightarrow> pin_db \<Rightarrow> pin_db" where
  "soft_delete_pins P db =
     map_pins (\<lambda>r. if \<not> pn_deleted r \<and> P r then r\<lparr>pn_deleted := True\<rparr> else r) db"

section \<open>The invariant\<close>

text \<open>
  Ids and request ids are unique and the stored bytes are those of a normalised CID, or empty.
\<close>

definition codec_ok :: "pin_env \<Rightarrow> bool" where
  "codec_ok env \<longleftrightarrow>
     (\<forall>b c. pe_cast env b = Inr c \<longrightarrow>
        b \<noteq> [] \<and> c \<noteq> Undef \<and> pe_cast env (pe_bytes env (NormalizeCid c)) = Inr (NormalizeCid c))"

definition stored_cid :: "pin_env \<Rightarrow> bytes \<Rightarrow> bool" where
  "stored_cid env b \<longleftrightarrow>
     b = [] \<or> (case pe_cast env b of Inr c \<Rightarrow> NormalizeCid c = c \<and> pe_bytes env c = b | Inl _ \<Rightarrow> False)"

definition pins_wf :: "pin_env \<Rightarrow> pin_db \<Rightarrow> bool" where
  "pins_wf env db \<longleftrightarrow>
     distinct (map pn_id (pd_rows db)) \<and> distinct (map pn_req (pd_rows db)) \<and>
     (\<forall>r \<in> set (pd_rows db). pn_id r < pd_next db \<and> stored_cid env (pn_cid r))"

lemma pin_BeforeSave_D:
  assumes "pin_BeforeSave env p = Inr q"
  shows "pn_status q \<in> set validStatuses" "pn_req q = pn_req p" "pn_user q = pn_user p"
    "pn_cid p = [] \<longleftrightarrow> pn_cid p = [] \<and> pn_cid q = []"
    "pn_cid p \<noteq> [] \<Longrightarrow> \<exists>c. pe_cast env (pn_cid p) = Inr c \<and> pn_cid q = pe_bytes env (NormalizeCid c)"
  using assms by (auto simp: pin_BeforeSave_def Let_def validStatuses_def split: if_splits sum.splits)

lemma pin_BeforeSave_cid:
  assumes "pin_BeforeSave env p = Inr q" and "codec_ok env"
  shows "stored_cid env (pn_cid q)"
proof (cases "pn_cid p = []")
  case True
  then have "pn_cid q = []" using pin_BeforeSave_D(4) [OF assms(1)] by simp
  then show ?thesis by (simp add: stored_cid_def)
next
  case False
  then obtain c where c: "pe_cast env (pn_cid p) = Inr c" "pn_cid q = pe_bytes env (NormalizeCid c)"
    using pin_BeforeSave_D(5) [OF assms(1)] by blast
  then have "pe_cast env (pn_cid q) = Inr (NormalizeCid c)" using assms(2) by (auto simp: codec_ok_def)
  then show ?thesis using c by (simp add: stored_cid_def)
qed

lemma pin_insert_D:
  assumes "pin_insert env fault p db = Inr (r, db')"
  obtains q where "pin_BeforeSave env p = Inr q" "pn_cid r = pn_cid q" "pn_user r = pn_user p"
    "pn_status r = pn_status q" "\<not> req_taken (pn_req r) db" "pn_id r = pd_next db" "\<not> pn_deleted r"
    "pd_rows db' = pd_rows db @ [r]" "pd_next db' = pd_next db + 1"
    "pn_req r = (if pe_empty env (pn_req p) then pe_uuid env else pn_req p)"
  using assms pin_BeforeSave_D(2,3)
  by (auto simp: pin_insert_def Let_def pin_BeforeCreate_def split: option.splits sum.splits if_splits)

lemma pin_insert_wf:
  assumes "pin_insert env fault p db = Inr (r, db')" and "pins_wf env db" and "codec_ok env"
  shows "pins_wf env db'"
proof (rule pin_insert_D [OF assms(1)])
  fix q assume q: "pin_BeforeSave env p = Inr q" "pn_cid r = pn_cid q" "\<not> req_taken (pn_req r) db"
    "pn_id r = pd_next db" "pd_rows db' = pd_rows db @ [r]" "pd_next db' = pd_next db + 1"
  have "stored_cid env (pn_cid r)" using pin_BeforeSave_cid [OF q(1) assms(3)] q(2) by simp
  moreover have "pn_id r \<notin> pn_id ` set (pd_rows db)" using q(4) assms(2) by (auto simp: pins_wf_def)
  moreover have "pn_req r \<notin> pn_req ` set (pd_rows db)"
    using q(3) by (auto simp: req_taken_def list_ex_iff)
  ultimately show ?thesis using assms(2) q(4-6) by (auto simp: pins_wf_def less_SucI)
qed

lemma map_pins_rows [simp]: "pd_rows (map_pins f db) = map f (pd_rows db)"
  by (simp add: map_pins_def)

lemma map_pins_wf:
  assumes "pins_wf env db"
    and "\<And>r. pn_id (f r) = pn_id r" "\<And>r. pn_req (f r) = pn_req r" "\<And>r. pn_cid (f r) = pn_cid r"
  shows "pins_wf env (map_pins f db)"
  using assms by (auto simp: pins_wf_def map_pins_def comp_def)

lemma soft_delete_pins_wf: "pins_wf env db \<Longrightarrow> pins_wf env (soft_delete_pins P db)"
  by (auto simp: soft_delete_pins_def intro!: map_pins_wf)

lemma live_pins_delete [simp]: "live_pins Q (soft_delete_pins P db) = live_pins (\<lambda>r. Q r \<and> \<not> P r) db"
  if "\<And>r b. Q (r\<lparr>pn_deleted := b\<rparr>) = Q r"
proof -
  have "filter (\<lambda>r. \<not> pn_deleted r \<and> Q r)
          (map (\<lambda>r. if \<not> pn_deleted r \<and> P r then r\<lparr>pn_deleted := True\<rparr> else r) rs) =
        filter (\<lambda>r. \<not> pn_deleted r \<and> Q r \<and> \<not> P r) rs" for rs
    using that by (induction rs) auto
  then show ?thesis by (simp add: live_pins_def soft_delete_pins_def)
qed

lemma first_pin_D:
  assumes "first_pin fault P db = Inr r"
  shows "r \<in> set (pd_rows db)" "\<not> pn_deleted r" "P r" "fault = None"
proof -
  obtain rs where "live_pins P db = r # rs"
    using assms by (auto simp: first_pin_def split: option.splits list.splits)
  then have "r \<in> set (live_pins P db)" by simp
  then show "r \<in> set (pd_rows db)" "\<not> pn_deleted r" "P r" by (auto simp: live_pins_def)
  show "fault = None" using assms by (auto simp: first_pin_def split: option.splits)
qed

lemma first_pin_None: "first_pin fault P db = Inl RecordNotFound \<Longrightarrow> fault = None \<Longrightarrow> live_pins P db = []"
  by (auto simp: first_pin_def split: list.splits)

lemma pins_req_inj:
  assumes "pins_wf env db" "r \<in> set (pd_rows db)" "s \<in> set (pd_rows db)" "pn_req r = pn_req s"
  shows "r = s"
  using assms by (auto simp: pins_wf_def distinct_map dest: inj_onD)

end
