(* ===== verification/File_Manager.thy ===== *)
theory File_Manager
  imports Pin_Row Go_Strings
begin

text \<open>
  File paths: \<^verbatim>\<open>internal/service/file_manager/file_manager.go\<close> over the table of \<^verbatim>\<open>internal/db/file_path.go\<close> and
  the pins.  The index of the migrations is on the user, the CID, the path and the time of deletion; as NULL is
  distinct from NULL it binds deleted rows only.  The filters of \<open>queryutil\<close> are parameters.
\<close>

section \<open>Rows\<close>

abbreviation RootPath :: string where "RootPath \<equiv> ''/''"
definition MaxPathLength :: nat where "MaxPathLength = 1000"
definition MaxNameLength :: nat where "MaxNameLength = 255"
definition MaxParentPathLength :: nat where "MaxParentPathLength = 1000"

record file_path =
  fp_id :: nat
  fp_user :: nat
  fp_cid :: bytes
  fp_path :: string
  fp_name :: string
  fp_type :: nat
  fp_size :: "64 word"
  fp_dir :: bool
  fp_orphan :: bool
  fp_parent :: string
  fp_depth :: nat
  fp_deleted :: "nat option"

record path_db =
  fd_rows :: "file_path list"
  fd_next :: nat

abbreviation ErrDuplicateFilePath :: gerr where "ErrDuplicateFilePath \<equiv> Opaque ''file path already exists''"

definition validateFields :: "file_path \<Rightarrow> gerr option" where
  "validateFields p =
     (if MaxPathLength < length (fp_path p)
      then Some (Opaque ''path length exceeds maximum allowed length of 1000 characters'')
      else if MaxNameLength < length (fp_name p)
      then Some (Opaque ''name length exceeds maximum allowed length of 255 characters'')
      else if MaxParentPathLength < length (fp_parent p)
      then Some (Opaque ''parent_path length exceeds maximum allowed length of 1000 characters'')
      else None)"

definition empty_path :: file_path where
  "empty_path = \<lparr>fp_id = 0, fp_user = 0, fp_cid = [], fp_path = [], fp_name = [], fp_type = 0, fp_size = 0,
     fp_dir = False, fp_orphan = False, fp_parent = [], fp_depth = 0, fp_deleted = None\<rparr>"

definition path_key :: "file_path \<Rightarrow> nat \<times> bytes \<times> string" where
  "path_key r = (fp_user r, fp_cid r, fp_path r)"

definition path_index_ok :: "file_path list \<Rightarrow> bool" where
  "path_index_ok rs \<longleftrightarrow> distinct (map (\<lambda>r. (path_key r, fp_deleted r)) (filter (\<lambda>r. fp_deleted r \<noteq> None) rs))"

definition live_paths :: "(file_path \<Rightarrow> bool) \<Rightarrow> path_db \<Rightarrow> file_path list" where
  "live_paths P db = filter (\<lambda>r. fp_deleted r = None \<and> P r) (fd_rows db)"

definition path_insert :: "gerr option \<Rightarrow> file_path \<Rightarrow> path_db \<Rightarrow> gerr option \<times> path_db" where
  "path_insert fault p db =
     (case fault of
        Some e \<Rightarrow> (Some e, db)
      | None \<Rightarrow>
          (case validateFields p of
             Some e \<Rightarrow> (Some e, db)
           | None \<Rightarrow> (None, db\<lparr>fd_rows := fd_rows db @ [p\<lparr>fp_id := fd_next db, fp_deleted := None\<rparr>],
                               fd_next := fd_next db + 1\<rparr>)))"

text \<open>A delete is an update of the time of deletion, which the index may refuse.\<close>

definition mark_deleted :: "nat \<Rightarrow> (file_path \<Rightarrow> bool) \<Rightarrow> file_path list \<Rightarrow> file_path list" where
  "mark_deleted now P = map (\<lambda>r. if fp_deleted r = None \<and> P r then r\<lparr>fp_deleted := Some now\<rparr> else r)"

definition soft_delete_paths ::
    "gerr option \<Rightarrow> nat \<Rightarrow> (file_path \<Rightarrow> bool) \<Rightarrow> path_db \<Rightarrow> gerr option \<times> path_db" where
  "soft_delete_paths fault now P db =
     (case fault of
        Some e \<Rightarrow> (Some e, db)
      | None \<Rightarrow>
          (let rs = mark_deleted now P (fd_rows db)
           in if path_index_ok rs then (None, db\<lparr>fd_rows := rs\<rparr>)
              else (Some (Opaque ''UNIQUE constraint failed: ipfs_file_paths''), db)))"

section \<open>Creating and changing paths\<close>

text \<open>\<open>CreateFilePath\<close>: a look for the same path in one transaction, the insert in another.\<close>

definition create_exists :: "gerr option \<Rightarrow> file_path \<Rightarrow> path_db \<Rightarrow> gerr + bool" where
  "create_exists fault p db =
     (case fault of
        Some e \<Rightarrow> if e = RecordNotFound then Inr False else Inl e
      | None \<Rightarrow> Inr (live_paths (\<lambda>r. path_key r = path_key p) db \<noteq> []))"

definition create_finish ::
    "gerr + bool \<Rightarrow> gerr option \<Rightarrow> file_path \<Rightarrow> path_db \<Rightarrow> gerr option \<times> path_db" where
  "create_finish seen fault p db =
     (case seen of
        Inl e \<Rightarrow> (Some e, db)
      | Inr True \<Rightarrow> (Some ErrDuplicateFilePath, db)
      | Inr False \<Rightarrow> path_insert fault p db)"

definition CreateFilePath ::
    "gerr option \<Rightarrow> gerr option \<Rightarrow> file_path \<Rightarrow> path_db \<Rightarrow> gerr option \<times> path_db" where
  "CreateFilePath fault1 fault2 p db = create_finish (create_exists fault1 p db) fault2 p db"

text \<open>
  \<open>UpdateFilePath\<close>.  The hook \<open>BeforeUpdate\<close> runs on the \<open>Model\<close>, an empty row, and not on the new values.
\<close>

definition path_updates :: "file_path \<Rightarrow> file_path \<Rightarrow> file_path" where
  "path_updates p r =
     r\<lparr>fp_name := fp_name p, fp_type := fp_type p, fp_size := fp_size p, fp_dir := fp_dir p,
       fp_orphan := fp_orphan p, fp_parent := fp_parent p, fp_depth := fp_depth p\<rparr>"

definition UpdateFilePath :: "gerr option \<Rightarrow> file_path \<Rightarrow> path_db \<Rightarrow> gerr option \<times> path_db" where
  "UpdateFilePath fault p db =
     (case fault of
        Some e \<Rightarrow> (Some e, db)
      | None \<Rightarrow>
          (case validateFields empty_path of
             Some e \<Rightarrow> (Some e, db)
           | None \<Rightarrow>
               (None, db\<lparr>fd_rows := map (\<lambda>r. if fp_deleted r = None \<and> path_key r = path_key p
                                          then path_updates p r else r) (fd_rows db)\<rparr>)))"

definition DeleteFilePath :: "gerr option \<Rightarrow> nat \<Rightarrow> nat \<Rightarrow> bytes \<Rightarrow> path_db \<Rightarrow> gerr option \<times> path_db" where
  "DeleteFilePath fault now user c db =
     soft_delete_paths fault now (\<lambda>r. fp_user r = user \<and> fp_cid r = c) db"

definition DeleteFilePathsByUserID :: "gerr option \<Rightarrow> nat \<Rightarrow> nat \<Rightarrow> path_db \<Rightarrow> gerr option \<times> path_db" where
  "DeleteFilePathsByUserID fault now user db = soft_delete_paths fault now (\<lambda>r. fp_user r = user) db"

text \<open>
  \<open>DeleteFilePathSmart\<close>: each path of the CID goes, unless a live pin of the user has the CID.  \<open>fcount\<close>, \<open>fdel\<close> and
  \<open>now\<close> are the errors of the two queries for a row and the time of its deletion.
\<close>

definition smart_delete_one ::
    "(nat \<Rightarrow> gerr option) \<Rightarrow> (nat \<Rightarrow> gerr option) \<Rightarrow> (nat \<Rightarrow> nat) \<Rightarrow> pin_db \<Rightarrow> nat \<Rightarrow> bytes \<Rightarrow>
     file_path \<Rightarrow> path_db \<Rightarrow> path_db" where
  "smart_delete_one fcount fdel now pins user c p db =
     (case fcount (fp_id p) of
        Some e \<Rightarrow> db
      | None \<Rightarrow>
          if length (live_pins (\<lambda>r. pn_user r = user \<and> pn_cid r = c) pins) = 0
          then snd (soft_delete_paths (fdel (fp_id p)) (now (fp_id p)) (\<lambda>r. fp_id r = fp_id p) db)
          else db)"

definition DeleteFilePathSmart ::
    "gerr option \<Rightarrow> (nat \<Rightarrow> gerr option) \<Rightarrow> (nat \<Rightarrow> gerr option) \<Rightarrow> (nat \<Rightarrow> nat) \<Rightarrow> pin_db \<Rightarrow> nat \<Rightarrow> bytes \<Rightarrow>
     path_db \<Rightarrow> gerr option \<times> path_db" where
  "DeleteFilePathSmart fault fcount fdel now pins user c db =
     (case fault of
        Some e \<Rightarrow> (Some e, db)
      | None \<Rightarrow> (None, fold (smart_delete_one fcount fdel now pins user c)
                        (live_paths (\<lambda>r. fp_user r = user \<and> fp_cid r = c) db) db))"

section \<open>Reading paths\<close>

text \<open>
  \<open>queryutil\<close>: the field and the string value of a filter, the filters the code builds, \<open>DeepFindFilter\<close>, and
  which rows a filter selects.
\<close>

record 'f filters =
  qf_field :: "'f \<Rightarrow> string"
  qf_value :: "'f \<Rightarrow> string option"
  qf_equal :: "string \<Rightarrow> string \<Rightarrow> 'f"
  qf_starts :: "string \<Rightarrow> string \<Rightarrow> 'f"
  qf_or :: "'f \<Rightarrow> 'f \<Rightarrow> 'f"
  qf_find :: "'f list \<Rightarrow> string \<Rightarrow> 'f option"
  qf_sat :: "'f \<Rightarrow> file_path \<Rightarrow> bool"

definition hierarchical_filter :: "'f filters \<Rightarrow> string \<Rightarrow> 'f" where
  "hierarchical_filter q v =
     (if v = RootPath then qf_equal q ''parent_path'' RootPath
      else qf_or q (qf_equal q ''parent_path'' v) (qf_starts q ''parent_path'' v))"

definition processHierarchicalFilters :: "'f filters \<Rightarrow> 'f list \<Rightarrow> 'f list" where
  "processHierarchicalFilters q fs =
     (case qf_find q fs ''parent_path'' of
        None \<Rightarrow> fs
      | Some f \<Rightarrow>
          (case qf_value q f of
             None \<Rightarrow> fs
           | Some v \<Rightarrow> filter (\<lambda>g. qf_field q g \<noteq> ''parent_path'') fs @ [hierarchical_filter q v]))"

definition ListFiles ::
    "'f filters \<Rightarrow> gerr option \<Rightarrow> gerr option \<Rightarrow> (file_path list \<Rightarrow> file_path list) \<Rightarrow>
     (file_path list \<Rightarrow> file_path list) \<Rightarrow> nat \<Rightarrow> 'f list \<Rightarrow> path_db \<Rightarrow> gerr + (file_path list \<times> nat)" where
  "ListFiles q fcount ffind srt page user fs db =
     (let rows = live_paths (\<lambda>r. fp_user r = user \<and>
                    list_all (\<lambda>f. qf_sat q f r) (processHierarchicalFilters q fs)) db
      in case fcount of
           Some e \<Rightarrow> Inl (Wrapped ''failed to count files'' e)
         | None \<Rightarrow>
             (case ffind of
                Some e \<Rightarrow> Inl (Wrapped ''failed to list files'' e)
              | None \<Rightarrow> Inr (page (srt rows), length rows)))"

text \<open>\<open>ORDER BY is_directory DESC, name ASC\<close>; the order of names is the collation of the database.\<close>

definition ListDirectoryContents ::
    "(file_path list \<Rightarrow> file_path list) \<Rightarrow> gerr option \<Rightarrow> nat \<Rightarrow> string \<Rightarrow> path_db \<Rightarrow> gerr + file_path list" where
  "ListDirectoryContents by_name fault user parent db =
     (case fault of
        Some e \<Rightarrow> Inl e
      | None \<Rightarrow> Inr (sort_key (\<lambda>r. if fp_dir r then 0 else 1 :: nat)
                      (by_name (live_paths (\<lambda>r. fp_user r = user \<and> fp_parent r = parent) db))))"

fun crumbs :: "string \<Rightarrow> string list \<Rightarrow> string list" where
  "crumbs cur [] = []"
| "crumbs cur (p # ps) =
     (if p = [] then crumbs cur ps
      else let cur' = (if cur = [] then ''/'' @ p else cur @ ''/'' @ p) in cur' # crumbs cur' ps)"

definition GetBreadcrumbs ::
    "gerr option \<Rightarrow> gerr option \<Rightarrow> nat \<Rightarrow> string \<Rightarrow> path_db \<Rightarrow> gerr + file_path list" where
  "GetBreadcrumbs fault1 fault2 user path db =
     (if path = [] then Inl (Opaque ''path cannot be empty'')
      else if \<not> HasPrefix path ''/'' then Inl (Opaque (''path must start with '' @ [CHR 0x27] @ ''/'' @ [CHR 0x27]))
      else if path = RootPath then Inr []
      else case fault1 of
        Some e \<Rightarrow> Inl (if e = RecordNotFound then Opaque ''path not found for user'' else e)
      | None \<Rightarrow>
          if live_paths (\<lambda>r. fp_user r = user \<and> fp_path r = path) db = []
          then Inl (Opaque ''path not found for user'')
          else (case fault2 of
             Some e \<Rightarrow> Inl e
           | None \<Rightarrow> Inr (sort_key fp_depth
               (live_paths (\<lambda>r. fp_user r = user \<and>
                  fp_path r \<in> set (crumbs [] (Split (Trim path ''/'') CHR ''/''))) db))))"

section \<open>Pins and paths\<close>

text \<open>The two queries are raw SQL: they see deleted rows of both tables.\<close>

definition GetIncompletePins :: "gerr option \<Rightarrow> pin_db \<Rightarrow> path_db \<Rightarrow> gerr + pin_row list" where
  "GetIncompletePins fault pins db =
     (case fault of
        Some e \<Rightarrow> Inl (Wrapped ''failed to find incomplete pins'' e)
      | None \<Rightarrow> Inr (filter (\<lambda>p. \<not> list_ex (\<lambda>r. fp_user r = pn_user p \<and> fp_cid r = pn_cid p) (fd_rows db))
                      (pd_rows pins)))"

definition GetOrphanedPaths :: "gerr option \<Rightarrow> pin_db \<Rightarrow> path_db \<Rightarrow> gerr + file_path list" where
  "GetOrphanedPaths fault pins db =
     (case fault of
        Some e \<Rightarrow> Inl (Wrapped ''failed to find orphaned paths'' e)
      | None \<Rightarrow> Inr (filter (\<lambda>r. \<not> list_ex (\<lambda>p. pn_user p = fp_user r \<and> pn_cid p = fp_cid r) (pd_rows pins))
                      (fd_rows db)))"

definition ValidatePathCompleteness :: "gerr option \<Rightarrow> pin_db \<Rightarrow> path_db \<Rightarrow> gerr + bool" where
  "ValidatePathCompleteness fault pins db =
     (case GetIncompletePins fault pins db of
        Inl e \<Rightarrow> Inl (Wrapped ''failed to get incomplete pins'' e)
      | Inr ps \<Rightarrow> Inr (\<not> 0 < length ps))"

definition HealthCheck :: "gerr option \<Rightarrow> gerr option \<Rightarrow> pin_db \<Rightarrow> path_db \<Rightarrow> gerr option" where
  "HealthCheck fault1 fault2 pins db =
     (case fault1 of
        Some e \<Rightarrow> Some (Wrapped ''database connectivity check failed'' e)
      | None \<Rightarrow>
          (case ValidatePathCompleteness fault2 pins db of
             Inl e \<Rightarrow> Some (Wrapped ''path completeness validation failed'' e)
           | Inr v \<Rightarrow> None))"

end
