(* ===== verification/Pin_Service.thy ===== *)
theory Pin_Service
  imports File_Manager MetadataStore
begin

text \<open>
  The pin service: \<^verbatim>\<open>internal/service/pin/pin.go\<close>.  The pin service of the portal core, the delegate addresses of
  the node and the queries of \<open>queryutil\<close> are parameters.
\<close>

section \<open>What the service calls\<close>

text \<open>The core pins over their state, whose rows are of type \<open>'p\<close>; a query that fails gives no row.\<close>

record ('c, 'p) core_pins =
  cp_get :: "storage_hash \<Rightarrow> nat \<Rightarrow> 'c \<Rightarrow> gerr + 'p option"
  cp_del :: "storage_hash \<Rightarrow> nat \<Rightarrow> 'c \<Rightarrow> gerr option \<times> 'c"

record ('c, 'p) pin_state =
  st_pins :: pin_db
  st_paths :: path_db
  st_core :: 'c
  st_events :: "('p \<times> string) list"   \<comment> \<open>the unpinned events fired: the core pin and the client's address\<close>

text \<open>The errors of the queries of a delete, the last three those of \<open>DeleteFilePathSmart\<close>, and the clock.\<close>

record delete_faults =
  df_load :: "gerr option"
  df_delete :: "gerr option"
  df_count :: "gerr option"
  df_paths :: "gerr option"
  df_path_count :: "nat \<Rightarrow> gerr option"
  df_path_delete :: "nat \<Rightarrow> gerr option"
  df_now :: "nat \<Rightarrow> nat"

datatype 'a call = Returned "gerr + 'a" | Panicked

definition getDelegatesJSON :: "gerr + string list \<Rightarrow> (string list \<Rightarrow> gerr + bytes) \<Rightarrow> gerr + bytes" where
  "getDelegatesJSON delegates marshal =
     (case delegates of Inl e \<Rightarrow> Inl e | Inr ds \<Rightarrow> marshal ds)"

definition addDelegateAddresses :: "gerr + bytes \<Rightarrow> pin_row \<Rightarrow> pin_row" where
  "addDelegateAddresses dg p = (case dg of Inl e \<Rightarrow> p | Inr j \<Rightarrow> p\<lparr>pn_delegates := j\<rparr>)"

section \<open>Adding and reading pins\<close>

text \<open>
  \<open>AddPin\<close>.  The log line after the insert evaluates \<open>cid.MustParse\<close> on the stored bytes, at every log level.
\<close>

definition AddPin :: "pin_env \<Rightarrow> gerr + bytes \<Rightarrow> gerr option \<Rightarrow> pin_row \<Rightarrow> pin_db \<Rightarrow> pin_row call \<times> pin_db" where
  "AddPin env dg fault p db =
     (case pin_insert env fault (addDelegateAddresses dg p) db of
        Inl e \<Rightarrow> (Returned (Inl (Wrapped ''failed to add pin'' e)), db)
      | Inr (r, db') \<Rightarrow>
          (case pe_cast env (pn_cid r) of
             Inl e \<Rightarrow> (Panicked, db')
           | Inr c \<Rightarrow> (Returned (Inr r), db')))"

definition GetPinByRequestID :: "gerr option \<Rightarrow> bytes \<Rightarrow> pin_db \<Rightarrow> gerr + pin_row option" where
  "GetPinByRequestID fault q db =
     (case first_pin fault (\<lambda>r. pn_req r = q) db of
        Inl e \<Rightarrow> if e = RecordNotFound then Inr None
                 else Inl (Wrapped ''failed to get pin by request ID'' e)
      | Inr r \<Rightarrow> Inr (Some r))"

definition GetPinByRequestIDForUser :: "gerr option \<Rightarrow> nat \<Rightarrow> bytes \<Rightarrow> pin_db \<Rightarrow> gerr + pin_row option" where
  "GetPinByRequestIDForUser fault user q db =
     (case GetPinByRequestID fault q db of
        Inl e \<Rightarrow> Inl e
      | Inr None \<Rightarrow> Inr None
      | Inr (Some p) \<Rightarrow> if pn_user p \<noteq> user then Inr None else Inr (Some p))"

definition GetPinByCIDAndUser :: "pin_env \<Rightarrow> gerr option \<Rightarrow> cid \<Rightarrow> nat \<Rightarrow> pin_db \<Rightarrow> gerr + pin_row option" where
  "GetPinByCIDAndUser env fault c user db =
     (case first_pin fault (\<lambda>r. pn_user r = user \<and> pn_cid r = pe_bytes env c) db of
        Inl e \<Rightarrow> if e = RecordNotFound then Inr None
                 else Inl (Wrapped ''failed to get pin by CID and user'' e)
      | Inr r \<Rightarrow> Inr (Some r))"

text \<open>
  \<open>ListPins\<close>: \<open>flt\<close>, \<open>srt\<close> and \<open>page\<close> are what \<open>queryutil\<close> adds to the query, \<open>cnt\<close> the count of the query that
  already has its page.
\<close>

definition ListPins ::
    "gerr + bytes \<Rightarrow> gerr option \<Rightarrow> gerr option \<Rightarrow> (pin_row \<Rightarrow> bool) \<Rightarrow> (pin_row list \<Rightarrow> pin_row list) \<Rightarrow>
     (pin_row list \<Rightarrow> pin_row list) \<Rightarrow> (pin_row list \<Rightarrow> int) \<Rightarrow> pin_db \<Rightarrow> gerr + (pin_row list \<times> int)" where
  "ListPins dg fcount ffind flt srt page cnt db =
     (case fcount of
        Some e \<Rightarrow> Inl (Wrapped ''failed to count pins'' e)
      | None \<Rightarrow>
          (case ffind of
             Some e \<Rightarrow> Inl (Wrapped ''failed to list pins'' e)
           | None \<Rightarrow>
               (case dg of
                  Inl e \<Rightarrow> Inl (Wrapped ''failed to get delegate addresses'' e)
                | Inr j \<Rightarrow> Inr (map (\<lambda>p. p\<lparr>pn_delegates := j\<rparr>) (page (srt (live_pins flt db))),
                                cnt (live_pins flt db)))))"

definition ListPinsForUser ::
    "gerr + bytes \<Rightarrow> gerr option \<Rightarrow> gerr option \<Rightarrow> nat \<Rightarrow> (pin_row \<Rightarrow> bool) \<Rightarrow> (pin_row list \<Rightarrow> pin_row list) \<Rightarrow>
     (pin_row list \<Rightarrow> pin_row list) \<Rightarrow> (pin_row list \<Rightarrow> int) \<Rightarrow> pin_db \<Rightarrow> gerr + (pin_row list \<times> int)" where
  "ListPinsForUser dg fcount ffind user flt srt page cnt db =
     ListPins dg fcount ffind (\<lambda>r. pn_user r = user \<and> flt r) srt page cnt db"

text \<open>\<open>UpdatePinStatus\<close>: the hook runs on the \<open>Model\<close>, an empty pin, and not on the new status.\<close>

definition empty_pin :: pin_row where
  "empty_pin = \<lparr>pn_id = 0, pn_req = [], pn_user = 0, pn_status = [], pn_cid = [], pn_name = [], pn_origins = [],
     pn_meta = [], pn_delegates = [], pn_info = [], pn_deleted = False\<rparr>"

definition UpdatePinStatus ::
    "pin_env \<Rightarrow> gerr option \<Rightarrow> bytes \<Rightarrow> string \<Rightarrow> bytes \<Rightarrow> pin_db \<Rightarrow> gerr option \<times> pin_db" where
  "UpdatePinStatus env fault q status info db =
     (case (case fault of Some e \<Rightarrow> Inl e | None \<Rightarrow> pin_BeforeSave env empty_pin) of
        Inl e \<Rightarrow> (Some (Wrapped ''failed to update pin status'' e), db)
      | Inr _ \<Rightarrow>
          if live_pins (\<lambda>r. pn_req r = q) db = []
          then (Some (Opaque ''no pin found with request ID''), db)
          else (None, map_pins (\<lambda>r. if \<not> pn_deleted r \<and> pn_req r = q
                                     then r\<lparr>pn_status := status, pn_info := info\<rparr> else r) db))"

section \<open>Replacing a pin\<close>

definition ReplacePin ::
    "pin_env \<Rightarrow> gerr option \<Rightarrow> gerr option \<Rightarrow> bytes \<Rightarrow> pin_row \<Rightarrow> pin_db \<Rightarrow> (gerr + pin_row) \<times> pin_db" where
  "ReplacePin env fdel fins old new db =
     (case fdel of
        Some e \<Rightarrow> (Inl (Wrapped ''failed to delete old pin'' e), db)
      | None \<Rightarrow>
          (case pin_insert env fins new (soft_delete_pins (\<lambda>r. pn_req r = old) db) of
             Inl e \<Rightarrow> (Inl (Wrapped ''failed to add new pin'' e), db)
           | Inr (r, db') \<Rightarrow> (Inr r, db')))"

definition ReplacePinForUser ::
    "pin_env \<Rightarrow> gerr option \<Rightarrow> gerr option \<Rightarrow> gerr option \<Rightarrow> nat \<Rightarrow> bytes \<Rightarrow> pin_row \<Rightarrow> pin_db \<Rightarrow>
     (gerr + pin_row) \<times> pin_db" where
  "ReplacePinForUser env fload fdel fins user old new db =
     (case first_pin fload (\<lambda>r. pn_req r = old \<and> pn_user r = user) db of
        Inl e \<Rightarrow> (Inl (if e = RecordNotFound then Opaque ''pin not found for user'' else e), db)
      | Inr _ \<Rightarrow> ReplacePin env fdel fins old new db)"

section \<open>Deleting a pin\<close>

definition countUserPinsByCID :: "gerr option \<Rightarrow> nat \<Rightarrow> bytes \<Rightarrow> bytes \<Rightarrow> pin_db \<Rightarrow> gerr + nat" where
  "countUserPinsByCID fault user c q db =
     (case fault of
        Some e \<Rightarrow> Inl (Wrapped ''failed to count user pins by CID'' e)
      | None \<Rightarrow> Inr (length (live_pins (\<lambda>r. pn_user r = user \<and> pn_cid r = c \<and> pn_req r \<noteq> q) db)))"

text \<open>
  The transaction of \<open>DeletePin\<close>.  The count opens a transaction of its own and sees \<open>view\<close>, what is committed when it
  runs, not the transaction around it; the result tells the row and whether to unpin its CID.
\<close>

definition delete_tx ::
    "delete_faults \<Rightarrow> bytes \<Rightarrow> pin_db \<Rightarrow> pin_db \<Rightarrow> (gerr + (pin_row \<times> bool) option) \<times> pin_db" where
  "delete_tx df q view db =
     (case first_pin (df_load df) (\<lambda>r. pn_req r = q) db of
        Inl e \<Rightarrow> (if e = RecordNotFound then Inr None else Inl e, db)
      | Inr r \<Rightarrow>
          (case df_delete df of
             Some e \<Rightarrow> (Inl e, db)
           | None \<Rightarrow>
               (case countUserPinsByCID (df_count df) (pn_user r) (pn_cid r) q view of
                  Inl e \<Rightarrow> (Inl e, db)
                | Inr n \<Rightarrow> (Inr (Some (r, n = 0)), soft_delete_pins (\<lambda>r. pn_req r = q) db))))"

text \<open>What follows the commit when no other pin of the user has the CID.\<close>

definition unpin_cid ::
    "('c, 'p) core_pins \<Rightarrow> pin_env \<Rightarrow> delete_faults \<Rightarrow> ctx \<Rightarrow> pin_row \<Rightarrow> ('c, 'p) pin_state \<Rightarrow>
     gerr option \<times> ('c, 'p) pin_state" where
  "unpin_cid cp env df cx r s =
     (case pe_cast env (pn_cid r) of
        Inl e \<Rightarrow> (Some (Wrapped ''cid cast'' e), s)
      | Inr c \<Rightarrow>
          (let h = NewIPFSHash c;
               core_pin = (case cp_get cp h (pn_user r) (st_core s) of Inl e \<Rightarrow> None | Inr p \<Rightarrow> p)
           in case cp_del cp h (pn_user r) (st_core s) of
                (Some e, k) \<Rightarrow> (Some (Wrapped ''failed to unpin CID in core'' e), s\<lparr>st_core := k\<rparr>)
              | (None, k) \<Rightarrow>
                  (None, s\<lparr>st_core := k,
                     st_events := st_events s @ (case core_pin of None \<Rightarrow> [] | Some p \<Rightarrow> [(p, GetClientIP cx)]),
                     st_paths := snd (DeleteFilePathSmart (df_paths df) (df_path_count df) (df_path_delete df)
                                   (df_now df) (st_pins s) (pn_user r) (pn_cid r) (st_paths s))\<rparr>)))"

definition DeletePin ::
    "('c, 'p) core_pins \<Rightarrow> pin_env \<Rightarrow> delete_faults \<Rightarrow> ctx \<Rightarrow> bytes \<Rightarrow> ('c, 'p) pin_state \<Rightarrow>
     gerr option \<times> ('c, 'p) pin_state" where
  "DeletePin cp env df cx q s =
     (case delete_tx df q (st_pins s) (st_pins s) of
        (Inl e, db) \<Rightarrow> (Some e, s\<lparr>st_pins := db\<rparr>)
      | (Inr None, db) \<Rightarrow> (None, s\<lparr>st_pins := db\<rparr>)
      | (Inr (Some (r, unpin)), db) \<Rightarrow>
          if unpin then unpin_cid cp env df cx r (s\<lparr>st_pins := db\<rparr>) else (None, s\<lparr>st_pins := db\<rparr>))"

definition DeletePinForUser ::
    "('c, 'p) core_pins \<Rightarrow> pin_env \<Rightarrow> gerr option \<Rightarrow> delete_faults \<Rightarrow> ctx \<Rightarrow> nat \<Rightarrow> bytes \<Rightarrow> ('c, 'p) pin_state \<Rightarrow>
     gerr option \<times> ('c, 'p) pin_state" where
  "DeletePinForUser cp env fault df cx user q s =
     (case first_pin fault (\<lambda>r. pn_req r = q \<and> pn_user r = user) (st_pins s) of
        Inl e \<Rightarrow> (Some (if e = RecordNotFound then Opaque ''pin not found for user'' else e), s)
      | Inr _ \<Rightarrow> DeletePin cp env df cx q s)"

section \<open>Pins that share blocks\<close>

definition related_blocks :: "pin_env \<Rightarrow> bytes \<Rightarrow> meta_db \<Rightarrow> bytes list" where
  "related_blocks env c meta =
     (let is_c = (\<lambda>i. case block_at i meta of Some b \<Rightarrow> pe_bytes env (br_cid b) = c | None \<Rightarrow> False);
          children = map lr_child (filter (\<lambda>l. case lr_parent l of Some i \<Rightarrow> is_c i | None \<Rightarrow> False) (md_links meta));
          parents = map lr_parent (filter (\<lambda>l. is_c (lr_child l)) (md_links meta))
      in lo_uniq (map (\<lambda>b. pe_bytes env (br_cid b))
           (filter (\<lambda>b. br_id b \<in> set children \<or> Some (br_id b) \<in> set parents) (md_blocks meta))))"

definition getRelatedCIDs ::
    "pin_env \<Rightarrow> gerr option \<Rightarrow> gerr option \<Rightarrow> nat \<Rightarrow> bytes \<Rightarrow> meta_db \<Rightarrow> pin_db \<Rightarrow> gerr + bytes list" where
  "getRelatedCIDs env fault1 fault2 user c meta pins =
     (case fault1 of
        Some e \<Rightarrow> Inl (Wrapped ''failed to find related blocks'' e)
      | None \<Rightarrow>
          (let related = related_blocks env c meta
           in if related = [] then Inr []
              else case fault2 of
                Some e \<Rightarrow> Inl (Wrapped ''failed to filter pinned CIDs'' e)
              | None \<Rightarrow> Inr (map pn_cid (live_pins (\<lambda>r. pn_user r = user \<and> pn_cid r \<in> set related) pins))))"

definition ValidateDAGCompletion ::
    "pin_env \<Rightarrow> gerr option \<Rightarrow> gerr option \<Rightarrow> pin_row \<Rightarrow> meta_db \<Rightarrow> pin_db \<Rightarrow> gerr + bytes list" where
  "ValidateDAGCompletion env fault1 fault2 p meta pins =
     (case getRelatedCIDs env fault1 fault2 (pn_user p) (pn_cid p) meta pins of
        Inl e \<Rightarrow> Inl (Wrapped ''failed to get related CIDs'' e)
      | Inr cs \<Rightarrow> Inr (if 0 < length cs then cs @ [pn_cid p] else cs))"

end
