(* ===== verification/File_Paths.thy ===== *)
theory File_Paths
  imports File_Manager
begin

text \<open>
  What holds of the table of file paths: its invariant, what a delete of the paths of a CID removes, the path of
  breadcrumbs, and the queries that look at deleted rows.
\<close>

section \<open>The invariant\<close>

definition paths_wf :: "path_db \<Rightarrow> bool" where
  "paths_wf db \<longleftrightarrow>
     distinct (map fp_id (fd_rows db)) \<and> (\<forall>r \<in> set (fd_rows db). fp_id r < fd_next db) \<and>
     distinct (map path_key (live_paths (\<lambda>r. True) db)) \<and> path_index_ok (fd_rows db)"

lemma live_paths_iff: "r \<in> set (live_paths P db) \<longleftrightarrow> r \<in> set (fd_rows db) \<and> fp_deleted r = None \<and> P r"
  by (auto simp: live_paths_def)

lemma live_paths_True: "live_paths P db = filter P (live_paths (\<lambda>r. True) db)"
  by (simp add: live_paths_def conj_commute)

lemma validateFields_lengths:
  "validateFields p = None \<longleftrightarrow>
     length (fp_path p) \<le> MaxPathLength \<and> length (fp_name p) \<le> MaxNameLength \<and>
     length (fp_parent p) \<le> MaxParentPathLength"
  by (auto simp: validateFields_def)

lemma validate_empty_path [simp]: "validateFields empty_path = None"
  by (simp add: validateFields_lengths empty_path_def)

lemma path_insert_D:
  assumes "path_insert fault p db = (err, db')"
  shows "err \<noteq> None \<and> db' = db \<or>
         err = None \<and> fault = None \<and> validateFields p = None \<and> fd_next db' = fd_next db + 1 \<and>
         fd_rows db' = fd_rows db @ [p\<lparr>fp_id := fd_next db, fp_deleted := None\<rparr>]"
proof (cases "validateFields p")
  case None
  then show ?thesis using assms by (auto simp: path_insert_def split: option.splits)
next
  case (Some e)
  have "path_insert fault p db = (if fault = None then Some e else fault, db)"
    using Some by (cases fault) (simp_all add: path_insert_def)
  then have "err \<noteq> None \<and> db' = db" using assms by (auto split: if_splits)
  then show ?thesis by simp
qed

lemma create_exists_False:
  assumes "create_exists fault p db = Inr False" and "fault \<noteq> Some RecordNotFound"
  shows "path_key p \<notin> path_key ` set (live_paths (\<lambda>r. True) db)"
proof -
  have "live_paths (\<lambda>r. path_key r = path_key p) db = []"
    using assms by (auto simp: create_exists_def split: option.splits if_splits)
  then show ?thesis by (auto simp: live_paths_def filter_empty_conv)
qed

lemma CreateFilePath_D:
  assumes "CreateFilePath fault1 fault2 p db = (err, db')"
  shows "err \<noteq> None \<and> db' = db \<or>
         err = None \<and> create_exists fault1 p db = Inr False \<and> path_insert fault2 p db = (None, db')"
  using assms path_insert_D [of fault2 p db err db']
  by (auto simp: CreateFilePath_def create_finish_def split: sum.splits bool.splits)

lemma CreateFilePath_rows:
  assumes "CreateFilePath fault1 fault2 p db = (err, db')"
  obtains "err \<noteq> None" "db' = db"
  | "err = None" "validateFields p = None"
    "fd_rows db' = fd_rows db @ [p\<lparr>fp_id := fd_next db, fp_deleted := None\<rparr>]"
  using CreateFilePath_D [OF assms] path_insert_D [of fault2 p db None db'] by auto

lemma insert_wf:
  assumes "paths_wf db" and "path_key p \<notin> path_key ` set (live_paths (\<lambda>r. True) db)"
    and "path_insert fault p db = (err, db')"
  shows "paths_wf db'"
proof -
  consider "db' = db" | "fd_next db' = fd_next db + 1"
      "fd_rows db' = fd_rows db @ [p\<lparr>fp_id := fd_next db, fp_deleted := None\<rparr>]"
    using path_insert_D [OF assms(3)] by blast
  then show ?thesis
  proof cases
    case 2
    let ?r = "p\<lparr>fp_id := fd_next db, fp_deleted := None\<rparr>"
    have l: "live_paths (\<lambda>r. True) db' = live_paths (\<lambda>r. True) db @ [?r]" using 2(2) by (simp add: live_paths_def)
    have k: "path_key ?r = path_key p" by (simp add: path_key_def)
    have "distinct (map path_key (live_paths (\<lambda>r. True) db'))"
      using assms(1,2) by (simp add: l k paths_wf_def)
    moreover have "distinct (map fp_id (fd_rows db'))" using assms(1) 2(2) by (auto simp: paths_wf_def)
    moreover have "path_index_ok (fd_rows db')" using assms(1) 2(2) by (simp add: paths_wf_def path_index_ok_def)
    ultimately show ?thesis using assms(1) 2 by (auto simp: paths_wf_def less_SucI)
  qed (use assms(1) in simp)
qed

lemma CreateFilePath_wf:
  assumes "paths_wf db" and "fault1 \<noteq> Some RecordNotFound"
  shows "paths_wf (snd (CreateFilePath fault1 fault2 p db))"
proof -
  obtain err db' where c: "CreateFilePath fault1 fault2 p db = (err, db')" by fastforce
  from CreateFilePath_D [OF c] have "paths_wf db'"
    using assms(1) insert_wf [OF assms(1) create_exists_False [OF _ assms(2)]] by blast
  then show ?thesis by (simp add: c)
qed

lemma mark_deleted_ids [simp]: "map fp_id (mark_deleted now P rs) = map fp_id rs"
  by (simp add: mark_deleted_def comp_def)

lemma mark_deleted_live:
  "filter (\<lambda>r. fp_deleted r = None \<and> Q r) (mark_deleted now P rs) = filter (\<lambda>r. fp_deleted r = None \<and> Q r \<and> \<not> P r) rs"
  by (induction rs) (auto simp: mark_deleted_def)

lemma soft_delete_paths_D:
  assumes "soft_delete_paths fault now P db = (err, db')"
  shows "err \<noteq> None \<and> db' = db \<or>
         err = None \<and> fault = None \<and> path_index_ok (fd_rows db') \<and> fd_next db' = fd_next db \<and>
         fd_rows db' = mark_deleted now P (fd_rows db)"
  using assms by (auto simp: soft_delete_paths_def Let_def split: option.splits if_splits)

lemma soft_delete_paths_live:
  assumes "soft_delete_paths fault now P db = (None, db')"
  shows "live_paths Q db' = live_paths (\<lambda>r. Q r \<and> \<not> P r) db"
  using soft_delete_paths_D [OF assms] by (simp add: live_paths_def mark_deleted_live)

lemma soft_delete_paths_wf:
  assumes "paths_wf db"
  shows "paths_wf (snd (soft_delete_paths fault now P db))"
proof -
  obtain err db' where d: "soft_delete_paths fault now P db = (err, db')" by fastforce
  show ?thesis
  proof (cases err)
    case None
    have r: "fd_rows db' = mark_deleted now P (fd_rows db)" "path_index_ok (fd_rows db')" "fd_next db' = fd_next db"
      using soft_delete_paths_D [OF d] None by auto
    have ids: "map fp_id (fd_rows db') = map fp_id (fd_rows db)" by (simp add: r)
    then have "fp_id ` set (fd_rows db') = fp_id ` set (fd_rows db)" by (metis list.set_map)
    then have "\<forall>x \<in> set (fd_rows db'). fp_id x < fd_next db'"
      using assms r(3) by (metis (no_types, lifting) imageE imageI paths_wf_def)
    moreover have "live_paths (\<lambda>r. True) db' = filter (\<lambda>r. \<not> P r) (live_paths (\<lambda>r. True) db)"
      using soft_delete_paths_live [OF d [unfolded None]] by (simp add: live_paths_True [of "\<lambda>r. \<not> P r"])
    ultimately show ?thesis using assms ids r(2) by (simp add: d paths_wf_def distinct_map_filter)
  next
    case (Some e)
    then show ?thesis using soft_delete_paths_D [OF d] assms by (auto simp: d)
  qed
qed

lemma path_updates_simps [simp]:
  "fp_id (path_updates p r) = fp_id r" "path_key (path_updates p r) = path_key r"
  "fp_deleted (path_updates p r) = fp_deleted r" "fp_user (path_updates p r) = fp_user r"
  "fp_cid (path_updates p r) = fp_cid r" "fp_path (path_updates p r) = fp_path r"
  by (simp_all add: path_updates_def path_key_def)

lemma map_keys_filter:
  assumes "\<And>r. k (f r) = k r" and "\<And>r. Q (f r) = Q r"
  shows "map k (filter Q (map f rs)) = map k (filter Q rs)"
  by (induction rs) (simp_all add: assms)

lemma UpdateFilePath_rows:
  "UpdateFilePath None p db = (None, db\<lparr>fd_rows := map (\<lambda>r. if fp_deleted r = None \<and> path_key r = path_key p
                                          then path_updates p r else r) (fd_rows db)\<rparr>)"
  by (simp add: UpdateFilePath_def)

lemma map_rows_wf:
  assumes wf: "paths_wf db"
    and f: "\<And>r. fp_id (f r) = fp_id r" "\<And>r. path_key (f r) = path_key r" "\<And>r. fp_deleted (f r) = fp_deleted r"
  shows "paths_wf (db\<lparr>fd_rows := map f (fd_rows db)\<rparr>)"
proof -
  let ?db = "db\<lparr>fd_rows := map f (fd_rows db)\<rparr>"
  have r: "fd_rows ?db = map f (fd_rows db)" by simp
  have "map path_key (live_paths (\<lambda>r. True) ?db) = map path_key (live_paths (\<lambda>r. True) db)"
    unfolding live_paths_def r by (rule map_keys_filter) (simp_all add: f)
  moreover have "path_index_ok (fd_rows ?db) = path_index_ok (fd_rows db)"
  proof -
    have "map (\<lambda>r. (path_key r, fp_deleted r)) (filter (\<lambda>r. fp_deleted r \<noteq> None) (map f (fd_rows db))) =
        map (\<lambda>r. (path_key r, fp_deleted r)) (filter (\<lambda>r. fp_deleted r \<noteq> None) (fd_rows db))"
      by (rule map_keys_filter) (simp_all add: f)
    then show ?thesis by (simp only: path_index_ok_def r)
  qed
  moreover have "map fp_id (fd_rows ?db) = map fp_id (fd_rows db)" by (simp add: comp_def f(1))
  moreover have "\<forall>r \<in> set (fd_rows ?db). fp_id r < fd_next ?db" using wf by (simp add: paths_wf_def f(1))
  ultimately show ?thesis using wf unfolding paths_wf_def by metis
qed

lemma UpdateFilePath_wf: "paths_wf db \<Longrightarrow> paths_wf (snd (UpdateFilePath fault p db))"
  by (cases fault) (auto simp: UpdateFilePath_rows UpdateFilePath_def [of "Some _"] intro: map_rows_wf)

lemma smart_delete_one_wf: "paths_wf db \<Longrightarrow> paths_wf (smart_delete_one fc fd now pins user c p db)"
  by (auto simp: smart_delete_one_def soft_delete_paths_wf split: option.splits)

lemma smart_delete_fold_wf: "paths_wf db \<Longrightarrow> paths_wf (fold (smart_delete_one fc fd now pins user c) ps db)"
  by (induction ps arbitrary: db) (auto simp: smart_delete_one_wf)

lemma DeleteFilePathSmart_wf: "paths_wf db \<Longrightarrow> paths_wf (snd (DeleteFilePathSmart fault fc fd now pins user c db))"
  by (auto simp: DeleteFilePathSmart_def smart_delete_fold_wf split: option.splits)


section \<open>Deleting the paths of a CID\<close>

definition deleted_in :: "nat set \<Rightarrow> (nat \<Rightarrow> nat) \<Rightarrow> file_path \<Rightarrow> file_path" where
  "deleted_in S now r = (if fp_deleted r = None \<and> fp_id r \<in> S then r\<lparr>fp_deleted := Some (now (fp_id r))\<rparr> else r)"

lemma deleted_in_simps [simp]:
  "fp_id (deleted_in S now r) = fp_id r" "path_key (deleted_in S now r) = path_key r"
  "deleted_in {} now r = r"
  by (auto simp: deleted_in_def path_key_def)

lemma deleted_in_insert:
  "mark_deleted (now i) (\<lambda>r. fp_id r = i) (map (deleted_in S now) rs) = map (deleted_in (insert i S) now) rs"
  by (induction rs) (auto simp: mark_deleted_def deleted_in_def)

lemma fp_id_inj:
  assumes "paths_wf db" "r \<in> set (fd_rows db)" "s \<in> set (fd_rows db)" "fp_id r = fp_id s"
  shows "r = s"
  using assms by (auto simp: paths_wf_def distinct_map dest: inj_onD)

lemma live_key_inj:
  assumes "paths_wf db" "r \<in> set (fd_rows db)" "s \<in> set (fd_rows db)" "fp_deleted r = None" "fp_deleted s = None"
    and "path_key r = path_key s"
  shows "r = s"
proof -
  have "inj_on path_key (set (live_paths (\<lambda>r. True) db))" using assms(1) by (simp add: paths_wf_def distinct_map)
  then show ?thesis using assms(2-6) by (auto simp: live_paths_iff dest: inj_onD)
qed

lemma deleted_key_inj:
  assumes "path_index_ok rs" "r \<in> set rs" "s \<in> set rs" "fp_deleted r \<noteq> None"
    and "path_key r = path_key s" "fp_deleted r = fp_deleted s"
  shows "r = s"
proof -
  have "inj_on (\<lambda>r. (path_key r, fp_deleted r)) (set (filter (\<lambda>r. fp_deleted r \<noteq> None) rs))"
    using assms(1) by (simp add: path_index_ok_def distinct_map)
  moreover have "r \<in> set (filter (\<lambda>r. fp_deleted r \<noteq> None) rs)" "s \<in> set (filter (\<lambda>r. fp_deleted r \<noteq> None) rs)"
    using assms by auto
  ultimately show ?thesis using assms(5,6) by (simp add: inj_on_def)
qed

lemma deleted_in_cases:
  obtains (new) "fp_deleted r = None" "fp_deleted (deleted_in S now r) = Some (now (fp_id r))"
  | (old) "deleted_in S now r = r"
proof (cases "fp_deleted r = None \<and> fp_id r \<in> S")
  case True
  then show thesis by (intro new) (simp_all add: deleted_in_def)
next
  case False
  then show thesis by (intro old) (simp add: deleted_in_def)
qed

lemma deleted_in_index:
  assumes wf: "paths_wf db" and fresh: "\<And>i r. r \<in> set (fd_rows db) \<Longrightarrow> fp_deleted r \<noteq> Some (now i)"
  shows "path_index_ok (map (deleted_in S now) (fd_rows db))"
proof -
  let ?rs = "map (deleted_in S now) (fd_rows db)"
  have "map fp_id ?rs = map fp_id (fd_rows db)" by (simp add: comp_def)
  then have d: "distinct ?rs" using wf by (metis distinct_map paths_wf_def)
  have "r' = s'" if r': "r' \<in> set ?rs" "s' \<in> set ?rs" "fp_deleted r' \<noteq> None" "path_key r' = path_key s'"
    "fp_deleted r' = fp_deleted s'" for r' s'
  proof -
    obtain r s where rs: "r' = deleted_in S now r" "s' = deleted_in S now s" "r \<in> set (fd_rows db)" "s \<in> set (fd_rows db)"
      using r' by auto
    have k: "path_key r = path_key s" using r'(4) rs by simp
    have i: "path_index_ok (fd_rows db)" using wf by (simp add: paths_wf_def)
    show ?thesis
    proof (cases rule: deleted_in_cases [of r S now])
      case new
      show ?thesis
      proof (cases rule: deleted_in_cases [of s S now])
        case new2: new
        then show ?thesis using live_key_inj [OF wf rs(3,4)] new k rs by simp
      next
        case old
        then show ?thesis using fresh [OF rs(4)] new r'(5) rs by metis
      qed
    next
      case old
      show ?thesis
      proof (cases rule: deleted_in_cases [of s S now])
        case new
        then show ?thesis using fresh [OF rs(3)] old r'(5) rs by metis
      next
        case old2: old
        then show ?thesis using deleted_key_inj [OF i rs(3,4)] old k r' rs by metis
      qed
    qed
  qed
  then have "inj_on (\<lambda>r. (path_key r, fp_deleted r)) (set (filter (\<lambda>r. fp_deleted r \<noteq> None) ?rs))"
    unfolding inj_on_def by fastforce
  then show ?thesis using d by (simp add: path_index_ok_def distinct_map)
qed

lemma smart_delete_step:
  assumes wf: "paths_wf db" and fresh: "\<And>i r. r \<in> set (fd_rows db) \<Longrightarrow> fp_deleted r \<noteq> Some (now i)"
    and "live_pins (\<lambda>p. pn_user p = user \<and> pn_cid p = c) pins = []"
    and "\<And>i. fc i = None" and "\<And>i. fd i = None"
  shows "smart_delete_one fc fd now pins user c p (db\<lparr>fd_rows := map (deleted_in S now) (fd_rows db)\<rparr>) =
         db\<lparr>fd_rows := map (deleted_in (insert (fp_id p) S) now) (fd_rows db)\<rparr>"
  using assms(3-5) deleted_in_index [OF wf fresh, of "insert (fp_id p) S"]
  by (simp add: smart_delete_one_def soft_delete_paths_def deleted_in_insert)

lemma smart_delete_fold:
  assumes wf: "paths_wf db" and fresh: "\<And>i r. r \<in> set (fd_rows db) \<Longrightarrow> fp_deleted r \<noteq> Some (now i)"
    and "live_pins (\<lambda>p. pn_user p = user \<and> pn_cid p = c) pins = []"
    and "\<And>i. fc i = None" and "\<And>i. fd i = None"
  shows "fold (smart_delete_one fc fd now pins user c) ps (db\<lparr>fd_rows := map (deleted_in S now) (fd_rows db)\<rparr>) =
         db\<lparr>fd_rows := map (deleted_in (fp_id ` set ps \<union> S) now) (fd_rows db)\<rparr>"
proof (induction ps arbitrary: S)
  case (Cons p ps)
  have "fp_id ` set ps \<union> insert (fp_id p) S = fp_id ` set (p # ps) \<union> S" by auto
  then show ?case using Cons [of "insert (fp_id p) S"]
    by (simp only: fold_simps comp_apply smart_delete_step [where fc = fc and fd = fd, OF wf fresh assms(3-5)])
qed simp


section \<open>Properties\<close>

definition ex_path :: "nat \<Rightarrow> bytes \<Rightarrow> string \<Rightarrow> file_path" where
  "ex_path u c n = empty_path\<lparr>fp_user := u, fp_cid := c, fp_path := ''/'' @ n, fp_name := n, fp_parent := ''/''\<rparr>"

definition ex_paths :: path_db where
  "ex_paths = \<lparr>fd_rows = [(ex_path 1 ''c'' ''a'')\<lparr>fp_id := 1\<rparr>, (ex_path 1 ''d'' ''b'')\<lparr>fp_id := 2\<rparr>,
                          (ex_path 2 ''c'' ''a'')\<lparr>fp_id := 3\<rparr>], fd_next = 4\<rparr>"

lemma ex_paths_wf: "paths_wf ex_paths"
  by (simp add: paths_wf_def ex_paths_def ex_path_def empty_path_def live_paths_def path_key_def path_index_ok_def)

lemma file_paths_wf_parts:
  assumes "paths_wf db" and "fault \<noteq> Some RecordNotFound"
  shows "paths_wf (snd (CreateFilePath fault fault2 p db))"
    and "paths_wf (snd (UpdateFilePath fault p db))"
    and "paths_wf (snd (DeleteFilePath fault now user c db))"
    and "paths_wf (snd (DeleteFilePathsByUserID fault now user db))"
    and "paths_wf (snd (DeleteFilePathSmart fault fc fd nows pins user c db))"
  by (simp_all add: assms CreateFilePath_wf UpdateFilePath_wf DeleteFilePath_def DeleteFilePathsByUserID_def
      soft_delete_paths_wf DeleteFilePathSmart_wf)



text \<open>C16. Without a database error the smart delete marks exactly the live paths of the user's CID, when no live pin of the
  user has that CID, and otherwise changes nothing.\<close>
theorem smart_delete_paths:
  assumes "paths_wf db" and "\<And>i r. r \<in> set (fd_rows db) \<Longrightarrow> fp_deleted r \<noteq> Some (now i)"
    and "\<And>i. fc i = None" and "\<And>i. fd i = None"
  shows "DeleteFilePathSmart None fc fd now pins user c db =
    (None, db\<lparr>fd_rows := map (\<lambda>r.
       if live_pins (\<lambda>p. pn_user p = user \<and> pn_cid p = c) pins = [] \<and>
          fp_deleted r = None \<and> fp_user r = user \<and> fp_cid r = c
       then r\<lparr>fp_deleted := Some (now (fp_id r))\<rparr> else r) (fd_rows db)\<rparr>)"
proof (cases "live_pins (\<lambda>p. pn_user p = user \<and> pn_cid p = c) pins = []")
  case True
  let ?ps = "live_paths (\<lambda>r. fp_user r = user \<and> fp_cid r = c) db"
  have "fold (smart_delete_one fc fd now pins user c) ?ps (db\<lparr>fd_rows := map (deleted_in {} now) (fd_rows db)\<rparr>) =
        db\<lparr>fd_rows := map (deleted_in (fp_id ` set ?ps \<union> {}) now) (fd_rows db)\<rparr>"
    by (rule smart_delete_fold [where fc = fc and fd = fd, OF assms(1,2) True assms(3,4)])
  moreover have "map (deleted_in (fp_id ` set ?ps \<union> {}) now) (fd_rows db) =
      map (\<lambda>r. if fp_deleted r = None \<and> fp_user r = user \<and> fp_cid r = c
               then r\<lparr>fp_deleted := Some (now (fp_id r))\<rparr> else r) (fd_rows db)"
  proof (rule map_cong [OF refl])
    fix r assume r: "r \<in> set (fd_rows db)"
    have "fp_id r \<in> fp_id ` set ?ps \<longleftrightarrow> r \<in> set ?ps"
      using fp_id_inj [OF assms(1) _ r] by (auto simp: live_paths_iff)
    then show "deleted_in (fp_id ` set ?ps \<union> {}) now r =
        (if fp_deleted r = None \<and> fp_user r = user \<and> fp_cid r = c
         then r\<lparr>fp_deleted := Some (now (fp_id r))\<rparr> else r)"
      using r by (simp add: deleted_in_def live_paths_iff)
  qed
  ultimately show ?thesis using True by (simp add: DeleteFilePathSmart_def map_idI)
next
  case False
  then have "smart_delete_one fc fd now pins user c p db' = db'" for p db'
    by (simp add: smart_delete_one_def assms(3))
  then have "fold (smart_delete_one fc fd now pins user c) ps db' = db'" for ps db'
    by (induction ps) simp_all
  then show ?thesis using False by (simp add: DeleteFilePathSmart_def)
qed

lemma smart_delete_paths_witness:
  "map fp_deleted (fd_rows (snd (DeleteFilePathSmart None (\<lambda>_. None) (\<lambda>_. None) (\<lambda>_. 9) \<lparr>pd_rows = [], pd_next = 1\<rparr> 1 ''c''
      ex_paths))) = [Some 9, None, None]"
proof -
  have "DeleteFilePathSmart None (\<lambda>_. None) (\<lambda>_. None) (\<lambda>_. 9) \<lparr>pd_rows = [], pd_next = 1\<rparr> 1 ''c'' ex_paths =
    (None, ex_paths\<lparr>fd_rows := map (\<lambda>r.
       if live_pins (\<lambda>p. pn_user p = 1 \<and> pn_cid p = ''c'') \<lparr>pd_rows = [], pd_next = 1\<rparr> = [] \<and>
          fp_deleted r = None \<and> fp_user r = 1 \<and> fp_cid r = ''c''
       then r\<lparr>fp_deleted := Some 9\<rparr> else r) (fd_rows ex_paths)\<rparr>)"
    by (rule smart_delete_paths [OF ex_paths_wf]) (auto simp: ex_paths_def ex_path_def empty_path_def)
  then show ?thesis by (simp add: live_pins_def ex_paths_def ex_path_def empty_path_def)
qed

lemma file_path_race_parts:
  assumes "live_paths (\<lambda>r. path_key r = path_key p) db = []" and "validateFields p = None"
    and "create_finish (create_exists None p db) None p db = (e1, db1)"
    and "create_finish (create_exists None p db) None p db1 = (e2, db2)"
  shows "e1 = None" and "e2 = None"
    and "length (live_paths (\<lambda>r. path_key r = path_key p) db2) = 2"
    and "DeleteFilePath None now (fp_user p) (fp_cid p) db2 =
           (Some (Opaque ''UNIQUE constraint failed: ipfs_file_paths''), db2)"
proof -
  let ?r = "\<lambda>i. p\<lparr>fp_id := i, fp_deleted := None\<rparr>"
  have seen: "create_exists None p db = Inr False" using assms(1) by (simp add: create_exists_def)
  have db1: "e1 = None" "fd_rows db1 = fd_rows db @ [?r (fd_next db)]" "fd_next db1 = fd_next db + 1"
    using assms(2,3) by (auto simp: seen create_finish_def path_insert_def)
  have db2: "e2 = None" "fd_rows db2 = fd_rows db @ [?r (fd_next db), ?r (fd_next db + 1)]"
    using assms(2,4) db1 by (auto simp: seen create_finish_def path_insert_def)
  show "e1 = None" "e2 = None" by (fact db1 db2)+
  have k: "path_key (?r i) = path_key p" for i by (simp add: path_key_def)
  show "length (live_paths (\<lambda>r. path_key r = path_key p) db2) = 2"
    using assms(1) by (simp add: live_paths_def db2 k)
  have "\<not> path_index_ok (mark_deleted now (\<lambda>r. fp_user r = fp_user p \<and> fp_cid r = fp_cid p) (fd_rows db2))"
    by (simp add: db2 mark_deleted_def path_index_ok_def path_key_def)
  then show "DeleteFilePath None now (fp_user p) (fp_cid p) db2 =
           (Some (Opaque ''UNIQUE constraint failed: ipfs_file_paths''), db2)"
    by (simp add: DeleteFilePath_def soft_delete_paths_def Let_def)
qed



text \<open>The check that every pin has file paths looks at deleted rows too: deleting the paths of a pin does not make the
  pin incomplete, and deleting a pin without paths does not make the check pass.\<close>
lemma path_check_sees_deleted:
  assumes "GetIncompletePins None pins db = Inr ps"
  shows "GetIncompletePins None pins (snd (DeleteFilePath fault now user c db)) = Inr ps"
    and "map pn_req (projr (GetIncompletePins None (soft_delete_pins P pins) db)) = map pn_req ps"
    and "ValidatePathCompleteness None (soft_delete_pins P pins) db = Inr (ps = [])"
proof -
  let ?none = "\<lambda>rs p. \<not> list_ex (\<lambda>r. fp_user r = pn_user p \<and> fp_cid r = pn_cid p) rs"
  have ps: "ps = filter (?none (fd_rows db)) (pd_rows pins)" using assms by (simp add: GetIncompletePins_def)
  have m: "list_ex (\<lambda>r. fp_user r = u \<and> fp_cid r = d) (mark_deleted now P rs) =
           list_ex (\<lambda>r. fp_user r = u \<and> fp_cid r = d) rs" for u d P rs
    by (induction rs) (auto simp: mark_deleted_def)
  show "GetIncompletePins None pins (snd (DeleteFilePath fault now user c db)) = Inr ps"
    by (auto simp: GetIncompletePins_def ps DeleteFilePath_def soft_delete_paths_def Let_def m split: option.splits)
  have f: "map pn_req (filter (?none rs) (map (\<lambda>r. if \<not> pn_deleted r \<and> P r then r\<lparr>pn_deleted := True\<rparr> else r) qs)) =
           map pn_req (filter (?none rs) qs)" for rs qs
    by (induction qs) auto
  show req: "map pn_req (projr (GetIncompletePins None (soft_delete_pins P pins) db)) = map pn_req ps"
    by (simp add: GetIncompletePins_def ps soft_delete_pins_def f)
  have "projr (GetIncompletePins None (soft_delete_pins P pins) db) = [] \<longleftrightarrow> ps = []"
    using req by (metis map_is_Nil_conv)
  then show "ValidatePathCompleteness None (soft_delete_pins P pins) db = Inr (ps = [])"
    by (auto simp: ValidatePathCompleteness_def GetIncompletePins_def)
qed

definition ex_pin :: "nat \<Rightarrow> nat \<Rightarrow> bytes \<Rightarrow> pin_row" where
  "ex_pin i u c = \<lparr>pn_id = i, pn_req = [char_of i], pn_user = u, pn_status = ''pinned'', pn_cid = c, pn_name = [],
     pn_origins = [], pn_meta = [], pn_delegates = [], pn_info = [], pn_deleted = False\<rparr>"

lemma path_check_sees_deleted_witness:
  "ValidatePathCompleteness None (soft_delete_pins (\<lambda>r. True) \<lparr>pd_rows = [ex_pin 1 1 ''z''], pd_next = 2\<rparr>) ex_paths =
   Inr False"
proof -
  have "GetIncompletePins None \<lparr>pd_rows = [ex_pin 1 1 ''z''], pd_next = 2\<rparr> ex_paths = Inr [ex_pin 1 1 ''z'']"
    by (simp add: GetIncompletePins_def ex_pin_def ex_paths_def ex_path_def empty_path_def)
  from path_check_sees_deleted(3) [OF this, of "\<lambda>r. True"] show ?thesis by simp
qed

end
