(* ===== verification/Pin_Props.thy ===== *)
theory Pin_Props
  imports Pin_Service File_Paths
begin

text \<open>
  What holds of the pin service: its table stays well-formed, users are kept apart, a delete unpins a CID in the core
  exactly when no other pin of the user has it, and the cases where that fails.
\<close>

section \<open>Stored CIDs\<close>

lemma normalized_form:
  assumes "NormalizeCid c = c" and "c \<noteq> Undef"
  obtains t h where "c = Cid 1 t h"
  using assms by (cases c) (auto simp: NormalizeCid_def ToV1_def split: if_splits)

lemma hash_inj:
  assumes "NormalizeCid c = c" "c \<noteq> Undef" "NormalizeCid d = d" "d \<noteq> Undef" "NewIPFSHash c = NewIPFSHash d"
  shows "c = d"
  using assms by (elim normalized_form) (auto simp: NewIPFSHash_def)

lemma stored_cid_inj:
  assumes "codec_ok env" "stored_cid env b" "stored_cid env b'" "pe_cast env b = Inr c" "pe_cast env b' = Inr d"
    and "b \<noteq> []" "b' \<noteq> []" "NewIPFSHash c = NewIPFSHash d"
  shows "b = b'"
proof -
  have "NormalizeCid c = c" "pe_bytes env c = b" "NormalizeCid d = d" "pe_bytes env d = b'"
    using assms by (auto simp: stored_cid_def)
  moreover have "c \<noteq> Undef" "d \<noteq> Undef" using assms by (auto simp: codec_ok_def)
  ultimately show ?thesis using hash_inj assms(8) by metis
qed

lemma wf_stored: "pins_wf env db \<Longrightarrow> r \<in> set (pd_rows db) \<Longrightarrow> stored_cid env (pn_cid r)"
  by (simp add: pins_wf_def)

section \<open>The transaction of a delete\<close>

lemma delete_tx_cases:
  assumes "delete_tx df q view db = (res, db')"
  obtains (fail) e where "res = Inl e" "db' = db"
  | (absent) "res = Inr None" "db' = db"
  | (deleted) r where "res = Inr (Some (r, live_pins (\<lambda>p. pn_user p = pn_user r \<and> pn_cid p = pn_cid r \<and> pn_req p \<noteq> q) view = []))"
      "db' = soft_delete_pins (\<lambda>r. pn_req r = q) db" "r \<in> set (pd_rows db)" "\<not> pn_deleted r" "pn_req r = q"
proof (cases "first_pin (df_load df) (\<lambda>r. pn_req r = q) db")
  case (Inl e)
  then show thesis using assms fail absent by (auto simp: delete_tx_def split: if_splits)
next
  case (Inr r)
  note r = first_pin_D [OF Inr]
  show thesis
  proof (cases "df_delete df")
    case None
    then show thesis using assms Inr fail deleted [OF _ _ r(1-3)]
      by (auto simp: delete_tx_def countUserPinsByCID_def split: option.splits)
  next
    case (Some e)
    then show thesis using assms Inr fail by (auto simp: delete_tx_def)
  qed
qed

lemma delete_tx_wf: "pins_wf env db \<Longrightarrow> delete_tx df q view db = (res, db') \<Longrightarrow> pins_wf env db'"
  by (erule delete_tx_cases) (auto simp: soft_delete_pins_wf)

lemma unpin_cid_D:
  assumes "unpin_cid cp env df cx r s = (err, s')"
  shows "st_pins s' = st_pins s"
    and "pe_cast env (pn_cid r) = Inr c \<Longrightarrow>
           st_core s' = snd (cp_del cp (NewIPFSHash c) (pn_user r) (st_core s))"
    and "pe_cast env (pn_cid r) = Inl e \<Longrightarrow> s' = s"
    and "st_paths s' = st_paths s \<or>
         st_paths s' = snd (DeleteFilePathSmart (df_paths df) (df_path_count df) (df_path_delete df)
                                   (df_now df) (st_pins s) (pn_user r) (pn_cid r) (st_paths s))"
  using assms by (auto simp: unpin_cid_def Let_def split: sum.splits prod.splits option.splits)

lemma DeletePin_pins: "st_pins (snd (DeletePin cp env df cx q s)) = snd (delete_tx df q (st_pins s) (st_pins s))"
proof -
  obtain res db where d: "delete_tx df q (st_pins s) (st_pins s) = (res, db)" by fastforce
  then show ?thesis
    by (auto simp: DeletePin_def unpin_cid_D(1) [OF surjective_pairing]
        split: sum.splits option.splits prod.splits)
qed

lemma DeletePin_wf: "pins_wf env (st_pins s) \<Longrightarrow> pins_wf env (st_pins (snd (DeletePin cp env df cx q s)))"
  unfolding DeletePin_pins by (metis delete_tx_wf prod.collapse)

section \<open>The other operations\<close>

lemma AddPin_wf:
  assumes "pins_wf env db" "codec_ok env"
  shows "pins_wf env (snd (AddPin env dg fault p db))"
  using pin_insert_wf [OF _ assms] assms(1)
  by (auto simp: AddPin_def split: sum.splits)

lemma ReplacePin_wf:
  assumes "pins_wf env db" "codec_ok env"
  shows "pins_wf env (snd (ReplacePin env fdel fins old new db))"
  using pin_insert_wf [OF _ soft_delete_pins_wf [OF assms(1)] assms(2)] assms(1)
  by (auto simp: ReplacePin_def split: option.splits sum.splits)

lemma UpdatePinStatus_wf: "pins_wf env db \<Longrightarrow> pins_wf env (snd (UpdatePinStatus env fault q st info db))"
  by (auto simp: UpdatePinStatus_def intro!: map_pins_wf split: sum.splits)

lemma soft_delete_others:
  assumes "pins_wf env db" "r \<in> set (pd_rows db)" "pn_user r = u" "v \<noteq> u"
  shows "filter (\<lambda>p. pn_user p = v) (pd_rows (soft_delete_pins (\<lambda>p. pn_req p = pn_req r) db)) =
         filter (\<lambda>p. pn_user p = v) (pd_rows db)"
proof -
  have "pn_user p = u" if "p \<in> set (pd_rows db)" "pn_req p = pn_req r" for p
    using pins_req_inj [OF assms(1) that(1) assms(2) that(2)] assms(3) by simp
  then show ?thesis
    unfolding soft_delete_pins_def map_pins_rows by (intro filter_map_same) (use assms(4) in auto)
qed

lemma mark_deleted_others:
  assumes "\<And>r. r \<in> set rs \<Longrightarrow> P r \<Longrightarrow> \<not> Q r" and "\<And>r t. Q (r\<lparr>fp_deleted := t\<rparr>) = Q r"
  shows "filter Q (mark_deleted now P rs) = filter Q rs"
  unfolding mark_deleted_def by (rule filter_map_same) (use assms in auto)

lemma mark_deleted_id_user [simp]:
  "map (\<lambda>r. (fp_id r, fp_user r)) (mark_deleted now P rs) = map (\<lambda>r. (fp_id r, fp_user r)) rs"
  by (induction rs) (auto simp: mark_deleted_def)

lemma smart_delete_one_others:
  assumes "(fp_id p, u) \<in> (\<lambda>r. (fp_id r, fp_user r)) ` set (fd_rows db)" "distinct (map fp_id (fd_rows db))" "v \<noteq> u"
  shows "filter (\<lambda>r. fp_user r = v) (fd_rows (smart_delete_one fc fd now pins u c p db)) =
           filter (\<lambda>r. fp_user r = v) (fd_rows db) \<and>
         map (\<lambda>r. (fp_id r, fp_user r)) (fd_rows (smart_delete_one fc fd now pins u c p db)) =
           map (\<lambda>r. (fp_id r, fp_user r)) (fd_rows db)"
proof -
  obtain x where x: "x \<in> set (fd_rows db)" "fp_id x = fp_id p" "fp_user x = u" using assms(1) by auto
  have "fp_user r \<noteq> v" if "r \<in> set (fd_rows db)" "fp_id r = fp_id p" for r
  proof -
    have "inj_on fp_id (set (fd_rows db))" using assms(2) by (simp add: distinct_map)
    then have "r = x" using that x(1,2) by (metis inj_onD)
    then show ?thesis using x(3) assms(3) by simp
  qed
  then have "filter (\<lambda>r. fp_user r = v) (mark_deleted n (\<lambda>r. fp_id r = fp_id p) (fd_rows db)) =
      filter (\<lambda>r. fp_user r = v) (fd_rows db)" for n
    by (intro mark_deleted_others) auto
  then show ?thesis
    by (auto simp: smart_delete_one_def soft_delete_paths_def Let_def split: option.splits)
qed

lemma smart_delete_fold_others:
  assumes "\<forall>p \<in> set ps. (fp_id p, u) \<in> (\<lambda>r. (fp_id r, fp_user r)) ` set (fd_rows db)"
    and "distinct (map fp_id (fd_rows db))" "v \<noteq> u"
  shows "filter (\<lambda>r. fp_user r = v) (fd_rows (fold (smart_delete_one fc fd now pins u c) ps db)) =
           filter (\<lambda>r. fp_user r = v) (fd_rows db)"
  using assms
proof (induction ps arbitrary: db)
  case (Cons p ps)
  let ?db = "smart_delete_one fc fd now pins u c p db"
  have p: "(fp_id p, u) \<in> (\<lambda>r. (fp_id r, fp_user r)) ` set (fd_rows db)" using Cons.prems(1) by simp
  note one = smart_delete_one_others [OF p Cons.prems(2,3), of fc fd now pins c]
  have m: "map (\<lambda>r. (fp_id r, fp_user r)) (fd_rows ?db) = map (\<lambda>r. (fp_id r, fp_user r)) (fd_rows db)" using one by blast
  have "map fst (map (\<lambda>r. (fp_id r, fp_user r)) (fd_rows ?db)) = map fst (map (\<lambda>r. (fp_id r, fp_user r)) (fd_rows db))"
    by (simp only: m)
  then have "map fp_id (fd_rows ?db) = map fp_id (fd_rows db)" by (simp add: comp_def)
  moreover have "(\<lambda>r. (fp_id r, fp_user r)) ` set (fd_rows ?db) = (\<lambda>r. (fp_id r, fp_user r)) ` set (fd_rows db)"
    using m by (metis list.set_map)
  ultimately have "filter (\<lambda>r. fp_user r = v) (fd_rows (fold (smart_delete_one fc fd now pins u c) ps ?db)) =
      filter (\<lambda>r. fp_user r = v) (fd_rows ?db)"
    using Cons.IH [of ?db] Cons.prems by (metis (no_types, lifting) list.set_intros(2))
  then show ?case using one by (simp add: comp_def)
qed simp

lemma DeleteFilePathSmart_others:
  assumes "paths_wf db" "v \<noteq> u"
  shows "filter (\<lambda>r. fp_user r = v) (fd_rows (snd (DeleteFilePathSmart fault fc fd now pins u c db))) =
         filter (\<lambda>r. fp_user r = v) (fd_rows db)"
proof -
  have "\<forall>p \<in> set (live_paths (\<lambda>r. fp_user r = u \<and> fp_cid r = c) db).
      (fp_id p, u) \<in> (\<lambda>r. (fp_id r, fp_user r)) ` set (fd_rows db)"
    by (auto simp: live_paths_iff)
  then show ?thesis using smart_delete_fold_others assms
    by (auto simp: DeleteFilePathSmart_def paths_wf_def split: option.splits)
qed


section \<open>Properties\<close>

lemma pins_wf_operations_parts:
  assumes "pins_wf env (st_pins s)" and "codec_ok env"
  shows "pins_wf env (snd (AddPin env dg fault p (st_pins s)))"
    and "pins_wf env (snd (ReplacePin env fault fault2 q p (st_pins s)))"
    and "pins_wf env (snd (UpdatePinStatus env fault q status info (st_pins s)))"
    and "pins_wf env (st_pins (snd (DeletePin cp env df cx q s)))"
  using assms by (simp_all add: AddPin_wf ReplacePin_wf UpdatePinStatus_wf DeletePin_wf)

text \<open>C12. Adding, replacing, deleting and updating pins keeps ids and request ids unique and every stored CID normalised;
  an update of the status may store any text as the status.\<close>

theorem pins_wf_operations:
  assumes "pins_wf env (st_pins s)" and "codec_ok env"
  shows "pins_wf env (snd (AddPin env dg fault p (st_pins s))) \<and>
    pins_wf env (snd (ReplacePin env fault fault2 q p (st_pins s))) \<and>
    pins_wf env (snd (UpdatePinStatus env fault q status info (st_pins s))) \<and>
    pins_wf env (st_pins (snd (DeletePin cp env df cx q s)))"
  by (intro conjI impI pins_wf_operations_parts [OF assms])

text \<open>A concrete instance, in which the CIDs are raw and their bytes are the hash.\<close>

definition ex_penv :: pin_env where
  "ex_penv = \<lparr>pe_empty = (\<lambda>b. b = []), pe_uuid = ''u'',
     pe_cast = (\<lambda>b. if b = [] then Inl (Opaque ''cid too short'') else Inr (Cid 1 85 b)),
     pe_bytes = cid_hash\<rparr>"

lemma ex_penv_ok: "codec_ok ex_penv"
  by (simp add: codec_ok_def ex_penv_def)

definition ex_cp :: "((storage_hash \<times> nat) list, nat) core_pins" where
  "ex_cp = \<lparr>cp_get = (\<lambda>h u k. Inr (if (h, u) \<in> set k then Some u else None)),
           cp_del = (\<lambda>h u k. (None, removeAll (h, u) k))\<rparr>"

definition ex_hash :: storage_hash where "ex_hash = (''c'', 85)"

definition ex_df :: delete_faults where
  "ex_df = \<lparr>df_load = None, df_delete = None, df_count = None, df_paths = None, df_path_count = (\<lambda>_. None),
     df_path_delete = (\<lambda>_. None), df_now = (\<lambda>_. 9)\<rparr>"

definition ex_state :: "((storage_hash \<times> nat) list, nat) pin_state" where
  "ex_state = \<lparr>st_pins = \<lparr>pd_rows = [ex_pin 1 1 ''c'', ex_pin 2 1 ''c'', ex_pin 3 2 ''c''], pd_next = 4\<rparr>,
     st_paths = ex_paths, st_core = [(ex_hash, 1), (ex_hash, 2)], st_events = []\<rparr>"

lemma ex_state_wf: "pins_wf ex_penv (st_pins ex_state)"
  by (simp add: pins_wf_def ex_state_def ex_pin_def stored_cid_def ex_penv_def)

lemma pins_wf_operations_witness:
  "pins_wf ex_penv (st_pins (snd (DeletePin ex_cp ex_penv ex_df Background [char_of (1::nat)] ex_state)))"
  by (rule pins_wf_operations [OF ex_state_wf ex_penv_ok, THEN conjunct2, THEN conjunct2, THEN conjunct2])

lemma pin_users_apart_parts:
  assumes "pins_wf env (st_pins s)" and "paths_wf (st_paths s)" and "v \<noteq> user"
  shows "GetPinByRequestIDForUser fault user q (st_pins s) = Inr (Some r) \<Longrightarrow> pn_user r = user"
    and "filter (\<lambda>p. pn_user p = v) (pd_rows (st_pins (snd (DeletePinForUser cp env fault df cx user q s)))) =
         filter (\<lambda>p. pn_user p = v) (pd_rows (st_pins s))"
    and "filter (\<lambda>p. fp_user p = v) (fd_rows (st_paths (snd (DeletePinForUser cp env fault df cx user q s)))) =
         filter (\<lambda>p. fp_user p = v) (fd_rows (st_paths s))"
    and "pn_user new = user \<Longrightarrow>
         filter (\<lambda>p. pn_user p = v) (pd_rows (snd (ReplacePinForUser env fault fdel fins user q new (st_pins s)))) =
         filter (\<lambda>p. pn_user p = v) (pd_rows (st_pins s))"
proof -
  show "GetPinByRequestIDForUser fault user q (st_pins s) = Inr (Some r) \<Longrightarrow> pn_user r = user"
    by (auto simp: GetPinByRequestIDForUser_def split: sum.splits option.splits if_splits)
  have own: "filter (\<lambda>p. pn_user p = v) (pd_rows (soft_delete_pins (\<lambda>p. pn_req p = q) (st_pins s))) =
         filter (\<lambda>p. pn_user p = v) (pd_rows (st_pins s))"
    if "first_pin fault (\<lambda>r. pn_req r = q \<and> pn_user r = user) (st_pins s) = Inr r0" for r0
    using soft_delete_others [OF assms(1) first_pin_D(1) [OF that] _ assms(3)] first_pin_D(3) [OF that] by simp
  have del: "filter (\<lambda>p. pn_user p = v) (pd_rows (st_pins (snd (DeletePin cp env df cx q s)))) =
        filter (\<lambda>p. pn_user p = v) (pd_rows (st_pins s)) \<and>
      filter (\<lambda>p. fp_user p = v) (fd_rows (st_paths (snd (DeletePin cp env df cx q s)))) =
        filter (\<lambda>p. fp_user p = v) (fd_rows (st_paths s))"
    if f: "first_pin fault (\<lambda>r. pn_req r = q \<and> pn_user r = user) (st_pins s) = Inr r0" for r0
  proof -
    obtain res db where d: "delete_tx df q (st_pins s) (st_pins s) = (res, db)" by fastforce
    then show ?thesis
    proof (cases rule: delete_tx_cases)
      case (deleted r)
      have "r = r0" using pins_req_inj [OF assms(1) deleted(3) first_pin_D(1) [OF f]] first_pin_D(3) [OF f] deleted(5)
        by simp
      then have u: "pn_user r = user" using first_pin_D(3) [OF f] by simp
      obtain e s' where un: "unpin_cid cp env df cx r (s\<lparr>st_pins := db\<rparr>) = (e, s')" by fastforce
      have "filter (\<lambda>p. fp_user p = v) (fd_rows (st_paths s')) = filter (\<lambda>p. fp_user p = v) (fd_rows (st_paths s))"
        using unpin_cid_D(4) [OF un] DeleteFilePathSmart_others [OF assms(2,3)] u by auto
      then show ?thesis using un own [OF f] unpin_cid_D(1) [OF un] by (simp add: DeletePin_def d deleted(1,2))
    qed (simp_all add: DeletePin_def d)
  qed
  show "filter (\<lambda>p. pn_user p = v) (pd_rows (st_pins (snd (DeletePinForUser cp env fault df cx user q s)))) =
         filter (\<lambda>p. pn_user p = v) (pd_rows (st_pins s))"
    and "filter (\<lambda>p. fp_user p = v) (fd_rows (st_paths (snd (DeletePinForUser cp env fault df cx user q s)))) =
         filter (\<lambda>p. fp_user p = v) (fd_rows (st_paths s))"
    using del by (auto simp: DeletePinForUser_def split: sum.splits)
  show "filter (\<lambda>p. pn_user p = v) (pd_rows (snd (ReplacePinForUser env fault fdel fins user q new (st_pins s)))) =
         filter (\<lambda>p. pn_user p = v) (pd_rows (st_pins s))" if "pn_user new = user"
  proof (cases "first_pin fault (\<lambda>r. pn_req r = q \<and> pn_user r = user) (st_pins s)")
    case (Inr r0)
    let ?db = "soft_delete_pins (\<lambda>r. pn_req r = q) (st_pins s)"
    show ?thesis
    proof (cases "pin_insert env fins new ?db")
      case ins: (Inr x)
      obtain r db' where x: "x = (r, db')" by fastforce
      have "pd_rows db' = pd_rows ?db @ [r]" "pn_user r = user"
        using pin_insert_D [OF ins [unfolded x]] that by metis+
      then show ?thesis using own [OF Inr] assms(3) Inr ins x
        by (auto simp: ReplacePinForUser_def ReplacePin_def split: option.splits)
    qed (auto simp: ReplacePinForUser_def ReplacePin_def Inr split: option.splits)
  qed (simp add: ReplacePinForUser_def)
qed

text \<open>C13. A user reads only their own pins, and deleting or replacing a pin on behalf of a user changes no pin and no file
  path of another user, whatever the database and the core answer.\<close>

theorem pin_users_apart:
  assumes "pins_wf env (st_pins s)" and "paths_wf (st_paths s)" and "v \<noteq> user"
  shows "(GetPinByRequestIDForUser fault user q (st_pins s) = Inr (Some r) \<longrightarrow> pn_user r = user) \<and>
    filter (\<lambda>p. pn_user p = v) (pd_rows (st_pins (snd (DeletePinForUser cp env fault df cx user q s)))) =
         filter (\<lambda>p. pn_user p = v) (pd_rows (st_pins s)) \<and>
    filter (\<lambda>p. fp_user p = v) (fd_rows (st_paths (snd (DeletePinForUser cp env fault df cx user q s)))) =
         filter (\<lambda>p. fp_user p = v) (fd_rows (st_paths s)) \<and>
    (pn_user new = user \<longrightarrow>
         filter (\<lambda>p. pn_user p = v) (pd_rows (snd (ReplacePinForUser env fault fdel fins user q new (st_pins s)))) =
         filter (\<lambda>p. pn_user p = v) (pd_rows (st_pins s)))"
  using pin_users_apart_parts(1) [OF assms, of fault q r] pin_users_apart_parts(2,3) [OF assms]
    pin_users_apart_parts(4) [OF assms] by blast

lemma pin_users_apart_witness:
  "filter (\<lambda>p. pn_user p = 2) (pd_rows (st_pins (snd (DeletePinForUser ex_cp ex_penv None ex_df Background 1
      [char_of (1::nat)] ex_state)))) = [ex_pin 3 2 ''c'']"
proof -
  have "filter (\<lambda>p. pn_user p = 2) (pd_rows (st_pins (snd (DeletePinForUser ex_cp ex_penv None ex_df Background 1
      [char_of (1::nat)] ex_state)))) = filter (\<lambda>p. pn_user p = 2) (pd_rows (st_pins ex_state))"
    by (rule pin_users_apart [THEN conjunct2, THEN conjunct1, OF ex_state_wf]) (simp_all add: ex_state_def ex_paths_wf)
  then show ?thesis by (simp add: ex_state_def ex_pin_def)
qed


text \<open>The core keeps the pins of the users and hashes it is not asked to delete.\<close>

definition core_apart :: "(storage_hash \<Rightarrow> nat \<Rightarrow> 'c \<Rightarrow> bool) \<Rightarrow> ('c, 'p) core_pins \<Rightarrow> bool" where
  "core_apart held cp \<longleftrightarrow>
     (\<forall>h u k h' u'. (h', u') \<noteq> (h, u) \<longrightarrow> held h' u' (snd (cp_del cp h u k)) = held h' u' k)"

lemma unpin_keeps_others:
  assumes "codec_ok env" "stored_cid env (pn_cid p)" "stored_cid env (pn_cid r)"
    and "core_apart held cp"
    and "unpin_cid cp env df cx r s = (err, s')" and "\<not> (pn_user p = pn_user r \<and> pn_cid p = pn_cid r)"
    and c: "pe_cast env (pn_cid p) = Inr c" and "held (NewIPFSHash c) (pn_user p) (st_core s)"
  shows "held (NewIPFSHash c) (pn_user p) (st_core s')"
proof (cases "pe_cast env (pn_cid r)")
  case (Inr d)
  have "pn_cid p \<noteq> []" "pn_cid r \<noteq> []" using assms(1) c Inr by (auto simp: codec_ok_def)
  then have "(NewIPFSHash c, pn_user p) \<noteq> (NewIPFSHash d, pn_user r)"
    using stored_cid_inj [OF assms(1-3) c Inr] assms(6) by auto
  then show ?thesis using unpin_cid_D(2) [OF assms(5) Inr] assms(4,8) unfolding core_apart_def by metis
next
  case (Inl e)
  then show ?thesis using unpin_cid_D(3) [OF assms(5) Inl] assms(8) by simp
qed

lemma live_after_delete:
  assumes "p \<in> set (live_pins (\<lambda>p. True) (soft_delete_pins (\<lambda>r. pn_req r = q) db))"
  shows "p \<in> set (pd_rows db)" "\<not> pn_deleted p" "pn_req p \<noteq> q"
proof -
  have "p \<in> set (live_pins (\<lambda>p. True \<and> pn_req p \<noteq> q) db)" using assms by simp
  then show "p \<in> set (pd_rows db)" "\<not> pn_deleted p" "pn_req p \<noteq> q" by (auto simp: live_pins_def)
qed

text \<open>A delete keeps the core pin of every pin that is still there: whatever fails, no live pin loses the core pin of
  its CID.\<close>
lemma delete_pin_keeps_others:
  assumes "pins_wf env (st_pins s)" and "codec_ok env"
    and "core_apart held cp"
    and del: "DeletePin cp env df cx q s = (err, s')"
    and "p \<in> set (live_pins (\<lambda>p. True) (st_pins s'))" and "pe_cast env (pn_cid p) = Inr c"
    and "held (NewIPFSHash c) (pn_user p) (st_core s)"
  shows "held (NewIPFSHash c) (pn_user p) (st_core s')"
proof -
  obtain res db where d: "delete_tx df q (st_pins s) (st_pins s) = (res, db)" by fastforce
  then show ?thesis
  proof (cases rule: delete_tx_cases)
    case (deleted r)
    let ?others = "live_pins (\<lambda>p. pn_user p = pn_user r \<and> pn_cid p = pn_cid r \<and> pn_req p \<noteq> q) (st_pins s)"
    show ?thesis
    proof (cases "?others = []")
      case True
      have un: "unpin_cid cp env df cx r (s\<lparr>st_pins := db\<rparr>) = (err, s')"
        using assms(4) True by (simp add: DeletePin_def d deleted(1))
      have "st_pins s' = soft_delete_pins (\<lambda>r. pn_req r = q) (st_pins s)"
        using unpin_cid_D(1) [OF un] deleted(2) by simp
      note p = live_after_delete [OF assms(5) [unfolded this]]
      have "\<not> (pn_user p = pn_user r \<and> pn_cid p = pn_cid r)"
        using True p by (auto simp: live_pins_def filter_empty_conv)
      then show ?thesis
        using unpin_keeps_others [OF assms(2) wf_stored [OF assms(1) p(1)] wf_stored [OF assms(1) deleted(3)] assms(3) un]
          assms(6,7) by simp
    next
      case False
      then show ?thesis using assms(4,7) by (auto simp: DeletePin_def d deleted(1))
    qed
  next
    case fail
    then show ?thesis using assms(4,7) by (auto simp: DeletePin_def d)
  next
    case absent
    then show ?thesis using assms(4,7) by (auto simp: DeletePin_def d)
  qed
qed


lemma delete_pin_keeps_others_witness:
  "(ex_hash, 2) \<in> set (st_core (snd (DeletePin ex_cp ex_penv ex_df Background [char_of (2::nat)]
     (snd (DeletePin ex_cp ex_penv ex_df Background [char_of (1::nat)] ex_state)))))"
proof -
  let ?s = "snd (DeletePin ex_cp ex_penv ex_df Background [char_of (1::nat)] ex_state)"
  let ?t = "snd (DeletePin ex_cp ex_penv ex_df Background [char_of (2::nat)] ?s)"
  have wf: "pins_wf ex_penv (st_pins ?s)" by (rule DeletePin_wf [OF ex_state_wf])
  have "(\<lambda>h u k. (h, u) \<in> set k) (NewIPFSHash (Cid 1 85 ''c'')) (pn_user (ex_pin 3 2 ''c'')) (st_core ?t)"
  proof (rule delete_pin_keeps_others [OF wf ex_penv_ok _ surjective_pairing])
    show "core_apart (\<lambda>h u k. (h, u) \<in> set k) ex_cp" by (auto simp: core_apart_def ex_cp_def)
    show "ex_pin 3 2 ''c'' \<in> set (live_pins (\<lambda>p. True) (st_pins ?t))"
      by (simp add: DeletePin_pins delete_tx_def first_pin_def countUserPinsByCID_def ex_df_def ex_state_def ex_pin_def
          live_pins_def soft_delete_pins_def)
    show "pe_cast ex_penv (pn_cid (ex_pin 3 2 ''c'')) = Inr (Cid 1 85 ''c'')" by (simp add: ex_penv_def ex_pin_def)
    show "(NewIPFSHash (Cid 1 85 ''c''), pn_user (ex_pin 3 2 ''c'')) \<in> set (st_core ?s)"
      by (simp add: DeletePin_def delete_tx_def first_pin_def countUserPinsByCID_def ex_df_def ex_state_def ex_pin_def
          live_pins_def soft_delete_pins_def NewIPFSHash_def ex_hash_def)
  qed
  then show ?thesis by (simp add: NewIPFSHash_def ex_hash_def ex_pin_def)
qed

lemma delete_pin_exact_parts:
  assumes "pins_wf env (st_pins s)" and "df_load df = None" "df_delete df = None" "df_count df = None"
    and r: "r \<in> set (pd_rows (st_pins s))" "\<not> pn_deleted r" and "pe_cast env (pn_cid r) = Inr c"
    and del: "DeletePin cp env df cx (pn_req r) s = (err, s')"
  shows "st_pins s' = soft_delete_pins (\<lambda>p. p = r) (st_pins s)"
    and "(if \<exists>p \<in> set (live_pins (\<lambda>p. True) (st_pins s)). pn_user p = pn_user r \<and> pn_cid p = pn_cid r \<and> p \<noteq> r
          then err = None \<and> st_core s' = st_core s \<and> st_paths s' = st_paths s
          else st_core s' = snd (cp_del cp (NewIPFSHash c) (pn_user r) (st_core s)))"
proof -
  let ?q = "pn_req r"
  have same: "p = r" if "p \<in> set (pd_rows (st_pins s))" "pn_req p = ?q" for p
    using pins_req_inj [OF assms(1) that(1) r(1) that(2)] .
  have "r \<in> set (live_pins (\<lambda>p. pn_req p = ?q) (st_pins s))" using r by (simp add: live_pins_def)
  then obtain x xs where x: "live_pins (\<lambda>p. pn_req p = ?q) (st_pins s) = x # xs" by (cases "live_pins (\<lambda>p. pn_req p = ?q) (st_pins s)") auto
  have "x \<in> set (live_pins (\<lambda>p. pn_req p = ?q) (st_pins s))" by (simp add: x)
  then have "x = r" using same by (auto simp: live_pins_def)
  then have first: "first_pin None (\<lambda>p. pn_req p = ?q) (st_pins s) = Inr r" by (simp add: first_pin_def x)
  let ?db = "soft_delete_pins (\<lambda>p. pn_req p = ?q) (st_pins s)"
  let ?others = "live_pins (\<lambda>p. pn_user p = pn_user r \<and> pn_cid p = pn_cid r \<and> pn_req p \<noteq> ?q) (st_pins s)"
  have tx: "delete_tx df ?q (st_pins s) (st_pins s) = (Inr (Some (r, ?others = [])), ?db)"
    by (simp add: delete_tx_def assms(2-4) first countUserPinsByCID_def)
  have db: "?db = soft_delete_pins (\<lambda>p. p = r) (st_pins s)"
    unfolding soft_delete_pins_def map_pins_def using same by (intro arg_cong [where f = "\<lambda>x. pd_rows_update x _"]) auto
  show "st_pins s' = soft_delete_pins (\<lambda>p. p = r) (st_pins s)"
    using DeletePin_pins [of cp env df cx ?q s] by (simp add: del tx db)
  have others: "?others \<noteq> [] \<longleftrightarrow>
      (\<exists>p \<in> set (live_pins (\<lambda>p. True) (st_pins s)). pn_user p = pn_user r \<and> pn_cid p = pn_cid r \<and> p \<noteq> r)"
    using same by (auto simp: live_pins_def filter_empty_conv)
  show "if \<exists>p \<in> set (live_pins (\<lambda>p. True) (st_pins s)). pn_user p = pn_user r \<and> pn_cid p = pn_cid r \<and> p \<noteq> r
          then err = None \<and> st_core s' = st_core s \<and> st_paths s' = st_paths s
          else st_core s' = snd (cp_del cp (NewIPFSHash c) (pn_user r) (st_core s))"
  proof (cases "?others = []")
    case True
    then have "unpin_cid cp env df cx r (s\<lparr>st_pins := ?db\<rparr>) = (err, s')" using del by (simp add: DeletePin_def tx)
    from unpin_cid_D(2) [OF this assms(7)] show ?thesis using True by (simp add: others [symmetric])
  next
    case False
    then have "err = None \<and> s' = s\<lparr>st_pins := ?db\<rparr>" using del by (simp add: DeletePin_def tx)
    then show ?thesis using False by (simp add: others [symmetric])
  qed
qed

text \<open>C14. Without a database error, deleting a pin marks its row deleted and asks the core to delete its CID exactly when the
  user has no other live pin of that CID.\<close>

theorem delete_pin_exact:
  assumes "pins_wf env (st_pins s)" and "df_load df = None" "df_delete df = None" "df_count df = None"
    and r: "r \<in> set (pd_rows (st_pins s))" "\<not> pn_deleted r" and "pe_cast env (pn_cid r) = Inr c"
    and del: "DeletePin cp env df cx (pn_req r) s = (err, s')"
  shows "st_pins s' = soft_delete_pins (\<lambda>p. p = r) (st_pins s) \<and>
    (if \<exists>p \<in> set (live_pins (\<lambda>p. True) (st_pins s)). pn_user p = pn_user r \<and> pn_cid p = pn_cid r \<and> p \<noteq> r
          then err = None \<and> st_core s' = st_core s \<and> st_paths s' = st_paths s
          else st_core s' = snd (cp_del cp (NewIPFSHash c) (pn_user r) (st_core s)))"
  by (intro conjI impI delete_pin_exact_parts [OF assms])


lemma delete_pin_exact_witness:
  "st_core (snd (DeletePin ex_cp ex_penv ex_df Background [char_of (1::nat)] ex_state)) = st_core ex_state"
proof -
  have "\<exists>p \<in> set (live_pins (\<lambda>p. True) (st_pins ex_state)). pn_user p = pn_user (ex_pin 1 1 ''c'') \<and>
      pn_cid p = pn_cid (ex_pin 1 1 ''c'') \<and> p \<noteq> ex_pin 1 1 ''c''"
    by (simp add: live_pins_def ex_state_def ex_pin_def)
  then show ?thesis
    using delete_pin_exact [THEN conjunct2, OF ex_state_wf, of ex_df "ex_pin 1 1 ''c''" "Cid 1 85 ''c''" ex_cp Background,
        OF _ _ _ _ _ _ surjective_pairing]
    by (simp add: ex_df_def ex_state_def ex_pin_def ex_penv_def)
qed

lemma delete_tx_live:
  assumes "first_pin None (\<lambda>p. pn_req p = q) db = Inr r" and "df_load df = None" "df_delete df = None" "df_count df = None"
  shows "delete_tx df q view db =
    (Inr (Some (r, live_pins (\<lambda>p. pn_user p = pn_user r \<and> pn_cid p = pn_cid r \<and> pn_req p \<noteq> q) view = [])),
     soft_delete_pins (\<lambda>p. pn_req p = q) db)"
  using assms by (simp add: delete_tx_def countUserPinsByCID_def)

lemma first_pin_unique:
  assumes "pins_wf env db" "r \<in> set (pd_rows db)" "\<not> pn_deleted r"
  shows "first_pin None (\<lambda>p. pn_req p = pn_req r) db = Inr r"
proof -
  have r: "r \<in> set (live_pins (\<lambda>p. pn_req p = pn_req r) db)" using assms(2,3) by (simp add: live_pins_def)
  then obtain x xs where x: "live_pins (\<lambda>p. pn_req p = pn_req r) db = x # xs"
    by (cases "live_pins (\<lambda>p. pn_req p = pn_req r) db") auto
  then have "x \<in> set (live_pins (\<lambda>p. pn_req p = pn_req r) db)" by simp
  then have "x = r" using pins_req_inj [OF assms(1)] assms(2) by (auto simp: live_pins_def)
  then show ?thesis by (simp add: first_pin_def x)
qed

lemma delete_pin_race_parts:
  assumes "pins_wf env db" and two: "live_pins (\<lambda>p. pn_user p = u \<and> pn_cid p = c) db = [r1, r2]"
    and "df_load df = None" "df_delete df = None" "df_count df = None"
    and "delete_tx df (pn_req r1) db db = (res1, db1)" and "delete_tx df (pn_req r2) db db1 = (res2, db2)"
  shows "res1 = Inr (Some (r1, False))" and "res2 = Inr (Some (r2, False))"
    and "live_pins (\<lambda>p. pn_user p = u \<and> pn_cid p = c) db2 = []"
proof -
  have mem: "r1 \<in> set (pd_rows db)" "\<not> pn_deleted r1" "pn_user r1 = u" "pn_cid r1 = c"
    "r2 \<in> set (pd_rows db)" "\<not> pn_deleted r2" "pn_user r2 = u" "pn_cid r2 = c"
    using two list.set_intros(1) [of r1 "[r2]"] list.set_intros(2) [of r2 "[r2]" r1]
    unfolding two [symmetric] by (auto simp: live_pins_def)
  have "distinct (pd_rows db)" using assms(1) by (auto simp: pins_wf_def distinct_map)
  then have "distinct (live_pins (\<lambda>p. pn_user p = u \<and> pn_cid p = c) db)" by (simp add: live_pins_def)
  then have ne: "r1 \<noteq> r2" by (simp add: two)
  then have q: "pn_req r1 \<noteq> pn_req r2" using pins_req_inj [OF assms(1) mem(1,5)] by blast
  have one: "r2 \<in> set (live_pins (\<lambda>p. pn_user p = u \<and> pn_cid p = c \<and> pn_req p \<noteq> pn_req r1) db)"
    "r1 \<in> set (live_pins (\<lambda>p. pn_user p = u \<and> pn_cid p = c \<and> pn_req p \<noteq> pn_req r2) db)"
    using mem q by (auto simp: live_pins_def)
  then have ne': "live_pins (\<lambda>p. pn_user p = u \<and> pn_cid p = c \<and> pn_req p \<noteq> pn_req r1) db \<noteq> []"
    "live_pins (\<lambda>p. pn_user p = u \<and> pn_cid p = c \<and> pn_req p \<noteq> pn_req r2) db \<noteq> []" by auto
  have 1: "res1 = Inr (Some (r1, False))" "db1 = soft_delete_pins (\<lambda>p. pn_req p = pn_req r1) db"
    using assms(6) ne'(1) delete_tx_live [OF first_pin_unique [OF assms(1) mem(1,2)] assms(3-5)] by (auto simp: mem)
  have in2: "r2 \<in> set (pd_rows db1)" using mem(5) q by (force simp: 1(2) soft_delete_pins_def)
  have wf1: "pins_wf env db1" by (simp add: 1(2) soft_delete_pins_wf assms(1))
  have 2: "res2 = Inr (Some (r2, False))" "db2 = soft_delete_pins (\<lambda>p. pn_req p = pn_req r2) db1"
    using assms(7) ne'(2) delete_tx_live [OF first_pin_unique [OF wf1 in2 mem(6)] assms(3-5)] by (auto simp: mem)
  show "res1 = Inr (Some (r1, False))" "res2 = Inr (Some (r2, False))" by (fact 1 2)+
  have "live_pins (\<lambda>p. pn_user p = u \<and> pn_cid p = c) db2 =
      filter (\<lambda>p. pn_req p \<noteq> pn_req r2 \<and> pn_req p \<noteq> pn_req r1) (live_pins (\<lambda>p. pn_user p = u \<and> pn_cid p = c) db)"
    unfolding 2(2) 1(2) by (subst live_pins_delete, simp)+ (simp add: live_pins_def conj_commute conj_left_commute)
  then show "live_pins (\<lambda>p. pn_user p = u \<and> pn_cid p = c) db2 = []" by (simp add: two)
qed

text \<open>Two deletes of the two pins a user has of one CID, each counting before the other has committed, both keep the
  CID: no pin is left and the core is never asked to unpin it.\<close>

lemma delete_pin_race:
  assumes "pins_wf env db" and two: "live_pins (\<lambda>p. pn_user p = u \<and> pn_cid p = c) db = [r1, r2]"
    and "df_load df = None" "df_delete df = None" "df_count df = None"
    and "delete_tx df (pn_req r1) db db = (res1, db1)" and "delete_tx df (pn_req r2) db db1 = (res2, db2)"
  shows "res1 = Inr (Some (r1, False)) \<and>
    res2 = Inr (Some (r2, False)) \<and>
    live_pins (\<lambda>p. pn_user p = u \<and> pn_cid p = c) db2 = []"
  by (intro conjI impI delete_pin_race_parts [OF assms])

lemma delete_pin_race_witness:
  "fst (delete_tx ex_df [char_of (1::nat)] (st_pins ex_state) (st_pins ex_state)) = Inr (Some (ex_pin 1 1 ''c'', False))"
  using delete_pin_race [THEN conjunct1, OF ex_state_wf, of 1 "''c''" "ex_pin 1 1 ''c''" "ex_pin 2 1 ''c''" ex_df,
      OF _ _ _ _ surjective_pairing surjective_pairing]
  by (simp add: ex_df_def live_pins_def ex_state_def ex_pin_def)

text \<open>When the core fails to unpin the CID of a deleted pin the request fails with the row already gone, so that asking
  again succeeds without touching the core.\<close>
lemma delete_pin_retry:
  assumes "pins_wf env (st_pins s)" and "df_load df = None" "df_delete df = None" "df_count df = None"
    and r: "r \<in> set (pd_rows (st_pins s))" "\<not> pn_deleted r" and "pe_cast env (pn_cid r) = Inr c"
    and "\<forall>p \<in> set (live_pins (\<lambda>p. True) (st_pins s)). pn_user p = pn_user r \<and> pn_cid p = pn_cid r \<longrightarrow> p = r"
    and "cp_del cp (NewIPFSHash c) (pn_user r) (st_core s) = (Some e, st_core s)"
    and "DeletePin cp env df cx (pn_req r) s = (err, s')"
  shows "err = Some (Wrapped ''failed to unpin CID in core'' e)" and "st_core s' = st_core s"
    and "DeletePin cp env df cx (pn_req r) s' = (None, s')"
proof -
  let ?db = "soft_delete_pins (\<lambda>p. pn_req p = pn_req r) (st_pins s)"
  have none: "live_pins (\<lambda>p. pn_user p = pn_user r \<and> pn_cid p = pn_cid r \<and> pn_req p \<noteq> pn_req r) (st_pins s) = []"
    using assms(8) by (auto simp: live_pins_def filter_empty_conv)
  have tx: "delete_tx df (pn_req r) (st_pins s) (st_pins s) = (Inr (Some (r, True)), ?db)"
    using delete_tx_live [OF first_pin_unique [OF assms(1) r] assms(2-4)] none by simp
  have s': "err = Some (Wrapped ''failed to unpin CID in core'' e)" "s' = s\<lparr>st_pins := ?db\<rparr>"
    using assms(10) by (simp_all add: DeletePin_def tx unpin_cid_def assms(7,9))
  show "err = Some (Wrapped ''failed to unpin CID in core'' e)" "st_core s' = st_core s" by (simp_all add: s')
  have "live_pins (\<lambda>p. pn_req p = pn_req r) ?db = []" by (auto simp: soft_delete_pins_def live_pins_def filter_empty_conv)
  then have "delete_tx df (pn_req r) (st_pins s') (st_pins s') = (Inr None, ?db)"
    by (simp add: s' delete_tx_def first_pin_def assms(2))
  then show "DeletePin cp env df cx (pn_req r) s' = (None, s')" by (simp add: DeletePin_def s')
qed

definition ex_cp_fail :: "((storage_hash \<times> nat) list, nat) core_pins" where
  "ex_cp_fail = ex_cp\<lparr>cp_del := (\<lambda>h u k. (Some Canceled, k))\<rparr>"

lemma delete_pin_retry_witness:
  "fst (DeletePin ex_cp_fail ex_penv ex_df Background [char_of (3::nat)]
     (snd (DeletePin ex_cp_fail ex_penv ex_df Background [char_of (3::nat)] ex_state))) = None"
  using delete_pin_retry(3) [OF ex_state_wf, of ex_df "ex_pin 3 2 ''c''" "Cid 1 85 ''c''" ex_cp_fail Canceled Background,
      OF _ _ _ _ _ _ _ _ surjective_pairing]
  by (simp add: ex_df_def live_pins_def ex_state_def ex_pin_def ex_penv_def ex_cp_fail_def)

text \<open>\<open>AddPin\<close> stores a pin without a CID and then panics; a pin it stores with a CID is returned with the CID
  normalised.\<close>
lemma add_pin_panics:
  assumes "codec_ok env" and "pin_insert env None (addDelegateAddresses dg p) db = Inr (r, db')"
  shows "pn_cid p = [] \<Longrightarrow> AddPin env dg None p db = (Panicked, db') \<and> r \<in> set (pd_rows db')"
    and "pe_cast env (pn_cid p) = Inr c \<Longrightarrow>
           AddPin env dg None p db = (Returned (Inr r), db') \<and> pe_cast env (pn_cid r) = Inr (NormalizeCid c)"
proof -
  let ?p = "addDelegateAddresses dg p"
  have p: "pn_cid ?p = pn_cid p" by (simp add: addDelegateAddresses_def split: sum.splits)
  obtain q where q: "pin_BeforeSave env ?p = Inr q" "pn_cid r = pn_cid q" "pd_rows db' = pd_rows db @ [r]"
    using pin_insert_D [OF assms(2)] by metis
  show "AddPin env dg None p db = (Panicked, db') \<and> r \<in> set (pd_rows db')" if "pn_cid p = []"
  proof -
    have "pn_cid q = []" using pin_BeforeSave_D(4) [OF q(1)] p that by simp
    moreover obtain e where "pe_cast env [] = Inl e" using assms(1) by (cases "pe_cast env []") (auto simp: codec_ok_def)
    ultimately show ?thesis using q by (simp add: AddPin_def assms(2))
  qed
  show "AddPin env dg None p db = (Returned (Inr r), db') \<and> pe_cast env (pn_cid r) = Inr (NormalizeCid c)"
    if c: "pe_cast env (pn_cid p) = Inr c"
  proof -
    have "pn_cid p \<noteq> []" using assms(1) c by (auto simp: codec_ok_def)
    then have "pn_cid q = pe_bytes env (NormalizeCid c)" using pin_BeforeSave_D(5) [OF q(1)] p c by auto
    then have "pe_cast env (pn_cid r) = Inr (NormalizeCid c)" using assms(1) c q(2) by (auto simp: codec_ok_def)
    then show ?thesis by (simp add: AddPin_def assms(2))
  qed
qed

lemma add_pin_panics_witness:
  "fst (AddPin ex_penv (Inr ''[]'') None (empty_pin\<lparr>pn_req := ''q2''\<rparr>) (st_pins ex_state)) = Panicked"
proof -
  let ?p = "empty_pin\<lparr>pn_req := ''q2''\<rparr>"
  let ?r = "?p\<lparr>pn_id := 4, pn_status := ''queued'', pn_delegates := ''[]''\<rparr>"
  have "pin_insert ex_penv None (addDelegateAddresses (Inr ''[]'') ?p) (st_pins ex_state) =
      Inr (?r, (st_pins ex_state)\<lparr>pd_rows := pd_rows (st_pins ex_state) @ [?r], pd_next := 5\<rparr>)"
    by (simp add: pin_insert_def pin_BeforeSave_def pin_BeforeCreate_def addDelegateAddresses_def empty_pin_def
        validStatuses_def ex_penv_def ex_state_def req_taken_def ex_pin_def Let_def)
  from add_pin_panics(1) [OF ex_penv_ok this] show ?thesis by (simp add: empty_pin_def)
qed

end
