(* ===== verification/File_Path_Op.thy ===== *)
theory File_Path_Op
  imports Pin_Service
begin

text \<open>
  The operation that lays out a user's files: \<^verbatim>\<open>internal/protocol/op_file_path.go\<close>, with the block service
  \<^verbatim>\<open>internal/service/block/block.go\<close> it asks for UnixFS metadata.  The recursions over a DAG take fuel; two more
  than the number of block rows is enough (\<^verbatim>\<open>File_Path_Props\<close>).  The workflow data and the progress tracker of the
  portal core enter as the errors they return.
\<close>

section \<open>Block service\<close>

text \<open>\<open>GetBlockMeta\<close> looks for the bytes it is given, without normalising the CID.\<close>

definition GetBlockMeta :: "gerr option \<Rightarrow> cid \<Rightarrow> meta_db \<Rightarrow> gerr + unixfs_node" where
  "GetBlockMeta fault c db =
     (case fault of
        Some e \<Rightarrow> Inl (if e = RecordNotFound then e else Wrapped ''failed to get block meta'' e)
      | None \<Rightarrow>
          (case find_block c db of
             None \<Rightarrow> Inl RecordNotFound
           | Some r \<Rightarrow>
               (case live_unixfs (br_id r) db of
                  None \<Rightarrow> Inl RecordNotFound
                | Some u \<Rightarrow> Inr (ur_node u))))"

fun GetBlockMetaBatch ::
    "(cid \<Rightarrow> string) \<Rightarrow> (cid \<Rightarrow> gerr option) \<Rightarrow> meta_db \<Rightarrow> cid list \<Rightarrow> (string, unixfs_node) gomap \<Rightarrow>
     gerr + (string, unixfs_node) gomap" where
  "GetBlockMetaBatch str fault db [] metas = Inr metas"
| "GetBlockMetaBatch str fault db (c # cs) metas =
     (case GetBlockMeta (fault c) c db of
        Inl e \<Rightarrow> if e = RecordNotFound then GetBlockMetaBatch str fault db cs metas
                 else Inl (Wrapped (''failed to get block meta for '' @ str c) e)
      | Inr m \<Rightarrow> GetBlockMetaBatch str fault db cs (gm_set (str c) m metas))"

section \<open>What the operation calls\<close>

text \<open>
  \<open>po_str\<close> and \<open>po_parse\<close> are \<open>String()\<close> and \<open>cid.Parse\<close>; the next fields are the tables and the errors of the queries
  on them, by CID or by row; the last two are \<open>Has\<close> and \<open>GetSize\<close> of the node's block store.
\<close>

record path_env =
  po_str :: "cid \<Rightarrow> string"
  po_parse :: "string \<Rightarrow> gerr + cid"
  po_pin :: pin_env
  po_blocks :: meta_db
  po_store :: bool                             \<comment> \<open>there is a metadata store\<close>
  po_pins :: pin_db
  po_meta_fault :: "cid \<Rightarrow> gerr option"
  po_size_fault :: "cid \<Rightarrow> gerr option"
  po_child_fault :: "cid \<Rightarrow> gerr option"
  po_pin_fault :: "cid \<Rightarrow> gerr option"
  po_find_fault :: "file_path \<Rightarrow> gerr option"
  po_insert_fault :: "file_path \<Rightarrow> gerr option"
  po_update_fault :: "file_path \<Rightarrow> gerr option"
  po_has :: "cid \<Rightarrow> gerr + bool"
  po_bsize :: "cid \<Rightarrow> gerr + int"

abbreviation po_bytes :: "path_env \<Rightarrow> cid \<Rightarrow> bytes" where
  "po_bytes env \<equiv> pe_bytes (po_pin env)"

abbreviation po_meta :: "path_env \<Rightarrow> cid \<Rightarrow> gerr + unixfs_node" where
  "po_meta env c \<equiv> GetBlockMeta (po_meta_fault env c) c (po_blocks env)"

abbreviation po_create :: "path_env \<Rightarrow> file_path \<Rightarrow> path_db \<Rightarrow> gerr option \<times> path_db" where
  "po_create env p db \<equiv> CreateFilePath (po_find_fault env p) (po_insert_fault env p) p db"

definition IsDirectory :: "nat \<Rightarrow> bool" where
  "IsDirectory t \<longleftrightarrow> t = 1 \<or> t = 5"

text \<open>The fuel of the recursions.\<close>

definition dag_fuel :: "path_env \<Rightarrow> nat" where
  "dag_fuel env = length (md_blocks (po_blocks env)) + 2"

section \<open>The size of a DAG\<close>

definition block_size :: "path_env \<Rightarrow> cid \<Rightarrow> gerr + u64" where
  "block_size env c =
     (case meta_Size (po_size_fault env c) c (po_blocks env) of
        Inr n \<Rightarrow> Inr (of_nat n)
      | Inl e \<Rightarrow>
          (case po_bsize env c of
             Inl _ \<Rightarrow> Inl (Wrapped (''failed to get size for CID '' @ po_str env c) e)
           | Inr n \<Rightarrow> Inr (word_of_int n)))"

fun walkDAGForTotalSize ::
      "nat \<Rightarrow> path_env \<Rightarrow> cid \<Rightarrow> string list \<Rightarrow> ((gerr + u64) \<times> string list) option"
  and walk_children :: "nat \<Rightarrow> path_env \<Rightarrow> cid list \<Rightarrow> u64 \<Rightarrow> string list \<Rightarrow> (u64 \<times> string list) option" where
  "walkDAGForTotalSize 0 env c visited = None"
| "walkDAGForTotalSize (Suc n) env c visited =
     (if po_str env c \<in> set visited then Some (Inr 0, visited)
      else let visited = po_str env c # visited in
        if \<not> po_store env then Some (Inl (Opaque ''metadata store not available''), visited)
        else case block_size env c of
          Inl e \<Rightarrow> Some (Inl e, visited)
        | Inr sz \<Rightarrow>
            (case BlockChildren (po_child_fault env c) c None (po_blocks env) of
               Inl e \<Rightarrow> Some (Inl (Wrapped (''failed to get children for CID '' @ po_str env c) e), visited)
             | Inr cs \<Rightarrow>
                 (case walk_children n env cs sz visited of
                    None \<Rightarrow> None
                  | Some (acc, visited) \<Rightarrow> Some (Inr acc, visited))))"
| "walk_children n env [] acc visited = Some (acc, visited)"
| "walk_children n env (c # cs) acc visited =
     (case walkDAGForTotalSize n env c visited of
        None \<Rightarrow> None
      | Some (Inl e, visited) \<Rightarrow> walk_children n env cs acc visited
      | Some (Inr sz, visited) \<Rightarrow> walk_children n env cs (acc + sz) visited)"

section \<open>Orphans\<close>

definition pin_named :: "path_env \<Rightarrow> cid \<Rightarrow> file_path \<Rightarrow> file_path" where
  "pin_named env c p =
     (if fp_name p \<noteq> [] then p
      else case GetPinByCIDAndUser (po_pin env) (po_pin_fault env c) c (fp_user p) (po_pins env) of
        Inr (Some r) \<Rightarrow> if pn_name r \<noteq> [] then p\<lparr>fp_name := pn_name r, fp_path := ''/'' @ pn_name r\<rparr> else p
      | _ \<Rightarrow> p)"

definition enrichOrphanEntryFromBlockstore :: "path_env \<Rightarrow> cid \<Rightarrow> file_path \<Rightarrow> file_path" where
  "enrichOrphanEntryFromBlockstore env c p =
     (case po_has env c of
        Inr True \<Rightarrow>
          (case po_bsize env c of
             Inl e \<Rightarrow> p
           | Inr sz \<Rightarrow>
               let p = p\<lparr>fp_size := word_of_int sz, fp_type := 0, fp_dir := False\<rparr> in
               let p = (case walkDAGForTotalSize (dag_fuel env) env c [] of
                          Some (Inr acc, _) \<Rightarrow> if 0 < acc then p\<lparr>fp_size := acc\<rparr> else p
                        | _ \<Rightarrow> p)
               in pin_named env c p)
      | _ \<Rightarrow> p)"

definition orphan_path :: "path_env \<Rightarrow> nat \<Rightarrow> cid \<Rightarrow> unixfs_node option \<Rightarrow> file_path" where
  "orphan_path env user c meta =
     (let p = \<lparr>fp_id = 0, fp_user = user, fp_cid = po_bytes env c, fp_path = ''/'' @ po_str env c, fp_name = [],
               fp_type = 0, fp_size = 0, fp_dir = False, fp_orphan = True, fp_parent = ''/'', fp_depth = 0,
               fp_deleted = None\<rparr> in
      let p = (case meta of
                 Some m \<Rightarrow>
                   (let p = p\<lparr>fp_size := word_of_int (un_size m), fp_type := un_type m, fp_dir := IsDirectory (un_type m)\<rparr>
                    in if un_name m \<noteq> [] then p\<lparr>fp_name := un_name m, fp_path := ''/'' @ un_name m\<rparr> else p)
               | None \<Rightarrow> enrichOrphanEntryFromBlockstore env c p)
      in pin_named env c p)"

definition createOrphanEntry :: "path_env \<Rightarrow> nat \<Rightarrow> cid \<Rightarrow> unixfs_node option \<Rightarrow> path_db \<Rightarrow> path_db" where
  "createOrphanEntry env user c meta db = snd (po_create env (orphan_path env user c meta) db)"

definition orphan_pin :: "path_env \<Rightarrow> pin_row \<Rightarrow> path_db \<Rightarrow> path_db" where
  "orphan_pin env p db =
     (case pe_cast (po_pin env) (pn_cid p) of
        Inl e \<Rightarrow> db
      | Inr c \<Rightarrow>
          createOrphanEntry env (pn_user p) c
            (if pn_name p \<noteq> [] then Some \<lparr>un_name = pn_name p, un_type = 0, un_size = 0, un_children = []\<rparr> else None) db)"

definition CreateOrphanEntriesForPins :: "path_env \<Rightarrow> pin_row list \<Rightarrow> path_db \<Rightarrow> gerr option \<times> path_db" where
  "CreateOrphanEntriesForPins env ps db = (None, fold (orphan_pin env) ps db)"

section \<open>Paths below a root\<close>

type_synonym path_run = "string list \<times> path_db"   \<comment> \<open>the processed CIDs and the table\<close>

definition node_name :: "path_env \<Rightarrow> unixfs_node \<Rightarrow> cid \<Rightarrow> string" where
  "node_name env m c = (if un_name m = [] then po_str env c else un_name m)"

definition node_path :: "path_env \<Rightarrow> unixfs_node \<Rightarrow> cid \<Rightarrow> string \<Rightarrow> nat \<Rightarrow> string" where
  "node_path env m c parent depth =
     (if depth = 0 then ''/'' @ node_name env m c
      else if parent = ''/'' then ''/'' @ node_name env m c
      else parent @ ''/'' @ node_name env m c)"

definition node_row :: "path_env \<Rightarrow> nat \<Rightarrow> unixfs_node \<Rightarrow> cid \<Rightarrow> string \<Rightarrow> nat \<Rightarrow> bool \<Rightarrow> file_path" where
  "node_row env user m c parent depth orphan =
     \<lparr>fp_id = 0, fp_user = user, fp_cid = po_bytes env c, fp_path = node_path env m c parent depth,
      fp_name = node_name env m c, fp_type = un_type m, fp_size = word_of_int (un_size m),
      fp_dir = IsDirectory (un_type m), fp_orphan = orphan,
      fp_parent = (if depth = 0 then ''/'' else parent), fp_depth = depth, fp_deleted = None\<rparr>"

fun ComputePathsRecursive ::
      "nat \<Rightarrow> path_env \<Rightarrow> unixfs_node \<Rightarrow> nat \<Rightarrow> cid \<Rightarrow> string \<Rightarrow> nat \<Rightarrow> bool \<Rightarrow> path_run \<Rightarrow>
       ((gerr + u64) \<times> path_run) option"
  and compute_children ::
      "nat \<Rightarrow> path_env \<Rightarrow> nat \<Rightarrow> cid list \<Rightarrow> string \<Rightarrow> nat \<Rightarrow> u64 \<Rightarrow> path_run \<Rightarrow> (u64 \<times> path_run) option" where
  "ComputePathsRecursive 0 env m user c parent depth orphan run = None"
| "ComputePathsRecursive (Suc n) env m user c parent depth orphan (processed, db) =
     (if po_str env c \<in> set processed then Some (Inr 0, (processed, db))
      else
        let processed = po_str env c # processed;
            row = node_row env user m c parent depth orphan
        in case po_create env row db of (err, db) \<Rightarrow>
          (if err \<noteq> None \<and> \<not> errors_is (the err) ErrDuplicateFilePath
           then Some (Inl (Wrapped (''failed to create file path for '' @ fp_path row) (the err)), (processed, db))
           else if IsDirectory (un_type m) \<and> 0 < length (un_children m)
           then (case compute_children n env user (un_children m) (fp_path row) depth (fp_size row) (processed, db) of
                   None \<Rightarrow> None
                 | Some (acc, (processed, db)) \<Rightarrow>
                     let row = row\<lparr>fp_size := acc\<rparr>
                     in Some (Inr acc, (processed, snd (UpdateFilePath (po_update_fault env row) row db))))
           else Some (Inr (fp_size row), (processed, db))))"
| "compute_children n env user [] path depth acc run = Some (acc, run)"
| "compute_children n env user (c # cs) path depth acc (processed, db) =
     (case po_meta env c of
        Inl e \<Rightarrow> compute_children n env user cs path depth acc (processed, createOrphanEntry env user c None db)
      | Inr m \<Rightarrow>
          (case ComputePathsRecursive n env m user c path (depth + 1) False (processed, db) of
             None \<Rightarrow> None
           | Some (Inl e, run) \<Rightarrow> compute_children n env user cs path depth acc run
           | Some (Inr sz, run) \<Rightarrow> compute_children n env user cs path depth (acc + sz) run))"

definition computeAndStoreFilePaths ::
    "path_env \<Rightarrow> unixfs_node \<Rightarrow> nat \<Rightarrow> cid \<Rightarrow> path_run \<Rightarrow> (gerr option \<times> path_run) option" where
  "computeAndStoreFilePaths env m user root run =
     (case ComputePathsRecursive (dag_fuel env) env m user root ''/'' 0 False run of
        None \<Rightarrow> None
      | Some (Inl e, run) \<Rightarrow> Some (Some e, run)
      | Some (Inr sz, run) \<Rightarrow> Some (None, run))"

section \<open>The operation\<close>

text \<open>The first loop: the metadata found and the CIDs that become orphans.\<close>

fun collect_metas ::
    "path_env \<Rightarrow> string list \<Rightarrow> (string, unixfs_node) gomap \<Rightarrow> string list \<Rightarrow>
     (string, unixfs_node) gomap \<times> string list" where
  "collect_metas env [] metas orphans = (metas, orphans)"
| "collect_metas env (s # ss) metas orphans =
     (case po_parse env s of
        Inl e \<Rightarrow> collect_metas env ss metas orphans
      | Inr c \<Rightarrow>
          (case po_meta env c of
             Inl e \<Rightarrow> collect_metas env ss metas (List.insert s orphans)
           | Inr m \<Rightarrow>
               if un_name m = [] \<and> length (un_children m) = 0 then collect_metas env ss metas (List.insert s orphans)
               else collect_metas env ss (gm_set s m metas) orphans))"

definition child_set :: "path_env \<Rightarrow> (string, unixfs_node) gomap \<Rightarrow> string list" where
  "child_set env metas = concat (map (\<lambda>(s, m). map (po_str env) (un_children m)) metas)"

definition root_metas :: "path_env \<Rightarrow> (string, unixfs_node) gomap \<Rightarrow> (string, unixfs_node) gomap" where
  "root_metas env metas = filter (\<lambda>(s, m). s \<notin> set (child_set env metas)) metas"

fun process_roots ::
    "path_env \<Rightarrow> nat \<Rightarrow> (string, unixfs_node) gomap \<Rightarrow> string list \<Rightarrow> path_run \<Rightarrow> (string list \<times> path_run) option" where
  "process_roots env user [] orphans run = Some (orphans, run)"
| "process_roots env user ((s, m) # ms) orphans run =
     (case po_parse env s of
        Inl e \<Rightarrow> process_roots env user ms (List.insert s orphans) run
      | Inr c \<Rightarrow>
          (case computeAndStoreFilePaths env m user c run of
             None \<Rightarrow> None
           | Some (Some e, run) \<Rightarrow> process_roots env user ms (List.insert s orphans) run
           | Some (None, run) \<Rightarrow> process_roots env user ms orphans run))"

definition process_orphan :: "path_env \<Rightarrow> nat \<Rightarrow> (string, unixfs_node) gomap \<Rightarrow> string \<Rightarrow> path_db \<Rightarrow> path_db" where
  "process_orphan env user metas s db =
     (case po_parse env s of
        Inl e \<Rightarrow> db
      | Inr c \<Rightarrow> createOrphanEntry env user c (gm_get metas s) db)"

fun first_error :: "gerr list \<Rightarrow> gerr option" where
  "first_error [] = None"
| "first_error (e # es) = Some (Wrapped ''failed to prune related paths'' e)"

definition prune_one ::
    "path_env \<Rightarrow> (bytes \<Rightarrow> gerr option) \<Rightarrow> nat \<Rightarrow> nat \<Rightarrow> string \<Rightarrow> gerr list \<times> path_db \<Rightarrow> gerr list \<times> path_db" where
  "prune_one env fault now user s st =
     (case st of (errs, db) \<Rightarrow>
        (case po_parse env s of
           Inl e \<Rightarrow> (errs @ [Wrapped (''failed to parse CID '' @ s) e], db)
         | Inr c \<Rightarrow>
             (case DeleteFilePath (fault (po_bytes env c)) now user (po_bytes env c) db of
                (Some e, db) \<Rightarrow> (errs @ [Wrapped (''failed to delete file path for CID '' @ s) e], db)
              | (None, db) \<Rightarrow> (errs, db))))"

definition pruneRelatedPaths ::
    "path_env \<Rightarrow> (bytes \<Rightarrow> gerr option) \<Rightarrow> nat \<Rightarrow> nat \<Rightarrow> string list \<Rightarrow> path_db \<Rightarrow> gerr option \<times> path_db" where
  "pruneRelatedPaths env fault now user related db =
     (let (errs, db) = fold (prune_one env fault now user) related ([], db) in (first_error errs, db))"

text \<open>
  \<open>Execute\<close>.  \<open>workflow\<close> is the pin workflow's data, \<open>setup\<close> the errors of the workflow and progress calls before the
  step, in their order, \<open>fcount\<close> that of the count at the end; the orders in which Go ranges over the roots and the
  orphans are parameters.  The related CIDs of the new workflow data are not set before they are tested, so nothing is
  pruned.
\<close>

definition Execute ::
    "path_env \<Rightarrow> gerr + string list \<Rightarrow> nat option \<Rightarrow> gerr list \<Rightarrow> gerr option \<Rightarrow>
     ((string, unixfs_node) gomap \<Rightarrow> (string, unixfs_node) gomap) \<Rightarrow> (string list \<Rightarrow> string list) \<Rightarrow>
     path_db \<Rightarrow> (gerr option \<times> path_db) option" where
  "Execute env workflow user setup fcount order_roots order_orphans db =
     (case workflow of
        Inl e \<Rightarrow> Some (Some (Wrapped ''failed to get pin workflow data'' e), db)
      | Inr cids \<Rightarrow>
          let uid = (case user of None \<Rightarrow> 0 | Some u \<Rightarrow> u) in
          if user = None \<or> uid = 0 then Some (Some (Opaque ''invalid or missing user ID''), db)
          else if setup \<noteq> [] then Some (Some (hd setup), db)
          else
            let (metas, orphans) = collect_metas env cids [] [] in
            (case process_roots env uid (order_roots (root_metas env metas)) orphans ([], db) of
               None \<Rightarrow> None
             | Some (orphans, (processed, db)) \<Rightarrow>
                 let db = fold (process_orphan env uid metas) (order_orphans orphans) db in
                 Some (map_option (Wrapped ''failed to validate file path results'') fcount, db)))"

definition ValidateRequest :: "bytes \<Rightarrow> gerr + string list \<Rightarrow> gerr option" where
  "ValidateRequest hash workflow =
     (if length hash = 0
      then (case workflow of
              Inl e \<Rightarrow> Some (Opaque ''hash is required'')
            | Inr cids \<Rightarrow> if length cids = 0 then Some (Opaque ''hash is required'') else None)
      else None)"

end
