(* ===== verification/File_Path_Props.thy ===== *)
theory File_Path_Props
  imports File_Path_Op File_Paths
begin

text \<open>
  What holds of the operation that lays out files: its recursions end within their fuel, the size of a DAG counts every
  block reachable from the root once, every row it writes is well-formed, and a CID is given a path at most once.
\<close>

section \<open>The blocks still to be visited\<close>

definition known_cids :: "path_env \<Rightarrow> cid set" where
  "known_cids env = br_cid ` set (md_blocks (po_blocks env))"

definition to_visit :: "path_env \<Rightarrow> string list \<Rightarrow> nat" where
  "to_visit env seen = card (po_str env ` known_cids env - set seen)"

lemma finite_known [simp]: "finite (known_cids env)"
  by (simp add: known_cids_def)

lemma to_visit_fuel: "to_visit env seen + 1 < dag_fuel env"
proof -
  have "to_visit env seen \<le> card (po_str env ` known_cids env)" unfolding to_visit_def by (rule card_mono) auto
  also have "\<dots> \<le> card (set (md_blocks (po_blocks env)))"
    by (metis List.finite_set card_image_le finite_imageI known_cids_def le_trans)
  also have "\<dots> \<le> length (md_blocks (po_blocks env))" by (rule card_length)
  finally show ?thesis by (simp add: dag_fuel_def)
qed

lemma to_visit_mono: "set seen \<subseteq> set seen' \<Longrightarrow> to_visit env seen' \<le> to_visit env seen"
  unfolding to_visit_def by (rule card_mono) auto

lemma to_visit_Cons: "to_visit env (s # seen) \<le> to_visit env seen"
  by (rule to_visit_mono) auto

lemma to_visit_less:
  assumes "s \<in> po_str env ` known_cids env" "s \<notin> set seen"
  shows "to_visit env (s # seen) < to_visit env seen"
  unfolding to_visit_def by (rule psubset_card_mono) (use assms in auto)

lemma find_block_known: "find_block c (po_blocks env) = Some r \<Longrightarrow> c \<in> known_cids env"
  by (auto simp: find_block_def find_Some_iff known_cids_def)

lemma po_meta_known: "po_meta env c = Inr m \<Longrightarrow> c \<in> known_cids env"
  by (auto simp: GetBlockMeta_def split: option.splits dest: find_block_known)

lemma in_limited_filter:
  assumes "y \<in> set (limited k (List.map_filter f xs))"
  obtains x where "f x = Some y"
proof -
  have "y \<in> set (List.map_filter f xs)"
    using assms by (cases k) (auto simp: limited_def dest: in_set_takeD)
  then show thesis using that by (auto simp: map_filter_def)
qed

lemma BlockChildren_known:
  assumes "BlockChildren fault c k (po_blocks env) = Inr cs"
  shows "set cs \<subseteq> known_cids env"
proof
  fix d assume d: "d \<in> set cs"
  obtain rows :: "link_row list" where
    rows: "cs = limited k (List.map_filter (\<lambda>l. ready_cid (po_blocks env) (lr_child l)) rows)"
  proof (cases fault)
    case None
    note eq = assms [unfolded BlockChildren_def Let_def None option.case sum.inject]
    show thesis by (rule that [OF eq [symmetric]])
  qed (use assms in \<open>simp add: BlockChildren_def\<close>)
  obtain l :: link_row where "ready_cid (po_blocks env) (lr_child l) = Some d"
    by (rule in_limited_filter [OF d [unfolded rows]]) (rule that)
  then obtain r where "block_at (lr_child l) (po_blocks env) = Some r" "br_cid r = d"
    by (auto simp: ready_cid_def split: option.splits if_splits)
  then show "d \<in> known_cids env" by (auto simp: block_at_def find_Some_iff known_cids_def)
qed

section \<open>The walk over a DAG\<close>

lemma walk_mono:
  "walkDAGForTotalSize n env c seen = Some (r, seen') \<Longrightarrow> set seen \<subseteq> set seen'"
  "walk_children n env cs acc seen = Some (acc', seen') \<Longrightarrow> set seen \<subseteq> set seen'"
proof (induction n env c seen and n env cs acc seen arbitrary: r seen' and acc' seen'
    rule: walkDAGForTotalSize_walk_children.induct)
  case (2 n env c seen)
  then show ?case by (fastforce simp: Let_def split: if_splits sum.splits option.splits)
next
  case (4 n env c cs acc seen)
  then show ?case by (fastforce split: option.splits sum.splits)
qed simp_all

lemma walk_returns:
  "to_visit env seen + (if c \<in> known_cids env then 0 else 1) < n \<Longrightarrow> walkDAGForTotalSize n env c seen \<noteq> None"
  "to_visit env seen < n \<Longrightarrow> set cs \<subseteq> known_cids env \<Longrightarrow> walk_children n env cs acc seen \<noteq> None"
proof (induction n env c seen and n env cs acc seen rule: walkDAGForTotalSize_walk_children.induct)
  case (2 n env c seen)
  show ?case
  proof (cases "po_str env c \<in> set seen")
    case False
    let ?seen = "po_str env c # seen"
    have less: "to_visit env ?seen < n"
      using 2(2) to_visit_less [OF _ False] to_visit_Cons [of env "po_str env c" seen]
      by (cases "c \<in> known_cids env") fastforce+
    show ?thesis
    proof (cases "block_size env c")
      case (Inr sz)
      show ?thesis
      proof (cases "BlockChildren (po_child_fault env c) c None (po_blocks env)")
        case ch: (Inr cs)
        show ?thesis using 2(1) [OF False refl _ Inr ch less BlockChildren_known [OF ch]] False Inr ch
          by (cases "po_store env") (auto simp: Let_def)
      qed (simp add: Inr Let_def)
    qed (simp add: Let_def)
  qed simp
next
  case (4 n env c cs acc seen)
  obtain r seen' where w: "walkDAGForTotalSize n env c seen = Some (r, seen')"
    using 4 by fastforce
  then have "to_visit env seen' < n" using 4(4) walk_mono(1) [OF w] to_visit_mono le_less_trans by blast
  then show ?case using 4(2,3,5) w by (cases r) auto
qed simp_all


text \<open>The children of a block and the blocks below one, with no error of the database.\<close>

definition dag_children :: "path_env \<Rightarrow> cid \<Rightarrow> cid set" where
  "dag_children env c = set (projr (BlockChildren None c None (po_blocks env)))"

definition below :: "path_env \<Rightarrow> cid \<Rightarrow> cid set" where
  "below env c = {d. (c, d) \<in> {(x, y). y \<in> dag_children env x}\<^sup>*}"

lemma BlockChildren_no_fault: "\<exists>cs. BlockChildren None c None db = Inr cs"
  by (simp add: BlockChildren_def Let_def)

lemma dag_children_known: "dag_children env c \<subseteq> known_cids env"
proof -
  obtain cs where "BlockChildren None c None (po_blocks env) = Inr cs" using BlockChildren_no_fault by blast
  then show ?thesis using BlockChildren_known by (simp add: dag_children_def)
qed

lemma below_refl: "c \<in> below env c"
  by (simp add: below_def)

lemma below_child: "d \<in> dag_children env c \<Longrightarrow> below env d \<subseteq> below env c"
  by (auto simp: below_def intro: converse_rtrancl_into_rtrancl)

lemma below_known: "d \<in> below env c \<Longrightarrow> d \<in> insert c (known_cids env)"
  unfolding below_def using dag_children_known by (auto elim: rtranclE)

text \<open>What a walk that has met no error has done, from the blocks seen before to those seen after.\<close>

definition walked ::
    "path_env \<Rightarrow> (string \<Rightarrow> u64) \<Rightarrow> cid set \<Rightarrow> cid list \<Rightarrow> u64 \<Rightarrow> string list \<Rightarrow> u64 \<Rightarrow> string list \<Rightarrow> bool" where
  "walked env f U cs acc seen acc' seen' \<longleftrightarrow>
     (\<exists>new. seen' = new @ seen \<and> distinct new \<and> set new \<inter> set seen = {} \<and> acc' = acc + sum_list (map f new) \<and>
        set new \<subseteq> po_str env ` (\<Union>c \<in> set cs. below env c) \<and> po_str env ` set cs \<subseteq> set seen' \<and>
        (\<forall>d \<in> U. po_str env d \<in> set new \<longrightarrow> po_str env ` dag_children env d \<subseteq> set seen'))"

lemma walked_Nil: "walked env f U [] acc seen acc seen"
  by (simp add: walked_def)

lemma walked_seen: "po_str env c \<in> set seen \<Longrightarrow> walked env f U [c] 0 seen 0 seen"
  by (simp add: walked_def)

lemma walked_Cons:
  assumes "walked env f U [c] 0 seen sz seen1" and "walked env f U cs (acc + sz) seen1 acc' seen'"
  shows "walked env f U (c # cs) acc seen acc' seen'"
proof -
  obtain new1 where 1: "seen1 = new1 @ seen" "distinct new1" "set new1 \<inter> set seen = {}" "sz = sum_list (map f new1)"
    "set new1 \<subseteq> po_str env ` below env c" "po_str env c \<in> set seen1"
    "\<forall>d \<in> U. po_str env d \<in> set new1 \<longrightarrow> po_str env ` dag_children env d \<subseteq> set seen1"
    using assms(1) by (auto simp: walked_def)
  obtain new2 where 2: "seen' = new2 @ seen1" "distinct new2" "set new2 \<inter> set seen1 = {}"
    "acc' = acc + sz + sum_list (map f new2)" "set new2 \<subseteq> po_str env ` (\<Union>c \<in> set cs. below env c)"
    "po_str env ` set cs \<subseteq> set seen'"
    "\<forall>d \<in> U. po_str env d \<in> set new2 \<longrightarrow> po_str env ` dag_children env d \<subseteq> set seen'"
    using assms(2) by (auto simp: walked_def)
  show ?thesis unfolding walked_def
  proof (intro exI [of _ "new2 @ new1"] conjI ballI impI)
    fix d assume "d \<in> U" "po_str env d \<in> set (new2 @ new1)"
    then have "po_str env ` dag_children env d \<subseteq> set seen1 \<or> po_str env ` dag_children env d \<subseteq> set seen'"
      using 1(7) 2(7) by auto
    then show "po_str env ` dag_children env d \<subseteq> set seen'" using 2(1) by auto
  next
    show "distinct (new2 @ new1)" "set (new2 @ new1) \<inter> set seen = {}" using 1 2 by auto
    show "acc' = acc + sum_list (map f (new2 @ new1))" using 1(4) 2(4) by (simp add: algebra_simps)
    show "set (new2 @ new1) \<subseteq> po_str env ` (\<Union>c \<in> set (c # cs). below env c)" using 1(5) 2(5) by (simp add: image_Un) blast
  qed (use 1 2 in auto)
qed

lemma walked_node:
  assumes "po_str env c \<notin> set seen" "c \<in> U" and str: "inj_on (po_str env) U"
    and cs: "set cs = dag_children env c"
    and "walked env f U cs (f (po_str env c)) (po_str env c # seen) acc' seen'"
  shows "walked env f U [c] 0 seen acc' seen'"
proof -
  obtain new where n: "seen' = new @ po_str env c # seen" "distinct new" "set new \<inter> set (po_str env c # seen) = {}"
    "acc' = f (po_str env c) + sum_list (map f new)" "set new \<subseteq> po_str env ` (\<Union>c \<in> set cs. below env c)"
    "po_str env ` set cs \<subseteq> set seen'"
    "\<forall>d \<in> U. po_str env d \<in> set new \<longrightarrow> po_str env ` dag_children env d \<subseteq> set seen'"
    using assms(5) by (auto simp: walked_def)
  have sub: "(\<Union>c \<in> set cs. below env c) \<subseteq> below env c" using cs below_child by blast
  show ?thesis unfolding walked_def
  proof (intro exI [of _ "new @ [po_str env c]"] conjI ballI impI)
    fix d assume d: "d \<in> U" "po_str env d \<in> set (new @ [po_str env c])"
    then consider "po_str env d \<in> set new" | "d = c" using inj_onD [OF str _ _ assms(2)] by auto
    then show "po_str env ` dag_children env d \<subseteq> set seen'" using n(6,7) d(1) cs by cases auto
  next
    show "set (new @ [po_str env c]) \<subseteq> po_str env ` (\<Union>c \<in> set [c]. below env c)"
      using n(5) image_mono [OF sub, of "po_str env"] below_refl [of c env] by auto
    show "acc' = 0 + sum_list (map f (new @ [po_str env c]))" using n(4) by (simp add: algebra_simps)
  qed (use n assms(1) in auto)
qed

lemma walk_unfold:
  assumes "po_str env c \<notin> set seen" "po_store env" "block_size env c = Inr sz"
    and "BlockChildren (po_child_fault env c) c None (po_blocks env) = Inr cs"
  shows "walkDAGForTotalSize (Suc n) env c seen =
    map_option (\<lambda>(t, seen'). (Inr t, seen')) (walk_children n env cs sz (po_str env c # seen))"
  using assms by (simp add: Let_def split: option.splits)

lemma walk_walked:
  assumes U: "known_cids env \<subseteq> U" and str: "inj_on (po_str env) U" and store: "po_store env"
    and sz: "\<And>d. d \<in> U \<Longrightarrow> block_size env d = Inr (f (po_str env d))" and ch: "\<And>d. po_child_fault env d = None"
  shows "c \<in> U \<Longrightarrow> walkDAGForTotalSize n env c seen = Some (r, seen') \<Longrightarrow>
           \<exists>t. r = Inr t \<and> walked env f U [c] 0 seen t seen'"
    and "set cs \<subseteq> U \<Longrightarrow> walk_children n env cs acc seen = Some (acc', seen') \<Longrightarrow> walked env f U cs acc seen acc' seen'"
using assms
proof (induction n env c seen and n env cs acc seen arbitrary: r seen' and acc' seen'
    rule: walkDAGForTotalSize_walk_children.induct)
  case (2 n env c seen)
  note c = 2(2) and run = 2(3) and U = 2(4) and str = 2(5) and store = 2(6) and sz = 2(7) and ch = 2(8)
  show ?case
  proof (cases "po_str env c \<in> set seen")
    case True
    then show ?thesis using run walked_seen by auto
  next
    case False
    obtain cs where cs: "BlockChildren None c None (po_blocks env) = Inr cs" using BlockChildren_no_fault by blast
    then have cs': "BlockChildren (po_child_fault env c) c None (po_blocks env) = Inr cs" by (simp add: ch)
    obtain t where t: "walk_children n env cs (f (po_str env c)) (po_str env c # seen) = Some (t, seen')" "r = Inr t"
      using run unfolding walk_unfold [OF False store sz [OF c] cs'] by auto
    have "set cs \<subseteq> U" using BlockChildren_known [OF cs] U by blast
    moreover have "\<not> \<not> po_store env" using store by simp
    ultimately have "walked env f U cs (f (po_str env c)) (po_str env c # seen) t seen'"
      using 2(1) [OF False refl _ sz [OF c] cs' _ t(1) U str store sz ch] by blast
    then show ?thesis using walked_node [OF False c str _] cs t(2) by (auto simp: dag_children_def)
  qed
next
  case (4 n env c cs acc seen)
  note cs = 4(4) and run = 4(5) and U = 4(6) and str = 4(7) and store = 4(8) and sz = 4(9) and ch = 4(10)
  obtain r seen1 where w: "walkDAGForTotalSize n env c seen = Some (r, seen1)"
    using run by (auto split: option.splits)
  obtain t where t: "r = Inr t" "walked env f U [c] 0 seen t seen1"
    using 4(1) [OF _ w U str store sz ch] cs by auto
  have "walk_children n env cs (acc + t) seen1 = Some (acc', seen')" using run w t(1) by simp
  then have "walked env f U cs (acc + t) seen1 acc' seen'"
    using 4(3) [OF w refl t(1) _ _ U str store sz ch] cs by auto
  then show ?case by (rule walked_Cons [OF t(2)])
qed (simp_all add: walked_Nil)


text \<open>C18. The size found for an orphan is the sum of the sizes of all blocks reachable from its CID, each counted once
  however many links lead to it; the walk visits exactly these blocks and ends.\<close>
theorem walk_total_size:
  fixes f :: "string \<Rightarrow> u64"
  assumes str: "inj_on (po_str env) (insert c (known_cids env))" and "po_store env"
    and "\<And>d. d \<in> insert c (known_cids env) \<Longrightarrow> block_size env d = Inr (f (po_str env d))"
    and "\<And>d. po_child_fault env d = None"
  shows "\<exists>seen. walkDAGForTotalSize (dag_fuel env) env c [] = Some (Inr (\<Sum>d \<in> below env c. f (po_str env d)), seen) \<and>
           set seen = po_str env ` below env c"
proof -
  let ?U = "insert c (known_cids env)"
  have "walkDAGForTotalSize (dag_fuel env) env c [] \<noteq> None"
    by (rule walk_returns(1)) (use to_visit_fuel [of env "[]"] in auto)
  then obtain r seen where w: "walkDAGForTotalSize (dag_fuel env) env c [] = Some (r, seen)" by auto
  then obtain t where t: "r = Inr t" "walked env f ?U [c] 0 [] t seen"
    using walk_walked(1) [OF _ str assms(2-4) _ w] by auto
  then have n: "distinct seen" "t = sum_list (map f seen)" "set seen \<subseteq> po_str env ` below env c"
    "po_str env c \<in> set seen"
    "\<forall>d \<in> ?U. po_str env d \<in> set seen \<longrightarrow> po_str env ` dag_children env d \<subseteq> set seen"
    by (auto simp: walked_def)
  have "po_str env d \<in> set seen" if "d \<in> below env c" for d
    using that [unfolded below_def mem_Collect_eq]
  proof (induction rule: rtrancl_induct)
    case base
    then show ?case by (rule n(4))
  next
    case (step y z)
    then have "y \<in> ?U" using below_known [of y env c] by (auto simp: below_def)
    then show ?case using n(5) step by auto
  qed
  then have s: "set seen = po_str env ` below env c" using n(3) by auto
  have "inj_on (po_str env) (below env c)" using below_known by (intro inj_on_subset [OF str]) auto
  then have "t = (\<Sum>d \<in> below env c. f (po_str env d))"
    using n(1,2) s by (simp add: sum.distinct_set_conv_list [symmetric] sum.reindex comp_def)
  then show ?thesis using w t(1) s by auto
qed


text \<open>A root with two directories that both link to one file.\<close>

definition ex_cid :: "string \<Rightarrow> cid" where "ex_cid h = Cid 1 112 h"

definition ex_blocks :: meta_db where
  "ex_blocks = \<lparr>
     md_blocks = [\<lparr>br_id = 1, br_cid = ex_cid ''r'', br_size = 1, br_ann = None, br_ready = True\<rparr>,
                  \<lparr>br_id = 2, br_cid = ex_cid ''a'', br_size = 2, br_ann = None, br_ready = True\<rparr>,
                  \<lparr>br_id = 3, br_cid = ex_cid ''b'', br_size = 3, br_ann = None, br_ready = True\<rparr>,
                  \<lparr>br_id = 4, br_cid = ex_cid ''f'', br_size = 4, br_ann = None, br_ready = True\<rparr>],
     md_links = [\<lparr>lr_parent = Some 1, lr_child = 2, lr_index = 0\<rparr>, \<lparr>lr_parent = Some 1, lr_child = 3, lr_index = 1\<rparr>,
                 \<lparr>lr_parent = Some 2, lr_child = 4, lr_index = 0\<rparr>, \<lparr>lr_parent = Some 3, lr_child = 4, lr_index = 0\<rparr>],
     md_unixfs = [\<lparr>ur_block = 1, ur_node = \<lparr>un_name = ''r'', un_type = 1, un_size = 0,
                     un_children = [ex_cid ''a'', ex_cid ''b'']\<rparr>, ur_deleted = False\<rparr>,
                  \<lparr>ur_block = 2, ur_node = \<lparr>un_name = ''a'', un_type = 1, un_size = 0, un_children = [ex_cid ''f'']\<rparr>,
                     ur_deleted = False\<rparr>,
                  \<lparr>ur_block = 3, ur_node = \<lparr>un_name = ''b'', un_type = 1, un_size = 0, un_children = [ex_cid ''f'']\<rparr>,
                     ur_deleted = False\<rparr>,
                  \<lparr>ur_block = 4, ur_node = \<lparr>un_name = ''f'', un_type = 2, un_size = 7, un_children = []\<rparr>,
                     ur_deleted = False\<rparr>],
     md_next = 5\<rparr>"

definition ex_penv0 :: pin_env where
  "ex_penv0 = \<lparr>pe_empty = (\<lambda>b. b = []), pe_uuid = ''u'', pe_cast = (\<lambda>b. Inr (ex_cid b)), pe_bytes = cid_hash\<rparr>"

definition ex_env :: path_env where
  "ex_env = \<lparr>po_str = cid_hash, po_parse = (\<lambda>s. Inr (ex_cid s)), po_pin = ex_penv0, po_blocks = ex_blocks, po_store = True,
     po_pins = \<lparr>pd_rows = [], pd_next = 1\<rparr>, po_meta_fault = (\<lambda>_. None), po_size_fault = (\<lambda>_. None),
     po_child_fault = (\<lambda>_. None), po_pin_fault = (\<lambda>_. None), po_find_fault = (\<lambda>_. None),
     po_insert_fault = (\<lambda>_. None), po_update_fault = (\<lambda>_. None), po_has = (\<lambda>_. Inr True), po_bsize = (\<lambda>_. Inr 1)\<rparr>"

lemma ex_env_known: "known_cids ex_env = {ex_cid ''r'', ex_cid ''a'', ex_cid ''b'', ex_cid ''f''}"
  by (simp add: known_cids_def ex_env_def ex_blocks_def)

lemma ex_env_str: "po_str ex_env = cid_hash"
  by (simp add: ex_env_def)

lemma walk_total_size_witness:
  "\<exists>seen. walkDAGForTotalSize (dag_fuel ex_env) ex_env (ex_cid ''r'') [] =
     Some (Inr (\<Sum>d \<in> below ex_env (ex_cid ''r''). if po_str ex_env d = ''r'' then 1 else if po_str ex_env d = ''a'' then 2
                 else if po_str ex_env d = ''b'' then 3 else 4), seen) \<and>
     set seen = po_str ex_env ` below ex_env (ex_cid ''r'')"
proof (rule walk_total_size)
  show "inj_on (po_str ex_env) (insert (ex_cid ''r'') (known_cids ex_env))"
    unfolding ex_env_known by (simp add: ex_cid_def ex_env_str)
  show "block_size ex_env d = Inr (if po_str ex_env d = ''r'' then 1 else if po_str ex_env d = ''a'' then 2
                 else if po_str ex_env d = ''b'' then 3 else 4)" if "d \<in> insert (ex_cid ''r'') (known_cids ex_env)" for d
  proof -
    have "d = ex_cid ''r'' \<or> d = ex_cid ''a'' \<or> d = ex_cid ''b'' \<or> d = ex_cid ''f''"
      using that unfolding ex_env_known by auto
    then show ?thesis
      by (elim disjE) (simp_all add: ex_cid_def ex_env_def ex_blocks_def block_size_def meta_Size_def find_block_def)
  qed
qed (simp_all add: ex_env_def)

section \<open>The recursion over paths\<close>

definition created :: "gerr option \<Rightarrow> bool" where
  "created err \<longleftrightarrow> err = None \<or> errors_is (the err) ErrDuplicateFilePath"

lemma compute_cases:
  assumes "ComputePathsRecursive (Suc n) env m user c parent depth orphan (pr, db) = Some (r, (pr', db'))"
  obtains (seen) "po_str env c \<in> set pr" "r = Inr 0" "pr' = pr" "db' = db"
  | (fail) e where "po_str env c \<notin> set pr" "r = Inl e" "pr' = po_str env c # pr"
      "db' = snd (po_create env (node_row env user m c parent depth orphan) db)"
  | (leaf) "po_str env c \<notin> set pr" "\<not> (IsDirectory (un_type m) \<and> un_children m \<noteq> [])"
      "created (fst (po_create env (node_row env user m c parent depth orphan) db))"
      "r = Inr (fp_size (node_row env user m c parent depth orphan))" "pr' = po_str env c # pr"
      "db' = snd (po_create env (node_row env user m c parent depth orphan) db)"
  | (dir) acc db2 where "po_str env c \<notin> set pr" "IsDirectory (un_type m)" "un_children m \<noteq> []"
      "created (fst (po_create env (node_row env user m c parent depth orphan) db))"
      "compute_children n env user (un_children m) (node_path env m c parent depth) depth
         (fp_size (node_row env user m c parent depth orphan))
         (po_str env c # pr, snd (po_create env (node_row env user m c parent depth orphan) db)) = Some (acc, (pr', db2))"
      "r = Inr acc"
      "db' = snd (UpdateFilePath (po_update_fault env ((node_row env user m c parent depth orphan)\<lparr>fp_size := acc\<rparr>))
                ((node_row env user m c parent depth orphan)\<lparr>fp_size := acc\<rparr>) db2)"
proof -
  let ?row = "node_row env user m c parent depth orphan"
  obtain err db1 where cr: "po_create env ?row db = (err, db1)" by fastforce
  have path: "fp_path ?row = node_path env m c parent depth" by (simp add: node_row_def)
  show thesis
  proof (cases "po_str env c \<in> set pr")
    case True
    then have "r = Inr 0" "pr' = pr" "db' = db" using assms by simp_all
    with True show thesis by (rule seen)
  next
    case new: False
    have cond: "(err \<noteq> None \<and> \<not> errors_is (the err) ErrDuplicateFilePath) = (\<not> created err)"
      by (auto simp: created_def)
    note run = assms [unfolded ComputePathsRecursive.simps if_not_P [OF new] Let_def cr prod.case cond]
    show thesis
    proof (cases "created err")
      case False
      then obtain e where "r = Inl e" "pr' = po_str env c # pr" "db' = snd (po_create env ?row db)"
        using run cr by auto
      with new show thesis by (rule fail)
    next
      case ok: True
      show thesis
      proof (cases "IsDirectory (un_type m) \<and> un_children m \<noteq> []")
        case False
        have "created (fst (po_create env ?row db))" using ok cr by simp
        moreover have "r = Inr (fp_size ?row)" "pr' = po_str env c # pr" "db' = snd (po_create env ?row db)"
          using run ok False cr by simp_all
        ultimately show thesis by (rule leaf [OF new False])
      next
        case True
        then obtain acc db2 where d: "compute_children n env user (un_children m) (fp_path ?row) depth (fp_size ?row)
            (po_str env c # pr, db1) = Some (acc, (pr', db2))" "r = Inr acc"
          "db' = snd (UpdateFilePath (po_update_fault env (?row\<lparr>fp_size := acc\<rparr>)) (?row\<lparr>fp_size := acc\<rparr>) db2)"
          using run ok by (simp split: option.splits prod.splits)
        have "created (fst (po_create env ?row db))" using ok cr by simp
        moreover have "compute_children n env user (un_children m) (node_path env m c parent depth) depth (fp_size ?row)
            (po_str env c # pr, snd (po_create env ?row db)) = Some (acc, (pr', db2))"
          using d(1) cr path by simp
        ultimately show thesis using True by (intro dir [OF new _ _ _ _ d(2,3)]) auto
      qed
    qed
  qed
qed


text \<open>One step of the loop over the children.\<close>

lemma children_cases:
  assumes "compute_children n env user (c # cs) path depth acc (pr, db) = Some (acc', run')"
  obtains (orphan) e where "po_meta env c = Inl e"
      "compute_children n env user cs path depth acc (pr, createOrphanEntry env user c None db) = Some (acc', run')"
  | (child) m r run1 where "po_meta env c = Inr m"
      "ComputePathsRecursive n env m user c path (depth + 1) False (pr, db) = Some (r, run1)"
      "compute_children n env user cs path depth (case r of Inl _ \<Rightarrow> acc | Inr sz \<Rightarrow> acc + sz) run1 = Some (acc', run')"
proof (cases "po_meta env c")
  case (Inl e)
  then show thesis using assms orphan by simp
next
  case (Inr m)
  show thesis
  proof (cases "ComputePathsRecursive n env m user c path (depth + 1) False (pr, db)")
    case (Some x)
    obtain r run1 where x: "x = (r, run1)" by (cases x)
    have "compute_children n env user cs path depth (case r of Inl _ \<Rightarrow> acc | Inr sz \<Rightarrow> acc + sz) run1 = Some (acc', run')"
      using assms Inr Some x by (cases r) simp_all
    then show thesis using child [OF Inr] Some x by simp
  qed (use assms Inr in simp)
qed

lemma compute_mono:
  "ComputePathsRecursive n env m user c parent depth orphan (pr, db) = Some (r, (pr', db')) \<Longrightarrow> set pr \<subseteq> set pr'"
proof (induction n arbitrary: m c parent depth orphan pr db r pr' db')
  case (Suc n)
  have loop: "compute_children n env user cs path depth acc (pr, db) = Some (acc', (pr', db')) \<Longrightarrow> set pr \<subseteq> set pr'"
    for cs path depth acc pr db acc' pr' db'
  proof (induction cs arbitrary: acc pr db)
    case (Cons c cs)
    from Cons.prems show ?case
    proof (cases rule: children_cases)
      case (orphan e)
      then show ?thesis using Cons.IH by simp
    next
      case (child m r run1)
      obtain pr1 db1 where "run1 = (pr1, db1)" by fastforce
      then show ?thesis using Suc.IH child Cons.IH by blast
    qed
  qed simp
  from Suc.prems show ?case
  proof (cases rule: compute_cases)
    case (dir acc db2)
    then show ?thesis using loop [OF dir(5)] by auto
  qed auto
qed simp

lemma compute_returns:
  "to_visit env pr + (if c \<in> known_cids env then 0 else 1) < n \<Longrightarrow>
     ComputePathsRecursive n env m user c parent depth orphan (pr, db) \<noteq> None"
proof (induction n arbitrary: m c parent depth orphan pr db)
  case (Suc n)
  have loop: "to_visit env pr < n \<Longrightarrow> compute_children n env user cs path depth acc (pr, db) \<noteq> None"
    for cs path depth acc pr db
  proof (induction cs arbitrary: acc pr db)
    case (Cons c cs)
    show ?case
    proof (cases "po_meta env c")
      case (Inl e)
      then show ?thesis using Cons.IH [OF Cons.prems] by simp
    next
      case (Inr m)
      have "ComputePathsRecursive n env m user c path (depth + 1) False (pr, db) \<noteq> None"
        by (rule Suc.IH) (use Cons.prems po_meta_known [OF Inr] in simp)
      then obtain r pr1 db1 where r: "ComputePathsRecursive n env m user c path (depth + 1) False (pr, db) = Some (r, (pr1, db1))"
        by auto
      have "to_visit env pr1 < n" using Cons.prems to_visit_mono [OF compute_mono [OF r]] by (rule le_less_trans [rotated])
      then show ?thesis using Cons.IH Inr r by (cases r) simp_all
    qed
  qed simp
  show ?case
  proof (cases "po_str env c \<in> set pr")
    case False
    have "to_visit env (po_str env c # pr) < n"
      using Suc.prems to_visit_less [OF _ False] to_visit_Cons [of env "po_str env c" pr]
      by (cases "c \<in> known_cids env") fastforce+
    then have some: "(compute_children n env user cs path depth acc (po_str env c # pr, db') = None) = False"
      for cs path acc db' using loop by blast
    show ?thesis using False by (auto simp: Let_def some simp del: not_None_eq split: prod.splits option.splits)
  qed simp
qed simp

section \<open>What every step of the operation keeps\<close>

text \<open>
  The operation changes the table by creating rows of its own making and by setting the size of a row it made; what these
  keep, the whole operation keeps.
\<close>

locale path_invariant =
  fixes env :: path_env and user :: nat and ok :: "file_path \<Rightarrow> bool" and I :: "path_db \<Rightarrow> bool"
  assumes ok_node: "ok (node_row env user m c parent depth False)"
    and ok_orphan: "ok (orphan_path env user c meta)"
    and ok_size: "ok p \<Longrightarrow> ok (p\<lparr>fp_size := t\<rparr>)"
    and create: "ok p \<Longrightarrow> I db \<Longrightarrow> I (snd (po_create env p db))"
    and update: "ok p \<Longrightarrow> I db \<Longrightarrow> I (snd (UpdateFilePath fault p db))"
begin

lemma orphan_keeps: "I db \<Longrightarrow> I (createOrphanEntry env user c meta db)"
  unfolding createOrphanEntry_def by (rule create [OF ok_orphan])

lemma compute_keeps:
  "ComputePathsRecursive n env m user c parent depth False (pr, db) = Some (r, (pr', db')) \<Longrightarrow> I db \<Longrightarrow> I db'"
proof (induction n arbitrary: m c parent depth pr db r pr' db')
  case (Suc n)
  have loop: "compute_children n env user cs path depth acc (pr, db) = Some (acc', (pr', db')) \<Longrightarrow> I db \<Longrightarrow> I db'"
    for cs path depth acc pr db acc' pr' db'
  proof (induction cs arbitrary: acc pr db)
    case (Cons c cs)
    from Cons.prems(1) show ?case
    proof (cases rule: children_cases)
      case (orphan e)
      then show ?thesis using Cons.IH [OF orphan(2) orphan_keeps [OF Cons.prems(2)]] by simp
    next
      case (child m r run1)
      obtain pr1 db1 where run1: "run1 = (pr1, db1)" by fastforce
      have "I db1" using Suc.IH [OF child(2) [unfolded run1] Cons.prems(2)] .
      then show ?thesis using Cons.IH [OF child(3) [unfolded run1]] by blast
    qed
  qed simp
  note made = create [OF ok_node Suc.prems(2)]
  from Suc.prems(1) show ?case
  proof (cases rule: compute_cases)
    case seen
    then show ?thesis using Suc.prems(2) by simp
  next
    case (fail e)
    then show ?thesis using made by simp
  next
    case leaf
    then show ?thesis using made by simp
  next
    case (dir acc db2)
    then show ?thesis using update [OF ok_size [OF ok_node]] loop [OF dir(5) made] by simp
  qed
qed simp

lemma children_keep:
  "compute_children n env user cs path depth acc (pr, db) = Some (acc', (pr', db')) \<Longrightarrow> I db \<Longrightarrow> I db'"
proof (induction cs arbitrary: acc pr db)
  case (Cons c cs)
  from Cons.prems(1) show ?case
  proof (cases rule: children_cases)
    case (orphan e)
    then show ?thesis using Cons.IH [OF orphan(2) orphan_keeps [OF Cons.prems(2)]] by simp
  next
    case (child m r run1)
    obtain pr1 db1 where run1: "run1 = (pr1, db1)" by fastforce
    have "I db1" using compute_keeps [OF child(2) [unfolded run1] Cons.prems(2)] .
    then show ?thesis using Cons.IH [OF child(3) [unfolded run1]] by blast
  qed
qed simp

lemma roots_keep:
  "process_roots env user ms orphans (pr, db) = Some (orphans', (pr', db')) \<Longrightarrow> I db \<Longrightarrow> I db'"
proof (induction ms arbitrary: orphans pr db)
  case (Cons x ms)
  obtain s m where x: "x = (s, m)" by fastforce
  show ?case
  proof (cases "po_parse env s")
    case (Inl e)
    then show ?thesis using Cons by (simp add: x)
  next
    case (Inr c)
    then obtain r pr1 db1 where r: "ComputePathsRecursive (dag_fuel env) env m user c ''/'' 0 False (pr, db) = Some (r, (pr1, db1))"
      using Cons.prems(1) by (auto simp: x computeAndStoreFilePaths_def split: option.splits)
    have "I db1" by (rule compute_keeps [OF r Cons.prems(2)])
    then show ?thesis using Cons.IH Cons.prems(1) Inr r
      by (cases r) (auto simp: x computeAndStoreFilePaths_def)
  qed
qed simp

lemma orphans_keep: "I db \<Longrightarrow> I (fold (process_orphan env user metas) ss db)"
  by (induction ss arbitrary: db) (auto simp: process_orphan_def orphan_keeps split: sum.splits)

lemma Execute_keeps:
  assumes "Execute env workflow (Some user) setup fcount order_roots order_orphans db = Some (err, db')" and "I db"
  shows "I db'"
proof (cases "\<exists>cids. workflow = Inr cids \<and> user \<noteq> 0 \<and> setup = []")
  case True
  then obtain cids where w: "workflow = Inr cids" "user \<noteq> 0" "setup = []" by blast
  obtain metas orphans where m: "collect_metas env cids [] [] = (metas, orphans)" by fastforce
  obtain orphans' pr1 db1 where r: "process_roots env user (order_roots (root_metas env metas)) orphans ([], db) =
      Some (orphans', (pr1, db1))" "db' = fold (process_orphan env user metas) (order_orphans orphans') db1"
    using assms(1) by (auto simp: Execute_def w m split: option.splits)
  show ?thesis unfolding r(2) by (rule orphans_keep [OF roots_keep [OF r(1) assms(2)]])
next
  case False
  then have "db' = db" using assms(1) by (auto simp: Execute_def Let_def split: sum.splits if_splits)
  then show ?thesis using assms(2) by simp
qed

end


section \<open>The rows it writes\<close>

text \<open>
  The directory flag is that of the type, a row of depth 0 lies below the root, and, unless it is an orphan without a
  name, the path of a row is that of its parent followed by its name.
\<close>

definition child_path :: "string \<Rightarrow> string \<Rightarrow> string" where
  "child_path parent name = (if parent = ''/'' then ''/'' @ name else parent @ ''/'' @ name)"

lemma child_path_root: "child_path ''/'' name = CHR ''/'' # name"
  by (simp add: child_path_def)

definition row_typed :: "file_path \<Rightarrow> bool" where
  "row_typed r \<longleftrightarrow>
     (fp_dir r \<longleftrightarrow> IsDirectory (fp_type r)) \<and> (fp_depth r = 0 \<longrightarrow> fp_parent r = ''/'') \<and>
     (fp_orphan r \<longrightarrow> fp_depth r = 0) \<and>
     (fp_orphan r \<and> fp_name r = [] \<or> fp_path r = child_path (fp_parent r) (fp_name r))"

definition paths_typed :: "path_db \<Rightarrow> bool" where
  "paths_typed db \<longleftrightarrow> (\<forall>r \<in> set (fd_rows db). row_typed r \<and> length (fp_path r) \<le> MaxPathLength)"

lemma row_typed_cong:
  assumes "row_typed p" "fp_dir r = fp_dir p" "fp_type r = fp_type p" "fp_depth r = fp_depth p" "fp_parent r = fp_parent p"
    "fp_orphan r = fp_orphan p" "fp_name r = fp_name p" "fp_path r = fp_path p"
  shows "row_typed r"
  using assms(1) unfolding row_typed_def assms(2-8) .

lemma row_typed_node: "row_typed (node_row env user m c parent depth False)"
  by (simp add: row_typed_def node_row_def node_path_def child_path_def)

definition rootlike :: "file_path \<Rightarrow> bool" where
  "rootlike p \<longleftrightarrow> row_typed p \<and> fp_parent p = ''/'' \<and> fp_depth p = 0"

lemma rootlike_size: "rootlike p \<Longrightarrow> rootlike (p\<lparr>fp_size := t\<rparr>)"
  by (auto simp: rootlike_def row_typed_def)

lemma rootlike_type: "rootlike p \<Longrightarrow> rootlike (p\<lparr>fp_size := t, fp_type := k, fp_dir := IsDirectory k\<rparr>)"
  by (auto simp: rootlike_def row_typed_def)

lemma rootlike_name: "rootlike p \<Longrightarrow> rootlike (p\<lparr>fp_name := n, fp_path := ''/'' @ n\<rparr>)"
  by (simp add: rootlike_def row_typed_def child_path_root)

lemma rootlike_named: "rootlike p \<Longrightarrow> rootlike (pin_named env c p)"
  unfolding pin_named_def by (auto simp del: append_Cons append_Nil intro: rootlike_name split: sum.splits option.splits)

lemma rootlike_walked:
  "rootlike p \<Longrightarrow> rootlike (case w of Some (Inr t, _) \<Rightarrow> if 0 < t then p\<lparr>fp_size := t\<rparr> else p | _ \<Rightarrow> p)"
  by (auto intro: rootlike_size split: option.splits prod.splits sum.splits)

lemma rootlike_enrich: "rootlike p \<Longrightarrow> rootlike (enrichOrphanEntryFromBlockstore env c p)"
proof -
  assume p: "rootlike p"
  have "rootlike (p\<lparr>fp_size := word_of_int sz, fp_type := 0, fp_dir := False\<rparr>)" for sz
    using rootlike_type [OF p, of 0 "word_of_int sz"] by (simp add: IsDirectory_def)
  then show ?thesis unfolding enrichOrphanEntryFromBlockstore_def Let_def
    by (auto intro!: rootlike_named rootlike_walked simp: p split: sum.split bool.split)
qed

lemma row_typed_orphan: "row_typed (orphan_path env user c meta)"
proof -
  let ?p = "\<lparr>fp_id = 0, fp_user = user, fp_cid = po_bytes env c, fp_path = ''/'' @ po_str env c, fp_name = [],
               fp_type = 0, fp_size = 0, fp_dir = False, fp_orphan = True, fp_parent = ''/'', fp_depth = 0,
               fp_deleted = None\<rparr>"
  have base: "rootlike ?p" by (simp add: rootlike_def row_typed_def IsDirectory_def)
  have "rootlike (orphan_path env user c meta)"
  proof (cases meta)
    case None
    show ?thesis unfolding orphan_path_def Let_def None option.case by (intro rootlike_named rootlike_enrich base)
  next
    case (Some m)
    let ?q = "?p\<lparr>fp_size := word_of_int (un_size m), fp_type := un_type m, fp_dir := IsDirectory (un_type m)\<rparr>"
    have q: "rootlike ?q" by (rule rootlike_type [OF base])
    have "rootlike (if un_name m \<noteq> [] then ?q\<lparr>fp_name := un_name m, fp_path := ''/'' @ un_name m\<rparr> else ?q)"
      by (rule iffD2 [OF if_split]) (intro conjI impI rootlike_name q)
    then show ?thesis unfolding orphan_path_def Let_def Some option.case by (rule rootlike_named)
  qed
  then show ?thesis by (simp add: rootlike_def)
qed

lemma create_typed:
  assumes "row_typed p" "paths_typed db" shows "paths_typed (snd (po_create env p db))"
proof -
  obtain err db' where c: "po_create env p db = (err, db')" by fastforce
  from c show ?thesis
  proof (cases rule: CreateFilePath_rows)
    case 2
    have "row_typed (p\<lparr>fp_id := fd_next db, fp_deleted := None\<rparr>)" by (rule row_typed_cong [OF assms(1)]) simp_all
    then show ?thesis using assms(2) 2 by (auto simp: c paths_typed_def validateFields_lengths)
  qed (use assms(2) c in simp)
qed

lemma update_typed:
  assumes "row_typed p" "paths_typed db" shows "paths_typed (snd (UpdateFilePath fault p db))"
proof (cases fault)
  case None
  have "row_typed (path_updates p r)" if "path_key r = path_key p" for r
    using that by (intro row_typed_cong [OF assms(1)]) (simp_all add: path_updates_def path_key_def)
  then show ?thesis using assms(2) by (auto simp: None UpdateFilePath_rows paths_typed_def)
next
  case (Some e)
  then show ?thesis using assms(2) by (simp add: UpdateFilePath_def)
qed

interpretation typed: path_invariant env user row_typed paths_typed for env user
proof unfold_locales
  show "row_typed (p\<lparr>fp_size := t\<rparr>)" if "row_typed p" for p t by (rule row_typed_cong [OF that]) simp_all
qed (rule row_typed_node row_typed_orphan create_typed update_typed; assumption?)+

text \<open>The live rows keep their keys: no step of the operation takes a path away.\<close>

definition live_keys :: "path_db \<Rightarrow> (nat \<times> bytes \<times> string) set" where
  "live_keys db = path_key ` set (live_paths (\<lambda>r. True) db)"

lemma live_keys_create: "live_keys db \<subseteq> live_keys (snd (po_create env p db))"
proof -
  obtain err db' where c: "po_create env p db = (err, db')" by fastforce
  from c show ?thesis by (cases rule: CreateFilePath_rows) (auto simp: c live_keys_def live_paths_def)
qed

lemma live_keys_update: "live_keys (snd (UpdateFilePath fault p db)) = live_keys db"
proof (cases fault)
  case None
  let ?f = "\<lambda>r. if fp_deleted r = None \<and> path_key r = path_key p then path_updates p r else r"
  have r: "fd_rows (snd (UpdateFilePath fault p db)) = map ?f (fd_rows db)" by (simp add: None UpdateFilePath_rows)
  have "map path_key (live_paths (\<lambda>r. True) (snd (UpdateFilePath fault p db))) = map path_key (live_paths (\<lambda>r. True) db)"
    unfolding live_paths_def r by (rule map_keys_filter) auto
  then show ?thesis unfolding live_keys_def by (metis list.set_map)
next
  case (Some e)
  then show ?thesis by (simp add: UpdateFilePath_def)
qed

interpretation growing: path_invariant env user "\<lambda>_. True" "\<lambda>db. K \<subseteq> live_keys db" for env user K
  using live_keys_create live_keys_update by unfold_locales (blast | simp)+

lemma created_key:
  assumes "created (fst (po_create env p db))" and "po_find_fault env p \<noteq> Some RecordNotFound"
    and "\<not> errors_is (the (po_find_fault env p)) ErrDuplicateFilePath \<or> po_find_fault env p = None"
    and "\<not> errors_is (the (po_insert_fault env p)) ErrDuplicateFilePath \<or> po_insert_fault env p = None"
  shows "path_key p \<in> live_keys (snd (po_create env p db))"
proof -
  obtain err db' where c: "po_create env p db = (err, db')" by fastforce
  show ?thesis
  proof (cases err)
    case None
    from c have "fd_rows db' = fd_rows db @ [p\<lparr>fp_id := fd_next db, fp_deleted := None\<rparr>]"
      by (cases rule: CreateFilePath_rows) (simp_all add: None)
    then show ?thesis by (simp add: c live_keys_def live_paths_def path_key_def image_Un)
  next
    case (Some e)
    then have dup: "errors_is e ErrDuplicateFilePath" using assms(1) c by (simp add: created_def)
    have "create_exists (po_find_fault env p) p db = Inr True"
    proof (cases "create_exists (po_find_fault env p) p db")
      case (Inl x)
      then have "po_find_fault env p = Some x" "e = x"
        using c Some by (auto simp: CreateFilePath_def create_finish_def create_exists_def split: option.splits if_splits)
      then show ?thesis using assms(3) dup by simp
    next
      case (Inr b)
      show ?thesis
      proof (cases b)
        case False
        then have i: "path_insert (po_insert_fault env p) p db = (Some e, db')"
          using c Some Inr by (simp add: CreateFilePath_def create_finish_def)
        then have "po_insert_fault env p = Some e \<or> validateFields p = Some e"
          by (auto simp: path_insert_def split: option.splits)
        moreover have "\<not> errors_is e ErrDuplicateFilePath" if "validateFields p = Some e"
          using that by (auto simp: validateFields_def split: if_splits)
        ultimately show ?thesis using assms(4) dup by auto
      qed (simp add: Inr)
    qed
    then have "live_paths (\<lambda>r. path_key r = path_key p) db \<noteq> []" "db' = db"
      using c assms(2) by (auto simp: create_exists_def CreateFilePath_def create_finish_def split: option.splits if_splits)
    then obtain x where "x \<in> set (live_paths (\<lambda>r. True) db')" "path_key x = path_key p"
      by (auto simp: live_paths_def filter_empty_conv)
    then show ?thesis by (auto simp: c live_keys_def intro: rev_image_eqI)
  qed
qed


section \<open>Properties\<close>

lemma process_roots_returns: "process_roots env user ms orphans run \<noteq> None"
proof (induction ms arbitrary: orphans run)
  case (Cons x ms)
  obtain s m where x: "x = (s, m)" by fastforce
  obtain pr db where run: "run = (pr, db)" by fastforce
  have "ComputePathsRecursive (dag_fuel env) env m user c ''/'' 0 False (pr, db) \<noteq> None" for c
    by (rule compute_returns) (use to_visit_fuel [of env pr] in auto)
  then have "(computeAndStoreFilePaths env m user c run = None) = False" for c
    unfolding computeAndStoreFilePaths_def run by (auto split: option.split sum.split)
  then show ?case using Cons.IH by (auto simp: x simp del: not_None_eq split: sum.splits option.splits)
qed simp

lemma Execute_returns: "Execute env workflow user setup fcount order_roots order_orphans db \<noteq> None"
  using process_roots_returns
  by (auto simp: Execute_def Let_def simp del: not_None_eq split: sum.split option.split prod.split)

lemma file_path_op_ends_parts:
  "walkDAGForTotalSize (dag_fuel env) env c seen \<noteq> None"
  "ComputePathsRecursive (dag_fuel env) env m user c parent depth orphan run \<noteq> None"
  "Execute env workflow user' setup fcount order_roots order_orphans db \<noteq> None"
proof -
  show "walkDAGForTotalSize (dag_fuel env) env c seen \<noteq> None"
    by (rule walk_returns(1)) (use to_visit_fuel [of env seen] in auto)
  have "ComputePathsRecursive (dag_fuel env) env m user c parent depth orphan (fst run, snd run) \<noteq> None"
    by (rule compute_returns) (use to_visit_fuel [of env "fst run"] in auto)
  then show "ComputePathsRecursive (dag_fuel env) env m user c parent depth orphan run \<noteq> None" by simp
  show "Execute env workflow user' setup fcount order_roots order_orphans db \<noteq> None" by (rule Execute_returns)
qed

text \<open>C17. The recursions over a DAG and the whole operation end, on any tables and even on cyclic links: two more steps than
  there are blocks are enough for each recursion.\<close>

theorem file_path_op_ends:
  "walkDAGForTotalSize (dag_fuel env) env c seen \<noteq> None \<and>
    ComputePathsRecursive (dag_fuel env) env m user c parent depth orphan run \<noteq> None \<and>
    Execute env workflow user' setup fcount order_roots order_orphans db \<noteq> None"
  by (intro conjI impI file_path_op_ends_parts)

lemma file_paths_typed_parts:
  assumes "Execute env workflow user setup fcount order_roots order_orphans db = Some (err, db')" and "paths_typed db"
  shows "paths_typed db'" and "live_keys db \<subseteq> live_keys db'"
proof -
  have "paths_typed db' \<and> live_keys db \<subseteq> live_keys db'"
  proof (cases user)
    case None
    then have "db' = db" using assms(1) by (auto simp: Execute_def Let_def split: sum.splits)
    then show ?thesis using assms(2) by simp
  next
    case (Some u)
    show ?thesis
      using typed.Execute_keeps [OF assms(1) [unfolded Some] assms(2)]
        growing.Execute_keeps [OF assms(1) [unfolded Some] order_refl] by simp
  qed
  then show "paths_typed db'" "live_keys db \<subseteq> live_keys db'" by simp_all
qed

text \<open>C19. Every row the operation leaves in the table of file paths is well-formed: its flag is that of its UnixFS type, its
  path is its parent's path followed by its name, an orphan lies below the root, and no path is too long.\<close>

theorem file_paths_typed:
  assumes "Execute env workflow user setup fcount order_roots order_orphans db = Some (err, db')" and "paths_typed db"
  shows "paths_typed db' \<and>
    live_keys db \<subseteq> live_keys db'"
  by (intro conjI impI file_paths_typed_parts [OF assms])

lemma file_paths_typed_witness:
  "\<exists>db'. Execute ex_env (Inr [''r'', ''a'', ''b'', ''f'']) (Some 1) [] None id id \<lparr>fd_rows = [], fd_next = 1\<rparr> = Some (None, db') \<and>
     paths_typed db'"
proof -
  let ?run = "Execute ex_env (Inr [''r'', ''a'', ''b'', ''f'']) (Some 1) [] None id id \<lparr>fd_rows = [], fd_next = 1\<rparr>"
  obtain err db' where r: "?run = Some (err, db')" using Execute_returns by fastforce
  then have "err = None" by (auto simp: Execute_def Let_def split: prod.splits option.splits)
  moreover have "paths_typed db'" by (rule file_paths_typed [OF r, THEN conjunct1]) (simp add: paths_typed_def)
  ultimately show ?thesis using r by simp
qed

definition ex_run :: "((gerr + u64) \<times> path_run) option" where
  "ex_run = ComputePathsRecursive 6 ex_env \<lparr>un_name = ''r'', un_type = 1, un_size = 0, un_children = [ex_cid ''a'', ex_cid ''b'']\<rparr>
     1 (ex_cid ''r'') ''/'' 0 False ([], \<lparr>fd_rows = [], fd_next = 1\<rparr>)"

definition ex_run_b :: "((gerr + u64) \<times> path_run) option" where
  "ex_run_b = ComputePathsRecursive 6 ex_env \<lparr>un_name = ''b'', un_type = 1, un_size = 0, un_children = [ex_cid ''f'']\<rparr>
     1 (ex_cid ''b'') ''/r'' 1 False ([''f''], \<lparr>fd_rows = [], fd_next = 1\<rparr>)"

lemma ex_run_b_value: "map_option fst ex_run_b = Some (Inr 0)"
  by code_simp

text \<open>The file \<open>f\<close> is linked from both directories and listed in the first; the second has size 0.\<close>

lemma ex_run_value:
  "map_option (\<lambda>(r, (pr, db)). (r, map (\<lambda>x. (fp_path x, fp_size x)) (fd_rows db))) ex_run =
   Some (Inr 7, [(''/r'', 7), (''/r/a'', 7), (''/r/a/f'', 7), (''/r/b'', 0)])"
  by code_simp

lemma update_sets_size:
  assumes "k \<in> live_keys db" "path_key p = k"
  shows "\<exists>r \<in> set (live_paths (\<lambda>r. True) (snd (UpdateFilePath None p db))). path_key r = k \<and> fp_size r = fp_size p"
    and "\<forall>r \<in> set (live_paths (\<lambda>r. True) (snd (UpdateFilePath None p db))). path_key r = k \<longrightarrow> fp_size r = fp_size p"
proof -
  obtain r where r: "r \<in> set (fd_rows db)" "fp_deleted r = None" "path_key r = k"
    using assms(1) by (auto simp: live_keys_def live_paths_iff)
  have "path_updates p r \<in> set (live_paths (\<lambda>r. True) (snd (UpdateFilePath None p db)))"
    using r assms(2) by (auto simp: UpdateFilePath_rows live_paths_iff)
  then show "\<exists>r \<in> set (live_paths (\<lambda>r. True) (snd (UpdateFilePath None p db))). path_key r = k \<and> fp_size r = fp_size p"
    using r(3) by (intro bexI [of _ "path_updates p r"]) (simp_all add: path_updates_def path_key_def)
  show "\<forall>r \<in> set (live_paths (\<lambda>r. True) (snd (UpdateFilePath None p db))). path_key r = k \<longrightarrow> fp_size r = fp_size p"
    using assms(2) by (auto simp: UpdateFilePath_rows live_paths_iff path_updates_def)
qed

text \<open>After a directory has been laid out, its path is in the table and its size is the total the recursion returned for
  it.\<close>
lemma directory_size:
  assumes "ComputePathsRecursive n env m user c parent depth False (pr, db) = Some (Inr t, (pr', db'))"
    and "po_str env c \<notin> set pr" and "IsDirectory (un_type m)" and "un_children m \<noteq> []"
    and "\<And>p. po_find_fault env p = None" and "\<And>p. po_insert_fault env p = None" and "\<And>p. po_update_fault env p = None"
  shows "\<exists>r \<in> set (live_paths (\<lambda>r. True) db'). path_key r = (user, po_bytes env c, node_path env m c parent depth)"
    and "\<forall>r \<in> set (live_paths (\<lambda>r. True) db').
           path_key r = (user, po_bytes env c, node_path env m c parent depth) \<longrightarrow> fp_size r = t"
proof -
  let ?row = "node_row env user m c parent depth False"
  let ?k = "(user, po_bytes env c, node_path env m c parent depth)"
  obtain k where n: "n = Suc k" using assms(1) by (cases n) auto
  have key: "path_key (?row\<lparr>fp_size := s\<rparr>) = ?k" "path_key ?row = ?k" for s by (simp_all add: path_key_def node_row_def)
  from assms(1) [unfolded n] obtain db2 where d: "created (fst (po_create env ?row db))"
      "compute_children k env user (un_children m) (node_path env m c parent depth) depth (fp_size ?row)
         (po_str env c # pr, snd (po_create env ?row db)) = Some (t, (pr', db2))"
      "db' = snd (UpdateFilePath None (?row\<lparr>fp_size := t\<rparr>) db2)"
  proof (cases rule: compute_cases)
    case (dir acc db2)
    then show thesis using that assms(7) by auto
  qed (use assms(2-4) in simp_all)
  have "?k \<in> live_keys (snd (po_create env ?row db))"
    using created_key [OF d(1)] assms(5,6) by (simp add: key)
  moreover have "live_keys (snd (po_create env ?row db)) \<subseteq> live_keys db2" by (rule growing.children_keep [OF d(2)]) simp
  ultimately have "?k \<in> live_keys db2" by blast
  from update_sets_size [OF this key(1), of t]
  show "\<exists>r \<in> set (live_paths (\<lambda>r. True) db'). path_key r = ?k"
    and "\<forall>r \<in> set (live_paths (\<lambda>r. True) db'). path_key r = ?k \<longrightarrow> fp_size r = t"
    unfolding d(3) by auto
qed

lemma directory_size_witness:
  "\<exists>pr db. ex_run_b = Some (Inr 0, (pr, db)) \<and>
     (\<exists>r \<in> set (live_paths (\<lambda>r. True) db). path_key r = (1, ''b'', ''/r/b''))"
proof -
  obtain pr db where r: "ex_run_b = Some (Inr 0, (pr, db))" using ex_run_b_value by auto
  have k: "(1, po_bytes ex_env (ex_cid ''b''), node_path ex_env \<lparr>un_name = ''b'', un_type = 1, un_size = 0,
      un_children = [ex_cid ''f'']\<rparr> (ex_cid ''b'') ''/r'' 1) = (1, ''b'', ''/r/b'')"
    by (simp add: ex_env_def ex_penv0_def ex_cid_def node_path_def node_name_def)
  have "\<exists>r \<in> set (live_paths (\<lambda>r. True) db). path_key r = (1, ''b'', ''/r/b'')"
    using directory_size(1) [OF r [unfolded ex_run_b_def], unfolded k]
    by (simp add: ex_env_def ex_cid_def IsDirectory_def)
  with r show ?thesis by blast
qed

text \<open>The rows of a CID that are not orphans.\<close>

definition rows_of :: "bytes \<Rightarrow> path_db \<Rightarrow> file_path list" where
  "rows_of b db = filter (\<lambda>r. fp_cid r = b \<and> \<not> fp_orphan r) (fd_rows db)"

lemma rows_of_create: "fp_cid p \<noteq> b \<or> fp_orphan p \<Longrightarrow> rows_of b (snd (po_create env p db)) = rows_of b db"
proof -
  assume p: "fp_cid p \<noteq> b \<or> fp_orphan p"
  obtain err db' where c: "po_create env p db = (err, db')" by fastforce
  from c show ?thesis by (cases rule: CreateFilePath_rows) (use p in \<open>auto simp: c rows_of_def\<close>)
qed

lemma rows_of_update: "fp_cid p \<noteq> b \<Longrightarrow> rows_of b (snd (UpdateFilePath fault p db)) = rows_of b db"
proof (cases fault)
  case None
  assume p: "fp_cid p \<noteq> b"
  have k: "path_key r = path_key p \<Longrightarrow> fp_cid r = fp_cid p" for r by (simp add: path_key_def)
  have rows: "fd_rows (snd (UpdateFilePath fault p db)) =
      map (\<lambda>r. if fp_deleted r = None \<and> path_key r = path_key p then path_updates p r else r) (fd_rows db)"
    by (simp add: None UpdateFilePath_rows)
  show ?thesis unfolding rows_of_def rows
  proof (rule filter_map_same)
    fix r
    show "(if fp_deleted r = None \<and> path_key r = path_key p then path_updates p r else r) = r \<or>
        \<not> (fp_cid r = b \<and> \<not> fp_orphan r) \<and>
        \<not> (fp_cid (if fp_deleted r = None \<and> path_key r = path_key p then path_updates p r else r) = b \<and>
           \<not> fp_orphan (if fp_deleted r = None \<and> path_key r = path_key p then path_updates p r else r))"
    proof (cases "fp_deleted r = None \<and> path_key r = path_key p")
      case True
      then have "fp_cid r \<noteq> b" using k [of r] p by simp
      then show ?thesis by simp
    next
      case False
      then show ?thesis by (simp only: if_False simp_thms)
    qed
  qed
qed (simp add: UpdateFilePath_def)

lemma pin_named_orphan [simp]: "fp_orphan (pin_named env c p) = fp_orphan p"
  by (simp add: pin_named_def split: sum.split option.split)

lemma orphan_path_orphan: "fp_orphan (orphan_path env user c meta)"
  by (auto simp: orphan_path_def enrichOrphanEntryFromBlockstore_def Let_def split: option.split sum.split bool.split prod.split)

lemma rows_of_orphan: "rows_of b (createOrphanEntry env user c meta db) = rows_of b db"
  unfolding createOrphanEntry_def by (rule rows_of_create) (simp add: orphan_path_orphan)

text \<open>A CID that has been laid out once is given no further path and adds nothing to any size: a file linked from two
  directories of a DAG is listed in one of them only.\<close>
lemma one_path_per_cid:
  assumes inj: "\<And>d. po_bytes env d = po_bytes env c \<Longrightarrow> po_str env d = po_str env c"
    and "po_str env c \<in> set pr"
    and "ComputePathsRecursive n env m user d parent depth False (pr, db) = Some (r, (pr', db'))"
  shows "rows_of (po_bytes env c) db' = rows_of (po_bytes env c) db"
  using assms(3,2)
proof (induction n arbitrary: m d parent depth pr db r pr' db')
  case (Suc n)
  let ?row = "node_row env user m d parent depth False"
  have loop: "compute_children n env user cs path depth acc (pr, db) = Some (acc', (pr', db')) \<Longrightarrow>
      po_str env c \<in> set pr \<Longrightarrow> rows_of (po_bytes env c) db' = rows_of (po_bytes env c) db"
    for cs path depth acc pr db acc' pr' db'
  proof (induction cs arbitrary: acc pr db)
    case (Cons e cs)
    from Cons.prems(1) show ?case
    proof (cases rule: children_cases)
      case (orphan x)
      then show ?thesis using Cons.IH [OF orphan(2) Cons.prems(2)] rows_of_orphan by simp
    next
      case (child m r run1)
      obtain pr1 db1 where run1: "run1 = (pr1, db1)" by fastforce
      have "rows_of (po_bytes env c) db1 = rows_of (po_bytes env c) db" "po_str env c \<in> set pr1"
        using Suc.IH [OF child(2) [unfolded run1] Cons.prems(2)] compute_mono [OF child(2) [unfolded run1]] Cons.prems(2)
        by auto
      then show ?thesis using Cons.IH [OF child(3) [unfolded run1]] by simp
    qed
  qed simp
  have other: "fp_cid ?row \<noteq> po_bytes env c" if "po_str env d \<notin> set pr"
    using inj [of d] that Suc.prems(2) by (auto simp: node_row_def)
  then have made: "rows_of (po_bytes env c) (snd (po_create env ?row db)) = rows_of (po_bytes env c) db"
    if "po_str env d \<notin> set pr" using rows_of_create that by blast
  from Suc.prems(1) show ?case
  proof (cases rule: compute_cases)
    case (dir acc db2)
    have "rows_of (po_bytes env c) db2 = rows_of (po_bytes env c) db"
      using loop [OF dir(5)] Suc.prems(2) made [OF dir(1)] by simp
    then show ?thesis using other [OF dir(1)] unfolding dir(7) by (subst rows_of_update) simp_all
  qed (use made in simp_all)
qed simp



lemma one_path_per_cid_witness:
  "\<exists>r pr db. ex_run_b = Some (r, (pr, db)) \<and> rows_of ''f'' db = []"
proof -
  obtain pr db where r: "ex_run_b = Some (Inr 0, (pr, db))" using ex_run_b_value by auto
  have "rows_of (po_bytes ex_env (ex_cid ''f'')) db = rows_of (po_bytes ex_env (ex_cid ''f'')) \<lparr>fd_rows = [], fd_next = 1\<rparr>"
    by (rule one_path_per_cid [OF _ _ r [unfolded ex_run_b_def]]) (simp_all add: ex_env_def ex_penv0_def ex_cid_def)
  then have "rows_of ''f'' db = []" by (simp add: rows_of_def ex_env_def ex_penv0_def ex_cid_def)
  with r show ?thesis by blast
qed

end
