(* ===== verification/Reprovider.thy ===== *)
theory Reprovider
  imports MetadataStore Go_Strings
begin

text \<open>
  \<^verbatim>\<open>internal/protocol/ipfs/provide.go\<close>: the two DHT providers (\<open>fullrtProvider\<close>,
  \<open>basicDHTProvider\<close>), one cycle of the reprovider (\<open>performProvide\<close>) over the metadata store, and
  its loop (\<open>Run\<close>, \<open>Trigger\<close>) as a step relation.  Times and durations are numbers of nanoseconds.
  The DHT is a parameter: what it answers to \<open>Provide\<close> and \<open>ProvideMany\<close>.  Metrics are left out,
  except for the gauges of the pinned blocks.

  The locale \<open>reprovide_store\<close> is the interface \<open>ReprovideStore\<close> of \<^verbatim>\<open>core/ipfs.go\<close>: what a cycle
  relies on when it lists the stale CIDs and marks them.  It is interpreted on the metadata store.
\<close>

section \<open>Providers\<close>

text \<open>An error of \<open>ProvideMany\<close>: a \<open>provideManyError\<close>, one that wraps it, or any other.\<close>

datatype perr =
    ProvideManyError (pm_failed: nat) (pm_total: nat) (pm_err: gerr) (pm_keys: "bytes list")
  | PWrapped string perr
  | POther gerr

text \<open>\<open>errors.As(err, &pme)\<close> followed by \<open>pme.FailedKeys()\<close>.\<close>

fun FailedKeys :: "perr \<Rightarrow> bytes list option" where
  "FailedKeys (ProvideManyError f n e ks) = Some ks"
| "FailedKeys (PWrapped m e) = FailedKeys e"
| "FailedKeys (POther e) = None"

definition fullrt_ProvideMany :: "(bytes list \<Rightarrow> gerr option) \<Rightarrow> bytes list \<Rightarrow> perr option" where
  "fullrt_ProvideMany dht ks =
     (case dht ks of
        Some e \<Rightarrow> Some (ProvideManyError (length ks) (length ks) e ks)
      | None \<Rightarrow> None)"

text \<open>
  The calls to \<open>Provide\<close> run concurrently: \<open>provide i c\<close> is what the one for the \<open>i\<close>th key
  answers and \<open>arrival\<close> the order in which the failed ones are appended.  \<open>stop\<close> is the number of
  keys started when the context is found done, \<open>None\<close> when it stays alive.
\<close>

definition started_keys :: "nat option \<Rightarrow> bytes list \<Rightarrow> bytes list" where
  "started_keys stop ks = (case stop of None \<Rightarrow> ks | Some n \<Rightarrow> take n ks)"

definition failed_keys :: "(nat \<Rightarrow> cid \<Rightarrow> gerr option) \<Rightarrow> bytes list \<Rightarrow> bytes list" where
  "failed_keys provide ks =
     map snd (filter (\<lambda>(i, k). provide i (NewCidV1 Raw k) \<noteq> None) (enumerate 0 ks))"

definition basic_ProvideMany ::
    "(nat \<Rightarrow> cid \<Rightarrow> gerr option) \<Rightarrow> (bytes list \<Rightarrow> bytes list) \<Rightarrow> nat option \<Rightarrow> bytes list \<Rightarrow> perr option" where
  "basic_ProvideMany provide arrival stop ks =
     (let failed = arrival (failed_keys provide (started_keys stop ks))
      in if failed \<noteq> []
         then Some (ProvideManyError (length failed) (length ks)
                (Opaque ''provide failed for some CIDs'') failed)
         else None)"

definition NewDHTProvider ::
    "(bytes list \<Rightarrow> gerr option) option \<Rightarrow> (bytes list \<Rightarrow> perr option) \<Rightarrow> bytes list \<Rightarrow> perr option" where
  "NewDHTProvider fullrt basic =
     (case fullrt of Some dht \<Rightarrow> fullrt_ProvideMany dht | None \<Rightarrow> basic)"

definition classifyProvideError :: "gerr \<Rightarrow> string" where
  "classifyProvideError e =
     (if errors_is e DeadlineExceeded then ''timeout''
      else if errors_is e Canceled then ''context_cancelled''
      else if Contains (gerr_text e) ''routing'' \<or> Contains (gerr_text e) ''no peers'' then ''routing''
      else ''other'')"

section \<open>One cycle\<close>

record provider_cfg =
  pc_Interval :: nat
  pc_BatchSize :: nat
  pc_ErrorSleep :: nat
  pc_EmptySleep :: nat
  pc_BacklogSleep :: nat

text \<open>
  What a cycle meets: the time at its start and at its end, the errors of the database, and what
  other components do to the tables while the keys are being provided.
\<close>

record rp_env =
  re_now :: nat
  re_end :: nat
  re_count_fault :: "gerr option"
  re_list_fault :: "gerr option"
  re_set_fault :: "gerr option"
  re_other :: "meta_db \<Rightarrow> meta_db"

record rp_store =
  rp_db :: meta_db
  rp_gauges :: "pinned_stats option"

definition time_Minute :: nat where "time_Minute = 60 * 10 ^ 9"

definition cutoff :: "provider_cfg \<Rightarrow> nat \<Rightarrow> nat" where
  "cutoff cfg now = now - pc_Interval cfg - time_Minute"

definition succeeded_cids :: "bytes list \<Rightarrow> cid list \<Rightarrow> cid list" where
  "succeeded_cids failedKeys announced = filter (\<lambda>c. cid_hash c \<notin> set failedKeys) announced"

definition update_gauges :: "provider_cfg \<Rightarrow> rp_env \<Rightarrow> rp_store \<Rightarrow> rp_store" where
  "update_gauges cfg env s =
     (case CountPinned (re_count_fault env) None (cutoff cfg (re_now env)) (rp_db s) of
        Inl _ \<Rightarrow> s
      | Inr st \<Rightarrow> s\<lparr>rp_gauges := Some st\<rparr>)"

definition performProvide ::
    "provider_cfg \<Rightarrow> rp_env \<Rightarrow> (bytes list \<Rightarrow> perr option) \<Rightarrow> rp_store \<Rightarrow> nat \<times> rp_store" where
  "performProvide cfg env ProvideMany s0 =
     (let s = update_gauges cfg env s0
      in case ProvideCIDs (re_list_fault env) (cutoff cfg (re_now env)) (pc_BatchSize cfg) (rp_db s) of
           Inl _ \<Rightarrow> (pc_ErrorSleep cfg, s)
         | Inr cids \<Rightarrow>
             if cids = [] then (pc_EmptySleep cfg, s)
             else
               let announced = map fst cids;
                   keys = map cid_hash announced;
                   res = ProvideMany keys;
                   s = s\<lparr>rp_db := re_other env (rp_db s)\<rparr>
               in case res of
                    Some err \<Rightarrow>
                      let failedKeys = (case FailedKeys err of Some ks \<Rightarrow> ks | None \<Rightarrow> keys);
                          succeeded = succeeded_cids failedKeys announced
                      in (pc_ErrorSleep cfg,
                          if succeeded \<noteq> []
                          then s\<lparr>rp_db := snd (SetLastAnnouncement (re_set_fault env) succeeded
                                   (re_end env) (rp_db s))\<rparr>
                          else s)
                  | None \<Rightarrow>
                      (case SetLastAnnouncement (re_set_fault env) announced (re_end env) (rp_db s) of
                         (Inl _, db) \<Rightarrow> (pc_ErrorSleep cfg, s\<lparr>rp_db := db\<rparr>)
                       | (Inr _, db) \<Rightarrow>
                           (if pc_BatchSize cfg \<le> length cids then pc_BacklogSleep cfg
                            else pc_Interval cfg,
                            s\<lparr>rp_db := db\<rparr>)))"

text \<open>A row of cycles, each with what it meets.\<close>

fun cycles ::
    "provider_cfg \<Rightarrow> (bytes list \<Rightarrow> perr option) \<Rightarrow> rp_env list \<Rightarrow> rp_store \<Rightarrow> rp_store" where
  "cycles cfg ProvideMany [] s = s"
| "cycles cfg ProvideMany (e # es) s =
     cycles cfg ProvideMany es (snd (performProvide cfg e ProvideMany s))"

section \<open>The loop\<close>

text \<open>
  \<open>Run\<close> waits for the provider, then sleeps between the cycles; \<open>Trigger\<close> fills a channel of
  capacity one, which the sleep receives from, and then waits \<open>TriggerDelay\<close> before the cycle.  The
  number of cycles begun is counted.
\<close>

datatype rp_pc = WaitReady | Sleeping nat | Delaying | Stopped

record rp_loop =
  rl_pc :: rp_pc
  rl_trigger :: bool
  rl_store :: rp_store
  rl_cycles :: nat

definition rp_Trigger :: "rp_loop \<Rightarrow> rp_loop" where
  "rp_Trigger l = (if rl_trigger l then l else l\<lparr>rl_trigger := True\<rparr>)"

definition rp_provide :: "provider_cfg \<Rightarrow> rp_env \<Rightarrow> (bytes list \<Rightarrow> perr option) \<Rightarrow> rp_loop \<Rightarrow> rp_loop" where
  "rp_provide cfg env ProvideMany l =
     (let (d, s) = performProvide cfg env ProvideMany (rl_store l)
      in l\<lparr>rl_pc := Sleeping d, rl_store := s, rl_cycles := Suc (rl_cycles l)\<rparr>)"

inductive rp_step :: "provider_cfg \<Rightarrow> rp_loop \<Rightarrow> rp_loop \<Rightarrow> bool" for cfg where
  trigger: "rp_step cfg l (rp_Trigger l)"
| ready: "rl_pc l = WaitReady \<Longrightarrow> rp_step cfg l (l\<lparr>rl_pc := Sleeping 0\<rparr>)"
| not_ready: "rl_pc l = WaitReady \<Longrightarrow> rp_step cfg l l"
| timer: "rl_pc l = Sleeping d \<Longrightarrow> rp_step cfg l (rp_provide cfg env ProvideMany l)"
| receive: "rl_pc l = Sleeping d \<Longrightarrow> rl_trigger l \<Longrightarrow>
    rp_step cfg l (l\<lparr>rl_pc := Delaying, rl_trigger := False\<rparr>)"
| delayed: "rl_pc l = Delaying \<Longrightarrow> rp_step cfg l (rp_provide cfg env ProvideMany l)"
| others: "rp_step cfg l (l\<lparr>rl_store := (rl_store l)\<lparr>rp_db := db\<rparr>\<rparr>)"
| stop: "rp_step cfg l (l\<lparr>rl_pc := Stopped\<rparr>)"

inductive_cases rp_stepE: "rp_step cfg l l'"

section \<open>The interface of the store\<close>

locale reprovide_store =
  fixes listed :: "nat \<Rightarrow> nat \<Rightarrow> 's \<Rightarrow> cid list"
    and mark :: "cid list \<Rightarrow> nat \<Rightarrow> 's \<Rightarrow> 's"
    and due_cids :: "nat \<Rightarrow> 's \<Rightarrow> cid set"
    and store_ok :: "'s \<Rightarrow> bool"
  assumes listed_due: "store_ok s \<Longrightarrow> distinct (listed since n s) \<and>
      set (listed since n s) \<subseteq> due_cids since s \<and>
      length (listed since n s) = min n (card (due_cids since s))"
    and finite_due: "finite (due_cids since s)"
    and due_mono: "since \<le> since' \<Longrightarrow> due_cids since s \<subseteq> due_cids since' s"
    and oldest_first: "store_ok s \<Longrightarrow> since \<le> since' \<Longrightarrow>
      set (listed since' n s) \<subseteq> due_cids since s \<or> due_cids since s \<subseteq> set (listed since' n s)"
    and mark_ok: "store_ok s \<Longrightarrow> set cs \<subseteq> due_cids since s \<Longrightarrow> store_ok (mark cs t s)"
    and mark_due: "store_ok s \<Longrightarrow> set cs \<subseteq> due_cids since s \<Longrightarrow> since' \<le> t \<Longrightarrow>
      due_cids since' (mark cs t s) = due_cids since' s - set cs"
begin

primrec drain :: "nat \<Rightarrow> (nat \<times> nat) list \<Rightarrow> 's \<Rightarrow> 's" where
  "drain n [] s = s"
| "drain n (x # xs) s = drain n xs (mark (listed (fst x) n s) (snd x) s)"

lemma listed_step:
  assumes ok: "store_ok s" and "c0 \<le> since" and "c0 \<le> t"
  shows "card (due_cids c0 (mark (listed since n s) t s)) \<le> card (due_cids c0 s) - n"
proof -
  let ?l = "listed since n s"
  have l: "distinct ?l" "set ?l \<subseteq> due_cids since s" "length ?l = min n (card (due_cids since s))"
    using listed_due [OF ok] by auto
  have after: "due_cids c0 (mark ?l t s) = due_cids c0 s - set ?l"
    by (rule mark_due [OF ok l(2) assms(3)])
  show ?thesis
  proof (cases "due_cids c0 s \<subseteq> set ?l")
    case True then have "due_cids c0 (mark ?l t s) = {}" using after by auto
    then show ?thesis by simp
  next
    case False
    then have sub: "set ?l \<subseteq> due_cids c0 s" using oldest_first [OF ok assms(2)] by blast
    have "length ?l = n"
    proof (rule ccontr)
      assume "length ?l \<noteq> n"
      then have "card (set ?l) = card (due_cids since s)" using l(1,3) distinct_card [of ?l] by simp
      then have "set ?l = due_cids since s" using l(2) finite_due card_subset_eq by blast
      then show False using False due_mono [OF assms(2)] by blast
    qed
    then have "card (set ?l) = n" using l(1) distinct_card by metis
    then show ?thesis using after sub by (simp add: card_Diff_subset)
  qed
qed

lemma drain_ok: "store_ok s \<Longrightarrow> store_ok (drain n xs s)"
proof (induction xs arbitrary: s)
  case (Cons x xs)
  have "store_ok (mark (listed (fst x) n s) (snd x) s)"
    using mark_ok [OF Cons.prems] listed_due [OF Cons.prems] by blast
  then show ?case using Cons.IH by simp
qed simp

lemma drain_card:
  "store_ok s \<Longrightarrow> \<forall>x \<in> set xs. c0 \<le> fst x \<and> c0 \<le> snd x \<Longrightarrow>
   card (due_cids c0 (drain n xs s)) \<le> card (due_cids c0 s) - length xs * n"
proof (induction xs arbitrary: s)
  case (Cons x xs)
  let ?s = "mark (listed (fst x) n s) (snd x) s"
  have ok: "store_ok ?s" using mark_ok [OF Cons.prems(1)] listed_due [OF Cons.prems(1)] by blast
  have "card (due_cids c0 (drain n xs ?s)) \<le> card (due_cids c0 ?s) - length xs * n"
    using Cons.IH [OF ok] Cons.prems(2) by simp
  also have "\<dots> \<le> card (due_cids c0 s) - n - length xs * n"
    using listed_step [OF Cons.prems(1), of c0 "fst x" "snd x" n] Cons.prems(2) by (simp add: diff_le_mono)
  finally show ?case by (simp add: diff_diff_left)
qed simp

lemma drained:
  assumes "store_ok s" and "\<forall>x \<in> set xs. c0 \<le> fst x \<and> c0 \<le> snd x"
    and "card (due_cids c0 s) \<le> length xs * n"
  shows "due_cids c0 (drain n xs s) = {}"
  using drain_card [OF assms(1,2), of n] assms(3) finite_due by simp

end


section \<open>The metadata store as the store of the reprovider\<close>

definition md_listed :: "nat \<Rightarrow> nat \<Rightarrow> meta_db \<Rightarrow> cid list" where
  "md_listed since n db = (case ProvideCIDs None since n db of Inl _ \<Rightarrow> [] | Inr xs \<Rightarrow> map fst xs)"

definition md_mark :: "cid list \<Rightarrow> nat \<Rightarrow> meta_db \<Rightarrow> meta_db" where
  "md_mark cs t db = snd (SetLastAnnouncement None cs t db)"

definition md_due :: "nat \<Rightarrow> meta_db \<Rightarrow> cid set" where
  "md_due since db = br_cid ` set (filter (due since) (md_blocks db))"

definition announced_row :: "cid list \<Rightarrow> nat \<Rightarrow> block_row \<Rightarrow> block_row" where
  "announced_row cs t r = (if br_cid r \<in> set cs \<and> br_ready r then r\<lparr>br_ann := Some t\<rparr> else r)"

definition announce_rows :: "cid list \<Rightarrow> nat \<Rightarrow> meta_db \<Rightarrow> meta_db" where
  "announce_rows cs t db = db\<lparr>md_blocks := map (announced_row cs t) (md_blocks db)\<rparr>"

lemma announced_row_simps [simp]:
  "br_id (announced_row cs t r) = br_id r" "br_cid (announced_row cs t r) = br_cid r"
  "br_ready (announced_row cs t r) = br_ready r"
  by (simp_all add: announced_row_def)

lemma announced_row_Cons: "announced_row cs t \<circ> announced_row [c] t = announced_row (c # cs) t"
  by (auto simp: announced_row_def fun_eq_iff)

lemma announced_row_due:
  "since \<le> t \<Longrightarrow> due since (announced_row cs t r) \<longleftrightarrow> due since r \<and> br_cid r \<notin> set cs"
  by (auto simp: due_def announced_row_def)

lemma announce_rows_wf: "md_wf db \<Longrightarrow> md_wf (announce_rows cs t db)"
  unfolding announce_rows_def by (rule map_blocks_wf) auto

lemma announce_all:
  "md_wf db \<Longrightarrow> \<forall>c \<in> set cs. \<exists>r \<in> set (md_blocks db). br_cid r = c \<and> br_ready r \<Longrightarrow>
   fold_err (announce_one t) cs db = Inr (announce_rows cs t db)"
proof (induction cs arbitrary: db)
  case Nil
  have "announced_row [] t = (\<lambda>r. r)" by (simp add: announced_row_def fun_eq_iff)
  then show ?case by (simp add: announce_rows_def)
next
  case (Cons c cs)
  obtain r where r: "r \<in> set (md_blocks db)" "br_cid r = c" "br_ready r" using Cons.prems(2) by auto
  have n: "NormalizeCid c = c" using Cons.prems(1) r by (auto simp: md_wf_def)
  let ?db = "announce_rows [c] t db"
  have one: "announce_one t c db = Inr ?db"
    using r by (auto simp: announce_one_def n Let_def announce_rows_def announced_row_def)
  have "\<forall>d \<in> set cs. \<exists>r \<in> set (md_blocks ?db). br_cid r = d \<and> br_ready r"
    using Cons.prems(2) by (simp add: announce_rows_def)
  from Cons.IH [OF announce_rows_wf [OF Cons.prems(1)] this]
  have "fold_err (announce_one t) (c # cs) db = Inr (announce_rows cs t ?db)" by (simp add: one)
  also have "announce_rows cs t ?db = announce_rows (c # cs) t db"
    by (simp add: announce_rows_def announced_row_Cons)
  finally show ?case .
qed

lemma mark_rows:
  assumes "md_wf db" and "set cs \<subseteq> md_due since db"
  shows "SetLastAnnouncement None cs t db = (Inr (), announce_rows cs t db)"
proof -
  have "\<forall>c \<in> set cs. \<exists>r \<in> set (md_blocks db). br_cid r = c \<and> br_ready r"
    using assms(2) by (fastforce simp: md_due_def due_def)
  then show ?thesis by (simp add: SetLastAnnouncement_def in_tx_def announce_all [OF assms(1)])
qed

lemma md_cid_inj:
  "md_wf db \<Longrightarrow> r \<in> set (md_blocks db) \<Longrightarrow> r' \<in> set (md_blocks db) \<Longrightarrow> br_cid r = br_cid r' \<Longrightarrow> r = r'"
  by (auto simp: md_wf_def distinct_map dest: inj_onD)

lemma announce_rows_due:
  "since \<le> t \<Longrightarrow> md_due since (announce_rows cs t db) = md_due since db - set cs"
  by (force simp: md_due_def announce_rows_def announced_row_due image_iff)

definition due_rows :: "nat \<Rightarrow> meta_db \<Rightarrow> block_row list" where
  "due_rows since db = sort_key (\<lambda>r. ann_time (br_ann r)) (filter (due since) (md_blocks db))"

lemma md_listed_rows: "md_listed since n db = map br_cid (take n (due_rows since db))"
  by (simp add: md_listed_def ProvideCIDs_def due_rows_def comp_def)

lemma due_rows_set: "set (due_rows since db) = {r \<in> set (md_blocks db). due since r}"
  by (auto simp: due_rows_def)

lemma due_rows_distinct: "md_wf db \<Longrightarrow> distinct (map br_cid (due_rows since db))"
  using mset_eq_imp_distinct_iff [of "map br_cid (due_rows since db)"
      "map br_cid (filter (due since) (md_blocks db))"]
  by (simp add: due_rows_def md_wf_def distinct_map_filter)

lemma md_due_card: "md_wf db \<Longrightarrow> card (md_due since db) = length (due_rows since db)"
  using distinct_card [OF due_rows_distinct [of db since]] due_rows_set [of since db]
  by (simp add: md_due_def image_def)

lemma due_ann: "due since r \<longleftrightarrow> br_ready r \<and> ann_time (br_ann r) \<le> since"
  by (auto simp: due_def ann_time_def split: option.splits)

text \<open>A sorted list is listed from its oldest entries on.\<close>

lemma sorted_take_bound:
  assumes "sorted (map f xs)"
  shows "(\<forall>x \<in> set (take n xs). f x \<le> b) \<or> {x \<in> set xs. f x \<le> b} \<subseteq> set (take n xs)"
proof (rule disjCI)
  assume "\<not> {x \<in> set xs. f x \<le> b} \<subseteq> set (take n xs)"
  then obtain y where y: "y \<in> set xs" "f y \<le> b" "y \<notin> set (take n xs)" by blast
  then have "y \<in> set (drop n xs)" by (metis UnE append_take_drop_id set_append)
  moreover have "sorted (map f (take n xs) @ map f (drop n xs))" using assms by (simp flip: map_append)
  ultimately have "\<forall>x \<in> set (take n xs). f x \<le> f y" by (simp add: sorted_append)
  then show "\<forall>x \<in> set (take n xs). f x \<le> b" using y(2) by fastforce
qed

lemma md_oldest_first:
  assumes "since \<le> since'"
  shows "set (md_listed since' n db) \<subseteq> md_due since db \<or> md_due since db \<subseteq> set (md_listed since' n db)"
proof -
  let ?f = "\<lambda>r. ann_time (br_ann r)"
  have "sorted (map ?f (due_rows since' db))" by (simp add: due_rows_def)
  from sorted_take_bound [OF this, of n since] show ?thesis
  proof
    assume all: "\<forall>x \<in> set (take n (due_rows since' db)). ?f x \<le> since"
    have "br_cid r \<in> md_due since db" if "r \<in> set (take n (due_rows since' db))" for r
    proof -
      have "r \<in> set (due_rows since' db)" using that by (rule in_set_takeD)
      then show ?thesis using all that by (auto simp: due_rows_set md_due_def due_ann)
    qed
    then show ?thesis by (auto simp: md_listed_rows)
  next
    assume sub: "{x \<in> set (due_rows since' db). ?f x \<le> since} \<subseteq> set (take n (due_rows since' db))"
    have "md_due since db \<subseteq> br_cid ` {x \<in> set (due_rows since' db). ?f x \<le> since}"
      using assms by (auto simp: md_due_def due_rows_set due_ann)
    then show ?thesis using sub by (auto simp: md_listed_rows)
  qed
qed

interpretation mds: reprovide_store md_listed md_mark md_due md_wf
proof
  fix db since n assume wf: "md_wf db"
  have "set (take n (due_rows since db)) \<subseteq> set (due_rows since db)" by (rule set_take_subset)
  then show "distinct (md_listed since n db) \<and> set (md_listed since n db) \<subseteq> md_due since db \<and>
      length (md_listed since n db) = min n (card (md_due since db))"
    using distinct_take [OF due_rows_distinct [OF wf, of since], of n] md_due_card [OF wf, of since]
    by (auto simp: md_listed_rows due_rows_set md_due_def take_map)
next
  show "finite (md_due since db)" for since db by (simp add: md_due_def)
next
  show "md_due since db \<subseteq> md_due since' db" if "since \<le> since'" for since since' :: nat and db
    using that by (auto simp: md_due_def due_ann)
next
  show "set (md_listed since' n db) \<subseteq> md_due since db \<or> md_due since db \<subseteq> set (md_listed since' n db)"
    if "since \<le> since'" for since since' n db using that by (rule md_oldest_first)
next
  show "md_wf (md_mark cs t db)" if "md_wf db" for cs t db
    using that by (simp add: md_mark_def SetLastAnnouncement_wf)
next
  show "md_due since' (md_mark cs t db) = md_due since' db - set cs"
    if "md_wf db" "set cs \<subseteq> md_due since db" "since' \<le> t" for since since' cs t db
    using that by (simp add: md_mark_def mark_rows announce_rows_due)
qed


section \<open>What a cycle marks\<close>

lemma announce_one_rows: "announce_one t c db = Inr db' \<Longrightarrow> db' = announce_rows [NormalizeCid c] t db"
  by (auto simp: announce_one_def Let_def announce_rows_def announced_row_def split: if_splits)

lemma announce_fold:
  "fold_err (announce_one t) cs db = Inr db' \<Longrightarrow> db' = announce_rows (map NormalizeCid cs) t db"
proof (induction cs arbitrary: db)
  case Nil
  have "announced_row [] t = (\<lambda>r. r)" by (simp add: announced_row_def fun_eq_iff)
  then show ?case using Nil by (simp add: announce_rows_def)
next
  case (Cons c cs)
  then obtain db1 where one: "announce_one t c db = Inr db1" "fold_err (announce_one t) cs db1 = Inr db'"
    by (auto split: sum.splits)
  show ?case
    unfolding Cons.IH [OF one(2)] announce_one_rows [OF one(1)]
    by (simp add: announce_rows_def announced_row_Cons)
qed

lemma announce_rows_Nil [simp]: "announce_rows [] t db = db"
proof -
  have "announced_row [] t = (\<lambda>r. r)" by (simp add: announced_row_def fun_eq_iff)
  then show ?thesis by (simp add: announce_rows_def)
qed

lemma SetLast_rows:
  "\<exists>marked. snd (SetLastAnnouncement fault cs t db) = announce_rows marked t db \<and>
     (marked = [] \<or> fault = None \<and> marked = map NormalizeCid cs)"
proof (cases "fault = None \<and> (\<exists>db'. fold_err (announce_one t) cs db = Inr db')")
  case True
  then obtain db' where f: "fault = None" "fold_err (announce_one t) cs db = Inr db'" by blast
  have "snd (SetLastAnnouncement fault cs t db) = announce_rows (map NormalizeCid cs) t db"
    by (simp add: SetLastAnnouncement_def in_tx_def f announce_fold [OF f(2)])
  then show ?thesis using f(1) by blast
next
  case False
  then have "snd (SetLastAnnouncement fault cs t db) = announce_rows [] t db"
    by (auto simp: SetLastAnnouncement_def in_tx_def split: option.splits sum.splits)
  then show ?thesis by blast
qed

text \<open>The CIDs of a batch whose every announcement went well; an announcement carries the multihash only.\<close>

definition provided :: "(nat \<Rightarrow> cid \<Rightarrow> gerr option) \<Rightarrow> cid list \<Rightarrow> cid set" where
  "provided provide batch = {c \<in> set batch. \<forall>i < length batch. cid_hash (batch ! i) = cid_hash c \<longrightarrow>
     provide i (NewCidV1 Raw (cid_hash c)) = None}"

lemma enumerate_mem: "(i, k) \<in> set (enumerate 0 ks) \<longleftrightarrow> i < length ks \<and> ks ! i = k"
  by (auto simp: in_set_enumerate_eq)

lemma failed_keys_mem:
  "k \<in> set (failed_keys provide ks) \<longleftrightarrow> (\<exists>i < length ks. ks ! i = k \<and> provide i (NewCidV1 Raw k) \<noteq> None)"
  by (force simp: failed_keys_def enumerate_mem image_iff)

lemma provided_not_failed:
  "set (filter (\<lambda>c. cid_hash c \<notin> set (failed_keys provide (map cid_hash batch))) batch) = provided provide batch"
proof -
  have "cid_hash c \<notin> set (failed_keys provide (map cid_hash batch)) \<longleftrightarrow>
      (\<forall>i < length batch. cid_hash (batch ! i) = cid_hash c \<longrightarrow> provide i (NewCidV1 Raw (cid_hash c)) = None)" for c
    unfolding failed_keys_mem by auto
  then show ?thesis by (auto simp: provided_def)
qed

lemma provide_list_normal:
  assumes "md_wf db" and "ProvideCIDs None since n db = Inr cids"
  shows "map fst cids = md_listed since n db" and "map NormalizeCid (map fst cids) = map fst cids"
    and "set (map fst cids) \<subseteq> md_due since db"
proof -
  show l: "map fst cids = md_listed since n db" using assms(2) by (simp add: md_listed_def)
  show sub: "set (map fst cids) \<subseteq> md_due since db" unfolding l using mds.listed_due [OF assms(1)] by blast
  have "NormalizeCid c = c" if "c \<in> md_due since db" for c
    using that assms(1) by (auto simp: md_due_def md_wf_def)
  then show "map NormalizeCid (map fst cids) = map fst cids" using sub by (intro map_idI) blast
qed



definition ex_pcfg :: provider_cfg where
  "ex_pcfg = \<lparr>pc_Interval = 0, pc_BatchSize = 2, pc_ErrorSleep = 1, pc_EmptySleep = 2, pc_BacklogSleep = 3\<rparr>"

definition ex_renv :: rp_env where
  "ex_renv = \<lparr>re_now = time_Minute + 5, re_end = time_Minute + 6, re_count_fault = None,
     re_list_fault = None, re_set_fault = None, re_other = (\<lambda>db. db)\<rparr>"

text \<open>Of the two blocks of the example tables, only the second can be provided.\<close>

definition ex_provide :: "nat \<Rightarrow> cid \<Rightarrow> gerr option" where
  "ex_provide i c = (if cid_hash c = ''b'' then None else Some DeadlineExceeded)"

lemma ex_listed: "md_listed 5 2 ex_db = [Cid 1 112 ''b'', ex_a]"
  by code_simp


text \<open>\<open>ProvideMany\<close> of the basic provider does not count the keys it never started: once the context
  is done it can report success for keys that were not provided.\<close>

lemma provide_many_silent:
  "arrival [] = [] \<Longrightarrow> basic_ProvideMany provide arrival (Some 0) ks = None"
  by (simp add: basic_ProvideMany_def started_keys_def failed_keys_def)

section \<open>No block starves\<close>

lemma cycle_ok:
  assumes "md_wf (rp_db s)" and "\<And>ks. ProvideMany ks = None"
    and "re_list_fault e = None" "re_set_fault e = None" "re_other e = (\<lambda>db. db)"
  shows "rp_db (snd (performProvide cfg e ProvideMany s)) =
    md_mark (md_listed (cutoff cfg (re_now e)) (pc_BatchSize cfg) (rp_db s)) (re_end e) (rp_db s)"
proof -
  let ?since = "cutoff cfg (re_now e)"
  have g: "rp_db (update_gauges cfg e s) = rp_db s" by (simp add: update_gauges_def split: sum.splits)
  obtain cids where l: "ProvideCIDs None ?since (pc_BatchSize cfg) (rp_db s) = Inr cids"
    by (simp add: ProvideCIDs_def)
  note ll = provide_list_normal [OF assms(1) l]
  show ?thesis
  proof (cases "cids = []")
    case True
    then have "md_listed ?since (pc_BatchSize cfg) (rp_db s) = []" using ll(1) by simp
    then show ?thesis using True l assms(3) g
      by (simp add: performProvide_def md_mark_def SetLastAnnouncement_def in_tx_def)
  next
    case False
    then show ?thesis using l assms(2-5) g mark_rows [OF assms(1) ll(3), of "re_end e"]
      by (simp add: performProvide_def Let_def md_mark_def ll(1) flip: ll(1))
  qed
qed

lemma cycles_drain:
  "md_wf (rp_db s) \<Longrightarrow> (\<And>ks. ProvideMany ks = None) \<Longrightarrow>
   \<forall>e \<in> set es. re_list_fault e = None \<and> re_set_fault e = None \<and> re_other e = (\<lambda>db. db) \<Longrightarrow>
   rp_db (cycles cfg ProvideMany es s) =
     mds.drain (pc_BatchSize cfg) (map (\<lambda>e. (cutoff cfg (re_now e), re_end e)) es) (rp_db s)"
proof (induction es arbitrary: s)
  case (Cons e es)
  let ?s = "snd (performProvide cfg e ProvideMany s)"
  have st: "rp_db ?s = md_mark (md_listed (cutoff cfg (re_now e)) (pc_BatchSize cfg) (rp_db s)) (re_end e) (rp_db s)"
    using Cons.prems by (intro cycle_ok) auto
  have "md_wf (rp_db ?s)" using Cons.prems(1) by (simp add: st md_mark_def SetLastAnnouncement_wf)
  from Cons.IH [OF this Cons.prems(2)] Cons.prems(3) show ?case by (simp add: st)
qed simp



section \<open>No trigger is lost\<close>

lemma rp_Trigger_simps [simp]:
  "rl_trigger (rp_Trigger l)" "rl_pc (rp_Trigger l) = rl_pc l" "rl_cycles (rp_Trigger l) = rl_cycles l"
  by (simp_all add: rp_Trigger_def)

lemma performProvide_cycles [simp]: "rl_cycles (rp_provide cfg env pm l) = Suc (rl_cycles l)"
    "rl_trigger (rp_provide cfg env pm l) = rl_trigger l" "rl_pc (rp_provide cfg env pm l) \<noteq> Stopped"
  by (simp_all add: rp_provide_def split: prod.split)

text \<open>A trigger is not lost: until the loop is stopped, either it is still in the channel, or it has been
  received and its cycle is about to begin, or a cycle has begun since.\<close>

lemma reprovide_trigger_kept:
  assumes "(rp_step cfg)\<^sup>*\<^sup>* (rp_Trigger l) l'" and "rl_pc l' \<noteq> Stopped"
  shows "rl_trigger l' \<or> rl_pc l' = Delaying \<or> rl_cycles l < rl_cycles l'"
proof -
  have "rl_pc l' = Stopped \<or> rl_trigger l' \<or> rl_pc l' = Delaying \<or> rl_cycles l < rl_cycles l'"
    using assms(1)
  proof (induction rule: rtranclp_induct)
    case base then show ?case by simp
  next
    case (step l1 l2)
    have "rl_cycles l \<le> rl_cycles l1"
      using step.hyps(1)
    proof (induction rule: rtranclp_induct)
      case base then show ?case by simp
    next
      case (step a b)
      from step.hyps(2) step.IH show ?case
        by (cases rule: rp_stepE) auto
    qed
    with step.hyps(2) step.IH show ?case
      by (cases rule: rp_stepE) auto
  qed
  then show ?thesis using assms(2) by blast
qed

lemma rp_Trigger_received:
  "(rp_step cfg)\<^sup>*\<^sup>* (rp_Trigger \<lparr>rl_pc = Sleeping d, rl_trigger = False, rl_store = st, rl_cycles = n\<rparr>)
     \<lparr>rl_pc = Delaying, rl_trigger = False, rl_store = st, rl_cycles = n\<rparr>"
  using r_into_rtranclp [of "rp_step cfg", OF rp_step.receive
      [of "rp_Trigger \<lparr>rl_pc = Sleeping d, rl_trigger = False, rl_store = st, rl_cycles = n\<rparr>" d cfg]]
  by (simp add: rp_Trigger_def)

lemma reprovide_trigger_kept_example:
  "let st = \<lparr>rp_db = ex_db, rp_gauges = None\<rparr>;
       l' = \<lparr>rl_pc = Delaying, rl_trigger = False, rl_store = st, rl_cycles = 4\<rparr>
   in rl_trigger l' \<or> rl_pc l' = Delaying \<or> 4 < rl_cycles l'"
  using reprovide_trigger_kept [of ex_pcfg "\<lparr>rl_pc = Sleeping 7, rl_trigger = False,
      rl_store = \<lparr>rp_db = ex_db, rp_gauges = None\<rparr>, rl_cycles = 4\<rparr>",
      OF rp_Trigger_received]
  by (simp add: Let_def)

end
