(* ===== verification/Dag_Walk.thy ===== *)
theory Dag_Walk
  imports Cid_Context
begin

text \<open>
  The walk over a DAG: \<^verbatim>\<open>internal/protocol/dag/walk.go\<close>, and the collection of a DAG's CIDs that
  \<^verbatim>\<open>internal/protocol/op_retrieve.go\<close> makes with it.  \<open>merkledag.Walk\<close> and the session's \<open>Get\<close> are
  parameters; what the theorems ask of the walk is \<open>walker_ok\<close>: it calls the visitor on the root and,
  where that answers true, on the links of the block, one call after the other.
\<close>

section \<open>The walk\<close>

text \<open>A node of the session with its raw data: a \<open>merkledag.ProtoNode\<close> or one of another type.\<close>

datatype dag_node = ProtoNode (raw_data: bytes) | OtherNode (raw_data: bytes)

record walk_opts =
  wo_NormalizeCID :: bool
  wo_IgnoreErrors :: bool
  wo_Logger :: bool

definition DefaultWalkDAGOptions :: walk_opts where
  "DefaultWalkDAGOptions = \<lparr>wo_NormalizeCID = True, wo_IgnoreErrors = False, wo_Logger = False\<rparr>"

text \<open>\<open>merkledag.Walk\<close> over a visitor that threads a state.\<close>

type_synonym 'v walker = "(cid \<Rightarrow> 'v \<Rightarrow> bool \<times> 'v) \<Rightarrow> cid \<Rightarrow> 'v \<Rightarrow> gerr option \<times> 'v"

definition walk_key :: "walk_opts \<Rightarrow> cid \<Rightarrow> cid" where
  "walk_key opts c = (if wo_NormalizeCID opts then NormalizeCid c else c)"

definition walk_visit ::
    "walk_opts \<Rightarrow> (cid \<Rightarrow> gerr + dag_node) \<Rightarrow> (cid \<Rightarrow> bytes \<Rightarrow> 's \<Rightarrow> gerr option \<times> 's) \<Rightarrow>
     cid \<Rightarrow> cid list \<times> 's \<Rightarrow> bool \<times> (cid list \<times> 's)" where
  "walk_visit opts get callback c0 st =
     (let c = walk_key opts c0; (seen, s) = st in
      if c \<in> set seen then (False, (seen, s))
      else
        let seen = c # seen in
        case get c of
          Inl _ \<Rightarrow> (\<not> wo_IgnoreErrors opts, (seen, s))
        | Inr (OtherNode _) \<Rightarrow> (\<not> wo_IgnoreErrors opts, (seen, s))
        | Inr (ProtoNode d) \<Rightarrow>
            (case callback c d s of
               (Some _, s') \<Rightarrow> (wo_IgnoreErrors opts \<and> wo_Logger opts, (seen, s'))
             | (None, s') \<Rightarrow> (True, (seen, s'))))"

definition WalkDAG ::
    "walk_opts \<Rightarrow> (cid list \<times> 's) walker \<Rightarrow> (cid \<Rightarrow> gerr + dag_node) \<Rightarrow> cid \<Rightarrow>
     (cid \<Rightarrow> bytes \<Rightarrow> 's \<Rightarrow> gerr option \<times> 's) \<Rightarrow> 's \<Rightarrow> gerr option \<times> 's" where
  "WalkDAG opts walk get root callback s =
     (let (e, (_, s')) = walk (walk_visit opts get callback) root ([], s) in (e, s'))"

section \<open>Collecting a DAG\<close>

record dag_result =
  dr_Cids :: "cid list"
  dr_TotalSize :: u64
  dr_CIDSizes :: "(cid, u64) gomap"

definition collect_options :: walk_opts where
  "collect_options = \<lparr>wo_NormalizeCID = True, wo_IgnoreErrors = True, wo_Logger = True\<rparr>"

definition collect_node :: "cid \<Rightarrow> bytes \<Rightarrow> dag_result \<Rightarrow> gerr option \<times> dag_result" where
  "collect_node c d r =
     (let n = word_of_nat (length d) in
      (None, \<lparr>dr_Cids = dr_Cids r @ [c], dr_TotalSize = dr_TotalSize r + n,
              dr_CIDSizes = gm_set c n (dr_CIDSizes r)\<rparr>))"

text \<open>The result comes with the error; \<open>get\<close> reads virtually or stores what it reads.\<close>

definition collectDAGCids ::
    "(cid list \<times> dag_result) walker \<Rightarrow> (cid \<Rightarrow> gerr + dag_node) \<Rightarrow> cid \<Rightarrow> gerr option \<times> dag_result" where
  "collectDAGCids walk get c =
     WalkDAG collect_options walk get c collect_node \<lparr>dr_Cids = [], dr_TotalSize = 0, dr_CIDSizes = []\<rparr>"

section \<open>What a walk is\<close>

definition visited :: "(cid \<Rightarrow> 'v \<Rightarrow> bool \<times> 'v) \<Rightarrow> cid list \<Rightarrow> 'v \<Rightarrow> 'v" where
  "visited visit cs v = fold (\<lambda>c v. snd (visit c v)) cs v"

definition walk_of :: "(cid \<Rightarrow> cid list) \<Rightarrow> (cid \<Rightarrow> 'v \<Rightarrow> bool \<times> 'v) \<Rightarrow> cid \<Rightarrow> 'v \<Rightarrow> cid list \<Rightarrow> bool" where
  "walk_of links visit root v cs \<longleftrightarrow>
     root \<in> set cs \<and>
     (\<forall>i < length cs. fst (visit (cs ! i) (visited visit (take i cs) v)) \<longrightarrow> set (links (cs ! i)) \<subseteq> set cs) \<and>
     (\<forall>i < length cs. cs ! i = root \<or>
        (\<exists>j < i. fst (visit (cs ! j) (visited visit (take j cs) v)) \<and> cs ! i \<in> set (links (cs ! j))))"

definition walker_ok :: "(cid \<Rightarrow> cid list) \<Rightarrow> 'v walker \<Rightarrow> bool" where
  "walker_ok links walk \<longleftrightarrow>
     (\<forall>visit root v. \<exists>cs. snd (walk visit root v) = visited visit cs v \<and>
        (fst (walk visit root v) = None \<longrightarrow> walk_of links visit root v cs))"

text \<open>The nodes that are reached from the root through nodes that are \<open>ProtoNode\<close>s themselves.\<close>

inductive_set proto_reach :: "(cid \<Rightarrow> gerr + dag_node) \<Rightarrow> (cid \<Rightarrow> cid list) \<Rightarrow> cid \<Rightarrow> cid set"
  for get links root where
  root: "get (NormalizeCid root) = Inr (ProtoNode d) \<Longrightarrow> NormalizeCid root \<in> proto_reach get links root"
| link: "c \<in> proto_reach get links root \<Longrightarrow> x \<in> set (links c) \<Longrightarrow>
    get (NormalizeCid x) = Inr (ProtoNode d) \<Longrightarrow> NormalizeCid x \<in> proto_reach get links root"

section \<open>The visits\<close>

definition proto :: "(cid \<Rightarrow> gerr + dag_node) \<Rightarrow> cid \<Rightarrow> bool" where
  "proto get c \<longleftrightarrow> (case get c of Inr (ProtoNode _) \<Rightarrow> True | _ \<Rightarrow> False)"

text \<open>The nodes the callback is called for, in their order, and what the callback makes of them.\<close>

definition called :: "walk_opts \<Rightarrow> (cid \<Rightarrow> gerr + dag_node) \<Rightarrow> cid list \<Rightarrow> cid list" where
  "called opts get cs = filter (proto get) (lo_uniq (map (walk_key opts) cs))"

definition call_all :: "(cid \<Rightarrow> gerr + dag_node) \<Rightarrow> (cid \<Rightarrow> bytes \<Rightarrow> 's \<Rightarrow> gerr option \<times> 's) \<Rightarrow> cid list \<Rightarrow> 's \<Rightarrow> 's" where
  "call_all get callback cs s =
     fold (\<lambda>c s. case get c of Inr (ProtoNode d) \<Rightarrow> snd (callback c d s) | _ \<Rightarrow> s) cs s"

lemma visited_Nil [simp]: "visited visit [] v = v"
  by (simp add: visited_def)

lemma visited_snoc [simp]: "visited visit (cs @ [c]) v = snd (visit c (visited visit cs v))"
  by (simp add: visited_def)

lemma lo_uniq_snoc: "lo_uniq (xs @ [x]) = (if x \<in> set xs then lo_uniq xs else lo_uniq xs @ [x])"
proof -
  have "uniq_onto seen (xs @ [x]) =
      (if x \<in> set xs \<union> set seen then uniq_onto seen xs else uniq_onto seen xs @ [x])" for seen
    by (induction seen xs rule: uniq_onto.induct) auto
  from this [of "[]"] show ?thesis by (simp add: lo_uniq_def)
qed

lemma walk_visit_state:
  "snd (walk_visit opts get cb c (seen, s)) =
     (if walk_key opts c \<in> set seen then (seen, s)
      else (walk_key opts c # seen,
            case get (walk_key opts c) of Inr (ProtoNode d) \<Rightarrow> snd (cb (walk_key opts c) d s) | _ \<Rightarrow> s))"
  by (auto simp: walk_visit_def Let_def split: sum.split dag_node.split prod.split option.split)

lemma walk_visit_true:
  assumes "wo_IgnoreErrors opts" and cb: "\<And>c d s. fst (cb c d s) = None"
  shows "fst (walk_visit opts get cb c (seen, s)) \<longleftrightarrow>
    walk_key opts c \<notin> set seen \<and> proto get (walk_key opts c)"
proof -
  have "cb c d s = (None, snd (cb c d s))" for c d s using cb [of c d s] by (metis prod.collapse)
  then show ?thesis using assms(1)
    by (simp add: walk_visit_def Let_def proto_def split: sum.split dag_node.split prod.split option.split)
      (metis option.distinct(1) prod.inject)
qed

lemma visited_walk_visit:
  "set (fst (visited (walk_visit opts get cb) cs ([], s))) = walk_key opts ` set cs \<and>
   snd (visited (walk_visit opts get cb) cs ([], s)) = call_all get cb (called opts get cs) s"
proof (induction cs rule: rev_induct)
  case Nil then show ?case by (simp add: call_all_def called_def lo_uniq_def)
next
  case (snoc c cs)
  obtain seen s1 where v: "visited (walk_visit opts get cb) cs ([], s) = (seen, s1)" by fastforce
  have seen: "set seen = walk_key opts ` set cs" and s1: "s1 = call_all get cb (called opts get cs) s"
    using snoc v by simp_all
  show ?case
  proof (cases "walk_key opts c \<in> set seen")
    case True
    then show ?thesis using v seen s1
      by (auto simp: walk_visit_state called_def lo_uniq_snoc)
  next
    case False
    then have "walk_key opts c \<notin> set (map (walk_key opts) cs)" using seen by simp
    then have "called opts get (cs @ [c]) =
        called opts get cs @ (if proto get (walk_key opts c) then [walk_key opts c] else [])"
      by (simp add: called_def lo_uniq_snoc)
    then show ?thesis using v False seen s1
      by (auto simp: walk_visit_state proto_def call_all_def split: sum.splits dag_node.splits)
  qed
qed

lemma WalkDAG_visits:
  assumes "walker_ok links walk" and "WalkDAG opts walk get root cb s = (e, s')"
  obtains cs where "s' = call_all get cb (called opts get cs) s"
    and "e = None \<Longrightarrow> walk_of links (walk_visit opts get cb) root ([], s) cs"
proof -
  let ?w = "walk (walk_visit opts get cb) root ([], s)"
  obtain cs where cs: "snd ?w = visited (walk_visit opts get cb) cs ([], s)"
    "fst ?w = None \<longrightarrow> walk_of links (walk_visit opts get cb) root ([], s) cs"
    using assms(1) unfolding walker_ok_def by blast
  have "e = fst ?w" "s' = snd (snd ?w)" using assms(2) by (auto simp: WalkDAG_def split: prod.splits)
  then show thesis using that cs visited_walk_visit [of opts get cb cs s] by simp
qed

lemma called_distinct: "distinct (called opts get cs)"
  by (simp add: called_def)

lemma called_mem: "c \<in> set (called opts get cs) \<longleftrightarrow> proto get c \<and> c \<in> walk_key opts ` set cs"
  by (auto simp: called_def)


lemma collect_fold:
  "call_all get collect_node cs r =
     \<lparr>dr_Cids = dr_Cids r @ filter (proto get) cs,
      dr_TotalSize = dr_TotalSize r + sum_list (map (\<lambda>c. word_of_nat (length (raw_data (projr (get c))))) (filter (proto get) cs)),
      dr_CIDSizes = fold (\<lambda>c. gm_set c (word_of_nat (length (raw_data (projr (get c)))))) (filter (proto get) cs) (dr_CIDSizes r)\<rparr>"
proof (induction cs arbitrary: r)
  case Nil then show ?case by (simp add: call_all_def)
next
  case (Cons c cs)
  show ?case
  proof (cases "get c")
    case (Inl e)
    then show ?thesis using Cons.IH [of r] by (simp add: call_all_def proto_def)
  next
    case (Inr n)
    then show ?thesis
    proof (cases n)
      case (ProtoNode d)
      then show ?thesis using Inr Cons.IH [of "snd (collect_node c d r)"]
        by (simp add: call_all_def proto_def collect_node_def Let_def add.assoc)
    next
      case (OtherNode d)
      then show ?thesis using Inr Cons.IH [of r] by (simp add: call_all_def proto_def)
    qed
  qed
qed

lemma fold_gm_set_get:
  "gm_get (fold (\<lambda>c. gm_set c (f c)) cs m) x = (if x \<in> set cs then Some (f x) else gm_get m x)"
  by (induction cs arbitrary: m) (auto simp: gm_get_set)

lemma fold_gm_set_wf: "gm_wf m \<Longrightarrow> gm_wf (fold (\<lambda>c. gm_set c (f c)) cs m)"
proof (induction cs arbitrary: m)
  case (Cons c cs)
  then show ?case by (simp add: gm_wf_set del: map_map)
qed simp

text \<open>Where the callback cannot fail and errors are ignored, the visits of a completed walk are exactly the
  nodes reached through \<open>ProtoNode\<close>s.\<close>

lemma walk_reaches:
  assumes w: "walk_of links (walk_visit opts get cb) root ([], s) cs"
    and opts: "wo_IgnoreErrors opts" "wo_NormalizeCID opts" and cb: "\<And>c d s. fst (cb c d s) = None"
    and norm: "\<And>c. links (NormalizeCid c) = links c"
  shows "set (called opts get cs) = proto_reach get links root"
proof -
  let ?v = "walk_visit opts get cb"
  have key: "walk_key opts = NormalizeCid" using opts(2) by (simp add: walk_key_def fun_eq_iff)
  have hit: "fst (?v (cs ! i) (visited ?v (take i cs) ([], s))) \<longleftrightarrow>
      NormalizeCid (cs ! i) \<notin> NormalizeCid ` set (take i cs) \<and> proto get (NormalizeCid (cs ! i))" for i
  proof -
    obtain seen s1 where v: "visited ?v (take i cs) ([], s) = (seen, s1)" by fastforce
    have "set seen = NormalizeCid ` set (take i cs)"
      using visited_walk_visit [of opts get cb "take i cs" s] v key by simp
    then show ?thesis using walk_visit_true [OF opts(1) cb] v key by simp
  qed
  have mem: "c \<in> set (called opts get cs) \<longleftrightarrow> proto get c \<and> c \<in> NormalizeCid ` set cs" for c
    by (simp add: called_mem key)
  show ?thesis
  proof (intro equalityI subsetI)
    fix c assume "c \<in> proto_reach get links root"
    then show "c \<in> set (called opts get cs)"
    proof induction
      case (root d)
      then show ?case using w by (auto simp: mem proto_def walk_of_def)
    next
      case (link c x d)
      then have "c \<in> NormalizeCid ` set cs" and pc: "proto get c" by (simp_all add: mem)
      then have "\<exists>i. i < length cs \<and> NormalizeCid (cs ! i) = c" by (auto simp: in_set_conv_nth)
      define i where "i = (LEAST i. i < length cs \<and> NormalizeCid (cs ! i) = c)"
      have i: "i < length cs" "NormalizeCid (cs ! i) = c"
        using LeastI_ex [OF \<open>\<exists>i. i < length cs \<and> NormalizeCid (cs ! i) = c\<close>] by (auto simp: i_def)
      have "NormalizeCid (cs ! i) \<notin> NormalizeCid ` set (take i cs)"
      proof
        assume "NormalizeCid (cs ! i) \<in> NormalizeCid ` set (take i cs)"
        then obtain j where "j < i" "j < length cs" "NormalizeCid (cs ! j) = c"
          using i by (auto simp: in_set_conv_nth)
        then show False using not_less_Least [of j "\<lambda>i. i < length cs \<and> NormalizeCid (cs ! i) = c"]
          by (simp add: i_def)
      qed
      then have "set (links (cs ! i)) \<subseteq> set cs" using w hit [of i] i pc by (simp add: walk_of_def)
      then have "x \<in> set cs" using link.hyps(2) norm [of "cs ! i"] i(2) by auto
      then show ?case using link.hyps(3) by (auto simp: mem proto_def)
    qed
  next
    have "proto get (NormalizeCid (cs ! i)) \<Longrightarrow> NormalizeCid (cs ! i) \<in> proto_reach get links root"
      if "i < length cs" for i
      using that
    proof (induction i rule: less_induct)
      case (less i)
      obtain d where d: "get (NormalizeCid (cs ! i)) = Inr (ProtoNode d)"
        using less.prems(1) by (auto simp: proto_def split: sum.splits dag_node.splits)
      consider "cs ! i = root" | j where "j < i" "fst (?v (cs ! j) (visited ?v (take j cs) ([], s)))"
          "cs ! i \<in> set (links (cs ! j))"
        using w less.prems(2) by (auto simp: walk_of_def)
      then show ?case
      proof cases
        case 1 then show ?thesis using d proto_reach.root by metis
      next
        case (2 j)
        then have "proto get (NormalizeCid (cs ! j))" using hit by blast
        then have "NormalizeCid (cs ! j) \<in> proto_reach get links root"
          using less.IH 2(1) less.prems(2) by simp
        moreover have "cs ! i \<in> set (links (NormalizeCid (cs ! j)))" using 2(3) norm by simp
        ultimately show ?thesis using d proto_reach.link by metis
      qed
    qed
    then have all: "proto get (NormalizeCid x) \<Longrightarrow> NormalizeCid x \<in> proto_reach get links root"
      if "x \<in> set cs" for x
      using that by (auto simp: in_set_conv_nth)
    show "c \<in> proto_reach get links root" if "c \<in> set (called opts get cs)" for c
      using that all by (auto simp: mem)
  qed
qed

section \<open>A walk over a DAG of depth one\<close>

definition star_walk :: "(cid \<Rightarrow> cid list) \<Rightarrow> 'v walker" where
  "star_walk links visit root v =
     (let (b, v1) = visit root v in (None, if b then visited visit (links root) v1 else v1))"

lemma star_walk_ok:
  assumes flat: "\<And>r d. d \<in> set (links r) \<Longrightarrow> links d = []"
  shows "walker_ok links (star_walk links)"
  unfolding walker_ok_def
proof (intro allI)
  fix visit :: "cid \<Rightarrow> 'a \<Rightarrow> bool \<times> 'a" and root v
  obtain b v1 where b: "visit root v = (b, v1)" by fastforce
  let ?cs = "root # (if b then links root else [])"
  have "snd (star_walk links visit root v) = visited visit ?cs v"
    by (simp add: star_walk_def b visited_def)
  moreover have "walk_of links visit root v ?cs"
    unfolding walk_of_def
  proof (intro conjI allI impI)
    fix i assume i: "i < length ?cs" and t: "fst (visit (?cs ! i) (visited visit (take i ?cs) v))"
    show "set (links (?cs ! i)) \<subseteq> set ?cs"
    proof (cases i)
      case 0 then show ?thesis using t b by auto
    next
      case (Suc k)
      then have "?cs ! i \<in> set (links root)" using i by (auto split: if_splits)
      then show ?thesis using flat by simp
    qed
  next
    fix i assume i: "i < length ?cs"
    show "?cs ! i = root \<or>
        (\<exists>j < i. fst (visit (?cs ! j) (visited visit (take j ?cs) v)) \<and> ?cs ! i \<in> set (links (?cs ! j)))"
    proof (cases i)
      case (Suc k)
      then have "b" "?cs ! i \<in> set (links root)" using i by (auto split: if_splits)
      then show ?thesis using Suc b by (intro disjI2 exI [of _ 0]) auto
    qed simp
  qed simp
  ultimately show "\<exists>cs. snd (star_walk links visit root v) = visited visit cs v \<and>
      (fst (star_walk links visit root v) = None \<longrightarrow> walk_of links visit root v cs)" by blast
qed

text \<open>A root with a \<open>ProtoNode\<close> and a raw leaf below it.\<close>

definition ex_links :: "cid \<Rightarrow> cid list" where
  "ex_links c = (if NormalizeCid c = Cid 1 112 ''r'' then [Cid 0 112 ''p'', Cid 1 85 ''l''] else [])"

definition ex_get :: "cid \<Rightarrow> gerr + dag_node" where
  "ex_get c = (if cid_type c = 85 then Inr (OtherNode ''leaf'')
     else if c = Cid 1 112 ''r'' then Inr (ProtoNode ''root'')
     else if c = Cid 1 112 ''p'' then Inr (ProtoNode ''child'') else Inl IpldNotFound)"

lemma ex_star_ok: "walker_ok ex_links (star_walk ex_links)"
  by (rule star_walk_ok) (auto simp: ex_links_def split: if_splits)

lemma ex_links_norm: "ex_links (NormalizeCid c) = ex_links c"
  by (simp add: ex_links_def)

section \<open>Properties\<close>

text \<open>However a walk runs and whatever the callback answers, the callback is called for a node at most once,
  with a normalised CID where that is asked for, and for \<open>ProtoNode\<close>s only.\<close>

lemma dag_walk_once:
  assumes "walker_ok links walk"
    and "WalkDAG opts walk get root (\<lambda>c d (s, l). let (e, s') = callback c d s in (e, (s', l @ [c]))) (s, []) = (e, (s', l))"
  shows "distinct l \<and> (\<forall>c \<in> set l. proto get c \<and> (wo_NormalizeCID opts \<longrightarrow> NormalizeCid c = c))"
proof -
  let ?cb = "\<lambda>c d (s, l). let (e, s') = callback c d s in (e, (s', l @ [c]))"
  obtain cs where cs: "(s', l) = call_all get ?cb (called opts get cs) (s, [])"
    by (rule WalkDAG_visits [OF assms]) (rule that)
  have "snd (call_all get ?cb xs (s, l0)) = l0 @ filter (proto get) xs" for xs s l0
    by (induction xs arbitrary: s l0)
      (simp_all add: call_all_def proto_def split: sum.splits dag_node.splits prod.splits)
  from this [of "called opts get cs" s "[]"] have "l = filter (proto get) (called opts get cs)"
    using cs by (metis append_Nil snd_conv)
  moreover have "filter (proto get) (called opts get cs) = called opts get cs"
    by (simp add: filter_id_conv called_mem)
  ultimately have "l = called opts get cs" by simp
  then show ?thesis by (auto simp: called_distinct called_mem walk_key_def)
qed

lemma dag_walk_once_example:
  "snd (WalkDAG DefaultWalkDAGOptions (star_walk ex_links) ex_get (Cid 0 112 ''r'')
      (\<lambda>c d (s, l). let (e, s') = (None, s + length d) in (e, (s', l @ [c]))) (0, [])) =
    (9, [Cid 1 112 ''r'', Cid 1 112 ''p'']) \<and> distinct [Cid 1 112 ''r'', Cid 1 112 ''p'']"
proof -
  let ?w = "WalkDAG DefaultWalkDAGOptions (star_walk ex_links) ex_get (Cid 0 112 ''r'')
      (\<lambda>c d (s, l). let (e, s') = (None, s + length d) in (e, (s', l @ [c]))) (0 :: nat, [])"
  have w: "?w = (None, (9, [Cid 1 112 ''r'', Cid 1 112 ''p'']))"
    by (simp add: WalkDAG_def star_walk_def walk_visit_def walk_key_def DefaultWalkDAGOptions_def visited_def
        ex_get_def ex_links_def Let_def)
  from dag_walk_once [OF ex_star_ok w] show ?thesis using w by simp
qed

text \<open>C23. The CIDs collected for a DAG are exactly its nodes that are reached through \<open>ProtoNode\<close>s, each once,
  each has its size in the map and the total is the sum of the sizes, modulo \<open>2\<^sup>6\<^sup>4\<close>.  Blocks of
  another type, such as raw leaves, are not among them.\<close>

theorem dag_collect_exact:
  assumes "walker_ok links walk" and "collectDAGCids walk get root = (None, r)"
    and "\<And>c. links (NormalizeCid c) = links c"
  shows "distinct (dr_Cids r) \<and> set (dr_Cids r) = proto_reach get links root \<and>
    set (gm_keys (dr_CIDSizes r)) = set (dr_Cids r) \<and>
    (\<forall>c \<in> set (dr_Cids r). \<exists>d. get c = Inr (ProtoNode d) \<and>
       gm_get (dr_CIDSizes r) c = Some (word_of_nat (length d))) \<and>
    unat (dr_TotalSize r) = sum_list (map (\<lambda>c. case get c of Inr n \<Rightarrow> length (raw_data n) | Inl _ \<Rightarrow> 0) (dr_Cids r)) mod 2 ^ 64"
proof -
  let ?r0 = "\<lparr>dr_Cids = [], dr_TotalSize = 0 :: u64, dr_CIDSizes = []\<rparr>"
  let ?f = "\<lambda>c. word_of_nat (length (raw_data (projr (get c)))) :: u64"
  obtain cs where cs: "r = call_all get collect_node (called collect_options get cs) ?r0"
    and w: "walk_of links (walk_visit collect_options get collect_node) root ([], ?r0) cs"
    by (rule WalkDAG_visits [OF assms(1) assms(2) [unfolded collectDAGCids_def]]) (rule that, simp_all)
  let ?l = "called collect_options get cs"
  have fl: "filter (proto get) ?l = ?l" by (simp add: filter_id_conv called_mem)
  have r: "r = \<lparr>dr_Cids = ?l, dr_TotalSize = sum_list (map ?f ?l), dr_CIDSizes = fold (\<lambda>c. gm_set c (?f c)) ?l []\<rparr>"
    unfolding cs collect_fold by (simp add: fl)
  have reach: "set ?l = proto_reach get links root"
    by (rule walk_reaches [OF w _ _ _ assms(3)]) (simp_all add: collect_options_def collect_node_def Let_def)
  have sizes: "\<exists>d. get c = Inr (ProtoNode d) \<and> gm_get (dr_CIDSizes r) c = Some (word_of_nat (length d))"
    if "c \<in> set ?l" for c
  proof -
    have "proto get c" using that by (simp add: called_mem)
    then obtain d where "get c = Inr (ProtoNode d)" by (auto simp: proto_def split: sum.splits dag_node.splits)
    then show ?thesis using that by (simp add: r fold_gm_set_get)
  qed
  have "sum_list (map ?f xs) = word_of_nat (sum_list (map (\<lambda>c. length (raw_data (projr (get c)))) xs))" for xs
    by (induction xs) simp_all
  then have "unat (dr_TotalSize r) = sum_list (map (\<lambda>c. length (raw_data (projr (get c)))) ?l) mod 2 ^ 64"
    by (simp add: r unat_of_nat)
  moreover have "map (\<lambda>c. length (raw_data (projr (get c)))) ?l =
      map (\<lambda>c. case get c of Inr n \<Rightarrow> length (raw_data n) | Inl _ \<Rightarrow> 0) ?l"
    using sizes by (force simp: map_eq_conv)
  moreover have "set (gm_keys (dr_CIDSizes r)) = set ?l"
    by (rule set_eqI) (simp only: gm_key_get, simp add: r fold_gm_set_get)
  ultimately show ?thesis using sizes reach by (simp add: r called_distinct del: set_map)
qed

theorem dag_collect_exact_witness:
  "\<exists>r. collectDAGCids (star_walk ex_links) ex_get (Cid 1 112 ''r'') = (None, r) \<and>
     dr_Cids r = [Cid 1 112 ''r'', Cid 1 112 ''p''] \<and> unat (dr_TotalSize r) = 9 \<and>
     set (dr_Cids r) = proto_reach ex_get ex_links (Cid 1 112 ''r'')"
proof -
  let ?r = "\<lparr>dr_Cids = [Cid 1 112 ''r'', Cid 1 112 ''p''], dr_TotalSize = 9,
      dr_CIDSizes = [(Cid 1 112 ''r'', 4), (Cid 1 112 ''p'', 5)]\<rparr>"
  have w: "collectDAGCids (star_walk ex_links) ex_get (Cid 1 112 ''r'') = (None, ?r)"
    by (simp add: collectDAGCids_def collect_node_def collect_options_def WalkDAG_def star_walk_def
        walk_visit_def walk_key_def visited_def ex_get_def ex_links_def Let_def)
  show ?thesis using w dag_collect_exact [OF ex_star_ok w ex_links_norm] by auto
qed

text \<open>
  An error of the callback does not reach the caller: with the default options the walk only skips
  what is below the node and reports success.
\<close>

lemma dag_walk_swallows:
  "WalkDAG DefaultWalkDAGOptions (star_walk ex_links) ex_get (Cid 1 112 ''r'')
     (\<lambda>c d s. (Some (Opaque ''stop''), s @ [c])) [] = (None, [Cid 1 112 ''r''])"
  by (simp add: WalkDAG_def star_walk_def walk_visit_def walk_key_def DefaultWalkDAGOptions_def ex_get_def Let_def)

end
