(* ===== verification/Upload_Service.thy ===== *)
theory Upload_Service
  imports Quota Pin_Service
begin

text \<open>
  The records an upload leaves behind: \<open>ProcessUpload\<close> and \<open>CreateRootPin\<close> of
  \<^verbatim>\<open>internal/service/upload/upload.go\<close>, with the events of \<^verbatim>\<open>internal/quota/quota.go\<close>.  The upload
  and pin services of the portal core are parameters over a state of their own.
\<close>

section \<open>What the service calls\<close>

record upload_meta =
  um_user :: nat
  um_hash :: bytes
  um_type :: nat
  um_size :: u64

record core_pin =
  ck_id :: nat
  ck_upload :: nat
  ck_user :: nat

text \<open>\<open>SaveUpload\<close>, which sets the id of the record, and \<open>CreatePin\<close>.\<close>

record 'c core_uploads =
  cu_save :: "upload_meta \<Rightarrow> 'c \<Rightarrow> (gerr + nat) \<times> 'c"
  cu_pin :: "nat \<Rightarrow> nat \<Rightarrow> 'c \<Rightarrow> (gerr + core_pin) \<times> 'c"

text \<open>The events fired; a reservation is named by its id, as \<open>UUID()\<close> does.\<close>

datatype quota_event =
    StorageObjectPinned core_pin string "nat option"
  | UploadCompleted nat nat u64 string "nat option" bool

record 'c upload_state =
  us_core :: 'c
  us_events :: "quota_event list"

section \<open>Processing an upload\<close>

text \<open>The sizes come from the metadata store; the cache is keyed by the CIDs' strings.\<close>

definition cached_sizes :: "(cid \<Rightarrow> gerr option) \<Rightarrow> meta_db \<Rightarrow> cid list \<Rightarrow> (cid, u64) gomap" where
  "cached_sizes fault db cs =
     fold (\<lambda>c m. case meta_Size (fault c) c db of Inl _ \<Rightarrow> m | Inr n \<Rightarrow> gm_set c (word_of_nat n) m) cs []"

definition uploadResID :: "(cid, block_reservations) gomap \<Rightarrow> cid \<Rightarrow> nat option" where
  "uploadResID rs c =
     (case gm_get rs c of None \<Rightarrow> None | Some br \<Rightarrow> Option.bind (rv_upload br) q_reservation)"

definition storageResID :: "(cid, block_reservations) gomap \<Rightarrow> cid \<Rightarrow> nat option" where
  "storageResID rs c =
     (case gm_get rs c of None \<Rightarrow> None | Some br \<Rightarrow> Option.bind (rv_storage br) q_reservation)"

definition upload_events ::
    "nat \<Rightarrow> string \<Rightarrow> (cid, block_reservations) gomap \<Rightarrow> cid \<Rightarrow> u64 \<Rightarrow> nat \<Rightarrow> core_pin \<Rightarrow> quota_event list" where
  "upload_events user ip rs c n i p =
     [StorageObjectPinned p ip (storageResID rs c), UploadCompleted user i n ip (uploadResID rs c) True]"

fun process_cids ::
    "'c core_uploads \<Rightarrow> (cid, u64) gomap \<Rightarrow> nat \<Rightarrow> string \<Rightarrow> (cid, block_reservations) gomap \<Rightarrow> cid list \<Rightarrow>
     'c upload_state \<Rightarrow> gerr option \<times> 'c upload_state" where
  "process_cids cu sizes user ip rs [] s = (None, s)"
| "process_cids cu sizes user ip rs (c # cs) s =
     (case gm_get sizes c of
        None \<Rightarrow> (Some (Opaque ''size not found for CID in cache''), s)
      | Some n \<Rightarrow>
          (case cu_save cu \<lparr>um_user = user, um_hash = cid_hash c, um_type = cid_type c, um_size = n\<rparr> (us_core s) of
             (Inl e, k) \<Rightarrow> (Some (Wrapped ''failed to save upload record for CID'' e), s\<lparr>us_core := k\<rparr>)
           | (Inr i, k) \<Rightarrow>
               (case cu_pin cu i user k of
                  (Inl e, k') \<Rightarrow> (Some (Wrapped ''failed to create pin record for CID'' e), s\<lparr>us_core := k'\<rparr>)
                | (Inr p, k') \<Rightarrow>
                    process_cids cu sizes user ip rs cs
                      (s\<lparr>us_core := k', us_events := us_events s @ upload_events user ip rs c n i p\<rparr>))))"

definition ProcessUpload ::
    "'c core_uploads \<Rightarrow> (cid \<Rightarrow> gerr option) \<Rightarrow> meta_db \<Rightarrow> ctx \<Rightarrow> cid list \<Rightarrow> nat \<Rightarrow>
     (cid, block_reservations) gomap \<Rightarrow> 'c upload_state \<Rightarrow> gerr option \<times> 'c upload_state" where
  "ProcessUpload cu fault db cx cs user rs s =
     (if cs = [] then (Some (Opaque ''no CIDs provided''), s)
      else process_cids cu (cached_sizes fault db cs) user (GetClientIP cx) rs cs s)"

text \<open>\<open>CreateRootPin\<close>: a pin request for the root, with no request id, name or status yet.\<close>

definition root_pin :: "pin_env \<Rightarrow> cid \<Rightarrow> nat \<Rightarrow> pin_row" where
  "root_pin env c user = empty_pin\<lparr>pn_user := user, pn_cid := pe_bytes env c\<rparr>"

definition CreateRootPin ::
    "pin_env \<Rightarrow> gerr + bytes \<Rightarrow> gerr option \<Rightarrow> cid \<Rightarrow> nat \<Rightarrow> pin_db \<Rightarrow> pin_row call \<times> pin_db" where
  "CreateRootPin env dg fault c user db =
     (case AddPin env dg fault (root_pin env c user) db of
        (Panicked, db') \<Rightarrow> (Panicked, db')
      | (Returned (Inl e), db') \<Rightarrow> (Returned (Inl (Wrapped ''failed to create IPFS pin record'' e)), db')
      | (Returned (Inr r), db') \<Rightarrow> (Returned (Inr r), db'))"

section \<open>Lemmas\<close>

lemma cached_sizes_get:
  "gm_get (cached_sizes fault db cs) c =
     (if c \<in> set cs then case meta_Size (fault c) c db of Inl _ \<Rightarrow> None | Inr n \<Rightarrow> Some (word_of_nat n) else None)"
proof -
  let ?f = "\<lambda>c m. case meta_Size (fault c) c db of Inl _ \<Rightarrow> m | Inr n \<Rightarrow> gm_set c (word_of_nat n :: u64) m"
  have "gm_get (fold ?f cs m) c = (if c \<in> set cs
      then case meta_Size (fault c) c db of Inl _ \<Rightarrow> gm_get m c | Inr n \<Rightarrow> Some (word_of_nat n) else gm_get m c)" for m
    by (induction cs arbitrary: m) (auto simp: gm_get_set split: sum.split)
  then show ?thesis by (simp add: cached_sizes_def split: sum.split)
qed

text \<open>What a run over the CIDs leaves: the events of its first ones, in order.\<close>

lemma process_cids_events:
  assumes "process_cids cu sizes user ip rs cs s = (e, s')"
  shows "\<exists>xs. us_events s' = us_events s @ concat (map (\<lambda>(c, n, i, p). upload_events user ip rs c n i p) xs) \<and>
    map fst xs = take (length xs) cs \<and> length xs \<le> length cs \<and> (\<forall>(c, n, i, p) \<in> set xs. gm_get sizes c = Some n) \<and>
    (e = None \<longleftrightarrow> length xs = length cs)"
  using assms
proof (induction cs arbitrary: s)
  case Nil then show ?case by (auto intro: exI [of _ "[]"])
next
  case (Cons c cs)
  let ?no = "e \<noteq> None \<and> us_events s' = us_events s"
  have stop: ?case if ?no using that by (intro exI [of _ "[]"]) simp
  show ?case
  proof (cases "gm_get sizes c")
    case None then show ?thesis using Cons.prems by (intro stop) auto
  next
    case (Some n)
    let ?m = "\<lparr>um_user = user, um_hash = cid_hash c, um_type = cid_type c, um_size = n\<rparr>"
    obtain r k where sv: "cu_save cu ?m (us_core s) = (r, k)" by fastforce
    show ?thesis
    proof (cases r)
      case (Inl x) then show ?thesis using Cons.prems Some sv by (intro stop) auto
    next
      case (Inr i)
      obtain r2 k2 where pn: "cu_pin cu i user k = (r2, k2)" by fastforce
      show ?thesis
      proof (cases r2)
        case (Inl x) then show ?thesis using Cons.prems Some sv Inr pn by (intro stop) auto
      next
        case r2: (Inr p)
        let ?s = "s\<lparr>us_core := k2, us_events := us_events s @ upload_events user ip rs c n i p\<rparr>"
        have "process_cids cu sizes user ip rs cs ?s = (e, s')" using Cons.prems Some sv Inr pn r2 by simp
        from Cons.IH [OF this] obtain xs where xs:
          "us_events s' = us_events ?s @ concat (map (\<lambda>(c, n, i, p). upload_events user ip rs c n i p) xs)"
          "map fst xs = take (length xs) cs" "length xs \<le> length cs" "\<forall>(c, n, i, p) \<in> set xs. gm_get sizes c = Some n"
          "e = None \<longleftrightarrow> length xs = length cs" by blast
        then show ?thesis using Some by (intro exI [of _ "(c, n, i, p) # xs"]) auto
      qed
    qed
  qed
qed

section \<open>Properties\<close>

text \<open>Processing an upload handles its CIDs in order and each as a whole: what it fires are a pinned and a
  completed event for each CID of a prefix, with the size the metadata store has for it and the ids of its
  reservations, and it succeeds exactly if that prefix is the whole list, which must not be empty.\<close>

lemma process_upload_events:
  assumes "ProcessUpload cu fault db cx cs user rs s = (e, s')"
  shows "\<exists>xs. us_events s' = us_events s @
      concat (map (\<lambda>(c, n, i, p). [StorageObjectPinned p (GetClientIP cx) (storageResID rs c),
        UploadCompleted user i n (GetClientIP cx) (uploadResID rs c) True]) xs) \<and>
    map fst xs = take (length xs) cs \<and>
    (\<forall>(c, n, i, p) \<in> set xs. \<exists>m. meta_Size (fault c) c db = Inr m \<and> n = word_of_nat m) \<and>
    (e = None \<longleftrightarrow> cs \<noteq> [] \<and> length xs = length cs)"
proof (cases "cs = []")
  case True
  then show ?thesis using assms by (intro exI [of _ "[]"]) (auto simp: ProcessUpload_def)
next
  case False
  let ?sizes = "cached_sizes fault db cs" and ?ip = "GetClientIP cx"
  have "process_cids cu ?sizes user ?ip rs cs s = (e, s')" using assms False by (simp add: ProcessUpload_def)
  from process_cids_events [OF this] obtain xs where xs:
    "us_events s' = us_events s @ concat (map (\<lambda>(c, n, i, p). upload_events user ?ip rs c n i p) xs)"
    "map fst xs = take (length xs) cs" "\<forall>(c, n, i, p) \<in> set xs. gm_get ?sizes c = Some n"
    "e = None \<longleftrightarrow> length xs = length cs" by blast
  have "\<forall>(c, n, i, p) \<in> set xs. \<exists>m. meta_Size (fault c) c db = Inr m \<and> n = word_of_nat m"
    using xs(3) by (fastforce simp: cached_sizes_get split: if_splits sum.splits)
  then show ?thesis using xs(1,2,4) False unfolding upload_events_def by blast
qed

text \<open>A core that counts: uploads and pins get the next number.\<close>

definition ex_core :: "nat core_uploads" where
  "ex_core = \<lparr>cu_save = (\<lambda>m k. (Inr k, Suc k)),
     cu_pin = (\<lambda>i u k. (Inr \<lparr>ck_id = k, ck_upload = i, ck_user = u\<rparr>, Suc k))\<rparr>"

lemma process_upload_events_example:
  "us_events (snd (ProcessUpload ex_core (\<lambda>_. None) ex_db Background [Cid 1 112 ''b'', Cid 1 85 ''z''] 7 []
      \<lparr>us_core = 1, us_events = []\<rparr>)) =
    [StorageObjectPinned \<lparr>ck_id = 2, ck_upload = 1, ck_user = 7\<rparr> [] None, UploadCompleted 7 1 5 [] None True] \<and>
   fst (ProcessUpload ex_core (\<lambda>_. None) ex_db Background [Cid 1 112 ''b'', Cid 1 85 ''z''] 7 []
      \<lparr>us_core = 1, us_events = []\<rparr>) \<noteq> None"
proof -
  let ?r = "ProcessUpload ex_core (\<lambda>_. None) ex_db Background [Cid 1 112 ''b'', Cid 1 85 ''z''] 7 []
      \<lparr>us_core = 1, us_events = []\<rparr>"
  have r: "us_events (snd ?r) =
      [StorageObjectPinned \<lparr>ck_id = 2, ck_upload = 1, ck_user = 7\<rparr> [] None, UploadCompleted 7 1 5 [] None True]"
    by code_simp
  obtain xs where xs: "us_events (snd ?r) = us_events \<lparr>us_core = 1 :: nat, us_events = []\<rparr> @
      concat (map (\<lambda>(c, n, i, p). [StorageObjectPinned p (GetClientIP Background) (storageResID [] c),
        UploadCompleted 7 i n (GetClientIP Background) (uploadResID [] c) True]) xs)"
    "fst ?r = None \<longleftrightarrow> [Cid 1 112 ''b'', Cid 1 85 ''z''] \<noteq> [] \<and> length xs = length [Cid 1 112 ''b'', Cid 1 85 ''z'']"
    using process_upload_events [of ex_core "\<lambda>_. None" ex_db Background "[Cid 1 112 ''b'', Cid 1 85 ''z'']" 7 "[]"
        "\<lparr>us_core = 1, us_events = []\<rparr>", OF surjective_pairing]
    by (elim exE conjE) (rule that)
  have "length (concat (map (\<lambda>(c, n, i, p). [StorageObjectPinned p (GetClientIP Background) (storageResID [] c),
        UploadCompleted 7 i n (GetClientIP Background) (uploadResID [] c) True]) xs)) = 2 * length xs"
    by (induction xs) auto
  moreover have "length (us_events (snd ?r)) = 2" unfolding r by simp
  ultimately have "2 * length xs = 2" using arg_cong [OF xs(1), of length] by simp
  then show ?thesis using r xs(2) by simp
qed

text \<open>A failure after the first CIDs leaves their records and events; nothing takes them back.\<close>

lemma process_upload_partial:
  "us_core (snd (ProcessUpload ex_core (\<lambda>_. None) ex_db Background [Cid 1 112 ''b'', Cid 1 85 ''z''] 7 []
      \<lparr>us_core = 1, us_events = []\<rparr>)) = 3"
  by code_simp

end
