(* ===== verification/Retrieve_Op.thy ===== *)
theory Retrieve_Op
  imports Dag_Walk Upload_Service
begin

text \<open>
  The retrieve operation of the pin workflow: \<^verbatim>\<open>internal/protocol/op_retrieve.go\<close>.  It walks the DAG
  once without storing it, reserves quota for what it found, walks it again to store it and leaves
  upload and pin records for the blocks.  The workflow store, the walks, the node's blocks, the quota
  service and the core are parameters; progress reports are left out.
\<close>

section \<open>The operation's surroundings\<close>

record pin_workflow =
  pw_request :: bytes
  pw_cids :: "string list"

record request =
  rq_hash :: bytes
  rq_type :: nat
  rq_user :: "nat option"
  rq_ip :: string

text \<open>
  \<open>rt_stored\<close> is what the second walk and the flush after it store; \<open>rt_block\<close> gives the size and
  the analysis of a block, and \<open>rt_save\<close> the error of saving the workflow data.
\<close>

record ('q, 'c) retrieve_env =
  rt_tracker :: "gerr option"
  rt_workflow :: "gerr + pin_workflow"
  rt_mh_cast :: "bytes \<Rightarrow> gerr + bytes"
  rt_str :: "cid \<Rightarrow> string"
  rt_svc :: "'q quota_service option"
  rt_walk1 :: "(cid list \<times> dag_result) walker"
  rt_get1 :: "cid \<Rightarrow> gerr + dag_node"
  rt_walk2 :: "(cid list \<times> dag_result) walker"
  rt_get2 :: "cid \<Rightarrow> gerr + dag_node"
  rt_stored :: "meta_db \<Rightarrow> meta_db"
  rt_links_of :: "cid \<Rightarrow> gerr + (cid \<times> string) list"
  rt_names_fault :: "cid \<Rightarrow> gerr option"
  rt_save :: "gerr option"
  rt_upload :: "'c core_uploads option"
  rt_block :: "cid \<Rightarrow> gerr + nat \<times> (gerr + analyzed)"
  rt_cast :: "bytes \<Rightarrow> cid option"
  rt_unixfs_fault :: "cid \<Rightarrow> gerr option"
  rt_size_fault :: "cid \<Rightarrow> gerr option"

record ('q, 'c) retrieve_state =
  rx_quota :: 'q
  rx_meta :: meta_db
  rx_upload :: "'c upload_state"
  rx_saved :: "pin_workflow option"

definition retrieve_ValidateRequest :: "request \<Rightarrow> gerr option" where
  "retrieve_ValidateRequest req = (if rq_hash req = [] then Some (Opaque ''hash is required'') else None)"

section \<open>Quota\<close>

abbreviation size_of :: "(cid, u64) gomap \<Rightarrow> cid \<Rightarrow> u64" where
  "size_of m c \<equiv> (case gm_get m c of Some n \<Rightarrow> n | None \<Rightarrow> 0)"

definition cleanupDownloadReservation :: "'q quota_service option \<Rightarrow> quota_result option \<Rightarrow> 'q \<Rightarrow> 'q" where
  "cleanupDownloadReservation svc down q = release_opt svc down q"

definition check_download ::
    "'q quota_service option \<Rightarrow> nat option \<Rightarrow> u64 \<Rightarrow> 'q \<Rightarrow> (gerr + quota_result option) \<times> 'q" where
  "check_download svc user n q =
     (case user of
        None \<Rightarrow> (Inr None, q)
      | Some u \<Rightarrow> if 0 < u then CheckWithReservation svc CheckTypeDownload u n q else (Inr None, q))"

definition retrieve_validateUserID ::
    "'q quota_service option \<Rightarrow> nat option \<Rightarrow> quota_result option \<Rightarrow> 'q \<Rightarrow> (gerr + nat) \<times> 'q" where
  "retrieve_validateUserID svc user down q =
     (case user of
        None \<Rightarrow> (Inl (Opaque ''user ID is required''), cleanupDownloadReservation svc down q)
      | Some u \<Rightarrow>
          if u = 0 then (Inl (Opaque ''user ID is required''), cleanupDownloadReservation svc down q)
          else (Inr u, q))"

definition child_sizes :: "cid list \<Rightarrow> dag_result \<Rightarrow> (cid, u64) gomap" where
  "child_sizes children r = filter (\<lambda>(c, n). 0 < n \<and> c \<in> set children) (dr_CIDSizes r)"

definition reserve_children ::
    "'q quota_service option \<Rightarrow> nat \<Rightarrow> quota_result option \<Rightarrow> cid \<Rightarrow> dag_result \<Rightarrow> cid list \<Rightarrow> 'q \<Rightarrow>
     (gerr + (cid, block_reservations) gomap) \<times> 'q" where
  "reserve_children svc u down c r children q =
     (let total = dr_TotalSize r - size_of (dr_CIDSizes r) c in
      case (if 0 < total then ValidateQuota svc CheckTypeUpload u total q else (None, q)) of
        (Some e, q1) \<Rightarrow> (Inl e, cleanupDownloadReservation svc down q1)
      | (None, q1) \<Rightarrow>
          (case CreatePerBlockReservationsWithSizes svc u (child_sizes children r) q1 of
             (Inl e, q2) \<Rightarrow> (Inl e, cleanupDownloadReservation svc down q2)
           | (Inr m, q2) \<Rightarrow> (Inr m, q2)))"

section \<open>Storing\<close>

definition fetchAndPrepareChildBlock ::
    "('q, 'c) retrieve_env \<Rightarrow> cid \<Rightarrow> meta_db \<Rightarrow> bool \<times> meta_db" where
  "fetchAndPrepareChildBlock env c db =
     (case rt_block env c of
        Inl _ \<Rightarrow> (False, db)
      | Inr (n, node) \<Rightarrow>
          (case ExtractNodeMetadata (rt_cast env) \<lparr>p_cid = c, p_links = [], p_size = n, p_node = node\<rparr> of
             Inl _ \<Rightarrow> (True, db)
           | Inr u \<Rightarrow> (True, snd (UpdateUnixFSMetadata (rt_unixfs_fault env c) c u db))))"

fun valid_children ::
    "('q, 'c) retrieve_env \<Rightarrow> (cid, block_reservations) gomap \<Rightarrow> cid list \<Rightarrow> meta_db \<Rightarrow> cid list \<times> meta_db" where
  "valid_children env m [] db = ([], db)"
| "valid_children env m (c # cs) db =
     (if gm_get m c = None then valid_children env m cs db
      else
        let (ok, db1) = fetchAndPrepareChildBlock env c db;
            (rest, db2) = valid_children env m cs db1
        in (if ok then c # rest else rest, db2))"

definition release_both ::
    "'q quota_service option \<Rightarrow> (cid, block_reservations) gomap \<Rightarrow> quota_result option \<Rightarrow> 'q \<Rightarrow> 'q" where
  "release_both svc m down q = cleanupDownloadReservation svc down (ReleaseBlockReservationsMap svc m q)"

text \<open>From the second walk on, with the reservations \<open>m\<close> made.\<close>

definition retrieve_store ::
    "('q, 'c) retrieve_env \<Rightarrow> ctx \<Rightarrow> request \<Rightarrow> pin_workflow \<Rightarrow> nat \<Rightarrow> cid \<Rightarrow> cid list \<Rightarrow> quota_result option \<Rightarrow>
     (cid, block_reservations) gomap \<Rightarrow> ('q, 'c) retrieve_state \<Rightarrow> gerr option \<times> ('q, 'c) retrieve_state" where
  "retrieve_store env cx req flow u c children down m s =
     (let svc = rt_svc env; s = s\<lparr>rx_meta := rt_stored env (rx_meta s)\<rparr> in
      case collectDAGCids (rt_walk2 env) (rt_get2 env) c of
        (Some e, _) \<Rightarrow>
          (Some (Wrapped ''failed to collect and store DAG CIDs'' e),
           s\<lparr>rx_quota := cleanupDownloadReservation svc down (rx_quota s)\<rparr>)
      | (None, r) \<Rightarrow>
          let s = s\<lparr>rx_meta := snd (ProcessMissingUnixFSNames (rt_links_of env)
                              (map (\<lambda>c. (c, rt_names_fault env c)) (dr_Cids r)) (rx_meta s))\<rparr>
          in case rt_save env of
               Some e \<Rightarrow> (Some e, s\<lparr>rx_quota := release_both svc m down (rx_quota s)\<rparr>)
             | None \<Rightarrow>
                 let s = s\<lparr>rx_saved := Some (flow\<lparr>pw_cids := map (rt_str env) (c # children)\<rparr>)\<rparr>
                 in case rt_upload env of
                      None \<Rightarrow> (Some (Opaque ''upload service not available''),
                               s\<lparr>rx_quota := release_both svc m down (rx_quota s)\<rparr>)
                    | Some cu \<Rightarrow>
                        let (valid, db) = valid_children env m children (rx_meta s);
                            s = s\<lparr>rx_meta := db\<rparr>
                        in case ProcessUpload cu (rt_size_fault env) db (ClientIPOption (rq_ip req) cx) valid u m
                                  (rx_upload s) of
                             (Some e, up) \<Rightarrow>
                               (Some e, s\<lparr>rx_upload := up, rx_quota := release_both svc m down (rx_quota s)\<rparr>)
                           | (None, up) \<Rightarrow> (None, s\<lparr>rx_upload := up\<rparr>))"

definition retrieve_Execute ::
    "('q, 'c) retrieve_env \<Rightarrow> ctx \<Rightarrow> request \<Rightarrow> ('q, 'c) retrieve_state \<Rightarrow>
     gerr option \<times> ('q, 'c) retrieve_state" where
  "retrieve_Execute env cx req s =
     (case rt_tracker env of
        Some e \<Rightarrow> (Some e, s)
      | None \<Rightarrow>
     (case rt_workflow env of
        Inl e \<Rightarrow> (Some e, s)
      | Inr flow \<Rightarrow>
     (case CIDFromHash (rt_mh_cast env) (rq_hash req) (rq_type req) of
        Inl e \<Rightarrow> (Some (Wrapped ''failed to create CID'' e), s)
      | Inr c \<Rightarrow>
     (case collectDAGCids (rt_walk1 env) (rt_get1 env) c of
        (Some e, _) \<Rightarrow> (Some (Wrapped ''failed to collect DAG CIDs virtually'' e), s)
      | (None, r) \<Rightarrow>
     (let children = filter (\<lambda>x. x \<noteq> c) (dr_Cids r) in
      case check_download (rt_svc env) (rq_user req) (size_of (dr_CIDSizes r) c) (rx_quota s) of
        (Inl e, q) \<Rightarrow> (Some e, s\<lparr>rx_quota := q\<rparr>)
      | (Inr down, q) \<Rightarrow>
          if children = [] then (None, s\<lparr>rx_quota := q\<rparr>)
          else
     (case retrieve_validateUserID (rt_svc env) (rq_user req) down q of
        (Inl e, q) \<Rightarrow> (Some e, s\<lparr>rx_quota := q\<rparr>)
      | (Inr u, q) \<Rightarrow>
     (case reserve_children (rt_svc env) u down c r children q of
        (Inl e, q) \<Rightarrow> (Some e, s\<lparr>rx_quota := q\<rparr>)
      | (Inr m, q) \<Rightarrow> retrieve_store env cx req flow u c children down m (s\<lparr>rx_quota := q\<rparr>))))))))"

section \<open>What is held\<close>

text \<open>A check that is not asked for a reservation makes none.\<close>

definition checks_free :: "'q quota_service option \<Rightarrow> bool" where
  "checks_free svc \<longleftrightarrow> (case svc of None \<Rightarrow> True | Some qs \<Rightarrow>
     \<forall>k u n q. case qs_check qs k u n False q of (Inl _, _) \<Rightarrow> True | (Inr r, _) \<Rightarrow> q_reservation r = None)"

definition none_held :: "'q quota_service option \<Rightarrow> (cid, block_reservations) gomap \<Rightarrow> bool" where
  "none_held svc m \<longleftrightarrow> (svc = None \<longrightarrow> (\<forall>(c, br) \<in> set m. rv_upload br = None \<and> rv_storage br = None))"

lemma ValidateQuota_held:
  assumes "svc_ok held svc" and free: "checks_free svc" and v: "ValidateQuota svc k u n q = (e, q')"
  shows "held q' = held q"
proof -
  obtain r q1 where c: "CheckQuota svc k u n False q = (r, q1)" by fastforce
  have "case r of Inl _ \<Rightarrow> True | Inr x \<Rightarrow> opt_held x = {#}"
  proof (cases svc)
    case None then show ?thesis using c by (auto simp: CheckQuota_def opt_held_def)
  next
    case (Some qs)
    have "case qs_check qs k u n False q of (Inl _, _) \<Rightarrow> True | (Inr r, _) \<Rightarrow> q_reservation r = None"
      using free Some unfolding checks_free_def by simp
    then show ?thesis using c Some
      by (auto simp: CheckQuota_def opt_held_def res_held_def split: prod.splits sum.splits)
  qed
  then have "held q1 = held q" using CheckQuota_held [OF assms(1) c] by (auto split: sum.splits)
  moreover have "q' = q1" using v c by (auto simp: ValidateQuota_def split: sum.splits option.splits)
  ultimately show ?thesis by simp
qed

lemma none_held_set: "none_held svc m \<Longrightarrow> svc = None \<longrightarrow> rv_upload br = None \<and> rv_storage br = None \<Longrightarrow>
    none_held svc (gm_set c br m)"
proof -
  assume m: "none_held svc m" and br: "svc = None \<longrightarrow> rv_upload br = None \<and> rv_storage br = None"
  have "set (gm_set c br m) \<subseteq> insert (c, br) (set m)" by (induction m) auto
  then show ?thesis using m br by (auto simp: none_held_def)
qed

lemma create_reservations_none:
  "none_held svc acc \<Longrightarrow> create_reservations svc u cs acc q = (Inr m, q') \<Longrightarrow> none_held svc m"
proof (induction cs arbitrary: acc q)
  case (Cons x cs)
  obtain c n where x: "x = (c, n)" by fastforce
  show ?case
  proof (cases "n = 0")
    case True then show ?thesis using Cons x by auto
  next
    case False
    obtain up q1 where up: "CheckWithReservation svc CheckTypeUpload u n q = (Inr up, q1)"
      using Cons.prems(2) x False by (auto split: prod.splits sum.splits)
    obtain st q2 where st: "CheckWithReservation svc CheckTypeStorage u n q1 = (Inr st, q2)"
      using Cons.prems(2) x False up by (auto split: prod.splits sum.splits)
    have "none_held svc (gm_set c \<lparr>rv_upload = up, rv_storage = st\<rparr> acc)"
      using up st by (intro none_held_set Cons.prems(1)) (auto simp: CheckWithReservation_none)
    then show ?thesis using Cons.IH Cons.prems(2) x False up st by auto
  qed
qed simp

lemma reserved_none:
  "CreatePerBlockReservationsWithSizes svc u sizes q = (Inr m, q') \<Longrightarrow> none_held svc m"
  unfolding CreatePerBlockReservationsWithSizes_def
  by (rule create_reservations_none) (simp_all add: none_held_def)

lemma release_map_held:
  "svc_ok held svc \<Longrightarrow> none_held svc m \<Longrightarrow> held (ReleaseBlockReservationsMap svc m q) = held q - map_held m"
  by (rule ReleaseMap_held) (simp_all add: none_held_def)

lemma release_both_held:
  assumes "svc_ok held svc" and "none_held svc m" and "svc = None \<longrightarrow> down = None"
    and "held q = H + opt_held down + map_held m"
  shows "held (release_both svc m down q) = H"
  using assms release_opt_held [OF assms(1,3)] release_map_held [OF assms(1,2)]
  by (simp add: release_both_def cleanupDownloadReservation_def)

lemma collect_sizes_wf:
  assumes "walker_ok links walk" and "collectDAGCids walk get c = (e, r)"
  shows "gm_wf (dr_CIDSizes r)"
proof -
  let ?r0 = "\<lparr>dr_Cids = [], dr_TotalSize = 0 :: u64, dr_CIDSizes = []\<rparr>"
  obtain cs where "r = call_all get collect_node cs ?r0"
    by (rule WalkDAG_visits [OF assms(1) assms(2) [unfolded collectDAGCids_def]]) (rule that)
  then show ?thesis by (simp add: collect_fold fold_gm_set_wf del: set_map map_map)
qed


lemma cleanup_held:
  "svc_ok held svc \<Longrightarrow> svc = None \<longrightarrow> down = None \<Longrightarrow> held q = H + opt_held down \<Longrightarrow>
   held (cleanupDownloadReservation svc down q) = H"
  using release_opt_held [of held svc down q] by (simp add: cleanupDownloadReservation_def)

lemma retrieve_store_held:
  assumes ok: "svc_ok held (rt_svc env)" and m: "none_held (rt_svc env) m"
    and d: "rt_svc env = None \<longrightarrow> down = None"
    and h: "held (rx_quota s) = H + opt_held down + map_held m"
    and run: "retrieve_store env cx req flow u c children down m s = (e, s')"
  shows "case e of
      Some _ \<Rightarrow> held (rx_quota s') = H \<or>
        fst (collectDAGCids (rt_walk2 env) (rt_get2 env) c) \<noteq> None \<and> held (rx_quota s') = H + map_held m
    | None \<Rightarrow> held (rx_quota s') = H + opt_held down + map_held m"
proof (cases "fst (collectDAGCids (rt_walk2 env) (rt_get2 env) c)")
  case (Some x)
  then obtain r where c: "collectDAGCids (rt_walk2 env) (rt_get2 env) c = (Some x, r)" by (metis prod.collapse)
  have "held (cleanupDownloadReservation (rt_svc env) down (rx_quota s)) = H + map_held m"
    by (rule cleanup_held [OF ok d]) (simp add: h add_ac)
  then show ?thesis using run c by (auto simp: retrieve_store_def)
next
  case None
  then obtain r where c: "collectDAGCids (rt_walk2 env) (rt_get2 env) c = (None, r)" by (metis prod.collapse)
  note rel = release_both_held [OF ok m d h]
  show ?thesis
    using run c rel h by (auto simp: retrieve_store_def Let_def split: option.splits prod.splits)
qed

lemma check_download_held:
  assumes "svc_ok held svc" and "check_download svc user n q = (r, q')"
  shows "held q' = held q + (case r of Inl _ \<Rightarrow> {#} | Inr x \<Rightarrow> opt_held x)"
    and "r = Inr down \<Longrightarrow> svc = None \<longrightarrow> down = None"
  using assms CheckWithReservation_held [OF assms(1)]
  by (auto simp: check_download_def opt_held_def CheckWithReservation_none split: option.splits if_splits)

lemma reserve_children_held:
  assumes ok: "svc_ok held svc" and "checks_free svc" and d: "svc = None \<longrightarrow> down = None"
    and "gm_wf (dr_CIDSizes r)" and h: "held q = H + opt_held down"
    and run: "reserve_children svc u down c r children q = (res, q')"
  shows "case res of Inl _ \<Rightarrow> held q' = H | Inr m \<Rightarrow> held q' = H + opt_held down + map_held m \<and> none_held svc m"
proof -
  let ?total = "dr_TotalSize r - size_of (dr_CIDSizes r) c" and ?sizes = "child_sizes children r"
  obtain e q1 where v: "(if 0 < ?total then ValidateQuota svc CheckTypeUpload u ?total q else (None, q)) = (e, q1)"
    by fastforce
  have q1: "held q1 = H + opt_held down"
    using v h ValidateQuota_held [OF ok assms(2)] by (auto split: if_splits)
  show ?thesis
  proof (cases e)
    case (Some x)
    then show ?thesis using run v cleanup_held [OF ok d q1] by (auto simp: reserve_children_def Let_def)
  next
    case None
    obtain r2 q2 where c: "CreatePerBlockReservationsWithSizes svc u ?sizes q1 = (r2, q2)" by fastforce
    have "gm_wf ?sizes" using assms(4) by (auto simp: child_sizes_def intro: filter_distinct_fst simp del: set_map)
    then have q2: "held q2 = held q1 + (case r2 of Inl _ \<Rightarrow> {#} | Inr m \<Rightarrow> map_held m)"
      using create_reservations_held [OF ok, of ?sizes "[]" q1 "held q1" u r2 q2] c
      by (simp add: CreatePerBlockReservationsWithSizes_def map_held_def)
    show ?thesis
    proof (cases r2)
      case (Inl x)
      then have "held (cleanupDownloadReservation svc down q2) = H" using cleanup_held [OF ok d] q1 q2 by simp
      then show ?thesis using run v None c Inl by (auto simp: reserve_children_def Let_def)
    next
      case (Inr m)
      then have "res = Inr m" "q' = q2" using run v None c by (auto simp: reserve_children_def Let_def)
      then show ?thesis using Inr q1 q2 reserved_none c by simp
    qed
  qed
qed

section \<open>Properties\<close>

text \<open>
  What a run leaves: after a failure nothing that was reserved on the way, unless the second walk
  failed, and after a success both the download's reservation and those of the blocks.
\<close>

lemma retrieve_held:
  assumes ok: "svc_ok held (rt_svc env)" and free: "checks_free (rt_svc env)"
    and "walker_ok links (rt_walk1 env)"
    and run: "retrieve_Execute env cx req s = (e, s')"
  shows "\<exists>c down m. held (rx_quota s') = held (rx_quota s) + (case e of
      Some _ \<Rightarrow> if fst (collectDAGCids (rt_walk2 env) (rt_get2 env) c) = None then {#} else map_held m
    | None \<Rightarrow> opt_held down + map_held m)"
proof -
  let ?H = "held (rx_quota s)"
  have unheld: ?thesis if "held (rx_quota s') = ?H"
    using that by (intro exI [of _ Undef] exI [of _ None] exI [of _ "[]"])
      (simp add: map_held_def opt_held_def split: option.split)
  consider "held (rx_quota s') = ?H"
    | flow c r where "rt_tracker env = None" "rt_workflow env = Inr flow"
      "CIDFromHash (rt_mh_cast env) (rq_hash req) (rq_type req) = Inr c"
      "collectDAGCids (rt_walk1 env) (rt_get1 env) c = (None, r)"
    using run by (auto simp: retrieve_Execute_def split: option.splits sum.splits prod.splits)
  then show ?thesis
  proof cases
    case 1 then show ?thesis by (rule unheld)
  next
    case (2 flow c r)
    let ?children = "filter (\<lambda>x. x \<noteq> c) (dr_Cids r)"
    have sizes: "gm_wf (dr_CIDSizes r)" by (rule collect_sizes_wf [OF assms(3) 2(4)])
    obtain rd qd where dl: "check_download (rt_svc env) (rq_user req) (size_of (dr_CIDSizes r) c) (rx_quota s) = (rd, qd)"
      by fastforce
    note hd = check_download_held [OF ok dl]
    show ?thesis
    proof (cases rd)
      case (Inl x)
      then show ?thesis using run 2 dl hd(1) by (intro unheld) (auto simp: retrieve_Execute_def Let_def)
    next
      case (Inr down)
      have qd: "held qd = ?H + opt_held down" and d: "rt_svc env = None \<longrightarrow> down = None"
        using hd Inr by simp_all
      show ?thesis
      proof (cases "?children = []")
        case True
        then have "e = None" "rx_quota s' = qd"
          using run 2 dl Inr by (auto simp: retrieve_Execute_def Let_def)
        then show ?thesis using qd by (intro exI [of _ c] exI [of _ down] exI [of _ "[]"]) (simp add: map_held_def)
      next
        case ch: False
        obtain rv qv where v: "retrieve_validateUserID (rt_svc env) (rq_user req) down qd = (rv, qv)" by fastforce
        show ?thesis
        proof (cases rv)
          case (Inl x)
          have "held qv = ?H" using v Inl cleanup_held [OF ok d qd]
            by (auto simp: retrieve_validateUserID_def split: option.splits if_splits)
          then show ?thesis using run 2 dl Inr ch v Inl
            by (intro unheld) (auto simp: retrieve_Execute_def Let_def)
        next
          case rv: (Inr u)
          then have "qv = qd" using v by (auto simp: retrieve_validateUserID_def split: option.splits if_splits)
          then have qv: "held qv = ?H + opt_held down" using qd by simp
          obtain rr qr where rc: "reserve_children (rt_svc env) u down c r ?children qv = (rr, qr)" by fastforce
          note hr = reserve_children_held [OF ok free d sizes qv rc]
          show ?thesis
          proof (cases rr)
            case (Inl x)
            then show ?thesis using run 2 dl Inr ch v rv rc hr
              by (intro unheld) (auto simp: retrieve_Execute_def Let_def)
          next
            case rr: (Inr m)
            have st: "retrieve_store env cx req flow u c ?children down m (s\<lparr>rx_quota := qr\<rparr>) = (e, s')"
              using run 2 dl Inr ch v rv rc rr by (auto simp: retrieve_Execute_def Let_def)
            have "case e of
                Some _ \<Rightarrow> held (rx_quota s') = ?H \<or>
                  fst (collectDAGCids (rt_walk2 env) (rt_get2 env) c) \<noteq> None \<and> held (rx_quota s') = ?H + map_held m
              | None \<Rightarrow> held (rx_quota s') = ?H + opt_held down + map_held m"
              using hr rr by (intro retrieve_store_held [OF ok _ d _ st]) simp_all
            then consider "held (rx_quota s') = ?H"
              | x where "e = Some x" "fst (collectDAGCids (rt_walk2 env) (rt_get2 env) c) \<noteq> None"
                "held (rx_quota s') = ?H + map_held m"
              | "e = None" "held (rx_quota s') = ?H + opt_held down + map_held m" by (cases e) auto
            then show ?thesis
            proof cases
              case 1 then show ?thesis by (rule unheld)
            qed (auto intro!: exI [of _ c] exI [of _ down] exI [of _ m] simp: add.assoc)
          qed
        qed
      qed
    qed
  qed
qed

text \<open>C5. A retrieve operation that fails gives back all the quota it reserved, for the download and for every
  block, if the walk that stores the blocks completes.\<close>

theorem retrieve_no_leak:
  assumes "svc_ok held (rt_svc env)" and "checks_free (rt_svc env)" and "walker_ok links (rt_walk1 env)"
    and "retrieve_Execute env cx req s = (Some e, s')"
    and "\<And>c. fst (collectDAGCids (rt_walk2 env) (rt_get2 env) c) = None"
  shows "held (rx_quota s') = held (rx_quota s)"
  using retrieve_held [OF assms(1-4)] assms(5) by simp


text \<open>A service that numbers its reservations, over the DAG of two \<open>ProtoNode\<close>s and a raw leaf.\<close>

definition counting_service :: "(nat \<times> nat multiset) quota_service" where
  "counting_service = \<lparr>
     qs_check = (\<lambda>k u n rsv (i, h).
       if rsv then (Inr \<lparr>q_allowed = True, q_current = 0, q_limit = None, q_reservation = Some i\<rparr>, (Suc i, add_mset i h))
       else (Inr \<lparr>q_allowed = True, q_current = 0, q_limit = None, q_reservation = None\<rparr>, (i, h))),
     qs_group = (\<lambda>_ _ _. Inr True),
     qs_release = (\<lambda>r (i, h). (i, h - res_held r))\<rparr>"

lemma counting_service_ok: "svc_ok snd (Some counting_service)" "checks_free (Some counting_service)"
  by (auto simp: svc_ok_def service_ok_def checks_free_def counting_service_def res_held_def)

definition ex_retrieve ::
    "(cid list \<times> dag_result) walker \<Rightarrow> nat core_uploads option \<Rightarrow> (nat \<times> nat multiset, nat) retrieve_env" where
  "ex_retrieve walk2 up = \<lparr>rt_tracker = None, rt_workflow = Inr \<lparr>pw_request = [], pw_cids = []\<rparr>,
     rt_mh_cast = Inr, rt_str = cid_hash, rt_svc = Some counting_service,
     rt_walk1 = star_walk ex_links, rt_get1 = ex_get, rt_walk2 = walk2, rt_get2 = ex_get,
     rt_stored = (\<lambda>db. snd (BatchPin None (\<lambda>_. None) [ex_pin (Cid 1 112 ''p'') []] db)),
     rt_links_of = (\<lambda>_. Inr []), rt_names_fault = (\<lambda>_. None), rt_save = None, rt_upload = up,
     rt_block = (\<lambda>_. Inr (5, Inl EOF)), rt_cast = (\<lambda>_. None), rt_unixfs_fault = (\<lambda>_. None),
     rt_size_fault = (\<lambda>_. None)\<rparr>"

definition ex_request :: request where
  "ex_request = \<lparr>rq_hash = ''r'', rq_type = 112, rq_user = Some 7, rq_ip = ''1.2.3.4''\<rparr>"

definition ex_rstate :: "(nat \<times> nat multiset, nat) retrieve_state" where
  "ex_rstate = \<lparr>rx_quota = (0, {#}), rx_meta = empty_meta, rx_upload = \<lparr>us_core = 1, us_events = []\<rparr>, rx_saved = None\<rparr>"

lemma star_walk_completes: "fst (star_walk links visit root v) = None"
  by (simp add: star_walk_def split: prod.split)

lemma star_collect_completes: "fst (collectDAGCids (star_walk links) get c) = None"
  by (simp add: collectDAGCids_def WalkDAG_def case_prod_beta Let_def star_walk_completes)

lemma ex_walk: "collectDAGCids (star_walk ex_links) ex_get (Cid 1 112 ''r'') =
    (None, \<lparr>dr_Cids = [Cid 1 112 ''r'', Cid 1 112 ''p''], dr_TotalSize = 9,
      dr_CIDSizes = [(Cid 1 112 ''r'', 4), (Cid 1 112 ''p'', 5)]\<rparr>)"
  by (simp add: collectDAGCids_def collect_node_def collect_options_def WalkDAG_def star_walk_def
      walk_visit_def walk_key_def visited_def ex_get_def ex_links_def Let_def)

lemmas ex_run_defs = retrieve_Execute_def retrieve_store_def reserve_children_def check_download_def
  retrieve_validateUserID_def CheckWithReservation_def CheckQuota_def ValidateQuota_def child_sizes_def
  CreatePerBlockReservationsWithSizes_def ex_retrieve_def ex_request_def ex_rstate_def counting_service_def
  CIDFromHash_def

theorem retrieve_no_leak_witness:
  "fst (retrieve_Execute (ex_retrieve (star_walk ex_links) None) Background ex_request ex_rstate) =
     Some (Opaque ''upload service not available'') \<and>
   snd (rx_quota (snd (retrieve_Execute (ex_retrieve (star_walk ex_links) None) Background ex_request ex_rstate))) = {#}"
proof -
  let ?env = "ex_retrieve (star_walk ex_links) None"
  let ?r = "retrieve_Execute ?env Background ex_request ex_rstate"
  have f: "fst ?r = Some (Opaque ''upload service not available'')"
    by (simp add: ex_run_defs ex_walk [simplified] Let_def)
  then have r: "?r = (Some (Opaque ''upload service not available''), snd ?r)" by (metis prod.collapse)
  have "snd (rx_quota (snd ?r)) = snd (rx_quota ex_rstate)"
  proof (rule retrieve_no_leak [OF _ _ _ r])
    show "svc_ok snd (rt_svc ?env)" "checks_free (rt_svc ?env)" "walker_ok ex_links (rt_walk1 ?env)"
      by (simp_all add: ex_retrieve_def counting_service_ok ex_star_ok)
    show "fst (collectDAGCids (rt_walk2 ?env) (rt_get2 ?env) c) = None" for c
      by (simp add: ex_retrieve_def star_collect_completes)
  qed
  then show ?thesis using f by (simp add: ex_rstate_def)
qed

text \<open>
  The walk that stores the blocks fails: the download's reservation is released, those of the blocks stay
  held.  A success keeps the download's reservation too, which no event names.
\<close>

lemma retrieve_leak:
  "fst (retrieve_Execute (ex_retrieve (\<lambda>_ _ v. (Some Canceled, v)) None) Background ex_request ex_rstate) \<noteq> None \<and>
   snd (rx_quota (snd (retrieve_Execute (ex_retrieve (\<lambda>_ _ v. (Some Canceled, v)) None) Background ex_request ex_rstate)))
     = {#1, 2#}"
proof -
  have "fst (collectDAGCids (\<lambda>_ _ v. (Some Canceled, v)) ex_get (Cid 1 112 ''r'')) = Some Canceled"
    by (simp add: collectDAGCids_def WalkDAG_def split: prod.split)
  then obtain r where "collectDAGCids (\<lambda>_ _ v. (Some Canceled, v)) ex_get (Cid 1 112 ''r'') = (Some Canceled, r)"
    by (metis prod.collapse)
  then show ?thesis
    by (simp add: ex_run_defs ex_walk [simplified] Let_def cleanupDownloadReservation_def release_opt_def res_held_def)
qed

end
