(* ===== verification/Upload_Ops.thy ===== *)
theory Upload_Ops
  imports Retrieve_Op
begin

text \<open>
  The operations that finish an upload or a pin: \<^verbatim>\<open>internal/protocol/op_post_upload.go\<close>,
  \<^verbatim>\<open>op_tus_upload.go\<close>, \<^verbatim>\<open>op_confirm.go\<close> and \<^verbatim>\<open>op_store.go\<close>, with \<^verbatim>\<open>helpers.go\<close>.  Reading the
  upload, its format and size, and the block processor with its queue (theory \<open>BlockQueue\<close>) are
  parameters; progress reports are left out.
\<close>

section \<open>The operations' surroundings\<close>

text \<open>
  \<open>op_blocks\<close> is the result of \<open>ProcessBlocks\<close>, all CIDs and the roots, and \<open>op_stored\<close> what it
  stores; \<open>op_dag_size\<close> is the size of the upload's DAG or the error of finding it.  \<open>op_setup\<close> lists the errors of the steps before the user is checked, in their order, and
  \<open>op_format\<close> those between the quota checks and \<open>ProcessBlocks\<close>.
\<close>

record ('q, 'c) op_env =
  op_setup :: "gerr option list"
  op_dag_size :: "gerr + u64"
  op_format :: "gerr option list"
  op_blocks :: "gerr + cid list \<times> cid list"
  op_stored :: "meta_db \<Rightarrow> meta_db"
  op_block_size :: "cid \<Rightarrow> gerr + int"
  op_svc :: "'q quota_service option"
  op_upload :: "'c core_uploads option"
  op_pin_service :: bool
  op_pin_env :: pin_env
  op_delegates :: "gerr + bytes"
  op_links_of :: "cid \<Rightarrow> gerr + (cid \<times> string) list"
  op_names_fault :: "cid \<Rightarrow> gerr option"
  op_size_fault :: "cid \<Rightarrow> gerr option"
  op_add_fault :: "gerr option"
  op_status_fault :: "gerr option"
  op_related_fault :: "gerr option"
  op_save :: "gerr option"
  op_save2 :: "gerr option"
  op_str :: "cid \<Rightarrow> string"
  op_parse :: "string \<Rightarrow> gerr + cid"

record ('q, 'c) op_state =
  ox_quota :: 'q
  ox_meta :: meta_db
  ox_upload :: "'c upload_state"
  ox_pins :: pin_db
  ox_saved :: "pin_workflow option"

text \<open>The first error of a row of steps.\<close>

fun first_fault :: "gerr option list \<Rightarrow> gerr option" where
  "first_fault [] = None"
| "first_fault (None # es) = first_fault es"
| "first_fault (Some e # es) = Some e"

section \<open>Shared steps\<close>

definition ValidateDAGCompletionAndUpdateWorkflow ::
    "('q, 'c) op_env \<Rightarrow> pin_row option \<Rightarrow> pin_workflow \<Rightarrow> ('q, 'c) op_state \<Rightarrow> ('q, 'c) op_state" where
  "ValidateDAGCompletionAndUpdateWorkflow env p flow s =
     (if \<not> op_pin_service env then s
      else
        let related = (case p of
              None \<Rightarrow> []
            | Some p \<Rightarrow>
                (case ValidateDAGCompletion (op_pin_env env) (op_related_fault env) (op_related_fault env) p
                        (ox_meta s) (ox_pins s) of
                   Inl _ \<Rightarrow> [] | Inr cs \<Rightarrow> cs));
            names = map (\<lambda>b. case pe_cast (op_pin_env env) b of Inl _ \<Rightarrow> [] | Inr c \<Rightarrow> op_str env c) related
        in if related = [] then s
           else case op_save2 env of
                  Some _ \<Rightarrow> s
                | None \<Rightarrow> s\<lparr>ox_saved := Some (flow\<lparr>pw_cids := filter (\<lambda>x. x \<noteq> []) (pw_cids flow @ names)\<rparr>)\<rparr>)"

text \<open>\<open>ProcessMissingUnixFSNames\<close>, whose error is only logged.\<close>

definition fill_names :: "('q, 'c) op_env \<Rightarrow> cid list \<Rightarrow> ('q, 'c) op_state \<Rightarrow> ('q, 'c) op_state" where
  "fill_names env cs s = s\<lparr>ox_meta := snd (ProcessMissingUnixFSNames (op_links_of env)
     (map (\<lambda>c. (c, op_names_fault env c)) cs) (ox_meta s))\<rparr>"

text \<open>\<open>UpdatePinStatus\<close> to \<open>pinned\<close>.\<close>

definition set_pinned :: "('q, 'c) op_env \<Rightarrow> bytes \<Rightarrow> ('q, 'c) op_state \<Rightarrow> gerr option \<times> ('q, 'c) op_state" where
  "set_pinned env q s =
     (case UpdatePinStatus (op_pin_env env) (op_status_fault env) q PinningStatusPinned [] (ox_pins s) of
        (e, db) \<Rightarrow> (e, s\<lparr>ox_pins := db\<rparr>))"

definition release_map ::
    "('q, 'c) op_env \<Rightarrow> (cid, block_reservations) gomap \<Rightarrow> ('q, 'c) op_state \<Rightarrow> ('q, 'c) op_state" where
  "release_map env m s = s\<lparr>ox_quota := ReleaseBlockReservationsMap (op_svc env) m (ox_quota s)\<rparr>"

definition op_CreateRootPin ::
    "('q, 'c) op_env \<Rightarrow> cid \<Rightarrow> nat \<Rightarrow> ('q, 'c) op_state \<Rightarrow> pin_row call \<times> ('q, 'c) op_state" where
  "op_CreateRootPin env c user s =
     (case CreateRootPin (op_pin_env env) (op_delegates env) (op_add_fault env) c user (ox_pins s) of
        (r, db) \<Rightarrow> (r, s\<lparr>ox_pins := db\<rparr>))"

text \<open>Both quota checks of an upload, without a reservation.\<close>

definition validate_quotas ::
    "('q, 'c) op_env \<Rightarrow> nat \<Rightarrow> u64 \<Rightarrow> ('q, 'c) op_state \<Rightarrow> gerr option \<times> ('q, 'c) op_state" where
  "validate_quotas env user n s =
     (case ValidateQuota (op_svc env) CheckTypeUpload user n (ox_quota s) of
        (Some e, q) \<Rightarrow> (Some e, s\<lparr>ox_quota := q\<rparr>)
      | (None, q) \<Rightarrow>
          (case ValidateQuota (op_svc env) CheckTypeStorage user n q of
             (e, q') \<Rightarrow> (e, s\<lparr>ox_quota := q'\<rparr>)))"

abbreviation failed :: "gerr \<Rightarrow> unit call" where
  "failed e \<equiv> Returned (Inl e)"

section \<open>Post upload\<close>

definition post_finish ::
    "('q, 'c) op_env \<Rightarrow> ctx \<Rightarrow> request \<Rightarrow> nat \<Rightarrow> cid list \<Rightarrow> cid list \<Rightarrow> (cid, block_reservations) gomap \<Rightarrow>
     ('q, 'c) op_state \<Rightarrow> unit call \<times> ('q, 'c) op_state" where
  "post_finish env cx req user allCids rootCids m s =
     (case op_upload env of
        None \<Rightarrow> (failed (Opaque ''upload service not available''), release_map env m s)
      | Some cu \<Rightarrow>
          (case ProcessUpload cu (op_size_fault env) (ox_meta s) (ClientIPOption (rq_ip req) cx) allCids user m
                  (ox_upload s) of
             (Some e, up) \<Rightarrow>
               (failed (Wrapped ''failed to process upload'' e), release_map env m (s\<lparr>ox_upload := up\<rparr>))
           | (None, up) \<Rightarrow>
               (case op_CreateRootPin env (hd rootCids) user (fill_names env allCids (s\<lparr>ox_upload := up\<rparr>)) of
                  (Panicked, s1) \<Rightarrow> (Panicked, s1)
                | (Returned (Inl e), s1) \<Rightarrow>
                    (failed (Wrapped ''failed to create root pin'' e), release_map env m s1)
                | (Returned (Inr p), s1) \<Rightarrow>
                    let s2 = (if op_pin_service env then snd (set_pinned env (pn_req p) s1) else s1);
                        flow = \<lparr>pw_request = pn_req p, pw_cids = map (op_str env) rootCids\<rparr>
                    in case op_save env of
                         Some e \<Rightarrow> (failed (Wrapped ''failed to update workflow data'' e), release_map env m s2)
                       | None \<Rightarrow>
                           (Returned (Inr ()), ValidateDAGCompletionAndUpdateWorkflow env (Some p) flow
                              (s2\<lparr>ox_saved := Some flow\<rparr>)))))"

definition post_upload_Execute ::
    "('q, 'c) op_env \<Rightarrow> ctx \<Rightarrow> request \<Rightarrow> ('q, 'c) op_state \<Rightarrow> unit call \<times> ('q, 'c) op_state" where
  "post_upload_Execute env cx req s =
     (case first_fault (op_setup env) of
        Some e \<Rightarrow> (failed e, s)
      | None \<Rightarrow>
     (let user = (case rq_user req of Some u \<Rightarrow> u | None \<Rightarrow> 0) in
      if user = 0 then (failed (Opaque ''user ID is required''), s)
      else
     (case op_dag_size env of
        Inl e \<Rightarrow> (failed e, s)
      | Inr n \<Rightarrow>
     (case validate_quotas env user n s of
        (Some e, s) \<Rightarrow> (failed e, s)
      | (None, s) \<Rightarrow>
     (case first_fault (op_format env) of
        Some e \<Rightarrow> (failed e, s)
      | None \<Rightarrow>
     (let s = s\<lparr>ox_meta := op_stored env (ox_meta s)\<rparr> in
      case op_blocks env of
        Inl e \<Rightarrow> (failed (Wrapped ''failed to process CIDs from upload'' e), s)
      | Inr (allCids, rootCids) \<Rightarrow>
          if rootCids = [] then (failed (Opaque ''no root CIDs found during block processing''), s)
          else
            (case CreatePerBlockReservations (op_svc env) (op_block_size env) allCids user (ox_quota s) of
               (Inl e, q) \<Rightarrow> (failed e, s\<lparr>ox_quota := q\<rparr>)
             | (Inr m, q) \<Rightarrow> post_finish env cx req user allCids rootCids m (s\<lparr>ox_quota := q\<rparr>))))))))"

section \<open>TUS upload\<close>

definition processUploadWithServices ::
    "('q, 'c) op_env \<Rightarrow> ctx \<Rightarrow> request \<Rightarrow> nat \<Rightarrow> cid list \<Rightarrow> cid list \<Rightarrow> (cid, block_reservations) gomap \<Rightarrow>
     ('q, 'c) op_state \<Rightarrow> pin_row call \<times> ('q, 'c) op_state" where
  "processUploadWithServices env cx req user allCids rootCids m s =
     (case op_upload env of
        None \<Rightarrow> (Returned (Inl (Opaque ''upload service not available'')), release_map env m s)
      | Some cu \<Rightarrow>
          (case ProcessUpload cu (op_size_fault env) (ox_meta s) (ClientIPOption (rq_ip req) cx) allCids user m
                  (ox_upload s) of
             (Some e, up) \<Rightarrow>
               (Returned (Inl (Wrapped ''failed to process upload'' e)), release_map env m (s\<lparr>ox_upload := up\<rparr>))
           | (None, up) \<Rightarrow>
               let s1 = fill_names env allCids (s\<lparr>ox_upload := up\<rparr>) in
               (case rootCids of
                  [] \<Rightarrow> (Panicked, s1)
                | c # _ \<Rightarrow>
                    (case op_CreateRootPin env c user s1 of
                       (Panicked, s2) \<Rightarrow> (Panicked, s2)
                     | (Returned (Inl e), s2) \<Rightarrow> (Returned (Inl (Wrapped ''failed to create root pin'' e)), s2)
                     | (Returned (Inr p), s2) \<Rightarrow>
                         if \<not> op_pin_service env
                         then (Returned (Inl (Opaque ''pin service not available: cannot update pin status'')), s2)
                         else (Returned (Inr p), snd (set_pinned env (pn_req p) s2))))))"

definition updateWorkflowDataForTUSUpload ::
    "('q, 'c) op_env \<Rightarrow> cid list \<Rightarrow> pin_row \<Rightarrow> ('q, 'c) op_state \<Rightarrow> (gerr + pin_workflow) \<times> ('q, 'c) op_state" where
  "updateWorkflowDataForTUSUpload env rootCids p s =
     (let flow = \<lparr>pw_request = pn_req p, pw_cids = map (op_str env) rootCids\<rparr> in
      case op_save env of
        Some e \<Rightarrow> (Inl (Wrapped ''failed to update workflow data'' e), s)
      | None \<Rightarrow> (Inr flow, s\<lparr>ox_saved := Some flow\<rparr>))"

definition validateUploadQuotas ::
    "('q, 'c) op_env \<Rightarrow> nat \<Rightarrow> u64 \<Rightarrow> ('q, 'c) op_state \<Rightarrow> gerr option \<times> ('q, 'c) op_state" where
  "validateUploadQuotas env user n s =
     (if n = 0 then (None, s)
      else case ValidateQuota (op_svc env) CheckTypeUpload user n (ox_quota s) of
        (Some e, q) \<Rightarrow> (Some (Wrapped ''upload quota validation failed'' e), s\<lparr>ox_quota := q\<rparr>)
      | (None, q) \<Rightarrow>
          (case ValidateQuota (op_svc env) CheckTypeStorage user n q of
             (Some e, q') \<Rightarrow> (Some (Wrapped ''storage quota validation failed'' e), s\<lparr>ox_quota := q'\<rparr>)
           | (None, q') \<Rightarrow> (None, s\<lparr>ox_quota := q'\<rparr>)))"

definition validateUserID :: "request \<Rightarrow> gerr + nat" where
  "validateUserID req =
     (case rq_user req of
        None \<Rightarrow> Inl (Opaque ''user ID is required'')
      | Some u \<Rightarrow> if u = 0 then Inl (Opaque ''user ID is required'') else Inr u)"

definition handleTUSUpload ::
    "('q, 'c) op_env \<Rightarrow> ctx \<Rightarrow> request \<Rightarrow> ('q, 'c) op_state \<Rightarrow> unit call \<times> ('q, 'c) op_state" where
  "handleTUSUpload env cx req s =
     (case validateUserID req of
        Inl e \<Rightarrow> (failed e, s)
      | Inr user \<Rightarrow>
     (case first_fault (op_setup env) of
        Some e \<Rightarrow> (failed e, s)
      | None \<Rightarrow>
     (case op_dag_size env of
        Inl e \<Rightarrow> (failed e, s)
      | Inr n \<Rightarrow>
     (case validateUploadQuotas env user n s of
        (Some e, s) \<Rightarrow> (failed e, s)
      | (None, s) \<Rightarrow>
     (case first_fault (op_format env) of
        Some e \<Rightarrow> (failed e, s)
      | None \<Rightarrow>
     (let s = s\<lparr>ox_meta := op_stored env (ox_meta s)\<rparr> in
      case op_blocks env of
        Inl e \<Rightarrow> (failed (Wrapped ''failed to process upload'' e), s)
      | Inr (allCids, rootCids) \<Rightarrow>
     (case CreatePerBlockReservations (op_svc env) (op_block_size env) allCids user (ox_quota s) of
        (Inl e, q) \<Rightarrow> (failed e, s\<lparr>ox_quota := q\<rparr>)
      | (Inr m, q) \<Rightarrow>
     (case processUploadWithServices env cx req user allCids rootCids m (s\<lparr>ox_quota := q\<rparr>) of
        (Panicked, s) \<Rightarrow> (Panicked, s)
      | (Returned (Inl e), s) \<Rightarrow> (failed e, s)
      | (Returned (Inr p), s) \<Rightarrow>
     (case updateWorkflowDataForTUSUpload env rootCids p s of
        (Inl e, s) \<Rightarrow> (failed e, s)
      | (Inr flow, s) \<Rightarrow>
          (Returned (Inr ()), ValidateDAGCompletionAndUpdateWorkflow env (Some p) flow s))))))))))"

section \<open>Store and confirm\<close>

fun mark_ready :: "('q, 'c) op_env \<Rightarrow> (string \<times> gerr option) list \<Rightarrow> meta_db \<Rightarrow> meta_db" where
  "mark_ready env [] db = db"
| "mark_ready env ((x, fault) # xs) db =
     mark_ready env xs (case op_parse env x of
       Inl _ \<Rightarrow> db
     | Inr c \<Rightarrow> snd (MarkBlockReady fault c True db))"

definition store_Execute ::
    "('q, 'c) op_env \<Rightarrow> gerr + pin_workflow \<Rightarrow> (string \<Rightarrow> gerr option) \<Rightarrow> ('q, 'c) op_state \<Rightarrow>
     unit call \<times> ('q, 'c) op_state" where
  "store_Execute env workflow fault s =
     (case first_fault (op_setup env) of
        Some e \<Rightarrow> (failed e, s)
      | None \<Rightarrow>
          (case workflow of
             Inl e \<Rightarrow> (failed (Wrapped ''failed to get workflow data'' e), s)
           | Inr flow \<Rightarrow>
               (Returned (Inr ()),
                s\<lparr>ox_meta := mark_ready env (map (\<lambda>x. (x, fault x)) (pw_cids flow)) (ox_meta s)\<rparr>)))"

fun ready_cids :: "('q, 'c) op_env \<Rightarrow> (cid \<Rightarrow> gerr option) \<Rightarrow> string list \<Rightarrow> meta_db \<Rightarrow> gerr + cid list" where
  "ready_cids env fault [] db = Inr []"
| "ready_cids env fault (x # xs) db =
     (case op_parse env x of
        Inl e \<Rightarrow> Inl (Wrapped ''failed to parse CID'' e)
      | Inr c \<Rightarrow>
          (case BlockExists (fault c) c db of
             Some e \<Rightarrow> Inl (Wrapped ''block not ready'' e)
           | None \<Rightarrow> (case ready_cids env fault xs db of Inl e \<Rightarrow> Inl e | Inr cs \<Rightarrow> Inr (c # cs))))"

definition confirm_records ::
    "('q, 'c) op_env \<Rightarrow> ctx \<Rightarrow> request \<Rightarrow> cid list \<Rightarrow> ('q, 'c) op_state \<Rightarrow> unit call \<times> ('q, 'c) op_state" where
  "confirm_records env cx req cs s =
     (let user = (case rq_user req of Some u \<Rightarrow> u | None \<Rightarrow> 0) in
      case cs of
        [] \<Rightarrow> (Returned (Inr ()), s)
      | c # _ \<Rightarrow>
          (case op_upload env of
             None \<Rightarrow> (failed (Opaque ''upload service not available''), s)
           | Some cu \<Rightarrow>
               (case ProcessUpload cu (op_size_fault env) (ox_meta s) (ClientIPOption (rq_ip req) cx) cs user []
                       (ox_upload s) of
                  (Some e, up) \<Rightarrow> (failed (Wrapped ''failed to process upload'' e), s\<lparr>ox_upload := up\<rparr>)
                | (None, up) \<Rightarrow>
                    (case op_CreateRootPin env c user (fill_names env cs (s\<lparr>ox_upload := up\<rparr>)) of
                       (Panicked, s1) \<Rightarrow> (Panicked, s1)
                     | (Returned (Inl e), s1) \<Rightarrow> (failed (Wrapped ''failed to create root pin'' e), s1)
                     | (Returned (Inr p), s1) \<Rightarrow> (Returned (Inr ()), s1)))))"

definition confirm_Execute ::
    "('q, 'c) op_env \<Rightarrow> ctx \<Rightarrow> request \<Rightarrow> gerr + pin_workflow \<Rightarrow> (cid \<Rightarrow> gerr option) \<Rightarrow> gerr option \<Rightarrow>
     ('q, 'c) op_state \<Rightarrow> unit call \<times> ('q, 'c) op_state" where
  "confirm_Execute env cx req workflow exists_fault get_fault s =
     (case first_fault (op_setup env) of
        Some e \<Rightarrow> (failed e, s)
      | None \<Rightarrow>
     (case workflow of
        Inl e \<Rightarrow> (failed (Wrapped ''failed to get workflow data'' e), s)
      | Inr flow \<Rightarrow>
     (case ready_cids env exists_fault (pw_cids flow) (ox_meta s) of
        Inl e \<Rightarrow> (failed e, s)
      | Inr cs \<Rightarrow>
     (case confirm_records env cx req cs s of
        (Panicked, s) \<Rightarrow> (Panicked, s)
      | (Returned (Inl e), s) \<Rightarrow> (failed e, s)
      | (Returned (Inr _), s) \<Rightarrow>
     (case set_pinned env (pw_request flow) s of
        (Some e, s) \<Rightarrow> (failed (Wrapped ''failed to update pin status'' e), s)
      | (None, s) \<Rightarrow>
     (case GetPinByRequestID get_fault (pw_request flow) (ox_pins s) of
        Inl _ \<Rightarrow> (Returned (Inr ()), s)
      | Inr p \<Rightarrow> (Returned (Inr ()), ValidateDAGCompletionAndUpdateWorkflow env p flow s)))))))"


section \<open>Lemmas\<close>

lemma ox_simps [simp]:
  "ox_quota (ValidateDAGCompletionAndUpdateWorkflow env p flow s) = ox_quota s"
  "ox_pins (ValidateDAGCompletionAndUpdateWorkflow env p flow s) = ox_pins s"
  "ox_upload (ValidateDAGCompletionAndUpdateWorkflow env p flow s) = ox_upload s"
  "ox_quota (fill_names env cs s) = ox_quota s" "ox_pins (fill_names env cs s) = ox_pins s"
  "ox_upload (fill_names env cs s) = ox_upload s"
  "ox_pins (release_map env m s) = ox_pins s"
  by (auto simp: ValidateDAGCompletionAndUpdateWorkflow_def fill_names_def release_map_def Let_def split: option.split)

lemma set_pinned_simps [simp]:
  "ox_quota (snd (set_pinned env q s)) = ox_quota s" "ox_upload (snd (set_pinned env q s)) = ox_upload s"
  "ox_saved (snd (set_pinned env q s)) = ox_saved s" "ox_meta (snd (set_pinned env q s)) = ox_meta s"
  by (auto simp: set_pinned_def split: prod.split)

lemma op_CreateRootPin_simps:
  "op_CreateRootPin env c user s = (r, s') \<Longrightarrow>
     ox_quota s' = ox_quota s \<and> ox_upload s' = ox_upload s \<and> ox_saved s' = ox_saved s \<and>
     CreateRootPin (op_pin_env env) (op_delegates env) (op_add_fault env) c user (ox_pins s) = (r, ox_pins s')"
  by (auto simp: op_CreateRootPin_def split: prod.splits)

lemma saved_request:
  "ox_saved s = Some flow \<Longrightarrow>
   \<exists>cs. ox_saved (ValidateDAGCompletionAndUpdateWorkflow env p flow s) = Some \<lparr>pw_request = pw_request flow, pw_cids = cs\<rparr>"
  by (cases flow) (auto simp: ValidateDAGCompletionAndUpdateWorkflow_def Let_def split: option.split)

lemma CreateRootPin_D:
  assumes "CreateRootPin env dg fault c user db = (Returned (Inr p), db')"
  shows "pd_rows db' = pd_rows db @ [p]" "pn_user p = user" "pn_status p = PinningStatusQueued"
    "\<not> pn_deleted p" "\<not> req_taken (pn_req p) db"
    "pe_bytes env c \<noteq> [] \<Longrightarrow> pe_cast env (pe_bytes env c) = Inr c \<Longrightarrow> pn_cid p = pe_bytes env (NormalizeCid c)"
proof -
  let ?new = "addDelegateAddresses dg (root_pin env c user)"
  have new: "pn_user ?new = user" "pn_status ?new = []" "pn_cid ?new = pe_bytes env c"
    by (auto simp: addDelegateAddresses_def root_pin_def empty_pin_def split: sum.split)
  have "AddPin env dg fault (root_pin env c user) db = (Returned (Inr p), db')"
    using assms by (auto simp: CreateRootPin_def split: prod.splits call.splits sum.splits)
  then have ins: "pin_insert env fault ?new db = Inr (p, db')"
    by (auto simp: AddPin_def split: sum.splits prod.splits)
  obtain q where q: "pin_BeforeSave env ?new = Inr q" "pn_cid p = pn_cid q" "pn_user p = pn_user ?new"
    "pn_status p = pn_status q" "\<not> req_taken (pn_req p) db" "\<not> pn_deleted p" "pd_rows db' = pd_rows db @ [p]"
    by (rule pin_insert_D [OF ins]) (rule that)
  then show "pd_rows db' = pd_rows db @ [p]" "pn_user p = user" "\<not> pn_deleted p" "\<not> req_taken (pn_req p) db"
    using new by simp_all
  show "pn_status p = PinningStatusQueued"
    using q(1,4) new(2) by (auto simp: pin_BeforeSave_def Let_def validStatuses_def split: if_splits sum.splits)
  show "pn_cid p = pe_bytes env (NormalizeCid c)"
    if "pe_bytes env c \<noteq> []" "pe_cast env (pe_bytes env c) = Inr c"
    using pin_BeforeSave_D(5) [OF q(1)] that new(3) q(2) by auto
qed

lemma UpdatePinStatus_new:
  assumes "pd_rows db = rows @ [p]" and "\<not> pn_deleted p" and "\<forall>r \<in> set rows. pn_req r \<noteq> pn_req p"
  shows "pd_rows (snd (UpdatePinStatus env fault (pn_req p) status info db)) =
    rows @ [if fault = None then p\<lparr>pn_status := status, pn_info := info\<rparr> else p]"
proof -
  have ok: "pin_BeforeSave env empty_pin = Inr (empty_pin\<lparr>pn_status := PinningStatusQueued\<rparr>)"
    by (simp add: pin_BeforeSave_def empty_pin_def validStatuses_def)
  have "map (\<lambda>r. if \<not> pn_deleted r \<and> pn_req r = pn_req p then r\<lparr>pn_status := status, pn_info := info\<rparr> else r) rows = rows"
    using assms(3) by (intro map_idI) auto
  moreover have "live_pins (\<lambda>r. pn_req r = pn_req p) db \<noteq> []" using assms(1,2) by (simp add: live_pins_def)
  ultimately show ?thesis using assms(1,2) ok by (auto simp: UpdatePinStatus_def split: option.split)
qed

lemma set_pinned_pins:
  "ox_pins (snd (set_pinned env q s)) =
     snd (UpdatePinStatus (op_pin_env env) (op_status_fault env) q PinningStatusPinned [] (ox_pins s))"
  by (simp add: set_pinned_def split: prod.split)

lemma known_sizes_wf: "gm_wf (known_sizes get_size cs)"
proof -
  have "gm_wf (fold (\<lambda>c m. case get_size c of Inl _ \<Rightarrow> m
      | Inr n \<Rightarrow> if 0 < n then gm_set c (word_of_int n :: u64) m else m) cs m)" if "gm_wf m" for m :: "(cid, u64) gomap"
    using that by (induction cs arbitrary: m) (auto simp del: set_map split: sum.splits)
  from this [of "[]"] show ?thesis by (simp add: known_sizes_def)
qed

lemma per_block_held:
  assumes "svc_ok held svc" and "CreatePerBlockReservations svc get_size cs user q = (r, q')"
  shows "held q' = held q + (case r of Inl _ \<Rightarrow> {#} | Inr m \<Rightarrow> map_held m)"
    and "r = Inr m \<Longrightarrow> none_held svc m"
proof -
  have c: "CreatePerBlockReservationsWithSizes svc user (known_sizes get_size cs) q = (r, q')"
    using assms(2) by (simp add: CreatePerBlockReservations_def)
  show "held q' = held q + (case r of Inl _ \<Rightarrow> {#} | Inr m \<Rightarrow> map_held m)"
    using create_reservations_held [OF assms(1), of "known_sizes get_size cs" "[]" q "held q" user r q'] c
      known_sizes_wf [of get_size cs]
    by (simp add: CreatePerBlockReservationsWithSizes_def map_held_def)
  show "none_held svc m" if "r = Inr m" using reserved_none [OF c [unfolded that]] .
qed

lemma validate_quotas_held:
  assumes "svc_ok held (op_svc env)" and "checks_free (op_svc env)" and "validate_quotas env user n s = (e, s')"
  shows "held (ox_quota s') = held (ox_quota s)"
proof -
  obtain e1 q1 where v1: "ValidateQuota (op_svc env) CheckTypeUpload user n (ox_quota s) = (e1, q1)" by fastforce
  obtain e2 q2 where v2: "ValidateQuota (op_svc env) CheckTypeStorage user n q1 = (e2, q2)" by fastforce
  have "held q1 = held (ox_quota s)" "held q2 = held q1"
    using ValidateQuota_held [OF assms(1,2)] v1 v2 by auto
  then show ?thesis using assms(3) v1 v2 by (auto simp: validate_quotas_def split: option.splits)
qed

lemma validate_quotas_rest:
  "validate_quotas env user n s = (e, s') \<Longrightarrow>
   ox_pins s' = ox_pins s \<and> ox_upload s' = ox_upload s \<and> ox_meta s' = ox_meta s \<and> ox_saved s' = ox_saved s"
  by (auto simp: validate_quotas_def split: prod.splits option.splits)

text \<open>A post upload that is past its quota checks, or has failed before.\<close>

lemma post_upload_cases:
  assumes "post_upload_Execute env cx req s = (r, s')"
  obtains (early) e where "r = failed e"
      "s' = s \<or> (\<exists>user n s1. validate_quotas env user n s = (Some e, s1) \<and> s' = s1) \<or>
       (\<exists>user n s1 db. validate_quotas env user n s = (None, s1) \<and> s' = s1\<lparr>ox_meta := db\<rparr>)"
  | (reserve) user n s1 db allCids rootCids res q where
      "rq_user req = Some user" "user \<noteq> 0" "validate_quotas env user n s = (None, s1)"
      "op_blocks env = Inr (allCids, rootCids)" "rootCids \<noteq> []" "db = op_stored env (ox_meta s1)"
      "CreatePerBlockReservations (op_svc env) (op_block_size env) allCids user (ox_quota s1) = (res, q)"
      "(r, s') = (case res of Inl e \<Rightarrow> (failed e, s1\<lparr>ox_meta := db, ox_quota := q\<rparr>)
         | Inr m \<Rightarrow> post_finish env cx req user allCids rootCids m (s1\<lparr>ox_meta := db, ox_quota := q\<rparr>))"
proof (cases "first_fault (op_setup env)")
  case (Some e)
  then show thesis using assms by (intro early [of e]) (auto simp: post_upload_Execute_def)
next
  case None
  define user where "user = (case rq_user req of Some u \<Rightarrow> u | None \<Rightarrow> 0)"
  show thesis
  proof (cases "user = 0")
    case True then show thesis using assms None by (intro early) (auto simp: post_upload_Execute_def Let_def user_def)
  next
    case u: False
    then have ru: "rq_user req = Some user" by (auto simp: user_def split: option.splits)
    show thesis
    proof (cases "op_dag_size env")
      case (Inl e)
      then show thesis using assms None u by (intro early) (auto simp: post_upload_Execute_def Let_def user_def)
    next
      case n: (Inr n)
      obtain v s1 where v: "validate_quotas env user n s = (v, s1)" by fastforce
      note e1 = early [OF _ disjI2 [OF disjI1]] and e2 = early [OF _ disjI2 [OF disjI2]]
      show thesis
      proof (cases v)
        case (Some e)
        then show thesis using assms None u n v ru by (intro e1) (auto simp: post_upload_Execute_def)
      next
        case v0: None
        have s1: "s1 = s1\<lparr>ox_meta := ox_meta s1\<rparr>" by simp
        show thesis
        proof (cases "first_fault (op_format env)")
          case (Some e)
          then show thesis using assms None u n v v0 ru s1
            by (intro e2 [of e]) (auto simp: post_upload_Execute_def
                intro!: exI [of _ user] exI [of _ n] exI [of _ "ox_meta s1"])
        next
          case f: None
          show thesis
          proof (cases "op_blocks env")
            case (Inl e)
            then show thesis using assms None u n v v0 f ru
              by (intro e2) (auto simp: post_upload_Execute_def intro!: exI [of _ user] exI [of _ n])
          next
            case (Inr x)
            obtain allCids rootCids where x: "x = (allCids, rootCids)" by fastforce
            show thesis
            proof (cases "rootCids = []")
              case True
              then show thesis using assms None u n v v0 f ru Inr x
                by (intro e2) (auto simp: post_upload_Execute_def intro!: exI [of _ user] exI [of _ n])
            next
              case False
              obtain res q where "CreatePerBlockReservations (op_svc env) (op_block_size env) allCids user (ox_quota s1) = (res, q)"
                by fastforce
              then show thesis using assms None u n v v0 f ru Inr x False
                by (intro reserve [of user n s1 allCids rootCids]) (auto simp: post_upload_Execute_def split: sum.splits)
            qed
          qed
        qed
      qed
    qed
  qed
qed


lemma post_finish_held:
  assumes ok: "svc_ok held (op_svc env)" and m: "none_held (op_svc env) m"
    and h: "held (ox_quota s) = H + map_held m"
    and run: "post_finish env cx req user allCids rootCids m s = (r, s')"
  shows "case r of Panicked \<Rightarrow> True | Returned (Inl _) \<Rightarrow> held (ox_quota s') = H
    | Returned (Inr _) \<Rightarrow> held (ox_quota s') = H + map_held m"
proof -
  have rel: "held (ox_quota (release_map env m t)) = H" if "held (ox_quota t) = H + map_held m" for t :: "('a, 'b) op_state"
    using release_map_held [OF ok m] that by (simp add: release_map_def)
  show ?thesis
  proof (cases "op_upload env")
    case None then show ?thesis using run rel [OF h] by (auto simp: post_finish_def)
  next
    case (Some cu)
    obtain e up where pu: "ProcessUpload cu (op_size_fault env) (ox_meta s) (ClientIPOption (rq_ip req) cx) allCids user m
        (ox_upload s) = (e, up)" by fastforce
    let ?s = "fill_names env allCids (s\<lparr>ox_upload := up\<rparr>)"
    obtain pr s1 where cp: "op_CreateRootPin env (hd rootCids) user ?s = (pr, s1)" by fastforce
    have s1: "ox_quota s1 = ox_quota s" using op_CreateRootPin_simps [OF cp] by simp
    show ?thesis
    proof (cases e)
      case e: (Some x)
      then show ?thesis using run Some pu rel [of "s\<lparr>ox_upload := up\<rparr>"] h by (auto simp: post_finish_def)
    next
      case e: None
      show ?thesis
      proof (cases pr)
        case Panicked then show ?thesis using run Some pu e cp by (auto simp: post_finish_def)
      next
        case (Returned x)
        show ?thesis
        proof (cases x)
          case (Inl y)
          then show ?thesis using run Some pu e cp Returned rel [of s1] h s1 by (auto simp: post_finish_def)
        next
          case (Inr p)
          let ?s2 = "if op_pin_service env then snd (set_pinned env (pn_req p) s1) else s1"
          have s2: "ox_quota ?s2 = ox_quota s" using s1 by simp
          show ?thesis using run Some pu e cp Returned Inr rel [of ?s2] h s2
            by (auto simp: post_finish_def Let_def split: option.splits)
        qed
      qed
    qed
  qed
qed

section \<open>Properties\<close>

text \<open>C4. A post upload operation that fails holds no more quota than before it ran: the reservations made for its
  blocks are released on every error path.\<close>

theorem post_upload_no_leak:
  assumes "svc_ok held (op_svc env)" and "checks_free (op_svc env)"
    and "post_upload_Execute env cx req s = (failed e, s')"
  shows "held (ox_quota s') = held (ox_quota s)"
  using assms(3)
proof (cases rule: post_upload_cases)
  case (early e')
  then show ?thesis using validate_quotas_held [OF assms(1,2)] by fastforce
next
  case (reserve user n s1 db allCids rootCids res q)
  have q: "held q = held (ox_quota s) + (case res of Inl _ \<Rightarrow> {#} | Inr m \<Rightarrow> map_held m)"
    using per_block_held(1) [OF assms(1) reserve(7)] validate_quotas_held [OF assms(1,2) reserve(3)] by simp
  show ?thesis
  proof (cases res)
    case (Inl x) then show ?thesis using reserve(8) q by simp
  next
    case (Inr m)
    note nm = per_block_held(2) [OF assms(1) reserve(7) Inr]
    show ?thesis
      using post_finish_held [OF assms(1) nm _ reserve(8) [unfolded Inr sum.case, symmetric], of "held (ox_quota s)"]
        q Inr by simp
  qed
qed



text \<open>An upload of one block, over the counting quota service and core.\<close>

definition ex_op_pins :: pin_env where
  "ex_op_pins = \<lparr>pe_empty = (\<lambda>b. b = []), pe_uuid = ''u'',
     pe_cast = (\<lambda>b. if b = [] then Inl (Opaque ''cid too short'') else Inr (Cid 1 112 b)), pe_bytes = cid_hash\<rparr>"

definition ex_op :: "cid list \<Rightarrow> gerr option \<Rightarrow> (nat \<times> nat multiset, nat) op_env" where
  "ex_op roots save = \<lparr>op_setup = [], op_dag_size = Inr 5, op_format = [],
     op_blocks = Inr ([Cid 1 112 ''b''], roots), op_stored = (\<lambda>db. db), op_block_size = (\<lambda>_. Inr 5),
     op_svc = Some counting_service, op_upload = Some ex_core, op_pin_service = True, op_pin_env = ex_op_pins,
     op_delegates = Inl EOF, op_links_of = (\<lambda>_. Inr []), op_names_fault = (\<lambda>_. None), op_size_fault = (\<lambda>_. None),
     op_add_fault = None, op_status_fault = None, op_related_fault = None, op_save = save, op_save2 = None,
     op_str = cid_hash, op_parse = (\<lambda>x. Inr (Cid 1 112 x))\<rparr>"

definition ex_ostate :: "(nat \<times> nat multiset, nat) op_state" where
  "ex_ostate = \<lparr>ox_quota = (0, {#}), ox_meta = ex_db, ox_upload = \<lparr>us_core = 1, us_events = []\<rparr>,
     ox_pins = \<lparr>pd_rows = [], pd_next = 1\<rparr>, ox_saved = None\<rparr>"

abbreviation ex_failing :: "unit call \<times> (nat \<times> nat multiset, nat) op_state" where
  "ex_failing \<equiv> post_upload_Execute (ex_op [Cid 1 112 ''b''] (Some Canceled)) Background ex_request ex_ostate"

lemma ex_failing_run: "fst ex_failing = failed (Wrapped ''failed to update workflow data'' Canceled)"
  by code_simp

theorem post_upload_no_leak_witness:
  "snd (ox_quota (snd ex_failing)) = {#}"
proof -
  have r: "ex_failing = (failed (Wrapped ''failed to update workflow data'' Canceled), snd ex_failing)"
    using ex_failing_run by (metis prod.collapse)
  have "snd (ox_quota (snd ex_failing)) = snd (ox_quota ex_ostate)"
    by (rule post_upload_no_leak [OF _ _ r]) (simp_all add: ex_op_def counting_service_ok)
  then show ?thesis by (simp add: ex_ostate_def)
qed

text \<open>
  The same failure after the events of the blocks were fired: they name reservations that are released
  afterwards.  The TUS operation does not release them; with no roots it panics.
\<close>

lemma post_upload_releases_reported:
  "us_events (ox_upload (snd ex_failing)) =
    [StorageObjectPinned \<lparr>ck_id = 2, ck_upload = 1, ck_user = 7\<rparr> ''1.2.3.4'' (Some 1),
     UploadCompleted 7 1 5 ''1.2.3.4'' (Some 0) True]"
  by code_simp

lemma tus_upload_leak:
  "fst (handleTUSUpload (ex_op [Cid 1 112 ''b''] (Some Canceled)) Background ex_request ex_ostate) =
     failed (Wrapped ''failed to update workflow data'' Canceled) \<and>
   size (snd (ox_quota (snd (handleTUSUpload (ex_op [Cid 1 112 ''b''] (Some Canceled)) Background ex_request ex_ostate)))) = 2"
  by code_simp

lemma tus_upload_panics:
  "fst (handleTUSUpload (ex_op [] None) Background ex_request ex_ostate) = Panicked"
  by code_simp


section \<open>Confirming a pin\<close>

lemma ready_cids_ready:
  "ready_cids env fault xs db = Inr cs \<Longrightarrow> list_all2 (\<lambda>x c. op_parse env x = Inr c \<and> BlockExists (fault c) c db = None) xs cs"
  by (induction xs arbitrary: cs) (auto split: sum.splits option.splits)

text \<open>The confirm operation succeeds only if every CID of the workflow is a block that is ready.  It then sets the
  workflow's pin to \<open>pinned\<close> and adds a second pin of the first CID for the user, which stays queued.\<close>

lemma confirm_second_pin:
  assumes "confirm_Execute env cx req (Inr flow) exists_fault get_fault s = (Returned (Inr ()), s')"
    and "pw_cids flow \<noteq> []" and "\<exists>r \<in> set (pd_rows (ox_pins s)). pn_req r = pw_request flow"
  shows "(\<forall>x \<in> set (pw_cids flow). \<exists>c. op_parse env x = Inr c \<and> BlockExists (exists_fault c) c (ox_meta s) = None) \<and>
    (\<exists>p. pd_rows (ox_pins s') = map (\<lambda>r. if \<not> pn_deleted r \<and> pn_req r = pw_request flow
        then r\<lparr>pn_status := PinningStatusPinned, pn_info := []\<rparr> else r) (pd_rows (ox_pins s)) @ [p] \<and>
      pn_status p = PinningStatusQueued \<and> \<not> pn_deleted p \<and> pn_req p \<noteq> pw_request flow \<and>
      pn_user p = (case rq_user req of Some u \<Rightarrow> u | None \<Rightarrow> 0))"
proof -
  let ?user = "case rq_user req of Some u \<Rightarrow> u | None \<Rightarrow> 0"
  obtain cs s1 s2 where cs: "ready_cids env exists_fault (pw_cids flow) (ox_meta s) = Inr cs"
    and rec: "confirm_records env cx req cs s = (Returned (Inr ()), s1)"
    and set: "set_pinned env (pw_request flow) s1 = (None, s2)"
    and s': "ox_pins s' = ox_pins s2"
    using assms(1) by (auto simp: confirm_Execute_def split: option.splits sum.splits prod.splits call.splits)
  have ready: "list_all2 (\<lambda>x c. op_parse env x = Inr c \<and> BlockExists (exists_fault c) c (ox_meta s) = None) (pw_cids flow) cs"
    by (rule ready_cids_ready [OF cs])
  then obtain c cs' where c: "cs = c # cs'" using assms(2) by (cases cs) auto
  obtain up p where cp: "op_CreateRootPin env c ?user (fill_names env cs (s\<lparr>ox_upload := up\<rparr>)) = (Returned (Inr p), s1)"
    using rec by (auto simp: confirm_records_def c Let_def split: option.splits prod.splits call.splits sum.splits)
  note d = CreateRootPin_D [OF conjunct2 [OF conjunct2 [OF conjunct2 [OF op_CreateRootPin_simps [OF cp]]]]]
  have rows: "pd_rows (ox_pins s1) = pd_rows (ox_pins s) @ [p]" using d(1) by simp
  have new: "pn_req p \<noteq> pw_request flow" using d(5) assms(3) by (auto simp: req_taken_def list_ex_iff)
  have "ox_pins s2 = map_pins (\<lambda>r. if \<not> pn_deleted r \<and> pn_req r = pw_request flow
      then r\<lparr>pn_status := PinningStatusPinned, pn_info := []\<rparr> else r) (ox_pins s1)"
    using set by (auto simp: set_pinned_def UpdatePinStatus_def split: prod.splits sum.splits if_splits)
  then have "pd_rows (ox_pins s') = map (\<lambda>r. if \<not> pn_deleted r \<and> pn_req r = pw_request flow
        then r\<lparr>pn_status := PinningStatusPinned, pn_info := []\<rparr> else r) (pd_rows (ox_pins s)) @ [p]"
    using rows new s' by simp
  moreover have "\<forall>x \<in> set (pw_cids flow). \<exists>c. op_parse env x = Inr c \<and> BlockExists (exists_fault c) c (ox_meta s) = None"
    using ready by (auto simp: list_all2_conv_all_nth in_set_conv_nth)
  ultimately show ?thesis using d(2-4) new by blast
qed

definition ex_pin_row :: pin_row where
  "ex_pin_row = empty_pin\<lparr>pn_id := 1, pn_req := ''q'', pn_user := 7, pn_status := PinningStatusQueued, pn_cid := ''b''\<rparr>"

lemma confirm_second_pin_example:
  "\<exists>p. pd_rows (ox_pins (snd (confirm_Execute (ex_op [] None) Background ex_request
        (Inr \<lparr>pw_request = ''q'', pw_cids = [''b'']\<rparr>) (\<lambda>_. None) None
        (ex_ostate\<lparr>ox_pins := \<lparr>pd_rows = [ex_pin_row], pd_next = 2\<rparr>\<rparr>)))) =
      [ex_pin_row\<lparr>pn_status := PinningStatusPinned\<rparr>, p] \<and> pn_status p = PinningStatusQueued \<and> pn_user p = 7"
proof -
  let ?s = "ex_ostate\<lparr>ox_pins := \<lparr>pd_rows = [ex_pin_row], pd_next = 2\<rparr>\<rparr>"
  let ?flow = "\<lparr>pw_request = ''q'', pw_cids = [''b'']\<rparr>"
  let ?r = "confirm_Execute (ex_op [] None) Background ex_request (Inr ?flow) (\<lambda>_. None) None ?s"
  have "fst ?r = Returned (Inr ())" by code_simp
  then have r: "?r = (Returned (Inr ()), snd ?r)" by (metis prod.collapse)
  from confirm_second_pin [OF r] show ?thesis
    by (auto simp: ex_pin_row_def ex_request_def ex_ostate_def empty_pin_def)
qed

end
