(* ===== verification/Want_Filter.thy ===== *)
theory Want_Filter
  imports Complex_Main IPFS_Prelude
begin

text \<open>
  The filter of bitswap requests: \<^verbatim>\<open>internal/protocol/ipfs/want_filter.go\<close> and the collector of denied
  peers of \<^verbatim>\<open>want_block_collector.go\<close>.  The rate limiters of \<^verbatim>\<open>golang.org/x/time/rate\<close> are a parameter:
  \<open>limiter_ok\<close> states their documented bound.  A limiter is a pointer, here its place in a heap.  Times
  are nanoseconds and rates events per second; a finite \<open>float64\<close> is a rational.
\<close>

section \<open>Limiters\<close>

record 'l limiter_ops =
  lo_new :: "rat \<Rightarrow> int \<Rightarrow> 'l"
  lo_allow :: "nat \<Rightarrow> 'l \<Rightarrow> bool \<times> 'l"

text \<open>The answers of a limiter to calls at the given times, and what it becomes.\<close>

fun lim_run :: "'l limiter_ops \<Rightarrow> 'l \<Rightarrow> nat list \<Rightarrow> bool list \<times> 'l" where
  "lim_run lo l [] = ([], l)"
| "lim_run lo l (t # ts) =
     (let (b, l1) = lo_allow lo t l; (bs, l2) = lim_run lo l1 ts in (b # bs, l2))"

abbreviation admitted :: "bool list \<Rightarrow> nat" where
  "admitted bs \<equiv> length (filter id bs)"

definition nanos :: rat where "nanos = 10 ^ 9"

definition limiter_ok :: "'l limiter_ops \<Rightarrow> bool" where
  "limiter_ok lo \<longleftrightarrow>
     (\<forall>r b ts. 0 \<le> r \<and> 0 \<le> b \<and> sorted ts \<and> ts \<noteq> [] \<longrightarrow>
        of_nat (admitted (fst (lim_run lo (lo_new lo r b) ts))) \<le> of_int b + r * of_nat (last ts - hd ts) / nanos)"

section \<open>The collector of denied peers\<close>

definition denied_increment :: "string \<Rightarrow> (string, int) gomap \<Rightarrow> (string, int) gomap" where
  "denied_increment p m = (case gm_get m p of Some n \<Rightarrow> gm_set p (n + 1) m | None \<Rightarrow> gm_set p 1 m)"

definition denied_RemovePeer :: "string \<Rightarrow> (string, int) gomap \<Rightarrow> (string, int) gomap" where
  "denied_RemovePeer p m = gm_del p m"

definition denied_Collect :: "nat \<Rightarrow> (string, int) gomap \<Rightarrow> (string \<times> int) list" where
  "denied_Collect topN m = take topN (sort_key (\<lambda>e. - snd e) m)"

section \<open>The filter\<close>

datatype want_label = AllowedSelf | AllowedGateway | DeniedGlobalRate | DeniedPerPeerRate | Allowed

record want_cfg =
  wc_SelfPeer :: bytes
  wc_GatewayPeers :: "bytes list"
  wc_GlobalRate :: rat
  wc_GlobalBurst :: int
  wc_PerPeerRate :: rat
  wc_PerPeerBurst :: int

record 'l want_filter =
  wf_selfPeer :: bytes
  wf_gatewayPeers :: "(bytes, unit) gomap"
  wf_limiter :: 'l
  wf_peerLimiters :: "(bytes, nat) gomap"
  wf_heap :: "'l list"
  wf_perPeerRate :: rat
  wf_perPeerBurst :: int
  wf_denied :: "(string, int) gomap"
  wf_gaugeGateways :: nat
  wf_gaugeLimiters :: nat

definition NewWantBlockFilter :: "'l limiter_ops \<Rightarrow> want_cfg \<Rightarrow> 'l want_filter" where
  "NewWantBlockFilter lo cfg =
     (let gw = fold (\<lambda>p. gm_set p ()) (wc_GatewayPeers cfg) [];
          globalRate = (if wc_GlobalRate cfg \<le> 0 then 2500 else wc_GlobalRate cfg);
          globalBurst = (if wc_GlobalBurst cfg \<le> 0 then 5000 else wc_GlobalBurst cfg);
          perPeerRate = (if wc_PerPeerRate cfg \<le> 0 then 200 else wc_PerPeerRate cfg);
          perPeerBurst = (if wc_PerPeerBurst cfg \<le> 0 then 512 else wc_PerPeerBurst cfg)
      in \<lparr>wf_selfPeer = wc_SelfPeer cfg, wf_gatewayPeers = gw, wf_limiter = lo_new lo globalRate globalBurst,
          wf_peerLimiters = [], wf_heap = [], wf_perPeerRate = perPeerRate, wf_perPeerBurst = perPeerBurst,
          wf_denied = [], wf_gaugeGateways = length gw, wf_gaugeLimiters = 0\<rparr>)"

text \<open>\<open>Allow\<close> up to the global limiter: the answer, where it needs no limiter.\<close>

definition privileged :: "'l want_filter \<Rightarrow> bytes \<Rightarrow> want_label option" where
  "privileged f p =
     (if p = wf_selfPeer f then Some AllowedSelf
      else if gm_get (wf_gatewayPeers f) p \<noteq> None then Some AllowedGateway
      else None)"

definition deny :: "(bytes \<Rightarrow> string) \<Rightarrow> bytes \<Rightarrow> 'l want_filter \<Rightarrow> 'l want_filter" where
  "deny pstr p f = f\<lparr>wf_denied := denied_increment (pstr p) (wf_denied f)\<rparr>"

definition ask_global :: "'l limiter_ops \<Rightarrow> (bytes \<Rightarrow> string) \<Rightarrow> nat \<Rightarrow> bytes \<Rightarrow> 'l want_filter \<Rightarrow> bool \<times> 'l want_filter" where
  "ask_global lo pstr t p f =
     (case lo_allow lo t (wf_limiter f) of
        (True, l) \<Rightarrow> (True, f\<lparr>wf_limiter := l\<rparr>)
      | (False, l) \<Rightarrow> (False, deny pstr p (f\<lparr>wf_limiter := l\<rparr>)))"

text \<open>\<open>getPeerLimiter\<close>: a look under the read lock, then under the write lock a second look and the insert.\<close>

definition limiter_lookup :: "bytes \<Rightarrow> 'l want_filter \<Rightarrow> nat option" where
  "limiter_lookup p f = gm_get (wf_peerLimiters f) p"

definition limiter_create :: "'l limiter_ops \<Rightarrow> bytes \<Rightarrow> 'l want_filter \<Rightarrow> nat \<times> 'l want_filter" where
  "limiter_create lo p f =
     (case gm_get (wf_peerLimiters f) p of
        Some i \<Rightarrow> (i, f)
      | None \<Rightarrow>
          let i = length (wf_heap f); m = gm_set p i (wf_peerLimiters f)
          in (i, f\<lparr>wf_heap := wf_heap f @ [lo_new lo (wf_perPeerRate f) (wf_perPeerBurst f)],
                   wf_peerLimiters := m, wf_gaugeLimiters := length m\<rparr>))"

definition ask_peer ::
    "'l limiter_ops \<Rightarrow> (bytes \<Rightarrow> string) \<Rightarrow> nat \<Rightarrow> bytes \<Rightarrow> nat \<Rightarrow> 'l want_filter \<Rightarrow> want_label \<times> 'l want_filter" where
  "ask_peer lo pstr t p i f =
     (case lo_allow lo t (wf_heap f ! i) of
        (True, l) \<Rightarrow> (Allowed, f\<lparr>wf_heap := (wf_heap f)[i := l]\<rparr>)
      | (False, l) \<Rightarrow> (DeniedPerPeerRate, deny pstr p (f\<lparr>wf_heap := (wf_heap f)[i := l]\<rparr>)))"

text \<open>A call of \<open>Allow\<close> that runs alone; it answers whether the label is one of the allowing ones.\<close>

definition want_Allow ::
    "'l limiter_ops \<Rightarrow> (bytes \<Rightarrow> string) \<Rightarrow> nat \<Rightarrow> bytes \<Rightarrow> 'l want_filter \<Rightarrow> want_label \<times> 'l want_filter" where
  "want_Allow lo pstr t p f =
     (case privileged f p of
        Some l \<Rightarrow> (l, f)
      | None \<Rightarrow>
          (case ask_global lo pstr t p f of
             (False, f1) \<Rightarrow> (DeniedGlobalRate, f1)
           | (True, f1) \<Rightarrow>
               let (i, f2) = (case limiter_lookup p f1 of Some i \<Rightarrow> (i, f1) | None \<Rightarrow> limiter_create lo p f1)
               in ask_peer lo pstr t p i f2))"

definition AddGatewayPeer :: "bytes \<Rightarrow> 'l want_filter \<Rightarrow> 'l want_filter" where
  "AddGatewayPeer p f =
     (let m = gm_set p () (wf_gatewayPeers f) in f\<lparr>wf_gatewayPeers := m, wf_gaugeGateways := length m\<rparr>)"

definition RemoveGatewayPeer :: "bytes \<Rightarrow> 'l want_filter \<Rightarrow> 'l want_filter" where
  "RemoveGatewayPeer p f =
     (let m = gm_del p (wf_gatewayPeers f) in f\<lparr>wf_gatewayPeers := m, wf_gaugeGateways := length m\<rparr>)"

definition RemovePeerLimiter :: "(bytes \<Rightarrow> string) \<Rightarrow> bytes \<Rightarrow> 'l want_filter \<Rightarrow> 'l want_filter" where
  "RemovePeerLimiter pstr p f =
     (let m = gm_del p (wf_peerLimiters f)
      in f\<lparr>wf_peerLimiters := m, wf_gaugeLimiters := length m, wf_denied := denied_RemovePeer (pstr p) (wf_denied f)\<rparr>)"

section \<open>Concurrent calls\<close>

text \<open>
  A call that is not privileged has passed the gateway check (\<open>WGlobal\<close>), the global limiter
  (\<open>WLookup\<close>), missed its limiter (\<open>WCreate\<close>) or holds it (\<open>WUse\<close>).  The log has the peer, the
  time and the label of every call that is done.  Limiters are removed for the peers of \<open>R\<close> only.
\<close>

datatype want_pc = WGlobal bytes | WLookup bytes | WCreate bytes | WUse bytes nat

record 'l want_sys =
  ws_filter :: "'l want_filter"
  ws_calls :: "want_pc list"
  ws_now :: nat
  ws_log :: "(bytes \<times> nat \<times> want_label) list"

abbreviation ws_done :: "bytes \<Rightarrow> want_label \<Rightarrow> 'l want_sys \<Rightarrow> 'l want_sys" where
  "ws_done p l s \<equiv> s\<lparr>ws_log := ws_log s @ [(p, ws_now s, l)]\<rparr>"

abbreviation ws_move :: "want_pc \<Rightarrow> want_pc list \<Rightarrow> 'l want_filter \<Rightarrow> 'l want_sys \<Rightarrow> 'l want_sys" where
  "ws_move c cs f s \<equiv> s\<lparr>ws_calls := remove1 c (ws_calls s) @ cs, ws_filter := f\<rparr>"

inductive want_step :: "'l limiter_ops \<Rightarrow> (bytes \<Rightarrow> string) \<Rightarrow> bytes set \<Rightarrow> 'l want_sys \<Rightarrow> 'l want_sys \<Rightarrow> bool"
  for lo pstr R where
  tick: "ws_now s \<le> t \<Longrightarrow> want_step lo pstr R s (s\<lparr>ws_now := t\<rparr>)"
| pass: "privileged (ws_filter s) p = Some l \<Longrightarrow> want_step lo pstr R s (ws_done p l s)"
| start: "privileged (ws_filter s) p = None \<Longrightarrow> want_step lo pstr R s (s\<lparr>ws_calls := ws_calls s @ [WGlobal p]\<rparr>)"
| global_ok: "WGlobal p \<in> set (ws_calls s) \<Longrightarrow> ask_global lo pstr (ws_now s) p (ws_filter s) = (True, f) \<Longrightarrow>
    want_step lo pstr R s (ws_move (WGlobal p) [WLookup p] f s)"
| global_denied: "WGlobal p \<in> set (ws_calls s) \<Longrightarrow> ask_global lo pstr (ws_now s) p (ws_filter s) = (False, f) \<Longrightarrow>
    want_step lo pstr R s (ws_done p DeniedGlobalRate (ws_move (WGlobal p) [] f s))"
| found: "WLookup p \<in> set (ws_calls s) \<Longrightarrow> limiter_lookup p (ws_filter s) = Some i \<Longrightarrow>
    want_step lo pstr R s (ws_move (WLookup p) [WUse p i] (ws_filter s) s)"
| missed: "WLookup p \<in> set (ws_calls s) \<Longrightarrow> limiter_lookup p (ws_filter s) = None \<Longrightarrow>
    want_step lo pstr R s (ws_move (WLookup p) [WCreate p] (ws_filter s) s)"
| create: "WCreate p \<in> set (ws_calls s) \<Longrightarrow> limiter_create lo p (ws_filter s) = (i, f) \<Longrightarrow>
    want_step lo pstr R s (ws_move (WCreate p) [WUse p i] f s)"
| use: "WUse p i \<in> set (ws_calls s) \<Longrightarrow> ask_peer lo pstr (ws_now s) p i (ws_filter s) = (l, f) \<Longrightarrow>
    want_step lo pstr R s (ws_done p l (ws_move (WUse p i) [] f s))"
| add_gateway: "want_step lo pstr R s (s\<lparr>ws_filter := AddGatewayPeer p (ws_filter s)\<rparr>)"
| remove_gateway: "want_step lo pstr R s (s\<lparr>ws_filter := RemoveGatewayPeer p (ws_filter s)\<rparr>)"
| remove_limiter: "p \<in> R \<Longrightarrow> want_step lo pstr R s (s\<lparr>ws_filter := RemovePeerLimiter pstr p (ws_filter s)\<rparr>)"

definition want_init :: "'l want_filter \<Rightarrow> nat \<Rightarrow> 'l want_sys" where
  "want_init f t = \<lparr>ws_filter = f, ws_calls = [], ws_now = t, ws_log = []\<rparr>"

abbreviation want_reach :: "'l limiter_ops \<Rightarrow> (bytes \<Rightarrow> string) \<Rightarrow> bytes set \<Rightarrow> 'l want_sys \<Rightarrow> 'l want_sys \<Rightarrow> bool" where
  "want_reach lo pstr R \<equiv> (want_step lo pstr R)\<^sup>*\<^sup>*"

section \<open>Operations\<close>

lemma deny_simps [simp]:
  "wf_limiter (deny pstr p f) = wf_limiter f" "wf_peerLimiters (deny pstr p f) = wf_peerLimiters f"
  "wf_heap (deny pstr p f) = wf_heap f" "wf_perPeerRate (deny pstr p f) = wf_perPeerRate f"
  "wf_perPeerBurst (deny pstr p f) = wf_perPeerBurst f"
  by (simp_all add: deny_def)

lemma ask_global_simps:
  assumes "ask_global lo pstr t p f = (b, f')"
  shows "wf_peerLimiters f' = wf_peerLimiters f \<and> wf_heap f' = wf_heap f \<and>
    wf_perPeerRate f' = wf_perPeerRate f \<and> wf_perPeerBurst f' = wf_perPeerBurst f"
  using assms by (auto simp: ask_global_def split: prod.splits bool.splits)

lemma ask_peer_D:
  assumes "ask_peer lo pstr t p i f = (l, f')"
  shows "(l = Allowed \<or> l = DeniedPerPeerRate) \<and> (l = Allowed) = fst (lo_allow lo t (wf_heap f ! i)) \<and>
    wf_heap f' = (wf_heap f)[i := snd (lo_allow lo t (wf_heap f ! i))] \<and>
    wf_peerLimiters f' = wf_peerLimiters f \<and>
    wf_perPeerRate f' = wf_perPeerRate f \<and> wf_perPeerBurst f' = wf_perPeerBurst f"
  using assms by (auto simp: ask_peer_def split: prod.splits bool.splits)

lemma limiter_create_D:
  assumes "limiter_create lo p f = (i, f')"
  shows "wf_perPeerRate f' = wf_perPeerRate f \<and> wf_perPeerBurst f' = wf_perPeerBurst f \<and>
    (gm_get (wf_peerLimiters f) p = Some i \<and> f' = f \<or>
     gm_get (wf_peerLimiters f) p = None \<and> i = length (wf_heap f) \<and>
     wf_heap f' = wf_heap f @ [lo_new lo (wf_perPeerRate f) (wf_perPeerBurst f)] \<and>
     wf_peerLimiters f' = gm_set p i (wf_peerLimiters f))"
  using assms by (auto simp: limiter_create_def Let_def split: option.splits)

lemma gateway_simps [simp]:
  "wf_peerLimiters (AddGatewayPeer p f) = wf_peerLimiters f" "wf_heap (AddGatewayPeer p f) = wf_heap f"
  "wf_perPeerRate (AddGatewayPeer p f) = wf_perPeerRate f" "wf_perPeerBurst (AddGatewayPeer p f) = wf_perPeerBurst f"
  "wf_peerLimiters (RemoveGatewayPeer p f) = wf_peerLimiters f" "wf_heap (RemoveGatewayPeer p f) = wf_heap f"
  "wf_perPeerRate (RemoveGatewayPeer p f) = wf_perPeerRate f" "wf_perPeerBurst (RemoveGatewayPeer p f) = wf_perPeerBurst f"
  "wf_peerLimiters (RemovePeerLimiter pstr p f) = gm_del p (wf_peerLimiters f)"
  "wf_heap (RemovePeerLimiter pstr p f) = wf_heap f"
  "wf_perPeerRate (RemovePeerLimiter pstr p f) = wf_perPeerRate f"
  "wf_perPeerBurst (RemovePeerLimiter pstr p f) = wf_perPeerBurst f"
  by (simp_all add: AddGatewayPeer_def RemoveGatewayPeer_def RemovePeerLimiter_def Let_def)

lemma lim_run_snoc:
  "lim_run lo l (ts @ [t]) = (fst (lim_run lo l ts) @ [fst (lo_allow lo t (snd (lim_run lo l ts)))],
     snd (lo_allow lo t (snd (lim_run lo l ts))))"
  by (induction ts arbitrary: l) (auto split: prod.split)

section \<open>A peer and its limiter\<close>

text \<open>The calls of \<open>p\<close> that its own limiter judged, in the order of the log.\<close>

definition judged :: "bytes \<Rightarrow> 'l want_sys \<Rightarrow> (bytes \<times> nat \<times> want_label) list" where
  "judged p s = filter (\<lambda>(q, _, l). q = p \<and> (l = Allowed \<or> l = DeniedPerPeerRate)) (ws_log s)"

abbreviation judged_times :: "bytes \<Rightarrow> 'l want_sys \<Rightarrow> nat list" where
  "judged_times p s \<equiv> map (\<lambda>(_, t, _). t) (judged p s)"

abbreviation verdicts :: "bytes \<Rightarrow> 'l want_sys \<Rightarrow> bool list" where
  "verdicts p s \<equiv> map (\<lambda>(_, _, l). l = Allowed) (judged p s)"

lemma judged_snoc: "judged p (ws_done q l s) =
    judged p s @ (if q = p \<and> (l = Allowed \<or> l = DeniedPerPeerRate) then [(p, ws_now s, l)] else [])"
  by (auto simp: judged_def)

lemma judged_log [simp]: "judged p (ws_filter_update g s) = judged p s" "judged p (ws_calls_update h s) = judged p s"
  "judged p (ws_now_update k s) = judged p s"
  by (simp_all add: judged_def)

text \<open>Ids in use are places of the heap; the limiter of \<open>p\<close> is used by no other peer and is what the verdicts on
  \<open>p\<close> have made of a new one.\<close>

definition ids_ok :: "'l want_sys \<Rightarrow> bool" where
  "ids_ok s \<longleftrightarrow>
     (\<forall>q i. gm_get (wf_peerLimiters (ws_filter s)) q = Some i \<longrightarrow> i < length (wf_heap (ws_filter s))) \<and>
     (\<forall>q i. WUse q i \<in> set (ws_calls s) \<longrightarrow> i < length (wf_heap (ws_filter s)))"

definition own_limiter :: "'l limiter_ops \<Rightarrow> bytes \<Rightarrow> 'l want_sys \<Rightarrow> bool" where
  "own_limiter lo p s \<longleftrightarrow>
     (case gm_get (wf_peerLimiters (ws_filter s)) p of
        None \<Rightarrow> judged p s = [] \<and> (\<forall>i. WUse p i \<notin> set (ws_calls s))
      | Some i \<Rightarrow>
          (\<forall>q j. q \<noteq> p \<and> gm_get (wf_peerLimiters (ws_filter s)) q = Some j \<longrightarrow> j \<noteq> i) \<and>
          (\<forall>q j. WUse q j \<in> set (ws_calls s) \<longrightarrow> (q = p \<longleftrightarrow> j = i)) \<and>
          lim_run lo (lo_new lo (wf_perPeerRate (ws_filter s)) (wf_perPeerBurst (ws_filter s))) (judged_times p s) =
            (verdicts p s, wf_heap (ws_filter s) ! i))"

definition times_ok :: "nat \<Rightarrow> 'l want_sys \<Rightarrow> bool" where
  "times_ok t0 s \<longleftrightarrow> t0 \<le> ws_now s \<and> sorted (map (\<lambda>(_, t, _). t) (ws_log s)) \<and>
     (\<forall>(_, t, _) \<in> set (ws_log s). t0 \<le> t \<and> t \<le> ws_now s)"

lemma set_remove1_sub: "x \<in> set (remove1 c xs) \<Longrightarrow> x \<in> set xs"
  using set_remove1_subset by fast

lemma times_step: "want_step lo pstr R s s' \<Longrightarrow> times_ok t0 s \<Longrightarrow> times_ok t0 s'"
  by (induction rule: want_step.induct) (auto simp: times_ok_def sorted_append)

lemma ids_step:
  assumes "want_step lo pstr R s s'" and "ids_ok s"
  shows "ids_ok s'"
  using assms
proof (induction rule: want_step.induct)
  case (global_ok p s f)
  with ask_global_simps [OF global_ok(2)] show ?case by (auto simp: ids_ok_def dest: set_remove1_sub)
next
  case (global_denied p s f)
  with ask_global_simps [OF global_denied(2)] show ?case by (auto simp: ids_ok_def dest: set_remove1_sub)
next
  case (found p s i)
  then show ?case by (auto simp: ids_ok_def limiter_lookup_def dest: set_remove1_sub)
next
  case (create p s i f)
  with limiter_create_D [OF create(2)] show ?case
    by (fastforce simp: ids_ok_def gm_simps split: if_splits dest: set_remove1_sub)
next
  case (use p i s l f)
  with ask_peer_D [OF use(2)] show ?case by (auto simp: ids_ok_def dest: set_remove1_sub)
qed (auto simp: ids_ok_def gm_simps split: if_splits dest: set_remove1_sub)

lemma own_limiter_cong:
  assumes "own_limiter lo p s" and "judged p s' = judged p s"
    and "wf_peerLimiters (ws_filter s') = wf_peerLimiters (ws_filter s)" "wf_heap (ws_filter s') = wf_heap (ws_filter s)"
    and "wf_perPeerRate (ws_filter s') = wf_perPeerRate (ws_filter s)"
    and "wf_perPeerBurst (ws_filter s') = wf_perPeerBurst (ws_filter s)"
    and "\<And>q i. WUse q i \<in> set (ws_calls s') \<Longrightarrow>
      WUse q i \<in> set (ws_calls s) \<or> gm_get (wf_peerLimiters (ws_filter s)) q = Some i"
  shows "own_limiter lo p s'"
proof (cases "gm_get (wf_peerLimiters (ws_filter s)) p")
  case None
  then show ?thesis using assms by (fastforce simp: own_limiter_def)
next
  case (Some i)
  have "q = p \<longleftrightarrow> j = i" if "WUse q j \<in> set (ws_calls s')" for q j
    using assms(7) [OF that] assms(1) Some by (cases "q = p") (auto simp: own_limiter_def)
  then show ?thesis using assms(1-6) Some by (simp add: own_limiter_def)
qed

lemma own_limiter_step:
  assumes "want_step lo pstr R s s'" and "ids_ok s" and "own_limiter lo p s" and "p \<notin> R"
  shows "own_limiter lo p s'"
  using assms
proof (induction rule: want_step.induct)
  case (pass s q l)
  have "l \<noteq> Allowed \<and> l \<noteq> DeniedPerPeerRate" using pass(1) by (auto simp: privileged_def split: if_splits)
  then show ?case by (intro own_limiter_cong [OF pass(3)]) (simp_all add: judged_snoc)
next
  case (global_ok q s f)
  with ask_global_simps [OF global_ok(2)] show ?case
    by (intro own_limiter_cong [OF global_ok(4)]) (auto dest: set_remove1_sub)
next
  case (global_denied q s f)
  with ask_global_simps [OF global_denied(2)] show ?case
    by (intro own_limiter_cong [OF global_denied(4)]) (auto simp: judged_def dest: set_remove1_sub)
next
  case (found q s i)
  then show ?case
    by (intro own_limiter_cong [OF found(4)]) (auto simp: limiter_lookup_def dest: set_remove1_sub)
next
  case (create q s i f)
  note D = limiter_create_D [OF create(2)]
  let ?f = "ws_filter s"
  show ?case
  proof (cases "gm_get (wf_peerLimiters ?f) q")
    case (Some j)
    then show ?thesis using D create(4)
      by (intro own_limiter_cong [OF create(4)]) (auto dest: set_remove1_sub)
  next
    case None
    then have d: "i = length (wf_heap ?f)" "wf_heap f = wf_heap ?f @ [lo_new lo (wf_perPeerRate ?f) (wf_perPeerBurst ?f)]"
      "wf_peerLimiters f = gm_set q i (wf_peerLimiters ?f)" "wf_perPeerRate f = wf_perPeerRate ?f"
      "wf_perPeerBurst f = wf_perPeerBurst ?f" using D by auto
    have fresh: "gm_get (wf_peerLimiters ?f) q' \<noteq> Some i" "WUse q' i \<notin> set (ws_calls s)" for q'
      using create(3) d(1) by (auto simp: ids_ok_def)
    show ?thesis
    proof (cases "q = p")
      case True
      have "judged p s = []" "\<And>j. WUse p j \<notin> set (ws_calls s)"
        using create(4) None True by (simp_all add: own_limiter_def)
      then show ?thesis using True d fresh
        by (auto simp: own_limiter_def gm_simps dest: set_remove1_sub)
    next
      case False
      then show ?thesis using create(3,4) d fresh
        by (auto simp: own_limiter_def ids_ok_def gm_simps nth_append dest: set_remove1_sub split: option.splits)
    qed
  qed
next
  case (use q i s l f)
  note D = ask_peer_D [OF use(2)]
  have j: "judged p (ws_done q l (ws_move (WUse q i) [] f s)) =
      judged p s @ (if q = p \<and> (l = Allowed \<or> l = DeniedPerPeerRate) then [(p, ws_now s, l)] else [])"
    by (auto simp: judged_def)
  show ?case
  proof (cases "gm_get (wf_peerLimiters (ws_filter s)) p")
    case None
    then have "q \<noteq> p" using use(1,4) by (auto simp: own_limiter_def)
    then show ?thesis using None D use(4)
      unfolding own_limiter_def j by (auto dest: set_remove1_sub)
  next
    case (Some k)
    then have own: "\<And>q j. WUse q j \<in> set (ws_calls s) \<Longrightarrow> (q = p \<longleftrightarrow> j = k)" and k: "k < length (wf_heap (ws_filter s))"
      and run: "lim_run lo (lo_new lo (wf_perPeerRate (ws_filter s)) (wf_perPeerBurst (ws_filter s))) (judged_times p s) =
            (verdicts p s, wf_heap (ws_filter s) ! k)"
      using use(3,4) by (auto simp: own_limiter_def ids_ok_def)
    have iff: "q = p \<longleftrightarrow> i = k" by (rule own [OF use(1)])
    have mine: "j = k" if "WUse p j \<in> set (ws_calls s)" for j using own [OF that] by simp
    show ?thesis using iff Some D use(4) k run
      unfolding own_limiter_def j by (auto simp: lim_run_snoc dest: set_remove1_sub mine)
  qed
next
  case (remove_limiter q s)
  then have "q \<noteq> p" by blast
  then show ?case using remove_limiter(3) by (auto simp: own_limiter_def gm_simps split: option.splits)
qed (erule own_limiter_cong; auto dest: set_remove1_sub)+

lemma want_invariants:
  assumes "want_reach lo pstr R (want_init (NewWantBlockFilter lo cfg) t0) s" and "p \<notin> R"
  shows "ids_ok s \<and> own_limiter lo p s \<and> times_ok t0 s \<and>
    wf_perPeerRate (ws_filter s) = wf_perPeerRate (NewWantBlockFilter lo cfg) \<and>
    wf_perPeerBurst (ws_filter s) = wf_perPeerBurst (NewWantBlockFilter lo cfg)"
  using assms(1)
proof (induction rule: rtranclp_induct)
  case base
  show ?case by (simp add: want_init_def ids_ok_def own_limiter_def times_ok_def judged_def NewWantBlockFilter_def Let_def)
next
  case (step s s')
  have "wf_perPeerRate (ws_filter s') = wf_perPeerRate (ws_filter s) \<and>
      wf_perPeerBurst (ws_filter s') = wf_perPeerBurst (ws_filter s)"
    using step(2) by (induction rule: want_step.induct)
      (auto dest: ask_global_simps limiter_create_D ask_peer_D)
  then show ?case
    using step(3) ids_step [OF step(2)] own_limiter_step [OF step(2) _ _ assms(2)] times_step [OF step(2)] by simp
qed

section \<open>A token bucket\<close>

text \<open>A limiter with the tokens it has, when it was last asked, its rate and its burst.\<close>

definition bucket :: "(rat \<times> nat option \<times> rat \<times> int) limiter_ops" where
  "bucket = \<lparr>lo_new = (\<lambda>r b. (of_int b, None, r, b)),
     lo_allow = (\<lambda>t (tok, last, r, b).
       let tok = (case last of None \<Rightarrow> tok | Some t0 \<Rightarrow> min (of_int b) (tok + r * of_nat (t - t0) / nanos))
       in if 1 \<le> tok then (True, (tok - 1, Some t, r, b)) else (False, (tok, Some t, r, b)))\<rparr>"

lemma bucket_allow:
  "lo_allow bucket t (tok, Some t0, r, b) =
     (let tok = min (of_int b) (tok + r * of_nat (t - t0) / nanos)
      in if 1 \<le> tok then (True, (tok - 1, Some t, r, b)) else (False, (tok, Some t, r, b)))"
  "lo_allow bucket t (tok, None, r, b) =
     (if 1 \<le> tok then (True, (tok - 1, Some t, r, b)) else (False, (tok, Some t, r, b)))"
  by (simp_all add: bucket_def)

lemma lim_run_admitted: "admitted (fst (lim_run lo l (t # ts))) =
    (if fst (lo_allow lo t l) then 1 else 0) + admitted (fst (lim_run lo (snd (lo_allow lo t l)) ts))"
  by (simp split: prod.split)

lemma bucket_run:
  assumes "0 \<le> r" and "0 \<le> b" and "0 \<le> tok" and "sorted (t0 # ts)"
  shows "of_nat (admitted (fst (lim_run bucket (tok, Some t0, r, b) ts))) \<le>
    tok + r * of_nat (List.last (t0 # ts) - t0) / nanos"
  using assms
proof (induction ts arbitrary: tok t0)
  case Nil then show ?case by simp
next
  case (Cons t ts)
  define tok' where "tok' = min (of_int b) (tok + r * of_nat (t - t0) / nanos)"
  have gain: "0 \<le> r * of_nat (t - t0) / nanos" using Cons.prems(1) by (simp add: nanos_def)
  have le: "tok' \<le> tok + r * of_nat (t - t0) / nanos" by (simp add: tok'_def)
  have ge: "0 \<le> tok'" using gain Cons.prems(2,3) by (simp add: tok'_def)
  have split: "r * of_nat (List.last (t0 # t # ts) - t0) / nanos =
      r * of_nat (t - t0) / nanos + r * of_nat (List.last (t # ts) - t) / nanos"
  proof -
    have "t0 \<le> t" "t \<le> List.last (t # ts)" using Cons.prems(4) by auto
    then have "of_nat (List.last (t0 # t # ts) - t0) = (of_nat (t - t0) + of_nat (List.last (t # ts) - t) :: rat)"
      by (simp flip: of_nat_add)
    then show ?thesis by (simp only: distrib_left add_divide_distrib)
  qed
  have st: "lo_allow bucket t (tok, Some t0, r, b) =
      (if 1 \<le> tok' then (True, (tok' - 1, Some t, r, b)) else (False, (tok', Some t, r, b)))"
    by (simp add: bucket_allow Let_def tok'_def)
  have so: "sorted (t # ts)" using Cons.prems(4) by simp
  show ?case
  proof (cases "1 \<le> tok'")
    case True
    with Cons.IH [OF Cons.prems(1,2) _ so, of "tok' - 1"] le show ?thesis
      unfolding lim_run_admitted st split by (simp add: id_def)
  next
    case False
    with Cons.IH [OF Cons.prems(1,2) ge so] le show ?thesis
      unfolding lim_run_admitted st split by (simp add: id_def)
  qed
qed

lemma bucket_ok: "limiter_ok bucket"
  unfolding limiter_ok_def
proof (intro allI impI)
  fix r :: rat and b :: int and ts :: "nat list"
  assume a: "0 \<le> r \<and> 0 \<le> b \<and> sorted ts \<and> ts \<noteq> []"
  then obtain t ts' where ts: "ts = t # ts'" by (cases ts) auto
  have new: "lo_new bucket r b = (of_int b, None, r, b)" by (simp add: bucket_def)
  show "of_nat (admitted (fst (lim_run bucket (lo_new bucket r b) ts))) \<le>
      of_int b + r * of_nat (List.last ts - hd ts) / nanos"
  proof (cases "1 \<le> (of_int b :: rat)")
    case True
    with bucket_run [of r b "of_int b - 1" t ts'] a show ?thesis
      unfolding ts new lim_run_admitted by (simp add: bucket_allow)
  next
    case False
    with bucket_run [of r b "of_int b" t ts'] a show ?thesis
      unfolding ts new lim_run_admitted by (simp add: bucket_allow)
  qed
qed

section \<open>A call that runs alone\<close>

text \<open>\<open>want_Allow\<close> is a run of the steps of one call.\<close>

lemma want_Allow_steps:
  assumes "want_Allow lo pstr (ws_now s) p (ws_filter s) = (l, f)" and calls: "ws_calls s = []"
  shows "want_reach lo pstr R s (s\<lparr>ws_filter := f, ws_log := ws_log s @ [(p, ws_now s, l)]\<rparr>)"
proof (cases "privileged (ws_filter s) p")
  case (Some l')
  then have "want_step lo pstr R s (ws_done p l s)" using assms(1) by (intro want_step.pass) (simp add: want_Allow_def)
  moreover have "s\<lparr>ws_filter := f, ws_log := ws_log s @ [(p, ws_now s, l)]\<rparr> = ws_done p l s"
    using Some assms(1) by (cases s) (simp add: want_Allow_def)
  ultimately show ?thesis by (simp add: r_into_rtranclp)
next
  case None
  let ?s1 = "s\<lparr>ws_calls := [WGlobal p]\<rparr>"
  have idle: "s\<lparr>ws_calls := [], ws_filter := g, ws_log := xs\<rparr> = s\<lparr>ws_filter := g, ws_log := xs\<rparr>" for g xs
    using calls by (cases s) simp
  have 1: "want_reach lo pstr R s ?s1" using want_step.start [OF None, of lo pstr R] calls by (simp add: r_into_rtranclp)
  obtain b f1 where g: "ask_global lo pstr (ws_now s) p (ws_filter s) = (b, f1)" by fastforce
  show ?thesis
  proof (cases b)
    case False
    then have "want_step lo pstr R ?s1 (ws_done p DeniedGlobalRate (ws_move (WGlobal p) [] f1 ?s1))"
      using g by (intro want_step.global_denied) simp_all
    then have "want_step lo pstr R ?s1 (s\<lparr>ws_filter := f, ws_log := ws_log s @ [(p, ws_now s, l)]\<rparr>)"
      using assms None g False idle by (simp add: want_Allow_def)
    with 1 show ?thesis by (rule rtranclp.rtrancl_into_rtrancl)
  next
    case True
    let ?s2 = "s\<lparr>ws_calls := [WLookup p], ws_filter := f1\<rparr>"
    have 2: "want_step lo pstr R ?s1 ?s2"
      using want_step.global_ok [of p ?s1 lo pstr f1 R] g True by simp
    obtain i f2 where i: "(case limiter_lookup p f1 of Some i \<Rightarrow> (i, f1) | None \<Rightarrow> limiter_create lo p f1) = (i, f2)"
      by fastforce
    let ?s3 = "s\<lparr>ws_calls := [WUse p i], ws_filter := f2\<rparr>"
    have 3: "want_reach lo pstr R ?s2 ?s3"
    proof (cases "limiter_lookup p f1")
      case None
      have "want_step lo pstr R ?s2 (s\<lparr>ws_calls := [WCreate p], ws_filter := f1\<rparr>)"
        using want_step.missed [of p ?s2 lo pstr R] None by simp
      moreover have "want_step lo pstr R (s\<lparr>ws_calls := [WCreate p], ws_filter := f1\<rparr>) ?s3"
        using want_step.create [of p "s\<lparr>ws_calls := [WCreate p], ws_filter := f1\<rparr>" lo i f2 pstr R] i None by simp
      ultimately show ?thesis by (meson r_into_rtranclp rtranclp_trans)
    next
      case (Some j)
      then show ?thesis using want_step.found [of p ?s2 j lo pstr R] i by (simp add: r_into_rtranclp)
    qed
    have "want_step lo pstr R ?s3 (s\<lparr>ws_filter := f, ws_log := ws_log s @ [(p, ws_now s, l)]\<rparr>)"
      using want_step.use [of p i ?s3 lo pstr l f R] assms None g True i idle by (simp add: want_Allow_def)
    with 1 2 3 show ?thesis by (meson rtranclp.rtrancl_into_rtrancl rtranclp_trans)
  qed
qed

text \<open>The node itself and a gateway peer pass without a limiter being asked.\<close>

lemma privileged_pass:
  assumes "p = wf_selfPeer f \<or> gm_get (wf_gatewayPeers f) p \<noteq> None"
  shows "want_Allow lo pstr t p f = (if p = wf_selfPeer f then AllowedSelf else AllowedGateway, f)"
  using assms by (auto simp: want_Allow_def privileged_def)

section \<open>Properties\<close>

lemma count_allowed:
  "length (filter (\<lambda>(q, _, l). q = p \<and> l = Allowed) (ws_log s)) = admitted (verdicts p s)"
proof -
  have "length (filter (\<lambda>(q, _, l). q = p \<and> l = Allowed) xs) =
      admitted (map (\<lambda>(_, _, l). l = Allowed) (filter (\<lambda>(q, _, l). q = p \<and> (l = Allowed \<or> l = DeniedPerPeerRate)) xs))"
    for xs :: "(bytes \<times> nat \<times> want_label) list"
    by (induction xs) auto
  then show ?thesis by (simp add: judged_def)
qed


definition ex_wcfg :: want_cfg where
  "ex_wcfg = \<lparr>wc_SelfPeer = ''s'', wc_GatewayPeers = [''g''], wc_GlobalRate = 1, wc_GlobalBurst = 2,
     wc_PerPeerRate = 1, wc_PerPeerBurst = 1\<rparr>"

lemma want_Allow_log:
  assumes "want_reach lo pstr R s0 \<lparr>ws_filter = f, ws_calls = [], ws_now = t, ws_log = xs\<rparr>"
    and "want_Allow lo pstr t p f = (l, f')"
  shows "want_reach lo pstr R s0 \<lparr>ws_filter = f', ws_calls = [], ws_now = t, ws_log = xs @ [(p, t, l)]\<rparr>"
  using rtranclp_trans [OF assms(1) want_Allow_steps [of lo pstr "\<lparr>ws_filter = f, ws_calls = [], ws_now = t, ws_log = xs\<rparr>" p l f' R]]
    assms(2) by simp

text \<open>A peer that asks twice: the second call is denied by its own limiter but has taken the second token of the
  global one, so that another peer's first call is denied.\<close>

definition ex_w1 :: "(rat \<times> nat option \<times> rat \<times> int) want_filter" where
  "ex_w1 = snd (want_Allow bucket id 7 ''p'' (NewWantBlockFilter bucket ex_wcfg))"

definition ex_w2 :: "(rat \<times> nat option \<times> rat \<times> int) want_filter" where
  "ex_w2 = snd (want_Allow bucket id 7 ''p'' ex_w1)"

lemma want_filter_starves:
  "want_Allow bucket id 7 ''p'' (NewWantBlockFilter bucket ex_wcfg) = (Allowed, ex_w1) \<and>
   want_Allow bucket id 7 ''p'' ex_w1 = (DeniedPerPeerRate, ex_w2) \<and>
   fst (want_Allow bucket id 7 ''q'' ex_w2) = DeniedGlobalRate \<and>
   denied_Collect 1 (wf_denied ex_w2) = [(''p'', 1)]"
  by (simp add: ex_w1_def ex_w2_def NewWantBlockFilter_def ex_wcfg_def want_Allow_def privileged_def ask_global_def
      ask_peer_def limiter_lookup_def limiter_create_def bucket_def Let_def deny_def denied_increment_def
      denied_Collect_def)

text \<open>A peer whose limiter is removed starts over with a full burst.\<close>

lemma want_removed_starts_over:
  "fst (want_Allow bucket id 7 ''p'' ex_w1) = DeniedPerPeerRate \<and>
   fst (want_Allow bucket id 7 ''p'' (RemovePeerLimiter id ''p'' ex_w1)) = Allowed"
  by (simp add: ex_w1_def NewWantBlockFilter_def ex_wcfg_def want_Allow_def privileged_def ask_global_def
      ask_peer_def limiter_lookup_def limiter_create_def bucket_def Let_def deny_def RemovePeerLimiter_def
      denied_increment_def)


end
