(* ===== verification/Streaming_Archive.thy ===== *)
theory Streaming_Archive
  imports Cid_Context Go_Strings Pin_Service "HOL-Library.Char_ord" "HOL-Library.List_Lexorder"
    "HOL-Library.Product_Lexorder"
begin

text \<open>
  The conversion of an archive into a UnixFS tree: \<^verbatim>\<open>internal/upload/streaming_processor.go\<close> with
  \<^verbatim>\<open>directory_utils.go\<close> and the path functions of \<^verbatim>\<open>internal/upload/common/file_utils.go\<close>.

  The archive's file system is a tree (\<open>fs_node\<close>) that \<open>fs.WalkDir\<close> walks.  The library's UnixFS
  directories are their entries, name to CID: \<open>AddChild\<close> records the CID the child's node has when
  it is called, and \<open>GetNode\<close> is the node of the entries there are by then, with the CID
  \<open>ae_dir_cid\<close> of those entries.  Node generation, the DAG service's errors and the text of a CID
  are parameters.
\<close>

section \<open>Paths\<close>

definition ROOT :: string where "ROOT = ''.''"

definition IsValidPath :: "string \<Rightarrow> bool" where
  "IsValidPath p = (\<not> (Contains p ''..'' \<or> HasPrefix p ''/''))"

definition GetParentPath :: "string \<Rightarrow> string" where
  "GetParentPath p =
     (if p = ROOT then ROOT
      else if CHR ''/'' \<notin> set p then ROOT
      else
        let parent = rev (tl (dropWhile (\<lambda>c. c \<noteq> CHR ''/'') (rev p)))
        in if parent = [] then ROOT else parent)"

text \<open>Deepest first, paths of one depth in byte order.\<close>

definition SortDirectoriesByDepth :: "string list \<Rightarrow> string list" where
  "SortDirectoriesByDepth ps = sort_key (\<lambda>p. (- int (count_list p (CHR ''/'')), p)) ps"

section \<open>Walking the archive\<close>

text \<open>
  A file with what \<open>Info\<close> answers for it and what comes of opening it, generating its node and adding
  that to the DAG service; a directory with what \<open>Info\<close> and \<open>ReadDir\<close> answer and its entries.
\<close>

datatype 'c fs_node =
    FsFile "gerr + int" "gerr + 'c"
  | FsDir "gerr + unit" "gerr option" "(string \<times> 'c fs_node) list"

text \<open>A call of the visitor: path, name, what is there and the error the walk reports.\<close>

datatype 'c visit_kind = IsFile "gerr + int" "gerr + 'c" | IsDirectory "gerr + unit"

datatype 'c walk_call = Visit (wv_path: string) (wv_name: string) (wv_kind: "'c visit_kind") (wv_err: "gerr option")

definition path_join :: "string \<Rightarrow> string \<Rightarrow> string" where
  "path_join p n = (if p = ROOT then n else p @ ''/'' @ n)"

fun walk_calls :: "string \<Rightarrow> string \<Rightarrow> 'c fs_node \<Rightarrow> 'c walk_call list"
and walk_entries :: "string \<Rightarrow> (string \<times> 'c fs_node) list \<Rightarrow> 'c walk_call list" where
  "walk_calls p n (FsFile info content) = [Visit p n (IsFile info content) None]"
| "walk_calls p n (FsDir info readdir es) =
     Visit p n (IsDirectory info) None #
     (case readdir of Some e \<Rightarrow> [Visit p n (IsDirectory info) (Some e)] | None \<Rightarrow> []) @ walk_entries p es"
| "walk_entries p [] = []"
| "walk_entries p ((n, x) # es) = walk_calls (path_join p n) n x @ walk_entries p es"

text \<open>\<open>fs.WalkDir\<close>: the visitor is called in this order until it returns an error.\<close>

definition WalkDir_calls :: "gerr + 'c fs_node \<Rightarrow> 'c walk_call list" where
  "WalkDir_calls efs =
     (case efs of
        Inl e \<Rightarrow> [Visit ROOT ROOT (IsDirectory (Inl e)) (Some e)]
      | Inr x \<Rightarrow> walk_calls ROOT ROOT x)"

fun WalkDir :: "('c walk_call \<Rightarrow> 's \<Rightarrow> gerr option \<times> 's) \<Rightarrow> 'c walk_call list \<Rightarrow> 's \<Rightarrow> gerr option \<times> 's" where
  "WalkDir visitor [] s = (None, s)"
| "WalkDir visitor (v # vs) s =
     (case visitor v s of (Some e, s') \<Rightarrow> (Some e, s') | (None, s') \<Rightarrow> WalkDir visitor vs s')"

section \<open>The processor\<close>

record file_info =
  fi_Path :: string
  fi_Size :: int
  fi_CID :: string
  fi_Processed :: bool
  fi_Error :: "gerr option"
  fi_ParentPath :: string
  fi_Name :: string

type_synonym dir_entries = "(string, cid) gomap"

record dir_meta =
  dm_Path :: string
  dm_ParentPath :: string
  dm_Name :: string
  dm_CID :: string
  dm_DirObj :: "dir_entries option"

text \<open>What the DAG service holds: generated file nodes and directory nodes with their links.\<close>

datatype stored_node = StoredFile | StoredDir dir_entries

record stream_proc =
  sp_processedFiles :: "file_info list"
  sp_directoryMetadata :: "(string, dir_meta) gomap option"
  sp_rootCID :: string
  sp_dag :: "(cid, stored_node) gomap"

text \<open>
  The extractor gives a file system or an error, and the file system a tree or the error of its root.
  The errors of each library call by the path it is made for; \<open>ae_ctx\<close> is the error of the context
  when a path is visited and \<open>ae_path_error\<close> recognises an error of the file system.
\<close>

record archive_env =
  ae_start :: "gerr option"
  ae_ctx :: "string \<Rightarrow> gerr option"
  ae_path_error :: "gerr \<Rightarrow> bool"
  ae_str :: "cid \<Rightarrow> string"
  ae_decode :: "string \<Rightarrow> gerr + cid"
  ae_dir_cid :: "dir_entries \<Rightarrow> cid"
  ae_mkdir :: "string \<Rightarrow> gerr option"
  ae_node :: "string \<Rightarrow> gerr option"
  ae_add_child :: "string \<Rightarrow> string \<Rightarrow> gerr option"
  ae_get :: "cid \<Rightarrow> gerr option"
  ae_node2 :: "string \<Rightarrow> gerr option"
  ae_add :: "string \<Rightarrow> gerr option"

definition NewStreamingProcessor :: stream_proc where
  "NewStreamingProcessor =
     \<lparr>sp_processedFiles = [], sp_directoryMetadata = Some [], sp_rootCID = '''', sp_dag = []\<rparr>"

definition track_dir :: "string \<Rightarrow> string \<Rightarrow> string \<Rightarrow> stream_proc \<Rightarrow> stream_proc" where
  "track_dir p parent name sp =
     (case sp_directoryMetadata sp of
        None \<Rightarrow> sp
      | Some ds \<Rightarrow> sp\<lparr>sp_directoryMetadata := Some (gm_set p
          \<lparr>dm_Path = p, dm_ParentPath = parent, dm_Name = name, dm_CID = '''', dm_DirObj = None\<rparr> ds)\<rparr>)"

definition archive_processFile :: "archive_env \<Rightarrow> gerr + cid \<Rightarrow> file_info \<Rightarrow> stream_proc \<Rightarrow> file_info \<times> stream_proc" where
  "archive_processFile env content fi sp =
     (case content of
        Inl e \<Rightarrow> (fi\<lparr>fi_Error := Some e\<rparr>, sp)
      | Inr c \<Rightarrow> (fi\<lparr>fi_CID := ae_str env c, fi_Processed := True\<rparr>, sp\<lparr>sp_dag := gm_set c StoredFile (sp_dag sp)\<rparr>))"

definition addProcessedFile :: "file_info \<Rightarrow> stream_proc \<Rightarrow> stream_proc" where
  "addProcessedFile fi sp = sp\<lparr>sp_processedFiles := sp_processedFiles sp @ [fi]\<rparr>"

text \<open>The visitor of the walk, over the files found and the processor.\<close>

definition collect_visit ::
    "archive_env \<Rightarrow> cid walk_call \<Rightarrow> file_info list \<times> stream_proc \<Rightarrow> gerr option \<times> (file_info list \<times> stream_proc)" where
  "collect_visit env v s =
     (let p = wv_path v; (files, sp) = s in
      case ae_ctx env p of
        Some e \<Rightarrow> (Some e, s)
      | None \<Rightarrow>
     (case wv_err v of
        Some e \<Rightarrow>
          if p = ROOT \<and> ae_path_error env e then (None, s)
          else (Some (Wrapped ''error accessing path'' e), s)
      | None \<Rightarrow>
          if \<not> IsValidPath p then (Some (Opaque ''invalid path detected''), s)
          else if p = ROOT then (None, (files, track_dir p '''' ROOT sp))
          else
            (case wv_kind v of
               IsDirectory info \<Rightarrow>
                 (case info of
                    Inl e \<Rightarrow> (Some (Wrapped ''failed to get info'' e), s)
                  | Inr _ \<Rightarrow> (None, (files, track_dir p (GetParentPath p) (wv_name v) sp)))
             | IsFile info content \<Rightarrow>
                 (case info of
                    Inl e \<Rightarrow> (Some (Wrapped ''failed to get info'' e), s)
                  | Inr n \<Rightarrow>
                      let (fi, sp1) = archive_processFile env content
                            \<lparr>fi_Path = p, fi_Size = n, fi_CID = '''', fi_Processed = False, fi_Error = None,
                             fi_ParentPath = GetParentPath p, fi_Name = wv_name v\<rparr> sp
                      in (None, (files @ [fi], addProcessedFile fi sp1))))))"

definition collectFileMetadata ::
    "archive_env \<Rightarrow> gerr + cid fs_node \<Rightarrow> stream_proc \<Rightarrow> (gerr + file_info list) \<times> stream_proc" where
  "collectFileMetadata env efs sp =
     (case WalkDir (collect_visit env) (WalkDir_calls efs) ([], sp) of
        (Some e, (_, sp')) \<Rightarrow> (Inl (Wrapped ''filesystem walk failed'' e), sp')
      | (None, (files, sp')) \<Rightarrow> (Inr files, sp'))"

section \<open>The directory tree\<close>

text \<open>Every directory gets an empty object.\<close>

fun create_dirs :: "archive_env \<Rightarrow> string list \<Rightarrow> (string, dir_meta) gomap \<Rightarrow> gerr + (string, dir_meta) gomap" where
  "create_dirs env [] ds = Inr ds"
| "create_dirs env (p # ps) ds =
     (case ae_mkdir env p of
        Some e \<Rightarrow> Inl (Wrapped ''failed to create directory'' e)
      | None \<Rightarrow>
          create_dirs env ps
            (case gm_get ds p of None \<Rightarrow> ds | Some m \<Rightarrow> gm_set p (m\<lparr>dm_DirObj := Some []\<rparr>) ds))"

definition dir_obj :: "(string, dir_meta) gomap \<Rightarrow> string \<Rightarrow> dir_entries option" where
  "dir_obj ds p = (case gm_get ds p of None \<Rightarrow> None | Some m \<Rightarrow> dm_DirObj m)"

text \<open>\<open>AddChild\<close> on the object of a directory.\<close>

definition add_child ::
    "archive_env \<Rightarrow> string \<Rightarrow> string \<Rightarrow> cid \<Rightarrow> (string, dir_meta) gomap \<Rightarrow> gerr + (string, dir_meta) gomap" where
  "add_child env p name c ds =
     (case ae_add_child env p name of
        Some e \<Rightarrow> Inl e
      | None \<Rightarrow>
          (case gm_get ds p of
             None \<Rightarrow> Inr ds
           | Some m \<Rightarrow> Inr (gm_set p (m\<lparr>dm_DirObj := map_option (gm_set name c) (dm_DirObj m)\<rparr>) ds)))"

text \<open>The node of a directory as it is now becomes an entry of its parent.\<close>

definition link_to_parent ::
    "archive_env \<Rightarrow> dir_meta \<Rightarrow> string \<Rightarrow> (string, dir_meta) gomap \<Rightarrow> gerr + (string, dir_meta) gomap" where
  "link_to_parent env m p ds =
     (case dir_obj ds (dm_ParentPath m) of
        None \<Rightarrow> Inl (Opaque ''parent directory object not available'')
      | Some _ \<Rightarrow>
          (case ae_node env p of
             Some e \<Rightarrow> Inl (Wrapped ''failed to get node for directory'' e)
           | None \<Rightarrow>
               (case dir_obj ds p of
                  None \<Rightarrow> Inl (Opaque ''no directory object'')
                | Some es \<Rightarrow>
                    (case add_child env (dm_ParentPath m) (dm_Name m) (ae_dir_cid env es) ds of
                       Inl e \<Rightarrow> Inl (Wrapped ''failed to add directory to parent'' e)
                     | Inr ds' \<Rightarrow> Inr ds'))))"

fun add_files ::
    "archive_env \<Rightarrow> string \<Rightarrow> file_info list \<Rightarrow> (string, dir_meta) gomap \<Rightarrow> gerr + (string, dir_meta) gomap" where
  "add_files env p [] ds = Inr ds"
| "add_files env p (f # fs) ds =
     (if fi_ParentPath f = p \<and> fi_Processed f \<and> fi_Error f = None
      then
        (case ae_decode env (fi_CID f) of
           Inl e \<Rightarrow> Inl (Wrapped ''failed to decode file CID'' e)
         | Inr c \<Rightarrow>
             (case ae_get env c of
                Some e \<Rightarrow> Inl (Wrapped ''failed to get file node'' e)
              | None \<Rightarrow>
                  (case add_child env p (fi_Name f) c ds of
                     Inl e \<Rightarrow> Inl (Wrapped ''failed to add file to directory'' e)
                   | Inr ds' \<Rightarrow> add_files env p fs ds')))
      else add_files env p fs ds)"

fun build_dirs ::
    "archive_env \<Rightarrow> file_info list \<Rightarrow> string list \<Rightarrow> (string, dir_meta) gomap \<Rightarrow> gerr + (string, dir_meta) gomap" where
  "build_dirs env fs [] ds = Inr ds"
| "build_dirs env fs (p # ps) ds =
     (case gm_get ds p of
        None \<Rightarrow> build_dirs env fs ps ds
      | Some m \<Rightarrow>
          (case (if p = ROOT then Inr ds else link_to_parent env m p ds) of
             Inl e \<Rightarrow> Inl e
           | Inr ds1 \<Rightarrow>
               (case add_files env p fs ds1 of
                  Inl e \<Rightarrow> Inl e
                | Inr ds2 \<Rightarrow> build_dirs env fs ps ds2)))"

definition buildDirectoryTree :: "archive_env \<Rightarrow> stream_proc \<Rightarrow> gerr option \<times> stream_proc" where
  "buildDirectoryTree env sp =
     (case sp_directoryMetadata sp of
        None \<Rightarrow> (None, sp)
      | Some ds \<Rightarrow>
          let ps = SortDirectoriesByDepth (gm_keys ds)
          in case create_dirs env ps ds of
               Inl e \<Rightarrow> (Some e, sp)
             | Inr ds1 \<Rightarrow>
                 (case build_dirs env (sp_processedFiles sp) ps ds1 of
                    Inl e \<Rightarrow> (Some e, sp)
                  | Inr ds2 \<Rightarrow> (None, sp\<lparr>sp_directoryMetadata := Some ds2\<rparr>)))"

text \<open>Storing the tree; a directory without an object is a nil pointer.\<close>

fun persist_dirs ::
    "archive_env \<Rightarrow> string list \<Rightarrow> (string, dir_meta) gomap \<Rightarrow> stream_proc \<Rightarrow>
     (string, dir_meta) gomap call \<times> stream_proc" where
  "persist_dirs env [] ds sp = (Returned (Inr ds), sp)"
| "persist_dirs env (p # ps) ds sp =
     (case gm_get ds p of
        None \<Rightarrow> (Panicked, sp)
      | Some m \<Rightarrow>
     (case dm_DirObj m of
        None \<Rightarrow> (Panicked, sp)
      | Some es \<Rightarrow>
     (case ae_node2 env p of
        Some e \<Rightarrow> (Returned (Inl (Wrapped ''failed to get directory node'' e)), sp)
      | None \<Rightarrow>
     (case ae_add env p of
        Some e \<Rightarrow> (Returned (Inl (Wrapped ''failed to store directory'' e)), sp)
      | None \<Rightarrow>
          let c = ae_dir_cid env es;
              sp1 = sp\<lparr>sp_dag := gm_set c (StoredDir es) (sp_dag sp)\<rparr>;
              sp2 = (if p = ROOT then sp1\<lparr>sp_rootCID := ae_str env c\<rparr> else sp1)
          in persist_dirs env ps (gm_set p (m\<lparr>dm_CID := ae_str env c\<rparr>) ds) sp2))))"

definition persistDirectoryTree :: "archive_env \<Rightarrow> stream_proc \<Rightarrow> unit call \<times> stream_proc" where
  "persistDirectoryTree env sp =
     (case sp_directoryMetadata sp of
        None \<Rightarrow> (Returned (Inr ()), sp)
      | Some ds \<Rightarrow>
          (case persist_dirs env (SortDirectoriesByDepth (gm_keys ds)) ds sp of
             (Panicked, sp') \<Rightarrow> (Panicked, sp')
           | (Returned (Inl e), sp') \<Rightarrow> (Returned (Inl e), sp')
           | (Returned (Inr ds'), sp') \<Rightarrow> (Returned (Inr ()), sp'\<lparr>sp_directoryMetadata := Some ds'\<rparr>)))"

definition ProcessArchive :: "archive_env \<Rightarrow> gerr + (gerr + cid fs_node) \<Rightarrow> stream_proc \<Rightarrow> unit call \<times> stream_proc" where
  "ProcessArchive env extractor sp0 =
     (case ae_start env of
        Some e \<Rightarrow> (Returned (Inl e), sp0)
      | None \<Rightarrow>
     (let sp = sp0\<lparr>sp_processedFiles := [], sp_directoryMetadata := Some [], sp_rootCID := ''''\<rparr> in
      case extractor of
        Inl e \<Rightarrow> (Returned (Inl (Wrapped ''failed to get filesystem'' e)), sp)
      | Inr efs \<Rightarrow>
     (case collectFileMetadata env efs sp of
        (Inl e, sp) \<Rightarrow> (Returned (Inl (Wrapped ''failed to collect metadata'' e)), sp)
      | (Inr files, sp) \<Rightarrow>
          let dirCount = (case sp_directoryMetadata sp of None \<Rightarrow> 0 | Some ds \<Rightarrow> length ds)
          in if files = [] \<and> dirCount \<le> 1 then (Returned (Inl (Opaque ''no entries found in archive'')), sp)
             else
     (case buildDirectoryTree env sp of
        (Some e, sp) \<Rightarrow> (Returned (Inl (Wrapped ''failed to build directory tree in memory'' e)), sp)
      | (None, sp) \<Rightarrow>
     (case persistDirectoryTree env sp of
        (Returned (Inl e), sp) \<Rightarrow> (Returned (Inl (Wrapped ''failed to store directory tree to blockstore'' e)), sp)
      | r \<Rightarrow> r)))))"

definition GetRootNode :: "archive_env \<Rightarrow> stream_proc \<Rightarrow> gerr + cid \<times> stored_node option" where
  "GetRootNode env sp =
     (if sp_rootCID sp = [] then Inl (Opaque ''root node not available'')
      else
        (case ae_decode env (sp_rootCID sp) of
           Inl e \<Rightarrow> Inl (Wrapped ''failed to decode root CID'' e)
         | Inr c \<Rightarrow> (case ae_get env c of Some e \<Rightarrow> Inl e | None \<Rightarrow> Inr (c, gm_get (sp_dag sp) c))))"

definition GetProcessedFiles :: "stream_proc \<Rightarrow> file_info list" where
  "GetProcessedFiles sp = sp_processedFiles sp"

definition processor_Close :: "stream_proc \<Rightarrow> stream_proc" where
  "processor_Close sp = sp\<lparr>sp_processedFiles := [], sp_directoryMetadata := None, sp_rootCID := ''''\<rparr>"

section \<open>Walks\<close>

lemma WalkDir_inv:
  assumes "\<And>v s e s'. v \<in> set vs \<Longrightarrow> P s \<Longrightarrow> visitor v s = (e, s') \<Longrightarrow> P s'"
    and "P s" and "WalkDir visitor vs s = (e, s')"
  shows "P s'"
  using assms
proof (induction vs arbitrary: s)
  case (Cons v vs)
  obtain e1 s1 where v: "visitor v s = (e1, s1)" by fastforce
  have "P s1" using Cons.prems(1) [of v] Cons.prems(2) v by simp
  then show ?case using Cons.IH [of s1] Cons.prems v by (cases e1) auto
qed simp

text \<open>What a visit that succeeds adds: a directory to the map or a file to the list.\<close>

definition visit_dirs :: "cid walk_call \<Rightarrow> (string, dir_meta) gomap \<Rightarrow> (string, dir_meta) gomap" where
  "visit_dirs v ds =
     (let p = wv_path v; m = \<lambda>parent name. \<lparr>dm_Path = p, dm_ParentPath = parent, dm_Name = name, dm_CID = '''', dm_DirObj = None\<rparr> in
      if wv_err v \<noteq> None then ds
      else if p = ROOT then gm_set p (m '''' ROOT) ds
      else case wv_kind v of
          IsDirectory _ \<Rightarrow> gm_set p (m (GetParentPath p) (wv_name v)) ds
        | IsFile _ _ \<Rightarrow> ds)"

definition visit_files :: "archive_env \<Rightarrow> cid walk_call \<Rightarrow> file_info list" where
  "visit_files env v =
     (if wv_err v \<noteq> None \<or> wv_path v = ROOT then []
      else case wv_kind v of
          IsDirectory _ \<Rightarrow> []
        | IsFile info content \<Rightarrow>
            [\<lparr>fi_Path = wv_path v, fi_Size = projr info,
              fi_CID = (case content of Inl _ \<Rightarrow> '''' | Inr c \<Rightarrow> ae_str env c),
              fi_Processed = (\<not> isl content),
              fi_Error = (case content of Inl e \<Rightarrow> Some e | Inr _ \<Rightarrow> None),
              fi_ParentPath = GetParentPath (wv_path v), fi_Name = wv_name v\<rparr>])"

lemma visit_files_mem:
  assumes "f \<in> set (visit_files env v)"
  shows "wv_err v = None \<and> fi_Path f = wv_path v \<and> fi_ParentPath f = GetParentPath (fi_Path f) \<and>
    (fi_Processed f \<longleftrightarrow> fi_Error f = None)"
proof (cases "wv_kind v")
  case (IsFile info content)
  then show ?thesis using assms by (cases content) (auto simp: visit_files_def split: if_splits)
next
  case (IsDirectory info)
  then show ?thesis using assms by (simp add: visit_files_def split: if_splits)
qed

lemma collect_visit_ok:
  assumes "collect_visit env v (files, sp) = (None, (files', sp'))" and "sp_directoryMetadata sp = Some ds"
  shows "files' = files @ visit_files env v \<and> sp_directoryMetadata sp' = Some (visit_dirs v ds) \<and>
    sp_processedFiles sp' = sp_processedFiles sp @ visit_files env v \<and> sp_rootCID sp' = sp_rootCID sp \<and>
    (wv_err v = None \<longrightarrow> IsValidPath (wv_path v))"
  using assms
  by (auto simp: collect_visit_def visit_files_def visit_dirs_def track_dir_def addProcessedFile_def
      archive_processFile_def Let_def split: option.splits if_splits visit_kind.splits sum.splits prod.splits)

lemma collect_walk:
  "WalkDir (collect_visit env) vs (files, sp) = (None, (files', sp')) \<Longrightarrow> sp_directoryMetadata sp = Some ds \<Longrightarrow>
   files' = files @ concat (map (visit_files env) vs) \<and> sp_directoryMetadata sp' = Some (fold visit_dirs vs ds) \<and>
   sp_processedFiles sp' = sp_processedFiles sp @ concat (map (visit_files env) vs) \<and> sp_rootCID sp' = sp_rootCID sp \<and>
   (\<forall>v \<in> set vs. wv_err v = None \<longrightarrow> IsValidPath (wv_path v))"
proof (induction vs arbitrary: files sp ds)
  case (Cons v vs)
  obtain e f1 sp1 where v: "collect_visit env v (files, sp) = (e, (f1, sp1))" by (metis prod.exhaust)
  then have n: "e = None" using Cons.prems(1) by (cases e) auto
  note c = collect_visit_ok [OF v [unfolded n] Cons.prems(2)]
  have "WalkDir (collect_visit env) vs (f1, sp1) = (None, (files', sp'))" using Cons.prems(1) v n by simp
  from Cons.IH [OF this] c show ?case by auto
qed simp

lemma collect_ok:
  assumes "collectFileMetadata env efs sp = (Inr files, sp')" and "sp_directoryMetadata sp = Some []"
    and "sp_processedFiles sp = []"
  shows "files = concat (map (visit_files env) (WalkDir_calls efs)) \<and> sp_processedFiles sp' = files \<and>
    sp_directoryMetadata sp' = Some (fold visit_dirs (WalkDir_calls efs) []) \<and> sp_rootCID sp' = sp_rootCID sp \<and>
    (\<forall>v \<in> set (WalkDir_calls efs). wv_err v = None \<longrightarrow> IsValidPath (wv_path v))"
proof -
  have "WalkDir (collect_visit env) (WalkDir_calls efs) ([], sp) = (None, (files, sp'))"
    using assms(1) by (auto simp: collectFileMetadata_def split: prod.splits option.splits)
  from collect_walk [OF this assms(2)] assms(3) show ?thesis by simp
qed

lemma visit_dirs_wf: "gm_wf ds \<Longrightarrow> gm_wf (fold visit_dirs vs ds)"
proof (induction vs arbitrary: ds)
  case (Cons v vs)
  have "gm_wf (visit_dirs v ds)" using Cons.prems by (auto simp: visit_dirs_def Let_def split: visit_kind.split)
  then show ?case using Cons.IH by simp
qed simp

text \<open>An entry of the directories comes from a visit.\<close>

lemma visit_dirs_get:
  "gm_get (fold visit_dirs vs ds) p = Some m \<Longrightarrow> gm_get ds p = Some m \<or>
   (\<exists>v \<in> set vs. wv_err v = None \<and> wv_path v = p \<and> dm_Path m = p \<and> dm_DirObj m = None \<and>
      (p \<noteq> ROOT \<longrightarrow> dm_ParentPath m = GetParentPath p \<and> dm_Name m = wv_name v))"
proof (induction vs arbitrary: ds)
  case (Cons v vs)
  then consider "gm_get (visit_dirs v ds) p = Some m" | "\<exists>v \<in> set vs. wv_err v = None \<and> wv_path v = p \<and>
      dm_Path m = p \<and> dm_DirObj m = None \<and> (p \<noteq> ROOT \<longrightarrow> dm_ParentPath m = GetParentPath p \<and> dm_Name m = wv_name v)"
    by fastforce
  then show ?case
  proof cases
    case 1
    then show ?thesis
      by (auto simp: visit_dirs_def Let_def gm_simps split: if_splits visit_kind.splits)
  qed auto
qed simp

section \<open>The tree\<close>

lemma add_child_D:
  assumes "add_child env p name c ds = Inr ds'"
  shows "gm_get ds' q = (if q = p
    then map_option (\<lambda>m. m\<lparr>dm_DirObj := map_option (gm_set name c) (dm_DirObj m)\<rparr>) (gm_get ds p) else gm_get ds q)"
  using assms by (auto simp: add_child_def gm_simps split: option.splits)

text \<open>The entries a directory gets for its files.\<close>

definition in_dir :: "string \<Rightarrow> file_info \<Rightarrow> bool" where
  "in_dir p f \<longleftrightarrow> fi_ParentPath f = p \<and> fi_Processed f \<and> fi_Error f = None"

definition file_links :: "archive_env \<Rightarrow> string \<Rightarrow> file_info list \<Rightarrow> dir_entries \<Rightarrow> dir_entries" where
  "file_links env p fs es =
     fold (\<lambda>f. gm_set (fi_Name f) (projr (ae_decode env (fi_CID f)))) (filter (in_dir p) fs) es"

lemma add_files_D:
  "add_files env p fs ds = Inr ds' \<Longrightarrow> gm_get ds' q = (if q = p
    then map_option (\<lambda>m. m\<lparr>dm_DirObj := map_option (file_links env p fs) (dm_DirObj m)\<rparr>) (gm_get ds p) else gm_get ds q)"
proof (induction fs arbitrary: ds)
  case Nil
  have "file_links env p [] = id" by (simp add: file_links_def fun_eq_iff)
  then show ?case using Nil by (simp add: option.map_id0 option.map_ident)
next
  case (Cons f fs)
  show ?case
  proof (cases "in_dir p f")
    case False
    then have "file_links env p (f # fs) = file_links env p fs" by (simp add: file_links_def fun_eq_iff)
    moreover have "add_files env p fs ds = Inr ds'"
      using Cons.prems False unfolding in_dir_def by (simp split: if_splits)
    ultimately show ?thesis using Cons.IH by simp
  next
    case True
    then obtain c ds1 where c: "ae_decode env (fi_CID f) = Inr c" "add_child env p (fi_Name f) c ds = Inr ds1"
      "add_files env p fs ds1 = Inr ds'"
      using Cons.prems by (auto simp: in_dir_def split: sum.splits option.splits)
    have "file_links env p (f # fs) = file_links env p fs \<circ> gm_set (fi_Name f) c"
      using True c(1) by (simp add: file_links_def fun_eq_iff)
    then show ?thesis using Cons.IH [OF c(3)] add_child_D [OF c(2)]
      by (auto simp: option.map_comp comp_def)
  qed
qed

lemma file_links_cong:
  assumes "filter (\<lambda>f. fi_ParentPath f = p) fs = filter (\<lambda>f. fi_ParentPath f = p) gs"
  shows "file_links env p fs = file_links env p gs"
proof -
  have "filter (in_dir p) xs = filter (\<lambda>f. fi_Processed f \<and> fi_Error f = None) (filter (\<lambda>f. fi_ParentPath f = p) xs)" for xs
    by (auto simp: in_dir_def intro: filter_cong)
  from this [of fs] this [of gs] have "filter (in_dir p) fs = filter (in_dir p) gs" by (simp only: assms)
  then show ?thesis by (simp add: file_links_def fun_eq_iff)
qed

lemma link_to_parent_D:
  assumes "link_to_parent env m p ds = Inr ds'"
  obtains es where "dir_obj ds p = Some es" and
    "\<And>q. gm_get ds' q = (if q = dm_ParentPath m
      then map_option (\<lambda>k. k\<lparr>dm_DirObj := map_option (gm_set (dm_Name m) (ae_dir_cid env es)) (dm_DirObj k)\<rparr>)
        (gm_get ds (dm_ParentPath m)) else gm_get ds q)"
proof -
  obtain es where es: "dir_obj ds p = Some es"
    "add_child env (dm_ParentPath m) (dm_Name m) (ae_dir_cid env es) ds = Inr ds'"
    using assms by (auto simp: link_to_parent_def split: option.splits sum.splits)
  show thesis by (rule that [OF es(1)]) (rule add_child_D [OF es(2)])
qed

section \<open>Two archives that differ below the top\<close>

text \<open>Equal at the root and wherever no files have been added yet, of the same shape elsewhere.\<close>

definition agree :: "string set \<Rightarrow> (string, dir_meta) gomap \<Rightarrow> (string, dir_meta) gomap \<Rightarrow> bool" where
  "agree D ds es \<longleftrightarrow>
     (\<forall>p. p = ROOT \<or> p \<notin> D \<longrightarrow> gm_get ds p = gm_get es p) \<and>
     (\<forall>p. map_option dm_ParentPath (gm_get ds p) = map_option dm_ParentPath (gm_get es p) \<and>
          map_option dm_Name (gm_get ds p) = map_option dm_Name (gm_get es p))"

lemma agree_update:
  assumes "agree D ds es"
    and "\<And>q. gm_get ds' q = (if q = p then map_option (\<lambda>m. m\<lparr>dm_DirObj := map_option g (dm_DirObj m)\<rparr>) (gm_get ds p) else gm_get ds q)"
    and "\<And>q. gm_get es' q = (if q = p then map_option (\<lambda>m. m\<lparr>dm_DirObj := map_option h (dm_DirObj m)\<rparr>) (gm_get es p) else gm_get es q)"
    and "p = ROOT \<or> p \<notin> D' \<Longrightarrow> g = h" and "D \<subseteq> D'"
  shows "agree D' ds' es'"
  using assms by (auto simp: agree_def option.map_comp comp_def)

lemma build_dirs_agree:
  "build_dirs env fs ps ds = Inr ds' \<Longrightarrow> build_dirs env gs ps es = Inr es' \<Longrightarrow> distinct ps \<Longrightarrow>
   D \<inter> set ps = {} \<Longrightarrow> agree D ds es \<Longrightarrow>
   filter (\<lambda>f. fi_ParentPath f = ROOT) fs = filter (\<lambda>f. fi_ParentPath f = ROOT) gs \<Longrightarrow>
   agree (D \<union> set ps) ds' es'"
proof (induction ps arbitrary: D ds es)
  case Nil then show ?case by simp
next
  case (Cons p ps)
  have same: "gm_get ds p = gm_get es p" using Cons.prems(4,5) by (auto simp: agree_def)
  show ?case
  proof (cases "gm_get ds p")
    case None
    have "agree (D \<union> {p}) ds es" using Cons.prems(5) by (auto simp: agree_def)
    then have "agree ((D \<union> {p}) \<union> set ps) ds' es'"
      using None same Cons.prems by (intro Cons.IH) auto
    then show ?thesis by simp
  next
    case (Some m)
    obtain ds1 ds2 where d: "(if p = ROOT then Inr ds else link_to_parent env m p ds) = Inr ds1"
      "add_files env p fs ds1 = Inr ds2" "build_dirs env fs ps ds2 = Inr ds'"
      using Cons.prems(1) Some by (auto split: sum.splits if_splits)
    obtain es1 es2 where e: "(if p = ROOT then Inr es else link_to_parent env m p es) = Inr es1"
      "add_files env p gs es1 = Inr es2" "build_dirs env gs ps es2 = Inr es'"
      using Cons.prems(2) Some same by (auto split: sum.splits if_splits)
    have 1: "agree D ds1 es1"
    proof (cases "p = ROOT")
      case True then show ?thesis using d(1) e(1) Cons.prems(5) by simp
    next
      case False
      obtain k where k: "dir_obj ds p = Some k" and
        g: "\<And>q. gm_get ds1 q = (if q = dm_ParentPath m
          then map_option (\<lambda>x. x\<lparr>dm_DirObj := map_option (gm_set (dm_Name m) (ae_dir_cid env k)) (dm_DirObj x)\<rparr>)
            (gm_get ds (dm_ParentPath m)) else gm_get ds q)"
        using link_to_parent_D [of env m p ds ds1] d(1) False by auto
      obtain k' where k': "dir_obj es p = Some k'" and
        h: "\<And>q. gm_get es1 q = (if q = dm_ParentPath m
          then map_option (\<lambda>x. x\<lparr>dm_DirObj := map_option (gm_set (dm_Name m) (ae_dir_cid env k')) (dm_DirObj x)\<rparr>)
            (gm_get es (dm_ParentPath m)) else gm_get es q)"
        using link_to_parent_D [of env m p es es1] e(1) False by auto
      have "k = k'" using k k' same by (simp add: dir_obj_def)
      then show ?thesis by (intro agree_update [OF Cons.prems(5) g h]) simp_all
    qed
    have "agree (D \<union> {p}) ds2 es2"
    proof (rule agree_update [OF 1 add_files_D [OF d(2)] add_files_D [OF e(2)]])
      assume "p = ROOT \<or> p \<notin> D \<union> {p}"
      then show "file_links env p fs = file_links env p gs" using file_links_cong [OF Cons.prems(6)] by simp
    qed auto
    then have "agree ((D \<union> {p}) \<union> set ps) ds' es'"
      using Cons.prems(3,4,6) by (intro Cons.IH [OF d(3) e(3)]) auto
    then show ?thesis by simp
  qed
qed

lemma persist_root:
  "persist_dirs env ps ds sp = (Returned (Inr ds'), sp') \<Longrightarrow>
   sp_rootCID sp' = (if ROOT \<in> set ps then ae_str env (ae_dir_cid env (the (dir_obj ds ROOT))) else sp_rootCID sp)"
proof (induction ps arbitrary: ds sp)
  case (Cons p ps)
  obtain m es where m: "gm_get ds p = Some m" "dm_DirObj m = Some es"
    using Cons.prems by (auto split: option.splits)
  let ?c = "ae_dir_cid env es"
  let ?sp1 = "sp\<lparr>sp_dag := gm_set ?c (StoredDir es) (sp_dag sp)\<rparr>"
  let ?sp2 = "if p = ROOT then ?sp1\<lparr>sp_rootCID := ae_str env ?c\<rparr> else ?sp1"
  let ?ds = "gm_set p (m\<lparr>dm_CID := ae_str env ?c\<rparr>) ds"
  have "persist_dirs env ps ?ds ?sp2 = (Returned (Inr ds'), sp')"
    using Cons.prems m by (auto simp: Let_def split: option.splits)
  from Cons.IH [OF this] have ih: "sp_rootCID sp' = (if ROOT \<in> set ps then ae_str env (ae_dir_cid env (the (dir_obj ?ds ROOT)))
      else sp_rootCID ?sp2)" .
  have "dir_obj ?ds q = dir_obj ds q" for q using m by (simp add: dir_obj_def gm_simps)
  then show ?case using ih m by (auto simp: dir_obj_def)
qed simp

lemma SortDirectoriesByDepth_simps [simp]:
  "set (SortDirectoriesByDepth ps) = set ps" "distinct (SortDirectoriesByDepth ps) = distinct ps"
  by (simp_all add: SortDirectoriesByDepth_def)

text \<open>A directory comes before its parent.\<close>

lemma GetParentPath_depth: "GetParentPath p \<noteq> ROOT \<Longrightarrow>
    count_list (GetParentPath p) (CHR ''/'') < count_list p (CHR ''/'')"
proof -
  assume n: "GetParentPath p \<noteq> ROOT"
  let ?c = "CHR ''/''" let ?d = "dropWhile (\<lambda>c. c \<noteq> ?c) (rev p)"
  have in_p: "?c \<in> set p" and g: "GetParentPath p = rev (tl ?d)"
    using n by (auto simp: GetParentPath_def Let_def split: if_splits)
  have "?d \<noteq> []" using in_p by (auto simp: dropWhile_eq_Nil_conv)
  then have d: "?d = ?c # tl ?d" using hd_dropWhile [of "\<lambda>c. c \<noteq> ?c" "rev p"] by (metis list.collapse)
  have "count_list (rev p) ?c = count_list (takeWhile (\<lambda>c. c \<noteq> ?c) (rev p)) ?c + count_list ?d ?c"
    by (metis count_list_append takeWhile_dropWhile_id)
  moreover have "count_list ?d ?c = Suc (count_list (tl ?d) ?c)" by (subst d) simp
  ultimately show ?thesis by (simp add: g)
qed

lemma children_first:
  assumes "i < length ps" and "j < length ps" and "distinct ps"
    and "SortDirectoriesByDepth ps ! j = GetParentPath (SortDirectoriesByDepth ps ! i)"
    and "SortDirectoriesByDepth ps ! j \<noteq> ROOT"
  shows "i < j"
proof (rule ccontr)
  let ?qs = "SortDirectoriesByDepth ps" and ?k = "\<lambda>p. (- int (count_list p (CHR ''/'')), p)"
  assume "\<not> i < j"
  then have "j \<le> i" by simp
  moreover have "sorted (map ?k ?qs)" unfolding SortDirectoriesByDepth_def by simp
  moreover have len: "length ?qs = length ps" by (simp add: SortDirectoriesByDepth_def)
  ultimately have "?k (?qs ! j) \<le> ?k (?qs ! i)" using assms(1,2) sorted_nth_mono [of "map ?k ?qs" j i] by simp
  then have "count_list (?qs ! i) (CHR ''/'') \<le> count_list (?qs ! j) (CHR ''/'')"
    by (auto simp: less_eq_prod_def)
  moreover have "count_list (?qs ! j) (CHR ''/'') < count_list (?qs ! i) (CHR ''/'')"
    using GetParentPath_depth [of "?qs ! i"] assms(4,5) by simp
  ultimately show False by simp
qed

section \<open>No panic\<close>

definition objs_ok :: "(string, dir_meta) gomap \<Rightarrow> bool" where
  "objs_ok ds \<longleftrightarrow> (\<forall>p m. gm_get ds p = Some m \<longrightarrow> dm_DirObj m \<noteq> None)"

lemma create_dirs_D:
  "create_dirs env ps ds = Inr ds' \<Longrightarrow> gm_get ds' q =
    (if q \<in> set ps then map_option (\<lambda>m. m\<lparr>dm_DirObj := Some []\<rparr>) (gm_get ds q) else gm_get ds q)"
proof (induction ps arbitrary: ds)
  case (Cons p ps)
  then show ?case by (cases "gm_get ds q") (auto simp: gm_simps option.map_comp comp_def split: option.splits if_splits)
qed simp

lemma create_dirs_objs: "create_dirs env ps ds = Inr ds' \<Longrightarrow> set ps = set (gm_keys ds) \<Longrightarrow> objs_ok ds'"
  unfolding objs_ok_def
  by (auto simp: create_dirs_D split: if_splits dest: map_of_SomeD intro: rev_image_eqI)

lemma objs_update:
  assumes "objs_ok ds" and "\<And>q. gm_get ds' q = (if q = p
    then map_option (\<lambda>m. m\<lparr>dm_DirObj := map_option g (dm_DirObj m)\<rparr>) (gm_get ds p) else gm_get ds q)"
  shows "objs_ok ds'"
  using assms by (auto simp: objs_ok_def)

lemma build_dirs_objs: "build_dirs env fs ps ds = Inr ds' \<Longrightarrow> objs_ok ds \<Longrightarrow> objs_ok ds'"
proof (induction ps arbitrary: ds)
  case (Cons p ps)
  show ?case
  proof (cases "gm_get ds p")
    case None then show ?thesis using Cons by simp
  next
    case (Some m)
    obtain ds1 ds2 where d: "(if p = ROOT then Inr ds else link_to_parent env m p ds) = Inr ds1"
      "add_files env p fs ds1 = Inr ds2" "build_dirs env fs ps ds2 = Inr ds'"
      using Cons.prems(1) Some by (auto split: sum.splits if_splits)
    have "objs_ok ds1"
    proof (cases "p = ROOT")
      case False
      then have "link_to_parent env m p ds = Inr ds1" using d(1) by simp
      then show ?thesis by (rule link_to_parent_D) (rule objs_update [OF Cons.prems(2)])
    qed (use d(1) Cons.prems(2) in simp)
    then have "objs_ok ds2" by (rule objs_update [OF _ add_files_D [OF d(2)]])
    then show ?thesis by (rule Cons.IH [OF d(3)])
  qed
qed simp

lemma persist_files: "persist_dirs env ps ds sp = (r, sp') \<Longrightarrow> sp_processedFiles sp' = sp_processedFiles sp"
  by (induction ps arbitrary: ds sp) (auto simp: Let_def split: option.splits if_splits)

lemma persist_no_panic:
  "objs_ok ds \<Longrightarrow> set ps \<subseteq> set (gm_keys ds) \<Longrightarrow> fst (persist_dirs env ps ds sp) \<noteq> Panicked"
proof (induction ps arbitrary: ds sp)
  case (Cons p ps)
  have "p \<in> set (gm_keys ds)" using Cons.prems(2) by simp
  then obtain m where "gm_get ds p = Some m" unfolding gm_key_get by blast
  moreover from this obtain es where "dm_DirObj m = Some es" using Cons.prems(1) unfolding objs_ok_def by blast
  ultimately have m: "gm_get ds p = Some m" "dm_DirObj m = Some es" by simp_all
  let ?ds = "gm_set p (m\<lparr>dm_CID := ae_str env (ae_dir_cid env es)\<rparr>) ds"
  have "objs_ok ?ds" using Cons.prems(1) m by (auto simp: objs_ok_def gm_simps)
  moreover have "set ps \<subseteq> set (gm_keys ?ds)" using Cons.prems(2) by (simp only: gm_simps) auto
  ultimately show ?case using Cons.IH m by (simp add: Let_def split: option.split)
qed simp

section \<open>A run that succeeds\<close>

definition top_call :: "cid walk_call \<Rightarrow> bool" where
  "top_call v \<longleftrightarrow> GetParentPath (wv_path v) = ROOT \<or> (case wv_kind v of IsDirectory _ \<Rightarrow> True | IsFile _ _ \<Rightarrow> False)"

text \<open>The visits of directories and of the files at the top of an archive.\<close>

definition top_calls :: "gerr + cid fs_node \<Rightarrow> cid walk_call list" where
  "top_calls efs = filter top_call (WalkDir_calls efs)"

lemma GetParentPath_ROOT [simp]: "GetParentPath ROOT = ROOT"
  by (simp add: GetParentPath_def)

lemma visit_dirs_top: "fold visit_dirs (filter top_call vs) ds = fold visit_dirs vs ds"
proof (induction vs arbitrary: ds)
  case (Cons v vs)
  have "visit_dirs v ds = ds" if "\<not> top_call v"
    using that by (auto simp: top_call_def visit_dirs_def Let_def split: visit_kind.splits)
  then show ?case using Cons by simp
qed simp

lemma visit_files_top:
  "filter (\<lambda>f. fi_ParentPath f = ROOT) (concat (map (visit_files env) (filter top_call vs))) =
   filter (\<lambda>f. fi_ParentPath f = ROOT) (concat (map (visit_files env) vs))"
proof (induction vs)
  case (Cons v vs)
  have "filter (\<lambda>f. fi_ParentPath f = ROOT) (visit_files env v) = []" if "\<not> top_call v"
    using that by (auto simp: top_call_def visit_files_def split: visit_kind.splits)
  then show ?case using Cons by simp
qed simp

abbreviation dirs_of :: "gerr + cid fs_node \<Rightarrow> (string, dir_meta) gomap" where
  "dirs_of efs \<equiv> fold visit_dirs (WalkDir_calls efs) []"

abbreviation files_of :: "archive_env \<Rightarrow> gerr + cid fs_node \<Rightarrow> file_info list" where
  "files_of env efs \<equiv> concat (map (visit_files env) (WalkDir_calls efs))"

lemma ProcessArchive_cases:
  assumes "ProcessArchive env extractor sp0 = (r, s)"
  obtains (early) e where "r = Returned (Inl e)"
  | (built) efs ds1 ds2 sp where "extractor = Inr efs"
      "create_dirs env (SortDirectoriesByDepth (gm_keys (dirs_of efs))) (dirs_of efs) = Inr ds1"
      "build_dirs env (files_of env efs) (SortDirectoriesByDepth (gm_keys (dirs_of efs))) ds1 = Inr ds2"
      "sp_directoryMetadata sp = Some ds2" "sp_processedFiles sp = files_of env efs" "sp_rootCID sp = ''''"
      "\<forall>v \<in> set (WalkDir_calls efs). wv_err v = None \<longrightarrow> IsValidPath (wv_path v)"
      "persistDirectoryTree env sp = (r, s)"
proof (cases "\<exists>e. r = Returned (Inl e)")
  case True then show thesis using early by blast
next
  case no: False
  let ?sp = "sp0\<lparr>sp_processedFiles := [], sp_directoryMetadata := Some [], sp_rootCID := ''''\<rparr>"
  obtain efs where efs: "extractor = Inr efs"
    using assms no by (auto simp: ProcessArchive_def Let_def split: option.splits sum.splits)
  obtain files sp1 where c: "collectFileMetadata env efs ?sp = (Inr files, sp1)"
    using assms no efs by (auto simp: ProcessArchive_def Let_def split: option.splits sum.splits prod.splits)
  note col = collect_ok [OF c, simplified]
  obtain sp2 where b: "buildDirectoryTree env sp1 = (None, sp2)"
    using assms no efs c
    by (auto simp: ProcessArchive_def Let_def split: option.splits sum.splits prod.splits if_splits)
  have p: "persistDirectoryTree env sp2 = (r, s)"
    using assms no efs c b
    by (auto simp: ProcessArchive_def Let_def split: option.splits sum.splits prod.splits if_splits call.splits)
  obtain ds1 ds2 where ds: "create_dirs env (SortDirectoriesByDepth (gm_keys (dirs_of efs))) (dirs_of efs) = Inr ds1"
      "build_dirs env (files_of env efs) (SortDirectoriesByDepth (gm_keys (dirs_of efs))) ds1 = Inr ds2"
      "sp2 = sp1\<lparr>sp_directoryMetadata := Some ds2\<rparr>"
    using b col by (auto simp: buildDirectoryTree_def Let_def split: sum.splits)
  show thesis by (rule built [OF efs ds(1,2), of sp2]) (use p ds(3) col in auto)
qed


text \<open>C20. The root CID of an archive does not depend on what its subdirectories hold: two archives with the same
  directories and the same files at the top get the same root CID, whatever files lie below, since each
  directory's node is linked into its parent before the directory's own files are added to it.\<close>

theorem archive_nested_files_lost:
  assumes "ProcessArchive env (Inr efs) sp = (Returned (Inr ()), s)"
    and "ProcessArchive env (Inr efs') sp' = (Returned (Inr ()), s')"
    and "top_calls efs = top_calls efs'"
  shows "sp_rootCID s = sp_rootCID s'"
proof -
  have dirs: "dirs_of efs = dirs_of efs'"
    using visit_dirs_top [of "WalkDir_calls efs"] visit_dirs_top [of "WalkDir_calls efs'"] assms(3)
    by (simp add: top_calls_def)
  have files: "filter (\<lambda>f. fi_ParentPath f = ROOT) (files_of env efs) = filter (\<lambda>f. fi_ParentPath f = ROOT) (files_of env efs')"
    using visit_files_top [of env "WalkDir_calls efs"] visit_files_top [of env "WalkDir_calls efs'"] assms(3)
    by (simp add: top_calls_def)
  let ?ps = "SortDirectoriesByDepth (gm_keys (dirs_of efs))"
  obtain ds1 ds2 sp1 where a: "create_dirs env ?ps (dirs_of efs) = Inr ds1"
    "build_dirs env (files_of env efs) ?ps ds1 = Inr ds2" "sp_directoryMetadata sp1 = Some ds2" "sp_rootCID sp1 = ''''"
    "persistDirectoryTree env sp1 = (Returned (Inr ()), s)"
    by (rule ProcessArchive_cases [OF assms(1)]) auto
  obtain es2 sp2 where b: "build_dirs env (files_of env efs') ?ps ds1 = Inr es2" "sp_directoryMetadata sp2 = Some es2"
    "sp_rootCID sp2 = ''''" "persistDirectoryTree env sp2 = (Returned (Inr ()), s')"
    by (rule ProcessArchive_cases [OF assms(2)]) (use a(1) dirs in auto)
  have "agree ({} \<union> set ?ps) ds2 es2"
    by (rule build_dirs_agree [OF a(2) b(1) _ _ _ files]) (simp_all add: agree_def visit_dirs_wf)
  then have root: "gm_get ds2 ROOT = gm_get es2 ROOT" by (simp add: agree_def)
  then have "ROOT \<in> set (gm_keys ds2) \<longleftrightarrow> ROOT \<in> set (gm_keys es2)" unfolding gm_key_get by simp
  moreover have "dir_obj ds2 ROOT = dir_obj es2 ROOT" using root by (simp add: dir_obj_def)
  moreover have "sp_rootCID t = (if ROOT \<in> set (gm_keys ds) then ae_str env (ae_dir_cid env (the (dir_obj ds ROOT))) else '''')"
    if q: "persistDirectoryTree env q = (Returned (Inr ()), t)" "sp_directoryMetadata q = Some ds" "sp_rootCID q = ''''" for q t ds
  proof -
    obtain ds' sp' where "persist_dirs env (SortDirectoriesByDepth (gm_keys ds)) ds q = (Returned (Inr ds'), sp')"
      "t = sp'\<lparr>sp_directoryMetadata := Some ds'\<rparr>"
      using q(1,2) by (auto simp: persistDirectoryTree_def split: prod.splits call.splits sum.splits)
    with persist_root [OF this(1)] q(3) show ?thesis by simp
  qed
  from this [OF a(5,3,4)] this [OF b(4,2,3)] calculation show ?thesis by simp
qed

section \<open>An archive with one nested file\<close>

text \<open>CIDs are written as their hash; the CID of a directory spells out its entries.\<close>

definition ex_aenv :: archive_env where
  "ex_aenv = \<lparr>ae_start = None, ae_ctx = (\<lambda>_. None), ae_path_error = (\<lambda>_. True), ae_str = mhash,
     ae_decode = (\<lambda>x. Inr (Cid 1 112 x)),
     ae_dir_cid = (\<lambda>es. Cid 1 112 (''{'' @ concat (map (\<lambda>(n, c). n @ ''='' @ mhash c @ '';'') es) @ ''}'')),
     ae_mkdir = (\<lambda>_. None), ae_node = (\<lambda>_. None), ae_add_child = (\<lambda>_ _. None), ae_get = (\<lambda>_. None),
     ae_node2 = (\<lambda>_. None), ae_add = (\<lambda>_. None)\<rparr>"

definition ex_tree :: "(string \<times> cid fs_node) list \<Rightarrow> gerr + cid fs_node" where
  "ex_tree es = Inr (FsDir (Inr ()) None [(''a'', FsDir (Inr ()) None es), (''t'', FsFile (Inr 2) (Inr (Cid 1 112 ''T'')))])"

definition ex_file :: "(string \<times> cid fs_node) list" where
  "ex_file = [(''f'', FsFile (Inr 3) (Inr (Cid 1 112 ''F'')))]"

definition ex_run :: "(string \<times> cid fs_node) list \<Rightarrow> unit call \<times> stream_proc" where
  "ex_run es = ProcessArchive ex_aenv (Inr (ex_tree es)) NewStreamingProcessor"

lemma ex_run_file:
  "fst (ex_run ex_file) = Returned (Inr ()) \<and> sp_rootCID (snd (ex_run ex_file)) = ''{t=T;a={};}'' \<and>
   map fi_Path (GetProcessedFiles (snd (ex_run ex_file))) = [''a/f'', ''t'']"
  by code_simp

text \<open>The root links a directory node that was never stored, and nothing reaches the file's node.\<close>

lemma archive_dangling_link:
  "(case GetRootNode ex_aenv (snd (ex_run ex_file)) of
      Inr (c, Some (StoredDir es)) \<Rightarrow> map snd es = [Cid 1 112 ''T'', Cid 1 112 ''{}'']
    | _ \<Rightarrow> False) \<and>
   gm_get (sp_dag (snd (ex_run ex_file))) (Cid 1 112 ''{}'') = None \<and>
   gm_get (sp_dag (snd (ex_run ex_file))) (Cid 1 112 ''F'') = Some StoredFile"
  by code_simp

lemma ex_run_empty: "fst (ex_run []) = Returned (Inr ())"
  by code_simp

lemma ex_top: "top_calls (ex_tree ex_file) = top_calls (ex_tree [])"
  by code_simp

theorem archive_nested_files_lost_witness:
  "sp_rootCID (snd (ex_run ex_file)) = sp_rootCID (snd (ex_run []))"
proof (rule archive_nested_files_lost [of ex_aenv "ex_tree ex_file" NewStreamingProcessor _ "ex_tree []" NewStreamingProcessor])
  show "ProcessArchive ex_aenv (Inr (ex_tree ex_file)) NewStreamingProcessor = (Returned (Inr ()), snd (ex_run ex_file))"
    using ex_run_file by (simp add: ex_run_def prod_eq_iff)
  show "ProcessArchive ex_aenv (Inr (ex_tree [])) NewStreamingProcessor = (Returned (Inr ()), snd (ex_run []))"
    using ex_run_empty by (simp add: ex_run_def prod_eq_iff)
qed (rule ex_top)


end
