(* ===== verification/Spec2Isabelle.thy ===== *)
theory Spec2Isabelle
  imports Downloader BlockStore BlockQueue BlockProcessor Website_Props Pin_Props File_Path_Props Reprovider
    Upload_Ops Want_Filter Streaming_Archive
begin

text \<open>
  A verification library of the IPFS plugin of a storage portal, written in Go.  The plugin takes
  uploads and pin requests, splits content into blocks, stores the blocks through the portal's object
  storage, charges its users' quota, announces what is pinned to the IPFS network, answers other
  nodes, and hosts websites on that content with DNS zones, IPNS keys and Handshake names.

  \<^bold>\<open>How the parts work together.\<close>  An upload is read by a block processor, which writes its blocks into
  a streaming blockstore; the block queue takes them from there and stores them through the
  blockstore, whose batcher collects metadata for the metadata store, and the done tracker wakes
  whoever waits for a block.  The upload operations then reserve quota for each block, leave records
  and events, pin the root and hand over to the operation that lays out file paths.  A pin request
  runs the retrieve operation instead, which walks the remote DAG, reserves quota and fetches it
  through the downloader's queue.  The reprovider announces the blocks of the metadata store; the
  want-block filter and the request tracker stand between bitswap and the blockstore.  The website
  service drives the DNS service, the IPNS keys and the Handshake names, and its janitor checks what
  it has published.

  \<^bold>\<open>Foundations.\<close>  \<open>IPFS_Prelude\<close> has the types that stand for Go's byte slices, words, errors and maps
  and the simplification sets of their laws; \<open>Go_Strings\<close> the functions of \<open>strings\<close> and \<open>strconv\<close>;
  \<open>Heap_Order\<close> Go's \<open>container/heap\<close> in a locale of strict weak orders; \<open>Cid_Context\<close> CIDs, storage
  hashes and request contexts (\<^verbatim>\<open>internal/hash.go\<close>, \<^verbatim>\<open>internal/protocol/encoding\<close>,
  \<^verbatim>\<open>internal/protocol/context\<close>).

  \<^bold>\<open>Blocks\<close> (\<^verbatim>\<open>internal/protocol\<close>).  \<open>DoneTracker\<close>: the table of finished CIDs and their waiters, with any number
  of goroutines; no channel is closed twice and exactly the waiters of a CID wake.
  \<open>StreamingBlockstore\<close>: each block is handed over once.  \<open>BlockQueue\<close>: workers, retries and flush as a
  step relation; success means every block is stored, and runs end.  \<open>BlockProcessor\<close>: processors
  of files, archives and CARs do not panic.  \<open>Streaming_Archive\<close> (\<^verbatim>\<open>internal/upload\<close>): the tree
  made of an archive; paths stay inside it, and the root CID does not depend on files below the top.

  \<^bold>\<open>Store\<close> (\<^verbatim>\<open>internal/protocol/store\<close>).  \<open>MetadataStore\<close>: the three tables of blocks, links and UnixFS facts, their
  invariant and what pinning and unpinning change.  \<open>Batcher\<close>: a batch refines one write per block, over a
  locale interpreted on the metadata store.  \<open>BlockStore\<close>: put, get and delete over metadata, object
  storage, downloader and quota.  \<open>Downloader\<close>: the priority queue of downloads, one per block, most urgent
  first, every block checked against its CID.

  \<^bold>\<open>Network\<close> (\<^verbatim>\<open>internal/protocol/ipfs\<close>).  \<open>PeerTracker\<close>: who asked for which block.  \<open>Want_Filter\<close>: in every
  interleaving a peer gets no more than its burst and rate.  \<open>Reprovider\<close>: only what was provided is
  marked, and no block starves, over a locale interpreted on the metadata store.

  \<^bold>\<open>Operations\<close> (\<^verbatim>\<open>internal/protocol/op_*.go\<close>).  \<open>Quota\<close>: reservations are given back on every error.
  \<open>Dag_Walk\<close>: a walk collects exactly the \<open>ProtoNode\<close>s of a DAG.  \<open>Upload_Service\<close>: records and events of
  an upload.  \<open>Retrieve_Op\<close> and \<open>Upload_Ops\<close>: retrieve, post upload, TUS upload, store and confirm; which errors give back
  their quota and which leak it.  \<open>File_Path_Op\<close> and \<open>File_Path_Props\<close>: the layout of a user's files.

  \<^bold>\<open>Services\<close> (\<^verbatim>\<open>internal/service\<close>).  \<open>Pin_Row\<close>, \<open>Pin_Service\<close>, \<open>Pin_Props\<close>: pin requests.  \<open>File_Manager\<close>, \<open>File_Paths\<close>: file paths.
  \<open>PowerDNS\<close>, \<open>DNS_Zone\<close>, \<open>DNS_Record\<close>, \<open>DNS_Website\<close>: zones, their records and zone files.  \<open>Ipns_Key\<close>: keys, keystores (a
  locale and its sublocale) and the republisher.  \<open>HNS_Domain\<close>, \<open>Website_Row\<close>, \<open>Website\<close>, \<open>Website_Update\<close>,
  \<open>Website_Check\<close>, \<open>Website_Safety\<close>, \<open>Website_Props\<close>: Handshake names, websites and the janitor.

  \<^bold>\<open>How the code is read.\<close>  A struct or table row is a record, a table the list of its rows, a map an association
  list with distinct keys.  A method is a function from the state to its result and the new state; errors are the left side of
  a sum or an option, a panic the value \<open>Panicked\<close>.  A database operation takes the error the database meets
  in it; a transaction that fails leaves the tables as they were.  Concurrent code is a step relation
  whose steps are its critical sections.  Code outside the repository (the portal core, libp2p,
  boxo, gorm, PowerDNS, the crypto and time libraries) is a parameter, and where a theorem relies on its
  behaviour this is a named hypothesis that a witness instantiates.

  \<^bold>\<open>Bounds and fuel.\<close>  Sizes and quota are 64-bit words and wrap; codecs and types keep the columns' widths.
  The recursions over a DAG in \<open>File_Path_Op\<close> take as fuel the number of block rows and two more; \<open>file_path_op_ends\<close>
  shows that this is always enough, even on cyclic links.  All other recursions are structural or have a
  termination proof; the block queue, the downloader, the filter and the reprovider run for ever by design and are
  step relations.

  \<^bold>\<open>Not modelled.\<close>  The HTTP handlers and their request and response types, the construction of the libp2p node, metrics,
  configuration, start-up code and interfaces keep no state the theorems could speak of, or only pass values between
  library calls; mocks and test helpers are not part of the program.  Of the upload code, the CAR generator and the readers that wrap an upload are left out, since what they
  do is decided by the UnixFS, CAR and archive libraries they call.  Metrics, logging and tracing are left out
  everywhere.
\<close>

end
